(* ===== verification/Prelude.thy ===== *)
theory Prelude
  imports Complex_Main "HOL-Library.Word" "HOL-Library.Code_Target_Nat"
begin

unbundle bit_operations_syntax

text \<open>
  Shared ground of the development: the machine types of the code, the collections the
  component proofs are carried by, and the generic facts on lists, sums and words that more
  than one component uses.

  \<^item> \<open>u8\<close>, \<open>u16\<close>, \<open>u32\<close>, \<open>u64\<close> are the fixed-width C++ integers; their arithmetic wraps.
  \<^item> \<open>bytes\<close> is a \<^verbatim>\<open>std::vector<uint8_t>\<close>, or the memory a \<^verbatim>\<open>const uint8_t*\<close> and a
    length describe. A pointer the code compares with \<^verbatim>\<open>nullptr\<close> is a \<open>bytes option\<close>.
  \<^item> \<^verbatim>\<open>size_t\<close> counts are \<open>nat\<close>: they are lengths of vectors that exist in memory.
  \<^item> An operation that returns \<^verbatim>\<open>bool\<close> and fills \<^verbatim>\<open>std::string* error\<close> returns
    \<open>error + result\<close>, one constructor of the error type per message of the code, with the
    numbers the message prints.
\<close>

type_synonym u8 = "8 word"
type_synonym u16 = "16 word"
type_synonym u32 = "32 word"
type_synonym u64 = "64 word"
type_synonym bytes = "u8 list"

named_theorems wire_simps \<open>unfolding rules of the wire format\<close>
named_theorems ring_simps \<open>frame counters and ring slots\<close>
named_theorems inv_intros \<open>invariant preservation, one rule per operation\<close>

subsection \<open>Sums as results\<close>

abbreviation is_ok :: "'e + 'a \<Rightarrow> bool" where
  "is_ok r \<equiv> (\<exists>x. r = Inr x)"

abbreviation refused :: "'e + 'a \<Rightarrow> bool" where
  "refused r \<equiv> (\<exists>e. r = Inl e)"

lemma not_refused_iff: "\<not> refused r \<longleftrightarrow> is_ok r"
  by (cases r) auto

text \<open>Going on with the value of a step, or passing its refusal up.\<close>

definition sum_bind :: "'e + 'a \<Rightarrow> ('a \<Rightarrow> 'e + 'b) \<Rightarrow> 'e + 'b" where
  "sum_bind r f = (case r of Inl e \<Rightarrow> Inl e | Inr x \<Rightarrow> f x)"

lemma sum_bind_simps [simp]:
  "sum_bind (Inl e) f = Inl e" "sum_bind (Inr x) f = f x"
  by (simp_all add: sum_bind_def)

lemma sum_bind_eq_Inr: "sum_bind r f = Inr y \<longleftrightarrow> (\<exists>x. r = Inr x \<and> f x = Inr y)"
  by (cases r) auto

text \<open>The first refusal of several checks made one after the other.\<close>

definition or_else :: "'e option \<Rightarrow> 'e option \<Rightarrow> 'e option" where
  "or_else a b = (case a of Some e \<Rightarrow> Some e | None \<Rightarrow> b)"

lemma or_else_simps [simp]: "or_else None b = b" "or_else (Some e) b = Some e"
  by (simp_all add: or_else_def)

lemma or_else_None: "or_else a b = None \<longleftrightarrow> a = None \<and> b = None"
  by (cases a) auto

subsection \<open>Lists\<close>

lemma take_drop_nth4:
  "k + 4 \<le> length xs \<Longrightarrow>
     take 4 (drop k xs) = [xs ! k, xs ! (k + 1), xs ! (k + 2), xs ! (k + 3)]"
  by (rule nth_equalityI) (auto simp: less_Suc_eq numeral_eq_Suc nth_Cons')

lemma take_drop_nth2:
  "k + 2 \<le> length xs \<Longrightarrow> take 2 (drop k xs) = [xs ! k, xs ! (k + 1)]"
  by (rule nth_equalityI) (auto simp: less_Suc_eq numeral_eq_Suc nth_Cons')

lemma take_append_drop_take:
  "i \<le> j \<Longrightarrow> take i xs @ take (j - i) (drop i xs) = take j xs"
  by (metis le_add_diff_inverse take_add)

lemma nth_append_offset:
  "length pre = k \<Longrightarrow> (pre @ ys) ! (k + i) = ys ! i"
  by (simp add: nth_append)

lemma list_update_neq: "i < length xs \<Longrightarrow> x \<noteq> xs ! i \<Longrightarrow> xs[i := x] \<noteq> xs"
  by (metis nth_list_update_eq)

subsection \<open>Words\<close>

lemma xor_cancel_right: "a XOR b = a' XOR b \<longleftrightarrow> a = a'" for a :: "'a::len word"
  by (auto simp: bit_eq_iff bit_xor_iff)

lemma xor_cancel_left: "b XOR a = b XOR a' \<longleftrightarrow> a = a'" for a :: "'a::len word"
  by (auto simp: bit_eq_iff bit_xor_iff)

lemma bit_u8_lt: "bit (b :: u8) n \<Longrightarrow> n < 8"
  using bit_imp_le_length [of b n] by simp

lemma bit_u32_lt: "bit (b :: u32) n \<Longrightarrow> n < 32"
  using bit_imp_le_length [of b n] by simp

lemma ucast_u8_inj: "(ucast a :: u32) = ucast b \<longleftrightarrow> a = b" for a b :: u8
proof
  assume eq: "(ucast a :: u32) = ucast b"
  show "a = b"
  proof (rule bit_word_eqI)
    fix n assume "n < LENGTH(8)"
    moreover have "bit (ucast a :: u32) n = bit (ucast b :: u32) n" using eq by simp
    ultimately show "bit a n = bit b n" by (simp add: bit_ucast_iff)
  qed
qed simp

lemma ucast_low_byte: "(ucast (x AND 0xFF) :: u8) = ucast (x :: 'a::len word)"
proof -
  have "bit (0xFF :: 'a word) n \<longleftrightarrow> n < 8 \<and> n < LENGTH('a)" for n
  proof -
    have "(0xFF :: 'a word) = mask 8" by (simp add: mask_eq_exp_minus_1)
    then show ?thesis by (simp only: bit_mask_iff) auto
  qed
  then show ?thesis
    by (intro bit_word_eqI) (auto simp: bit_ucast_iff bit_and_iff dest: bit_imp_le_length)
qed

lemma unat_u8_lt: "unat (w :: u8) < 256"
  using unsigned_less [of w, where 'a = nat] by simp

lemma unat_u16_lt: "unat (w :: u16) < 65536"
  using unsigned_less [of w, where 'a = nat] by simp

lemma unat_u32_lt: "unat (w :: u32) < 4294967296"
  using unsigned_less [of w, where 'a = nat] by simp

lemma unat_u64_lt: "unat (w :: u64) < 18446744073709551616"
  using unsigned_less [of w, where 'a = nat] by simp

subsection \<open>Regions of a buffer\<close>

text \<open>
  \<open>chunk k n xs\<close> is what a \<^verbatim>\<open>memcpy\<close> of \<open>n\<close> elements reads at offset \<open>k\<close>; \<open>overwrite k ys xs\<close> is the
  buffer after \<open>ys\<close> has been copied to offset \<open>k\<close>. Both are used inside the buffer only.
\<close>

definition chunk :: "nat \<Rightarrow> nat \<Rightarrow> 'a list \<Rightarrow> 'a list" where
  "chunk k n xs = take n (drop k xs)"

definition overwrite :: "nat \<Rightarrow> 'a list \<Rightarrow> 'a list \<Rightarrow> 'a list" where
  "overwrite k ys xs = take k xs @ ys @ drop (k + length ys) xs"

lemma length_chunk [simp]: "length (chunk k n xs) = min n (length xs - k)"
  by (simp add: chunk_def)

lemma length_overwrite: "k + length ys \<le> length xs \<Longrightarrow> length (overwrite k ys xs) = length xs"
  by (simp add: overwrite_def)

lemma nth_chunk: "i < n \<Longrightarrow> k + i < length xs \<Longrightarrow> chunk k n xs ! i = xs ! (k + i)"
  by (simp add: chunk_def)

lemma nth_overwrite:
  "k + length ys \<le> length xs \<Longrightarrow> i < length xs \<Longrightarrow>
     overwrite k ys xs ! i = (if k \<le> i \<and> i < k + length ys then ys ! (i - k) else xs ! i)"
  by (auto simp: overwrite_def nth_append)

lemma chunk_overwrite_same:
  "k + length ys \<le> length xs \<Longrightarrow> n = length ys \<Longrightarrow> chunk k n (overwrite k ys xs) = ys"
  by (simp add: chunk_def overwrite_def)

lemma chunk_overwrite_disjoint:
  assumes "k + length ys \<le> length xs" and "j + n \<le> k \<or> k + length ys \<le> j"
  shows "chunk j n (overwrite k ys xs) = chunk j n xs"
proof (rule nth_equalityI)
  show "length (chunk j n (overwrite k ys xs)) = length (chunk j n xs)"
    using assms(1) by (simp add: length_overwrite)
next
  fix i assume "i < length (chunk j n (overwrite k ys xs))"
  then have "i < n" "j + i < length xs" using assms(1) by (auto simp: length_overwrite)
  then show "chunk j n (overwrite k ys xs) ! i = chunk j n xs ! i"
    using assms by (auto simp: nth_chunk nth_overwrite length_overwrite)
qed

lemma disjoint_slots: "i \<noteq> j \<Longrightarrow> i * n + n \<le> j * n \<or> j * n + n \<le> i * (n :: nat)"
proof -
  assume "i \<noteq> j"
  then have "Suc i \<le> j \<or> Suc j \<le> i" by auto
  then have "Suc i * n \<le> j * n \<or> Suc j * n \<le> i * n"
    using mult_le_mono1 by blast
  then show ?thesis by (simp add: add.commute)
qed

lemma slot_in_buffer: "i < m \<Longrightarrow> i * n + n \<le> m * (n :: nat)"
  using mult_le_mono1 [of "Suc i" m n] by simp

subsection \<open>64-bit counters kept as natural numbers\<close>

text \<open>
  \<^verbatim>\<open>uint64_t\<close> positions that are added and compared rather than shifted are natural numbers with
  the wrap written out.
\<close>

definition add64 :: "nat \<Rightarrow> nat \<Rightarrow> nat" where
  "add64 a b = (a + b) mod 18446744073709551616"

definition sub64 :: "nat \<Rightarrow> nat \<Rightarrow> nat" where
  "sub64 a b = (a + 18446744073709551616 - b) mod 18446744073709551616"

lemma add64_small: "a + b < 18446744073709551616 \<Longrightarrow> add64 a b = a + b"
  by (simp add: add64_def)

lemma sub64_small: "b \<le> a \<Longrightarrow> a < 18446744073709551616 \<Longrightarrow> sub64 a b = a - b"
proof -
  assume a: "b \<le> a" "a < 18446744073709551616"
  then have "a + 18446744073709551616 - b = (a - b) + 18446744073709551616" by simp
  then show ?thesis using a by (simp only: sub64_def mod_add_self2) simp
qed

subsection \<open>Evaluation\<close>

named_theorems eval_simps \<open>unfolding rules that evaluate a program on small literals\<close>

lemma list_update_numeral [eval_simps]:
  "(x # xs)[numeral k := v] = x # xs[pred_numeral k := v]"
  by (simp add: numeral_eq_Suc)

lemma list_update_one [eval_simps]: "(x # xs)[1 := v] = x # xs[0 := v]"
  by simp

lemma replicate_num [eval_simps]: "replicate (numeral k) x = x # replicate (pred_numeral k) x"
  by (simp add: numeral_eq_Suc)

lemma replicate_one [eval_simps]: "replicate 1 x = [x]"
  by simp

end
