(* ===== verification/Interfaces.thy ===== *)
theory Interfaces
  imports Prelude "HOL-Library.Sublist"
begin

text \<open>
  The contracts components rely on, as locales, and what follows from each contract alone.

  \<^item> \<open>position_queue\<close>: audio held by position and taken in order of position. The playout buffer
    provides it; the receive path relies on it.
  \<^item> \<open>sample_width\<close>: samples of a fixed number of bytes in a flat buffer, read and written by
    index. The s24 and s16 formats provide it; the level control relies on it.
  \<^item> \<open>message_pipe\<close>: messages come out in the order they went in, each once. The loopback link
    provides it.
  \<^item> \<open>frame_pipe\<close>: the same for frames moved in batches, with short counts at both ends. The ring
    between the engine and a device callback provides it; it is a \<open>message_pipe\<close> one frame at a time.
  \<^item> \<open>lossy_pipe\<close>: frames again, but a full pipe gives up the oldest. The ring shared with the HAL
    plug-in provides it.
\<close>

subsection \<open>A queue ordered by position\<close>

datatype ('item, 'adjust) queue_event = Put nat 'item | Take | Adjust 'adjust

text \<open>A run of such a queue: the state it ends in and what was taken, in order.\<close>

fun queue_run ::
  "('s \<Rightarrow> nat \<Rightarrow> 'item \<Rightarrow> 's) \<Rightarrow> ('s \<Rightarrow> 's \<times> ('item \<times> nat) option) \<Rightarrow> ('s \<Rightarrow> 'adjust \<Rightarrow> 's)
     \<Rightarrow> 's \<Rightarrow> ('item, 'adjust) queue_event list \<Rightarrow> 's \<times> ('item \<times> nat) list" where
  "queue_run put_item take_item adjust s [] = (s, [])"
| "queue_run put_item take_item adjust s (Put p x # es) =
     queue_run put_item take_item adjust (put_item s p x) es"
| "queue_run put_item take_item adjust s (Take # es) =
     (case take_item s of
        (s', None) \<Rightarrow> queue_run put_item take_item adjust s' es
      | (s', Some out) \<Rightarrow>
          (case queue_run put_item take_item adjust s' es of (s'', outs) \<Rightarrow> (s'', out # outs)))"
| "queue_run put_item take_item adjust s (Adjust a # es) =
     queue_run put_item take_item adjust (adjust s a) es"

locale position_queue =
  fixes inv :: "'s \<Rightarrow> bool"
    and good :: "nat \<Rightarrow> 'item \<Rightarrow> bool"
    and contents_of :: "'s \<Rightarrow> nat \<Rightarrow> 'item option"
    and front :: "'s \<Rightarrow> nat"
    and put_item :: "'s \<Rightarrow> nat \<Rightarrow> 'item \<Rightarrow> 's"
    and take_item :: "'s \<Rightarrow> 's \<times> ('item \<times> nat) option"
    and adjust :: "'s \<Rightarrow> 'adjust \<Rightarrow> 's"
  assumes front_le: "inv s \<Longrightarrow> contents_of s p = Some x \<Longrightarrow> front s \<le> p"
    and put_inv: "inv s \<Longrightarrow> good p x \<Longrightarrow> inv (put_item s p x)"
    and put_front: "inv s \<Longrightarrow> good p x \<Longrightarrow> front s \<le> front (put_item s p x)"
    and put_contents: "inv s \<Longrightarrow> good p x \<Longrightarrow> contents_of (put_item s p x) q = Some y \<Longrightarrow>
      contents_of s q = Some y \<or> q = p \<and> y = x"
    and take_inv: "inv s \<Longrightarrow> inv (fst (take_item s))"
    and take_front: "inv s \<Longrightarrow> front s \<le> front (fst (take_item s))"
    and take_contents: "inv s \<Longrightarrow> contents_of (fst (take_item s)) q = Some y \<Longrightarrow> contents_of s q = Some y"
    and take_some: "inv s \<Longrightarrow> snd (take_item s) = Some (x, p) \<Longrightarrow>
      contents_of s p = Some x \<and> front s \<le> p \<and> p < front (fst (take_item s))"
    and adjust_inv: "inv s \<Longrightarrow> inv (adjust s a)"
    and adjust_front: "inv s \<Longrightarrow> front s \<le> front (adjust s a)"
    and adjust_contents: "inv s \<Longrightarrow> contents_of (adjust s a) q = Some y \<Longrightarrow> contents_of s q = Some y"
begin

abbreviation good_event :: "('item, 'adjust) queue_event \<Rightarrow> bool" where
  "good_event e \<equiv> (case e of Put p x \<Rightarrow> good p x | _ \<Rightarrow> True)"

lemma run_inv:
  "inv s \<Longrightarrow> list_all good_event es \<Longrightarrow> inv (fst (queue_run put_item take_item adjust s es))"
proof (induction es arbitrary: s)
  case (Cons e es)
  then show ?case
  proof (cases e)
    case Take
    obtain s' out where t: "take_item s = (s', out)" by (cases "take_item s")
    have "inv s'" using take_inv [OF Cons.prems(1)] t by simp
    then have "inv (fst (queue_run put_item take_item adjust s' es))"
      using Cons.IH Cons.prems(2) by simp
    then show ?thesis using Take t by (cases out) (auto split: prod.splits)
  qed (auto intro: put_inv adjust_inv)
qed simp

text \<open>What is taken lies at or above the front, and was held or put.\<close>

lemma run_bounds:
  assumes "inv s" "list_all good_event es"
    and "(x, p) \<in> set (snd (queue_run put_item take_item adjust s es))"
  shows "front s \<le> p \<and> (contents_of s p = Some x \<or> Put p x \<in> set es)"
  using assms
proof (induction es arbitrary: s)
  case (Cons e es)
  show ?case
  proof (cases e)
    case (Put q y)
    have "inv (put_item s q y)" using Cons.prems Put put_inv by simp
    then show ?thesis
      using Cons.IH [of "put_item s q y"] Cons.prems Put put_front [of s q y]
        put_contents [of s q y p x] by fastforce
  next
    case Take
    obtain s' out where t: "take_item s = (s', out)" by (cases "take_item s")
    have s': "inv s'" "front s \<le> front s'"
      "\<And>q y. contents_of s' q = Some y \<Longrightarrow> contents_of s q = Some y"
      "\<And>x p. out = Some (x, p) \<Longrightarrow> contents_of s p = Some x \<and> front s \<le> p"
      using take_inv [OF Cons.prems(1)] take_front [OF Cons.prems(1)]
        take_contents [OF Cons.prems(1)] take_some [OF Cons.prems(1)] t by auto
    have "out = Some (x, p) \<or> (x, p) \<in> set (snd (queue_run put_item take_item adjust s' es))"
      using Cons.prems(3) Take t by (cases out) (auto split: prod.splits)
    then show ?thesis
      using Cons.IH [OF s'(1)] Cons.prems(2) s' by fastforce
  next
    case (Adjust a)
    then show ?thesis
      using Cons.IH [OF adjust_inv [OF Cons.prems(1)], of a] Cons.prems adjust_front [of s a]
        adjust_contents [of s a p x] by fastforce
  qed
qed simp

text \<open>Everything taken was put, once: positions only go up.\<close>

lemma run_sorted:
  "inv s \<Longrightarrow> list_all good_event es \<Longrightarrow>
     sorted_wrt (<) (map snd (snd (queue_run put_item take_item adjust s es)))"
proof (induction es arbitrary: s)
  case (Cons e es)
  show ?case
  proof (cases e)
    case Take
    obtain s' out where t: "take_item s = (s', out)" by (cases "take_item s")
    have s': "inv s'" "\<And>x p. out = Some (x, p) \<Longrightarrow> p < front s'"
      using take_inv [OF Cons.prems(1)] take_some [OF Cons.prems(1)] t by auto
    have rest: "list_all good_event es" using Cons.prems(2) by simp
    have sorted: "sorted_wrt (<) (map snd (snd (queue_run put_item take_item adjust s' es)))"
      by (rule Cons.IH [OF s'(1) rest])
    show ?thesis
    proof (cases out)
      case None
      then show ?thesis using sorted Take t by simp
    next
      case (Some o')
      obtain x p where o': "o' = (x, p)" by (cases o')
      have "p < q" if "(y, q) \<in> set (snd (queue_run put_item take_item adjust s' es))" for y q
        using run_bounds [OF s'(1) rest that] s'(2) Some o' by fastforce
      then show ?thesis using sorted Take t Some o' by (auto split: prod.splits)
    qed
  qed (use Cons in \<open>auto intro!: put_inv adjust_inv\<close>)
qed simp

end

subsection \<open>A pipe of messages\<close>

datatype 'm pipe_event = Send 'm | Receive

fun pipe_run ::
  "('s \<Rightarrow> 'm \<Rightarrow> 's \<times> bool) \<Rightarrow> ('s \<Rightarrow> 's \<times> 'm option) \<Rightarrow> 's \<Rightarrow> 'm pipe_event list
     \<Rightarrow> 's \<times> 'm list \<times> 'm list" where
  "pipe_run send receive s [] = (s, [], [])"
| "pipe_run send receive s (Send m # es) =
     (case send s m of (s', ok) \<Rightarrow>
      case pipe_run send receive s' es of (s'', sent, received) \<Rightarrow>
        (s'', (if ok then m # sent else sent), received))"
| "pipe_run send receive s (Receive # es) =
     (case receive s of (s', out) \<Rightarrow>
      case pipe_run send receive s' es of (s'', sent, received) \<Rightarrow>
        (s'', sent, (case out of None \<Rightarrow> received | Some m \<Rightarrow> m # received)))"

locale message_pipe =
  fixes inv :: "'s \<Rightarrow> bool"
    and queued :: "'s \<Rightarrow> 'm list"
    and send :: "'s \<Rightarrow> 'm \<Rightarrow> 's \<times> bool"
    and receive :: "'s \<Rightarrow> 's \<times> 'm option"
  assumes send_inv: "inv s \<Longrightarrow> inv (fst (send s m))"
    and send_queued: "inv s \<Longrightarrow>
      queued (fst (send s m)) = (if snd (send s m) then queued s @ [m] else queued s)"
    and receive_inv: "inv s \<Longrightarrow> inv (fst (receive s))"
    and receive_queued: "inv s \<Longrightarrow>
      (case snd (receive s) of None \<Rightarrow> queued (fst (receive s)) = queued s
       | Some m \<Rightarrow> queued s = m # queued (fst (receive s)))"
begin

lemma pipe_inv: "inv s \<Longrightarrow> inv (fst (pipe_run send receive s es))"
proof (induction es arbitrary: s)
  case (Cons e es)
  show ?case
  proof (cases e)
    case (Send m)
    have "inv (fst (pipe_run send receive (fst (send s m)) es))"
      by (rule Cons.IH [OF send_inv [OF Cons.prems]])
    then show ?thesis using Send by (simp add: case_prod_unfold)
  next
    case Receive
    have "inv (fst (pipe_run send receive (fst (receive s)) es))"
      by (rule Cons.IH [OF receive_inv [OF Cons.prems]])
    then show ?thesis using Receive by (simp add: case_prod_unfold)
  qed
qed simp

text \<open>What was queued or accepted is what was received followed by what is still queued.\<close>

lemma pipe_conserves:
  "inv s \<Longrightarrow> pipe_run send receive s es = (s', sent, received) \<Longrightarrow>
     queued s @ sent = received @ queued s'"
proof (induction es arbitrary: s s' sent received)
  case (Cons e es)
  show ?case
  proof (cases e)
    case (Send m)
    obtain s1 ok where s1: "send s m = (s1, ok)" by (cases "send s m")
    obtain s2 sent2 received2 where r: "pipe_run send receive s1 es = (s2, sent2, received2)"
      by (cases "pipe_run send receive s1 es")
    have "queued s1 @ sent2 = received2 @ queued s2"
      using Cons.IH [OF _ r] send_inv [OF Cons.prems(1), of m] s1 by simp
    then show ?thesis
      using Cons.prems Send s1 r send_queued [OF Cons.prems(1), of m] by (auto split: if_splits)
  next
    case Receive
    obtain s1 out where s1: "receive s = (s1, out)" by (cases "receive s")
    obtain s2 sent2 received2 where r: "pipe_run send receive s1 es = (s2, sent2, received2)"
      by (cases "pipe_run send receive s1 es")
    have "queued s1 @ sent2 = received2 @ queued s2"
      using Cons.IH [OF _ r] receive_inv [OF Cons.prems(1)] s1 by simp
    then show ?thesis
      using Cons.prems Receive s1 r receive_queued [OF Cons.prems(1)] by (cases out) auto
  qed
qed simp

end

subsection \<open>A pipe of frames, moved in batches\<close>

datatype 'f batch_event = Offer "'f list" | Fetch nat

fun batch_run ::
  "('s \<Rightarrow> 'f list \<Rightarrow> 's \<times> nat) \<Rightarrow> ('s \<Rightarrow> nat \<Rightarrow> 's \<times> 'f list) \<Rightarrow> 's \<Rightarrow> 'f batch_event list
     \<Rightarrow> 's \<times> 'f list \<times> 'f list" where
  "batch_run offer fetch s [] = (s, [], [])"
| "batch_run offer fetch s (Offer fs # es) =
     (case offer s fs of (s', n) \<Rightarrow>
      case batch_run offer fetch s' es of (s'', accepted, fetched) \<Rightarrow>
        (s'', take n fs @ accepted, fetched))"
| "batch_run offer fetch s (Fetch n # es) =
     (case fetch s n of (s', out) \<Rightarrow>
      case batch_run offer fetch s' es of (s'', accepted, fetched) \<Rightarrow>
        (s'', accepted, out @ fetched))"

locale frame_pipe =
  fixes inv :: "'s \<Rightarrow> bool"
    and held :: "'s \<Rightarrow> 'f list"
    and offer :: "'s \<Rightarrow> 'f list \<Rightarrow> 's \<times> nat"
    and fetch :: "'s \<Rightarrow> nat \<Rightarrow> 's \<times> 'f list"
  assumes offer_inv: "inv s \<Longrightarrow> inv (fst (offer s fs))"
    and offer_count: "inv s \<Longrightarrow> snd (offer s fs) \<le> length fs"
    and offer_held: "inv s \<Longrightarrow> held (fst (offer s fs)) = held s @ take (snd (offer s fs)) fs"
    and fetch_inv: "inv s \<Longrightarrow> inv (fst (fetch s n))"
    and fetch_count: "inv s \<Longrightarrow> length (snd (fetch s n)) = min n (length (held s))"
    and fetch_held: "inv s \<Longrightarrow> held s = snd (fetch s n) @ held (fst (fetch s n))"
begin

lemma batch_conserves:
  "inv s \<Longrightarrow> batch_run offer fetch s es = (s', accepted, fetched) \<Longrightarrow>
     inv s' \<and> held s @ accepted = fetched @ held s'"
proof (induction es arbitrary: s s' accepted fetched)
  case (Cons e es)
  show ?case
  proof (cases e)
    case (Offer fs)
    obtain s1 n where s1: "offer s fs = (s1, n)" by (cases "offer s fs")
    obtain s2 a f where r: "batch_run offer fetch s1 es = (s2, a, f)"
      by (cases "batch_run offer fetch s1 es")
    have "inv s2 \<and> held s1 @ a = f @ held s2"
      using Cons.IH [OF _ r] offer_inv [OF Cons.prems(1), of fs] s1 by simp
    moreover have "held s1 = held s @ take n fs" using offer_held [OF Cons.prems(1), of fs] s1 by simp
    ultimately show ?thesis using Cons.prems(2) Offer s1 r by auto
  next
    case (Fetch n)
    obtain s1 out where s1: "fetch s n = (s1, out)" by (cases "fetch s n")
    obtain s2 a f where r: "batch_run offer fetch s1 es = (s2, a, f)"
      by (cases "batch_run offer fetch s1 es")
    have "inv s2 \<and> held s1 @ a = f @ held s2"
      using Cons.IH [OF _ r] fetch_inv [OF Cons.prems(1), of n] s1 by simp
    moreover have "held s = out @ held s1" using fetch_held [OF Cons.prems(1), of n] s1 by simp
    ultimately show ?thesis using Cons.prems(2) Fetch s1 r by auto
  qed
qed simp

end

text \<open>One frame at a time, a pipe of frames is a pipe of messages.\<close>

sublocale frame_pipe \<subseteq> single: message_pipe inv held
  "\<lambda>s m. case offer s [m] of (s', n) \<Rightarrow> (s', n = 1)"
  "\<lambda>s. case fetch s 1 of (s', out) \<Rightarrow> (s', case out of [] \<Rightarrow> None | m # _ \<Rightarrow> Some m)"
proof
  fix s m assume i: "inv s"
  obtain s' n where o: "offer s [m] = (s', n)" by (cases "offer s [m]")
  show "inv (fst (case offer s [m] of (s', n) \<Rightarrow> (s', n = 1)))"
    using offer_inv [OF i, of "[m]"] o by simp
  have "n \<le> 1" using offer_count [OF i, of "[m]"] o by simp
  then have "n = 0 \<or> n = 1" by linarith
  then show "held (fst (case offer s [m] of (s', n) \<Rightarrow> (s', n = 1)))
      = (if snd (case offer s [m] of (s', n) \<Rightarrow> (s', n = 1)) then held s @ [m] else held s)"
    using offer_held [OF i, of "[m]"] o by auto
next
  fix s assume i: "inv s"
  obtain s' out where f: "fetch s 1 = (s', out)" by (cases "fetch s 1")
  show "inv (fst (case fetch s 1 of (s', out) \<Rightarrow> (s', case out of [] \<Rightarrow> None | m # _ \<Rightarrow> Some m)))"
    using fetch_inv [OF i, of 1] f by simp
  have "length out \<le> 1" "held s = out @ held s'"
    using fetch_count [OF i, of 1] fetch_held [OF i, of 1] f by simp_all
  then show "case snd (case fetch s 1 of (s', out) \<Rightarrow> (s', case out of [] \<Rightarrow> None | m # _ \<Rightarrow> Some m)) of
      None \<Rightarrow> held (fst (case fetch s 1 of (s', out) \<Rightarrow> (s', case out of [] \<Rightarrow> None | m # _ \<Rightarrow> Some m))) = held s
    | Some m \<Rightarrow> held s = m # held (fst (case fetch s 1 of (s', out) \<Rightarrow>
        (s', case out of [] \<Rightarrow> None | m # _ \<Rightarrow> Some m)))"
    using f by (cases out) auto
qed

subsection \<open>A pipe of frames that gives up the oldest\<close>

definition last_frames :: "nat \<Rightarrow> 'a list \<Rightarrow> 'a list" where
  "last_frames k xs = drop (length xs - k) xs"

fun frames_offered :: "'f batch_event list \<Rightarrow> nat" where
  "frames_offered [] = 0"
| "frames_offered (Offer fs # es) = length fs + frames_offered es"
| "frames_offered (Fetch n # es) = frames_offered es"

text \<open>\<open>inv k\<close> holds of a state that can take \<open>k\<close> more frames before a counter wraps.\<close>

locale lossy_pipe =
  fixes inv :: "nat \<Rightarrow> 's \<Rightarrow> bool"
    and held :: "'s \<Rightarrow> 'f list"
    and bound :: "'s \<Rightarrow> nat"
    and offer :: "'s \<Rightarrow> 'f list \<Rightarrow> 's \<times> nat"
    and fetch :: "'s \<Rightarrow> nat \<Rightarrow> 's \<times> 'f list"
  assumes offer_inv: "inv (length fs + k) s \<Longrightarrow> inv k (fst (offer s fs))"
    and offer_held: "inv (length fs + k) s \<Longrightarrow>
      held (fst (offer s fs)) = last_frames (bound s) (held s @ take (snd (offer s fs)) fs)"
    and fetch_inv: "inv k s \<Longrightarrow> inv k (fst (fetch s n))"
    and fetch_held: "inv k s \<Longrightarrow> held s = snd (fetch s n) @ held (fst (fetch s n))"
begin

text \<open>Frames are lost, never invented, repeated or reordered.\<close>

lemma lossy_order:
  "inv (frames_offered es + k) s \<Longrightarrow> batch_run offer fetch s es = (s', accepted, fetched) \<Longrightarrow>
     inv k s' \<and> subseq (fetched @ held s') (held s @ accepted)"
proof (induction es arbitrary: s s' accepted fetched)
  case (Cons e es)
  show ?case
  proof (cases e)
    case (Offer fs)
    obtain s1 n where s1: "offer s fs = (s1, n)" by (cases "offer s fs")
    obtain s2 a f where r: "batch_run offer fetch s1 es = (s2, a, f)"
      by (cases "batch_run offer fetch s1 es")
    have i: "inv (length fs + (frames_offered es + k)) s" using Cons.prems(1) Offer by (simp add: add.assoc)
    have "inv k s2 \<and> subseq (f @ held s2) (held s1 @ a)"
      using Cons.IH [OF _ r] offer_inv [OF i] s1 by simp
    moreover have "subseq (held s1) (held s @ take n fs)"
      using offer_held [OF i] s1 unfolding last_frames_def
      by (metis fst_conv snd_conv suffix_drop suffix_imp_subseq)
    then have "subseq (held s1 @ a) ((held s @ take n fs) @ a)"
      by (intro list_emb_append_mono) simp_all
    ultimately show ?thesis
      using Cons.prems(2) Offer s1 r by (auto intro: subseq_order.trans)
  next
    case (Fetch n)
    obtain s1 out where s1: "fetch s n = (s1, out)" by (cases "fetch s n")
    obtain s2 a f where r: "batch_run offer fetch s1 es = (s2, a, f)"
      by (cases "batch_run offer fetch s1 es")
    have i: "inv (frames_offered es + k) s" using Cons.prems(1) Fetch by simp
    have "inv k s2 \<and> subseq (f @ held s2) (held s1 @ a)"
      using Cons.IH [OF _ r] fetch_inv [OF i, of n] s1 by simp
    moreover have "held s = out @ held s1" using fetch_held [OF i, of n] s1 by simp
    ultimately show ?thesis
      using Cons.prems(2) Fetch s1 r by (auto intro: list_emb_append_mono)
  qed
qed simp

end

subsection \<open>Samples of a fixed width in a flat buffer\<close>

definition sample_at :: "nat \<Rightarrow> (bytes \<Rightarrow> 'v) \<Rightarrow> nat \<Rightarrow> bytes \<Rightarrow> 'v" where
  "sample_at width dec k buffer = dec (drop (k * width) buffer)"

definition put_sample :: "nat \<Rightarrow> ('v \<Rightarrow> bytes) \<Rightarrow> nat \<Rightarrow> 'v \<Rightarrow> bytes \<Rightarrow> bytes" where
  "put_sample width enc k v buffer = overwrite (k * width) (enc v) buffer"

definition update_samples ::
  "nat \<Rightarrow> (bytes \<Rightarrow> 'v) \<Rightarrow> ('v \<Rightarrow> bytes) \<Rightarrow> ('v \<Rightarrow> 'v) \<Rightarrow> nat list \<Rightarrow> bytes \<Rightarrow> bytes" where
  "update_samples width dec enc f ks buffer =
     fold (\<lambda>k b. put_sample width enc k (f (sample_at width dec k b)) b) ks buffer"

locale sample_width =
  fixes width :: nat and dec :: "bytes \<Rightarrow> 'v" and enc :: "'v \<Rightarrow> bytes" and clip :: "'v \<Rightarrow> 'v"
  assumes width_pos: "0 < width"
    and length_enc: "length (enc v) = width"
    and dec_enc: "dec (enc v) = clip v"
    and dec_take: "width \<le> length xs \<Longrightarrow> dec (take width xs) = dec xs"
begin

lemma length_put: "k < n \<Longrightarrow> length b = n * width \<Longrightarrow> length (put_sample width enc k v b) = n * width"
  using slot_in_buffer [of k n width] by (simp add: put_sample_def length_overwrite length_enc)

lemma sample_at_chunk:
  "k < n \<Longrightarrow> length b = n * width \<Longrightarrow> sample_at width dec k b = dec (chunk (k * width) width b)"
  using slot_in_buffer [of k n width] by (simp add: sample_at_def chunk_def dec_take)

lemma sample_at_put:
  assumes "k < n" "j < n" "length b = n * width"
  shows "sample_at width dec j (put_sample width enc k v b)
    = (if j = k then clip v else sample_at width dec j b)"
proof -
  have fits: "k * width + length (enc v) \<le> length b"
    using slot_in_buffer [OF assms(1), of width] assms(3) by (simp add: length_enc)
  note put = sample_at_chunk [OF assms(2) length_put [OF assms(1,3)]]
  show ?thesis
  proof (cases "j = k")
    case True
    then show ?thesis
      using chunk_overwrite_same [OF fits] unfolding put by (simp add: put_sample_def length_enc dec_enc)
  next
    case False
    have "chunk (j * width) width (overwrite (k * width) (enc v) b) = chunk (j * width) width b"
      using disjoint_slots [OF False, of width] length_enc
      by (intro chunk_overwrite_disjoint [OF fits]) auto
    then show ?thesis
      using False unfolding put by (simp add: put_sample_def sample_at_chunk [OF assms(2,3)])
  qed
qed

lemma length_update:
  "set ks \<subseteq> {..<n} \<Longrightarrow> length b = n * width \<Longrightarrow>
     length (update_samples width dec enc f ks b) = n * width"
  by (induction ks arbitrary: b) (auto simp: update_samples_def length_put)

lemma sample_at_update:
  assumes "distinct ks" "set ks \<subseteq> {..<n}" "j < n" "length b = n * width"
  shows "sample_at width dec j (update_samples width dec enc f ks b)
    = (if j \<in> set ks then clip (f (sample_at width dec j b)) else sample_at width dec j b)"
  using assms(1,2,4)
proof (induction ks arbitrary: b)
  case (Cons k ks)
  let ?b = "put_sample width enc k (f (sample_at width dec k b)) b"
  have "update_samples width dec enc f (k # ks) b = update_samples width dec enc f ks ?b"
    by (simp add: update_samples_def)
  moreover have "length ?b = n * width" using Cons.prems length_put [of k n b] by simp
  moreover have "sample_at width dec j ?b
      = (if j = k then clip (f (sample_at width dec k b)) else sample_at width dec j b)"
    using Cons.prems assms(3) sample_at_put [of k n j b] by simp
  moreover have "distinct ks" "set ks \<subseteq> {..<n}" "k \<notin> set ks" using Cons.prems by auto
  ultimately show ?case using Cons.IH [of ?b] by (cases "j = k") auto
qed (simp add: update_samples_def)

end

end
