(* ===== verification/Crc.thy ===== *)
theory Crc
  imports Prelude
begin

unbundle bit_operations_syntax

text \<open>
  The checksum of a frame, \<^verbatim>\<open>checksum\<close> of src/src/wire/frame.cpp: CRC-32 (IEEE 802.3) by a
  256-entry table that is built once.

  The lemmas show that the table-driven loop computes the bit-serial CRC it stands for
  (\<open>checksum_eq_bitwise\<close>), and that one byte changed anywhere in the data always
  changes the checksum (\<open>checksum_detects_byte\<close>), which is what lets \<^verbatim>\<open>decode\<close> refuse a
  corrupted frame.
\<close>

subsection \<open>The code\<close>

definition crc_poly :: u32 where
  "crc_poly = 0xEDB88320"

text \<open>One round of the table's inner loop, and the eight of them.\<close>

definition crc_step :: "u32 \<Rightarrow> u32" where
  "crc_step value =
     (if value AND 1 \<noteq> 0 then crc_poly XOR drop_bit 1 value else drop_bit 1 value)"

definition crc_table_entry :: "u32 \<Rightarrow> u32" where
  "crc_table_entry value = (crc_step ^^ 8) value"

definition crc_table :: "u32 list" where
  "crc_table = map (\<lambda>index. crc_table_entry (of_nat index)) [0..<256]"

definition crc_update :: "u32 \<Rightarrow> u8 \<Rightarrow> u32" where
  "crc_update crc b = crc_table ! unat ((crc XOR ucast b) AND 0xFF) XOR drop_bit 8 crc"

definition checksum :: "bytes \<Rightarrow> u32" where
  "checksum data = foldl crc_update 0xFFFFFFFF data XOR 0xFFFFFFFF"

subsection \<open>The reference: one bit at a time\<close>

definition crc_bitwise :: "bytes \<Rightarrow> u32" where
  "crc_bitwise data =
     foldl (\<lambda>crc b. (crc_step ^^ 8) (crc XOR ucast b)) 0xFFFFFFFF data XOR 0xFFFFFFFF"

subsection \<open>The table is the bit-serial step\<close>

lemma crc_step_bit: "crc_step v = (if bit v 0 then crc_poly XOR drop_bit 1 v else drop_bit 1 v)"
  by (simp add: crc_step_def and_one_eq flip: even_iff_mod_2_eq_zero bit_0)

lemma crc_step_xor: "crc_step (x XOR y) = crc_step x XOR crc_step y"
proof -
  have "drop_bit 1 (x XOR y) = drop_bit 1 x XOR drop_bit 1 y"
    by (rule drop_bit_xor)
  then show ?thesis
    by (auto simp add: crc_step_bit bit_xor_iff ac_simps)
qed

lemma crc_steps_xor: "(crc_step ^^ n) (x XOR y) = (crc_step ^^ n) x XOR (crc_step ^^ n) y"
  by (induction n) (simp_all add: crc_step_xor)

lemma crc_steps_shift:
  "(\<And>i. i < n \<Longrightarrow> \<not> bit y i) \<Longrightarrow> (crc_step ^^ n) y = drop_bit n y"
proof (induction n)
  case 0
  then show ?case by simp
next
  case (Suc n)
  then have "(crc_step ^^ n) y = drop_bit n y" by simp
  moreover have "\<not> bit (drop_bit n y) 0"
    using Suc.prems by (simp add: bit_drop_bit_eq)
  ultimately have "(crc_step ^^ Suc n) y = drop_bit 1 (drop_bit n y)"
    by (simp only: funpow.simps comp_apply crc_step_bit if_False)
  then show ?case by (simp only: drop_bit_drop_bit) simp
qed

lemma crc_table_nth: "i < 256 \<Longrightarrow> crc_table ! i = crc_table_entry (of_nat i)"
  by (simp add: crc_table_def)

lemma unat_low_byte: "unat (x AND 0xFF :: u32) < 256"
proof -
  have "x AND 0xFF \<le> (0xFF :: u32)" by (rule word_and_le1)
  then have "unat (x AND 0xFF) \<le> unat (0xFF :: u32)" by (simp add: word_le_nat_alt)
  then show ?thesis by simp
qed

lemma crc_update_eq: "crc_update crc b = (crc_step ^^ 8) (crc XOR ucast b)"
proof -
  define x where "x = crc XOR ucast b"
  define lo where "lo = x AND 0xFF"
  define hi where "hi = x AND NOT 0xFF"
  have mask: "(0xFF :: u32) = mask 8" by (simp add: mask_eq_exp_minus_1)
  have x: "x = lo XOR hi"
    by (rule bit_word_eqI) (auto simp: lo_def hi_def bit_simps)
  have "(crc_step ^^ 8) hi = drop_bit 8 hi"
    by (rule crc_steps_shift) (simp add: hi_def mask bit_simps)
  moreover have "drop_bit 8 hi = drop_bit 8 crc"
    by (rule bit_word_eqI) (auto simp: hi_def x_def mask bit_simps dest: bit_u8_lt bit_u32_lt)
  moreover have "crc_table ! unat lo = (crc_step ^^ 8) lo"
    using unat_low_byte [of x] by (simp add: crc_table_nth crc_table_entry_def lo_def)
  ultimately have "crc_update crc b = (crc_step ^^ 8) (lo XOR hi)"
    by (simp only: crc_update_def crc_steps_xor lo_def x_def)
  then show ?thesis by (simp only: x [symmetric] x_def)
qed

subsection \<open>One changed byte changes the checksum\<close>

lemma crc_step_inj: "inj crc_step"
proof (rule injI)
  fix v w assume eq: "crc_step v = crc_step w"
  have top: "bit (crc_step u) 31 = bit u 0" for u
  proof -
    have "bit crc_poly 31" by (simp add: crc_poly_def)
    moreover have "\<not> bit u 32" using bit_imp_le_length [of u 32] by auto
    ultimately show ?thesis by (simp add: crc_step_bit bit_simps)
  qed
  then have low: "bit v 0 = bit w 0" using eq by metis
  then have shift: "drop_bit 1 v = drop_bit 1 w"
    using eq low by (simp add: crc_step_bit xor_cancel_left split: if_splits)
  show "v = w"
  proof (rule bit_word_eqI)
    fix n show "bit v n = bit w n"
    proof (cases n)
      case 0 then show ?thesis using low by simp
    next
      case (Suc m)
      have "bit (drop_bit 1 v) m = bit (drop_bit 1 w) m" using shift by simp
      then show ?thesis using Suc by (simp add: bit_simps)
    qed
  qed
qed

lemma crc_steps_inj: "inj (crc_step ^^ n)"
  by (induction n) (simp_all only: funpow.simps inj_on_id inj_compose crc_step_inj)

lemma crc_update_inj_crc: "crc_update c b = crc_update c' b \<longleftrightarrow> c = c'"
  by (simp add: crc_update_eq inj_eq [OF crc_steps_inj] xor_cancel_right)

lemma crc_update_inj_byte: "crc_update c b = crc_update c b' \<longleftrightarrow> b = b'"
  by (simp add: crc_update_eq inj_eq [OF crc_steps_inj] xor_cancel_left ucast_u8_inj)

lemma foldl_crc_inj: "foldl crc_update c xs = foldl crc_update c' xs \<longleftrightarrow> c = c'"
  by (induction xs arbitrary: c c') (simp_all add: crc_update_inj_crc)

lemma checksum_update_neq:
  assumes "i < length data" and "b \<noteq> data ! i"
  shows "checksum (data[i := b]) \<noteq> checksum data"
proof -
  have split: "data = take i data @ data ! i # drop (Suc i) data"
    using assms(1) by (simp add: id_take_nth_drop)
  have upd: "data[i := b] = take i data @ b # drop (Suc i) data"
    using assms(1) by (simp add: upd_conv_take_nth_drop)
  let ?c = "foldl crc_update 0xFFFFFFFF (take i data)"
  have "crc_update ?c b \<noteq> crc_update ?c (data ! i)"
    using assms(2) by (simp add: crc_update_inj_byte)
  then have "foldl crc_update 0xFFFFFFFF (data[i := b]) \<noteq> foldl crc_update 0xFFFFFFFF data"
    by (subst (2) split) (simp add: upd foldl_crc_inj)
  then show ?thesis
    by (simp add: checksum_def xor_cancel_right)
qed

text \<open>
  C22. The table-driven checksum of the code is the CRC-32 it stands for, computed one bit
  at a time without a table.
\<close>

theorem checksum_eq_bitwise: "checksum data = crc_bitwise data"
proof -
  have "crc_update = (\<lambda>crc b. (crc_step ^^ 8) (crc XOR ucast b))"
    by (intro ext) (rule crc_update_eq)
  then show ?thesis by (simp add: checksum_def crc_bitwise_def)
qed

end
