(* ===== verification/Wire.thy ===== *)
theory Wire
  imports Prelude Crc
begin

unbundle bit_operations_syntax

text \<open>
  The wire format: src/src/wire/frame.hpp and the frame half of src/src/wire/frame.cpp.

  \<open>frame\<close> and \<open>block\<close> are the structs of the header; \<open>encode\<close>, \<open>decode\<close> and
  \<open>frame_length\<close> are the three operations, each with the guards of the code in the code's
  order. The lemmas show that what \<open>encode\<close> writes is exactly what \<open>decode\<close> accepts
  (both directions), that a frame's length is known from a prefix and is never misjudged, and
  that a frame with one byte changed is refused.
\<close>

subsection \<open>Constants and payload types\<close>

definition k_magic :: u32 where "k_magic = 0x41363753"
definition k_version :: u16 where "k_version = 1"
definition k_max_frame_bytes :: nat where "k_max_frame_bytes = 256 * 1024"
definition k_max_blocks :: nat where "k_max_blocks = 8"
definition k_block_channels :: u8 where "k_block_channels = 8"
definition k_frame_header_bytes :: nat where "k_frame_header_bytes = 28"
definition k_block_header_bytes :: nat where "k_block_header_bytes = 8"
definition k_checksum_bytes :: nat where "k_checksum_bytes = 4"

lemmas wire_consts =
  k_max_frame_bytes_def k_max_blocks_def k_block_channels_def
  k_frame_header_bytes_def k_block_header_bytes_def k_checksum_bytes_def

datatype payload_type = pcm_l24 | pcm_l16 | opus | aac_lc

fun payload_name :: "payload_type \<Rightarrow> string" where
  "payload_name pcm_l24 = ''L24''"
| "payload_name pcm_l16 = ''L16''"
| "payload_name opus = ''opus''"
| "payload_name aac_lc = ''aac-lc''"

fun payload_code :: "payload_type \<Rightarrow> u8" where
  "payload_code pcm_l24 = 0"
| "payload_code pcm_l16 = 1"
| "payload_code opus = 2"
| "payload_code aac_lc = 3"

definition parse_payload_type :: "u8 \<Rightarrow> payload_type option" where
  "parse_payload_type raw =
     (if raw > payload_code aac_lc then None
      else Some (if raw = 0 then pcm_l24 else if raw = 1 then pcm_l16
                 else if raw = 2 then opus else aac_lc))"

definition supported_here :: "payload_type \<Rightarrow> bool" where
  "supported_here t \<longleftrightarrow> t = pcm_l24 \<or> t = pcm_l16 \<or> t = opus"

fun sample_bytes :: "payload_type \<Rightarrow> nat" where
  "sample_bytes pcm_l24 = 3"
| "sample_bytes pcm_l16 = 2"
| "sample_bytes _ = 0"

definition payload_bytes :: "payload_type \<Rightarrow> u8 \<Rightarrow> nat \<Rightarrow> nat" where
  "payload_bytes t channels frames = frames * unat channels * sample_bytes t"

subsection \<open>Frames and refusals\<close>

record block =
  b_index :: u8
  b_payload :: payload_type
  b_channels :: u8
  b_data :: bytes

record frame =
  f_link_id :: u16
  f_sequence :: u64
  f_sample_position :: u64
  f_blocks :: "block list"

text \<open>One constructor per message of the code, with the figures it prints.\<close>

datatype wire_error =
    NoFrameToFill | NoFrameToMeasure
  | ShorterThanHeader nat
  | NotOurMagic
  | WrongVersion u16
  | ReservedFlags u16
  | ChecksumMismatch u32 u32
  | WrongBlockCount u8
  | ReservedNotZero
  | LengthOverCeiling
  | NoBlocks | TooManyBlocks nat
  | EndsInBlockHeader
  | UnknownPayload u8 u8
  | UnsupportedPayload u8 payload_type
  | BlockReservedNotZero u8
  | IndexOutOfRange u8
  | DuplicateIndex u8
  | WrongChannels u8 u8
  | NotWholeFrames u8 nat u8
  | NoPayload u8
  | PayloadTooLarge u8
  | PastTheEnd u8 nat
  | TrailingBytes nat

subsection \<open>Big-endian fields\<close>

definition write_u16 :: "u16 \<Rightarrow> bytes" where
  "write_u16 value = [ucast (drop_bit 8 value AND 0xFF), ucast (value AND 0xFF)]"

definition write_u32 :: "u32 \<Rightarrow> bytes" where
  "write_u32 value =
     [ucast (drop_bit 24 value AND 0xFF), ucast (drop_bit 16 value AND 0xFF),
      ucast (drop_bit 8 value AND 0xFF), ucast (value AND 0xFF)]"

definition write_u64 :: "u64 \<Rightarrow> bytes" where
  "write_u64 value = map (\<lambda>index. ucast (drop_bit (index * 8) value AND 0xFF)) (rev [0..<8])"

definition read_u16 :: "bytes \<Rightarrow> nat \<Rightarrow> u16" where
  "read_u16 data pos = push_bit 8 (ucast (data ! pos)) OR ucast (data ! (pos + 1))"

definition read_u32 :: "bytes \<Rightarrow> nat \<Rightarrow> u32" where
  "read_u32 data pos =
     push_bit 24 (ucast (data ! pos)) OR push_bit 16 (ucast (data ! (pos + 1)))
     OR push_bit 8 (ucast (data ! (pos + 2))) OR ucast (data ! (pos + 3))"

definition read_u64 :: "bytes \<Rightarrow> nat \<Rightarrow> u64" where
  "read_u64 data pos =
     foldl (\<lambda>value index. push_bit 8 value OR ucast (data ! (pos + index))) 0 [0..<8]"

subsection \<open>encode\<close>

definition encoded_size :: "frame \<Rightarrow> nat" where
  "encoded_size frame =
     k_frame_header_bytes + k_checksum_bytes
     + sum_list (map (\<lambda>block. k_block_header_bytes + length (b_data block)) (f_blocks frame))"

text \<open>
  The validation of one block, \<open>seen\<close> being the indices of the blocks before it: the
  positions of \<^verbatim>\<open>index_seen\<close> that are not zero.
\<close>

definition check_block :: "u8 list \<Rightarrow> block \<Rightarrow> wire_error option" where
  "check_block seen block =
     (let stride = unat (b_channels block) * sample_bytes (b_payload block) in
      if unat (b_index block) \<ge> k_max_blocks then Some (IndexOutOfRange (b_index block))
      else if b_index block \<in> set seen then Some (DuplicateIndex (b_index block))
      else if \<not> supported_here (b_payload block)
        then Some (UnsupportedPayload (b_index block) (b_payload block))
      else if b_channels block \<noteq> k_block_channels
        then Some (WrongChannels (b_index block) (b_channels block))
      else if stride \<noteq> 0 \<and> (b_data block = [] \<or> length (b_data block) mod stride \<noteq> 0)
        then Some (NotWholeFrames (b_index block) (length (b_data block)) (b_channels block))
      else if b_data block = [] then Some (NoPayload (b_index block))
      else if length (b_data block) > 0xFFFFFFFF then Some (PayloadTooLarge (b_index block))
      else None)"

fun check_blocks :: "u8 list \<Rightarrow> block list \<Rightarrow> wire_error option" where
  "check_blocks seen [] = None"
| "check_blocks seen (block # rest) =
     (case check_block seen block of
        Some e \<Rightarrow> Some e
      | None \<Rightarrow> check_blocks (b_index block # seen) rest)"

definition encode_block :: "block \<Rightarrow> bytes" where
  "encode_block block =
     [b_index block, payload_code (b_payload block), b_channels block, 0]
     @ write_u32 (of_nat (length (b_data block))) @ b_data block"

definition encode_header :: "frame \<Rightarrow> bytes" where
  "encode_header frame =
     write_u32 k_magic @ write_u16 k_version @ write_u16 0 @ write_u16 (f_link_id frame)
     @ [of_nat (length (f_blocks frame)), 0]
     @ write_u64 (f_sequence frame) @ write_u64 (f_sample_position frame)"

definition encode :: "frame \<Rightarrow> wire_error + bytes" where
  "encode frame =
     (if f_blocks frame = [] then Inl NoBlocks
      else if length (f_blocks frame) > k_max_blocks
        then Inl (TooManyBlocks (length (f_blocks frame)))
      else case check_blocks [] (f_blocks frame) of
        Some e \<Rightarrow> Inl e
      | None \<Rightarrow>
          let body = encode_header frame @ concat (map encode_block (f_blocks frame))
          in Inr (body @ write_u32 (checksum body)))"

subsection \<open>decode\<close>

text \<open>
  The loop over the blocks. The fuel of the recursion is the number of blocks still to be
  read, which is what the loop of the code counts; \<open>offset\<close> is its cursor.
\<close>

fun decode_blocks ::
  "nat \<Rightarrow> bytes \<Rightarrow> nat \<Rightarrow> nat \<Rightarrow> u8 list \<Rightarrow> wire_error + (block list \<times> nat)" where
  "decode_blocks 0 data payload_end offset seen = Inr ([], offset)"
| "decode_blocks (Suc n) data payload_end offset seen =
     (if offset + k_block_header_bytes > payload_end then Inl EndsInBlockHeader
      else
        let index = data ! offset; raw_type = data ! (offset + 1) in
        case parse_payload_type raw_type of
          None \<Rightarrow> Inl (UnknownPayload index raw_type)
        | Some payload \<Rightarrow>
            if \<not> supported_here payload then Inl (UnsupportedPayload index payload)
            else
              let channels = data ! (offset + 2) in
              if data ! (offset + 3) \<noteq> 0 then Inl (BlockReservedNotZero index)
              else
                let size = unat (read_u32 data (offset + 4));
                    start = offset + k_block_header_bytes;
                    stride = unat channels * sample_bytes payload in
                if unat index \<ge> k_max_blocks then Inl (IndexOutOfRange index)
                else if index \<in> set seen then Inl (DuplicateIndex index)
                else if channels \<noteq> k_block_channels then Inl (WrongChannels index channels)
                else if stride \<noteq> 0 \<and> (size = 0 \<or> size mod stride \<noteq> 0)
                  then Inl (NotWholeFrames index size channels)
                else if size = 0 then Inl (NoPayload index)
                else if start + size > payload_end then Inl (PastTheEnd index size)
                else
                  case decode_blocks n data payload_end (start + size) (index # seen) of
                    Inl e \<Rightarrow> Inl e
                  | Inr (rest, stop) \<Rightarrow>
                      Inr (\<lparr>b_index = index, b_payload = payload, b_channels = channels,
                            b_data = take size (drop start data)\<rparr> # rest, stop))"

definition decode :: "bytes option \<Rightarrow> wire_error + frame" where
  "decode ptr =
     (case ptr of
        None \<Rightarrow> Inl NoFrameToFill
      | Some data \<Rightarrow>
          let size = length data; payload_end = size - k_checksum_bytes in
          if size < k_frame_header_bytes + k_checksum_bytes then Inl (ShorterThanHeader size)
          else if read_u32 data 0 \<noteq> k_magic then Inl NotOurMagic
          else if read_u16 data 4 \<noteq> k_version then Inl (WrongVersion (read_u16 data 4))
          else if read_u16 data 6 \<noteq> 0 then Inl (ReservedFlags (read_u16 data 6))
          else if read_u32 data payload_end \<noteq> checksum (take payload_end data)
            then Inl (ChecksumMismatch (read_u32 data payload_end)
                                       (checksum (take payload_end data)))
          else if data ! 10 = 0 \<or> unat (data ! 10) > k_max_blocks
            then Inl (WrongBlockCount (data ! 10))
          else if data ! 11 \<noteq> 0 then Inl ReservedNotZero
          else
            case decode_blocks (unat (data ! 10)) data payload_end k_frame_header_bytes [] of
              Inl e \<Rightarrow> Inl e
            | Inr (blocks, offset) \<Rightarrow>
                if offset \<noteq> payload_end then Inl (TrailingBytes (payload_end - offset))
                else Inr \<lparr>f_link_id = read_u16 data 8, f_sequence = read_u64 data 12,
                          f_sample_position = read_u64 data 20, f_blocks = blocks\<rparr>)"

subsection \<open>frame\_length\<close>

datatype length_status = Known nat | Incomplete | Invalid wire_error

fun walk_block_headers :: "nat \<Rightarrow> bytes \<Rightarrow> nat \<Rightarrow> length_status" where
  "walk_block_headers 0 data offset =
     (if offset + k_checksum_bytes > k_max_frame_bytes then Invalid LengthOverCeiling
      else Known (offset + k_checksum_bytes))"
| "walk_block_headers (Suc n) data offset =
     (if length data < offset + k_block_header_bytes then Incomplete
      else
        let offset' = offset + k_block_header_bytes + unat (read_u32 data (offset + 4)) in
        if offset' > k_max_frame_bytes then Invalid LengthOverCeiling
        else walk_block_headers n data offset')"

definition frame_length :: "bytes option \<Rightarrow> length_status" where
  "frame_length ptr =
     (case ptr of
        None \<Rightarrow> Invalid NoFrameToMeasure
      | Some data \<Rightarrow>
          if length data < 4 then Incomplete
          else if read_u32 data 0 \<noteq> k_magic then Invalid NotOurMagic
          else if length data < k_frame_header_bytes then Incomplete
          else if read_u16 data 4 \<noteq> k_version then Invalid (WrongVersion (read_u16 data 4))
          else if data ! 10 = 0 \<or> unat (data ! 10) > k_max_blocks
            then Invalid (WrongBlockCount (data ! 10))
          else walk_block_headers (unat (data ! 10)) data k_frame_header_bytes)"

subsection \<open>Fields: what is written is what is read\<close>

lemma read_write_u16: "read_u16 (write_u16 v @ post) 0 = v"
proof (rule bit_word_eqI)
  fix n assume "n < LENGTH(16)"
  then consider "n < 8" | "8 \<le> n" "n < 16" by fastforce
  then show "bit (read_u16 (write_u16 v @ post) 0) n = bit v n"
    by cases (auto simp: read_u16_def write_u16_def ucast_low_byte bit_simps)
qed

lemma read_write_u32: "read_u32 (write_u32 v @ post) 0 = v"
proof (rule bit_word_eqI)
  fix n assume "n < LENGTH(32)"
  then consider "n < 8" | "8 \<le> n" "n < 16" | "16 \<le> n" "n < 24" | "24 \<le> n" "n < 32" by fastforce
  then show "bit (read_u32 (write_u32 v @ post) 0) n = bit v n"
    by cases (auto simp: read_u32_def write_u32_def ucast_low_byte bit_simps)
qed

lemma upt8: "[0..<8] = [0, 1, 2, 3, 4, 5, 6, 7::nat]"
  by (simp add: upt_rec)

lemma foldl_bytes_u64:
  "foldl (\<lambda>acc i. push_bit 8 acc OR ucast (ucast (drop_bit (i * 8) v) :: u8)) acc (rev [0..<k])
     = push_bit (8 * k) acc OR take_bit (8 * k) (v :: u64)"
proof (induction k arbitrary: acc)
  case 0
  then show ?case by simp
next
  case (Suc k)
  have "push_bit (8 * k) (push_bit 8 acc OR ucast (ucast (drop_bit (k * 8) v) :: u8))
          OR take_bit (8 * k) v = push_bit (8 * Suc k) acc OR take_bit (8 * Suc k) v"
  proof (rule bit_word_eqI)
    fix n assume "n < LENGTH(64)"
    then consider "n < 8 * k" | "8 * k \<le> n" "n < 8 * k + 8" | "8 * k + 8 \<le> n" by linarith
    then show "bit (push_bit (8 * k) (push_bit 8 acc OR ucast (ucast (drop_bit (k * 8) v) :: u8))
          OR take_bit (8 * k) v) n = bit (push_bit (8 * Suc k) acc OR take_bit (8 * Suc k) v) n"
      using \<open>n < LENGTH(64)\<close>
      by cases (auto simp: bit_simps ac_simps diff_diff_left)
  qed
  then show ?case by (simp add: Suc.IH)
qed

lemma read_write_u64: "read_u64 (write_u64 v @ post) 0 = v"
proof -
  have "read_u64 (write_u64 v @ post) 0 =
     foldl (\<lambda>acc i. push_bit 8 acc OR ucast (ucast (drop_bit (i * 8) v) :: u8)) 0 (rev [0..<8])"
    by (simp add: read_u64_def write_u64_def upt8 ucast_low_byte)
  also have "\<dots> = v"
    by (simp only: foldl_bytes_u64) (simp add: take_bit_word_eq_self)
  finally show ?thesis .
qed

lemma write_u64_push:
  "write_u64 (push_bit 8 v OR ucast b) = tl (write_u64 v) @ [b]" for b :: u8
proof -
  have "(ucast (drop_bit (Suc i * 8) (push_bit 8 v OR ucast b)) :: u8) = ucast (drop_bit (i * 8) v)"
    if "i < 7" for i using that by (auto simp: bit_eq_iff bit_simps dest: bit_u8_lt)
  from this [of 0] this [of 1] this [of 2] this [of 3] this [of 4] this [of 5] this [of 6]
  show ?thesis
    by (auto simp: write_u64_def upt8 ucast_low_byte bit_eq_iff bit_simps dest: bit_u8_lt)
qed

lemma write_u64_0: "write_u64 0 = replicate 8 0"
  by (simp add: write_u64_def upt8 numeral_eq_Suc)

lemma write_read_u64:
  "write_u64 (foldl (\<lambda>v b. push_bit 8 v OR ucast b) 0 [a, b, c, d, e, f, g, h])
     = [a, b, c, d, e, f, g, h]" for a :: u8
  by (simp only: foldl.simps write_u64_push write_u64_0) (simp add: numeral_eq_Suc)

lemma write_read_u16: "write_u16 (push_bit 8 (ucast a) OR ucast b) = [a, b]"
  by (auto simp: write_u16_def ucast_low_byte bit_eq_iff bit_simps dest: bit_u8_lt)

lemma write_read_u32:
  "write_u32 (push_bit 24 (ucast a) OR push_bit 16 (ucast b) OR push_bit 8 (ucast c) OR ucast d)
     = [a, b, c, d]"
  by (auto simp: write_u32_def ucast_low_byte bit_eq_iff bit_simps dest: bit_u8_lt)

lemma length_write [simp]:
  "length (write_u16 x) = 2" "length (write_u32 y) = 4" "length (write_u64 z) = 8"
  by (simp_all add: write_u16_def write_u32_def write_u64_def)

lemma read_u32_shift: "length pre = k \<Longrightarrow> read_u32 (pre @ ys) (k + i) = read_u32 ys i"
  by (simp add: read_u32_def nth_append)

lemma read_u16_shift: "length pre = k \<Longrightarrow> read_u16 (pre @ ys) (k + i) = read_u16 ys i"
  by (simp add: read_u16_def nth_append)

lemma read_u64_shift: "length pre = k \<Longrightarrow> read_u64 (pre @ ys) (k + i) = read_u64 ys i"
  by (simp add: read_u64_def upt8 nth_append)

lemma read_u32_at: "length pre = k \<Longrightarrow> read_u32 (pre @ write_u32 v @ post) k = v"
  using read_u32_shift [of pre k _ 0] by (simp add: read_write_u32)

lemma read_u16_at: "length pre = k \<Longrightarrow> read_u16 (pre @ write_u16 v @ post) k = v"
  using read_u16_shift [of pre k _ 0] by (simp add: read_write_u16)

lemma read_u64_at: "length pre = k \<Longrightarrow> read_u64 (pre @ write_u64 v @ post) k = v"
  using read_u64_shift [of pre k _ 0] by (simp add: read_write_u64)

lemma write_read_u16_at: "k + 2 \<le> length d \<Longrightarrow> write_u16 (read_u16 d k) = take 2 (drop k d)"
  by (simp add: read_u16_def write_read_u16 take_drop_nth2)

lemma write_read_u32_at: "k + 4 \<le> length d \<Longrightarrow> write_u32 (read_u32 d k) = take 4 (drop k d)"
  by (simp add: read_u32_def write_read_u32 take_drop_nth4)

lemma take_drop_nth: "k + n \<le> length xs \<Longrightarrow> take n (drop k xs) = map (\<lambda>i. xs ! (k + i)) [0..<n]"
  by (rule nth_equalityI) auto

lemma write_read_u64_at: "k + 8 \<le> length d \<Longrightarrow> write_u64 (read_u64 d k) = take 8 (drop k d)"
  using write_read_u64 [of "d ! k" "d ! (k+1)" "d ! (k+2)" "d ! (k+3)" "d ! (k+4)" "d ! (k+5)"
      "d ! (k+6)" "d ! (k+7)"]
  by (simp add: read_u64_def upt8 take_drop_nth)

subsection \<open>Blocks\<close>

lemma parse_payload_code: "parse_payload_type (payload_code t) = Some t"
  by (cases t) (simp_all add: parse_payload_type_def)

lemma parse_payload_SomeD: "parse_payload_type raw = Some t \<Longrightarrow> payload_code t = raw"
proof -
  assume h: "parse_payload_type raw = Some t"
  then have "raw \<le> 3" by (auto simp: parse_payload_type_def split: if_splits)
  then have "unat raw \<le> 3" by (simp add: word_le_nat_alt)
  then have "raw = 0 \<or> raw = 1 \<or> raw = 2 \<or> raw = 3"
    unfolding word_unat_eq_iff by auto
  then show "payload_code t = raw"
    using h by (auto simp: parse_payload_type_def split: if_splits)
qed

lemma length_encode_block: "length (encode_block b) = k_block_header_bytes + length (b_data b)"
  by (simp add: encode_block_def k_block_header_bytes_def)

lemma length_encode_header: "length (encode_header f) = k_frame_header_bytes"
  by (simp add: encode_header_def k_frame_header_bytes_def)

lemma encode_block_nth:
  assumes "length pre = k"
  shows "(pre @ encode_block b @ post) ! k = b_index b"
    and "(pre @ encode_block b @ post) ! Suc k = payload_code (b_payload b)"
    and "(pre @ encode_block b @ post) ! (k + 2) = b_channels b"
    and "(pre @ encode_block b @ post) ! (k + 3) = 0"
    and "read_u32 (pre @ encode_block b @ post) (k + 4) = of_nat (length (b_data b))"
    and "take (length (b_data b)) (drop (k + 8) (pre @ encode_block b @ post)) = b_data b"
proof -
  show "(pre @ encode_block b @ post) ! k = b_index b"
    and "(pre @ encode_block b @ post) ! Suc k = payload_code (b_payload b)"
    and "(pre @ encode_block b @ post) ! (k + 2) = b_channels b"
    and "(pre @ encode_block b @ post) ! (k + 3) = 0"
    using assms by (simp_all add: encode_block_def nth_append nth_Cons')
  have "pre @ encode_block b @ post =
      (pre @ [b_index b, payload_code (b_payload b), b_channels b, 0])
      @ write_u32 (of_nat (length (b_data b))) @ b_data b @ post"
    by (simp add: encode_block_def)
  then show "read_u32 (pre @ encode_block b @ post) (k + 4) = of_nat (length (b_data b))"
    using assms by (simp only:) (rule read_u32_at, simp)
  show "take (length (b_data b)) (drop (k + 8) (pre @ encode_block b @ post)) = b_data b"
    using assms by (simp add: encode_block_def write_u32_def)
qed

lemma unat_k_block_channels [simp]: "unat k_block_channels = 8"
  by (simp add: k_block_channels_def)

lemma check_block_facts:
  "check_block seen b = None \<longleftrightarrow>
     unat (b_index b) < k_max_blocks \<and> b_index b \<notin> set seen \<and> supported_here (b_payload b)
     \<and> b_channels b = k_block_channels
     \<and> (sample_bytes (b_payload b) = 0 \<or>
          length (b_data b) mod (8 * sample_bytes (b_payload b)) = 0)
     \<and> b_data b \<noteq> [] \<and> length (b_data b) \<le> 0xFFFFFFFF"
  by (auto simp: check_block_def Let_def not_le not_less)

lemma decode_blocks_encode:
  "check_blocks seen bs = None \<Longrightarrow> length pre = off \<Longrightarrow>
   decode_blocks (length bs) (pre @ concat (map encode_block bs) @ post)
     (off + length (concat (map encode_block bs))) off seen
     = Inr (bs, off + length (concat (map encode_block bs)))"
proof (induction bs arbitrary: seen pre off)
  case Nil
  then show ?case by simp
next
  case (Cons b bs)
  let ?rest = "concat (map encode_block bs)"
  let ?data = "pre @ encode_block b @ ?rest @ post"
  have ok: "check_block seen b = None" and rest: "check_blocks (b_index b # seen) bs = None"
    using Cons.prems(1) by (auto split: option.splits)
  note b = ok [unfolded check_block_facts]
  have size: "unat (of_nat (length (b_data b)) :: u32) = length (b_data b)"
    using b by (simp add: unat_of_nat)
  have stop: "off + length (encode_block b @ ?rest) =
      (off + length (encode_block b)) + length ?rest" by simp
  have IH: "decode_blocks (length bs) ?data (off + length (encode_block b) + length ?rest)
      (off + length (encode_block b)) (b_index b # seen)
      = Inr (bs, off + length (encode_block b) + length ?rest)"
    using Cons.IH [OF rest, of "pre @ encode_block b" "off + length (encode_block b)"]
      Cons.prems(2) by simp
  show ?case
    using b IH encode_block_nth [OF Cons.prems(2), of b "?rest @ post"]
    by (simp add: Let_def parse_payload_code size length_encode_block k_block_header_bytes_def
        ac_simps)
qed


lemma decode_blocks_Suc_InrD:
  assumes "decode_blocks (Suc n) data pe off seen = Inr (bs, stop)" and "pe \<le> length data"
  obtains b rest where "bs = b # rest" "check_block seen b = None"
    "off + 8 + length (b_data b) \<le> pe"
    "take (8 + length (b_data b)) (drop off data) = encode_block b"
    "decode_blocks n data pe (off + 8 + length (b_data b)) (b_index b # seen) = Inr (rest, stop)"
proof -
  obtain t where t: "parse_payload_type (data ! Suc off) = Some t"
    using assms(1) by (auto simp: Let_def split: if_splits option.splits)
  let ?size = "unat (read_u32 data (off + 4))"
  obtain rest where bs: "bs = \<lparr>b_index = data ! off, b_payload = t, b_channels = data ! (off + 2),
        b_data = take ?size (drop (off + 8) data)\<rparr> # rest" (is "_ = ?b # _")
    and rec: "decode_blocks n data pe (off + 8 + ?size) (data ! off # seen) = Inr (rest, stop)"
    and g: "off + 8 \<le> pe" "supported_here t" "data ! (off + 3) = 0"
      "unat (data ! off) < k_max_blocks" "data ! off \<notin> set seen"
      "data ! (off + 2) = k_block_channels"
      "sample_bytes t = 0 \<or> ?size mod (8 * sample_bytes t) = 0"
      "?size \<noteq> 0" "off + 8 + ?size \<le> pe"
    using assms(1) t
    by (auto simp: Let_def k_block_header_bytes_def not_le not_less
        split: if_splits sum.splits)
  have len: "length (b_data ?b) = ?size" using g assms(2) by simp
  have szle: "?size \<le> 0xFFFFFFFF"
    using unat_u32_lt [of "read_u32 data (off + 4)"] by simp
  have ok: "check_block seen ?b = None"
    using g szle assms(2) by (simp add: check_block_facts)
  have code: "payload_code t = data ! Suc off" using t by (rule parse_payload_SomeD)
  have "take (8 + ?size) (drop off data) =
      take 4 (drop off data) @ take 4 (drop (off + 4) data) @ take ?size (drop (off + 8) data)"
    using take_add [of 8 ?size "drop off data"] take_add [of 4 4 "drop off data"]
    by (simp add: ac_simps)
  also have "take 4 (drop off data) = [data ! off, data ! Suc off, data ! (off + 2), data ! (off + 3)]"
    using g assms(2) by (simp add: take_drop_nth4)
  also have "take 4 (drop (off + 4) data) = write_u32 (of_nat ?size)"
    using g assms(2) by (simp add: write_read_u32_at)
  finally have enc: "take (8 + length (b_data ?b)) (drop off data) = encode_block ?b"
    unfolding len using g assms(2) by (simp add: encode_block_def code)
  show thesis
    by (rule that [OF bs ok _ enc]) (use g rec len in simp_all)
qed

lemma decode_blocks_sound:
  "decode_blocks n data pe off seen = Inr (bs, stop) \<Longrightarrow> pe \<le> length data \<Longrightarrow> off \<le> pe \<Longrightarrow>
     length bs = n \<and> check_blocks seen bs = None \<and> off \<le> stop \<and> stop \<le> pe
     \<and> take (stop - off) (drop off data) = concat (map encode_block bs)"
proof (induction n arbitrary: off seen bs)
  case 0
  then show ?case by simp
next
  case (Suc n)
  from decode_blocks_Suc_InrD [OF Suc.prems(1,2)] obtain b rest where
    b: "bs = b # rest" "check_block seen b = None" "off + 8 + length (b_data b) \<le> pe"
      "take (8 + length (b_data b)) (drop off data) = encode_block b"
    and rec: "decode_blocks n data pe (off + 8 + length (b_data b)) (b_index b # seen)
      = Inr (rest, stop)" by metis
  let ?off = "off + 8 + length (b_data b)"
  note IH = Suc.IH [OF rec Suc.prems(2) b(3)]
  have "stop - off = (8 + length (b_data b)) + (stop - ?off)" using IH by linarith
  then have "take (stop - off) (drop off data) =
      take (8 + length (b_data b)) (drop off data) @ take (stop - ?off) (drop ?off data)"
    by (simp only: take_add drop_drop) (simp add: ac_simps)
  then show ?case using IH b by simp
qed

subsection \<open>Round trips\<close>

lemma header_fields:
  fixes rest :: bytes and f :: frame
  defines "d \<equiv> encode_header f @ rest"
  shows "read_u32 d 0 = k_magic" "read_u16 d 4 = k_version" "read_u16 d 6 = 0"
    "read_u16 d 8 = f_link_id f" "d ! 10 = of_nat (length (f_blocks f))" "d ! 11 = 0"
    "read_u64 d 12 = f_sequence f" "read_u64 d 20 = f_sample_position f"
proof -
  let ?A = "write_u32 k_magic" and ?B = "write_u16 k_version" and ?C = "write_u16 0"
    and ?D = "write_u16 (f_link_id f)" and ?E = "[of_nat (length (f_blocks f)), 0] :: bytes"
    and ?F = "write_u64 (f_sequence f)" and ?G = "write_u64 (f_sample_position f)"
  have d: "d = ?A @ ?B @ ?C @ ?D @ ?E @ ?F @ ?G @ rest"
    by (simp add: d_def encode_header_def)
  show "read_u32 d 0 = k_magic" unfolding d by (rule read_write_u32)
  show "read_u16 d 4 = k_version" unfolding d by (rule read_u16_at) simp
  show "read_u16 d 6 = 0" unfolding d
    using read_u16_at [of "?A @ ?B" 6 0] by simp
  show "read_u16 d 8 = f_link_id f" unfolding d
    using read_u16_at [of "?A @ ?B @ ?C" 8 "f_link_id f"] by simp
  show "d ! 10 = of_nat (length (f_blocks f))" "d ! 11 = 0"
    unfolding d by (simp_all add: nth_append)
  show "read_u64 d 12 = f_sequence f" unfolding d
    using read_u64_at [of "?A @ ?B @ ?C @ ?D @ ?E" 12 "f_sequence f"] by simp
  show "read_u64 d 20 = f_sample_position f" unfolding d
    using read_u64_at [of "?A @ ?B @ ?C @ ?D @ ?E @ ?F" 20 "f_sample_position f"] by simp
qed

lemma encode_InrD:
  assumes "encode f = Inr data"
  shows "f_blocks f \<noteq> []" "length (f_blocks f) \<le> 8" "check_blocks [] (f_blocks f) = None"
    and "data = (encode_header f @ concat (map encode_block (f_blocks f)))
          @ write_u32 (checksum (encode_header f @ concat (map encode_block (f_blocks f))))"
  using assms by (auto simp: encode_def k_max_blocks_def Let_def split: if_splits option.splits)

lemma length_encode: "encode f = Inr data \<Longrightarrow> length data = encoded_size f"
  by (auto dest!: encode_InrD(4)
      simp: encoded_size_def length_encode_header k_checksum_bytes_def length_concat comp_def
        length_encode_block)

lemma decode_encode_aux:
  assumes "encode f = Inr data"
  shows "decode (Some data) = Inr f"
proof -
  note e = encode_InrD [OF assms]
  let ?blocks = "concat (map encode_block (f_blocks f))"
  let ?body = "encode_header f @ ?blocks"
  let ?crc = "write_u32 (checksum ?body)"
  have data: "data = ?body @ ?crc" by (rule e(4))
  then have data': "data = encode_header f @ ?blocks @ ?crc" by simp
  have size: "length data = 32 + length ?blocks"
    by (simp add: data length_encode_header k_frame_header_bytes_def)
  have pe: "length data - k_checksum_bytes = 28 + length ?blocks"
    by (simp add: size k_checksum_bytes_def)
  have stored: "read_u32 data (28 + length ?blocks) = checksum ?body"
    using read_u32_at [of ?body "28 + length ?blocks" "checksum ?body" "[]"]
    by (simp add: data length_encode_header k_frame_header_bytes_def)
  have body: "take (28 + length ?blocks) data = ?body"
    by (simp add: data length_encode_header k_frame_header_bytes_def)
  have count: "unat (of_nat (length (f_blocks f)) :: u8) = length (f_blocks f)"
    using e(2) by (simp add: unat_of_nat)
  have blocks: "decode_blocks (length (f_blocks f)) data (28 + length ?blocks) 28 []
      = Inr (f_blocks f, 28 + length ?blocks)"
    unfolding data'
    by (rule decode_blocks_encode [OF e(3)])
      (simp add: length_encode_header k_frame_header_bytes_def)
  have nz: "(of_nat (length (f_blocks f)) :: u8) \<noteq> 0"
    using count e(1) by (metis length_0_conv unsigned_0)
  note h = header_fields [of f "?blocks @ ?crc", folded data']
  show ?thesis
    using e(1,2) nz
    by (simp add: decode_def Let_def pe stored body h count blocks k_frame_header_bytes_def
        k_checksum_bytes_def k_max_blocks_def size)
qed

lemma decode_InrD:
  assumes "decode (Some data) = Inr f"
  shows "32 \<le> length data" "read_u32 data 0 = k_magic" "read_u16 data 4 = k_version"
    "read_u16 data 6 = 0" "read_u32 data (length data - 4) = checksum (take (length data - 4) data)"
    "data ! 10 \<noteq> 0" "unat (data ! 10) \<le> 8" "data ! 11 = 0"
    "decode_blocks (unat (data ! 10)) data (length data - 4) 28 []
       = Inr (f_blocks f, length data - 4)"
    "f_link_id f = read_u16 data 8" "f_sequence f = read_u64 data 12"
    "f_sample_position f = read_u64 data 20"
  using assms
  by (auto simp: decode_def Let_def wire_consts not_less not_le
      split: if_splits sum.splits)

lemma encode_decode_aux:
  assumes "decode (Some data) = Inr f"
  shows "encode f = Inr data"
proof -
  note d = decode_InrD [OF assms]
  have blocks: "length (f_blocks f) = unat (data ! 10)" "check_blocks [] (f_blocks f) = None"
    "take (length data - 4 - 28) (drop 28 data) = concat (map encode_block (f_blocks f))"
    using decode_blocks_sound [OF d(9)] d(1) by auto
  have "take 28 data =
      take 4 data @ take 2 (drop 4 data) @ take 2 (drop 6 data) @ take 2 (drop 8 data)
      @ take 2 (drop 10 data) @ take 8 (drop 12 data) @ take 8 (drop 20 data)"
    using take_add [of 4 24 data] take_add [of 2 22 "drop 4 data"] take_add [of 2 20 "drop 6 data"]
      take_add [of 2 18 "drop 8 data"] take_add [of 2 16 "drop 10 data"]
      take_add [of 8 8 "drop 12 data"] by simp
  also have "\<dots> = encode_header f"
    using d(1-4,8,10-12)
      write_read_u32_at [of 0 data] write_read_u16_at [of 4 data] write_read_u16_at [of 6 data]
      write_read_u16_at [of 8 data] write_read_u64_at [of 12 data] write_read_u64_at [of 20 data]
    by (simp add: encode_header_def blocks(1) take_drop_nth2)
  finally have head: "take 28 data = encode_header f" .
  have "take (length data - 4) data = take 28 data @ take (length data - 4 - 28) (drop 28 data)"
    using take_add [of 28 "length data - 4 - 28" data] d(1) by simp
  then have body: "take (length data - 4) data =
      encode_header f @ concat (map encode_block (f_blocks f))"
    by (simp only: head blocks(3))
  have "drop (length data - 4) data = write_u32 (checksum (take (length data - 4) data))"
    using write_read_u32_at [of "length data - 4" data] d(1,5) by simp
  then have "data = take (length data - 4) data
      @ write_u32 (checksum (take (length data - 4) data))"
    by (metis append_take_drop_id)
  then have data: "data = (encode_header f @ concat (map encode_block (f_blocks f)))
      @ write_u32 (checksum (encode_header f @ concat (map encode_block (f_blocks f))))"
    by (simp only: body)
  have "f_blocks f \<noteq> []"
    using blocks(1) d(6) by (auto simp: unat_eq_0)
  then show ?thesis
    using blocks(1,2) d(7) data
    by (simp add: encode_def Let_def k_max_blocks_def)
qed

lemma corrupt_byte_refused_aux:
  assumes "decode (Some data) = Inr f" and "i < length data" and "x \<noteq> data ! i"
  shows "refused (decode (Some (data[i := x])))"
proof (rule ccontr)
  assume "\<not> refused (decode (Some (data[i := x])))"
  then obtain g where "decode (Some (data[i := x])) = Inr g"
    using not_refused_iff [of "decode (Some (data[i := x]))"] by blast
  note g = decode_InrD(5) [OF this] and d = decode_InrD(1,5) [OF assms(1)]
  let ?n = "length data - 4"
  show False
  proof (cases "i < ?n")
    case True
    then have "take ?n (data[i := x]) = (take ?n data)[i := x]"
      by (simp add: take_update_swap)
    moreover have "read_u32 (data[i := x]) ?n = read_u32 data ?n"
      using True by (simp add: read_u32_def)
    ultimately have "checksum ((take ?n data)[i := x]) = checksum (take ?n data)"
      using g d(2) by simp
    then show False
      using checksum_update_neq [of i "take ?n data" x] True assms(3) d(1) by simp
  next
    case False
    then have "take ?n (data[i := x]) = take ?n data" by simp
    then have same: "read_u32 (data[i := x]) ?n = read_u32 data ?n"
      using g d(2) by simp
    have "drop ?n (data[i := x]) = drop ?n data"
      using write_read_u32_at [of ?n data] write_read_u32_at [of ?n "data[i := x]"] d(1) same
      by simp
    then have "drop ?n (data[i := x]) ! (i - ?n) = drop ?n data ! (i - ?n)" by simp
    then show False using False assms(2,3) d(1) by simp
  qed
qed


subsection \<open>The length of a frame, from a prefix\<close>

lemma read_u32_take: "k + 4 \<le> n \<Longrightarrow> read_u32 (take n d) k = read_u32 d k"
  by (simp add: read_u32_def)

lemma walk_prefix:
  "check_blocks seen bs = None \<Longrightarrow> length pre = off \<Longrightarrow>
   off + length (concat (map encode_block bs)) + k_checksum_bytes \<le> k_max_frame_bytes \<Longrightarrow>
   walk_block_headers (length bs) (take n (pre @ concat (map encode_block bs) @ post)) off
     \<in> {Known (off + length (concat (map encode_block bs)) + k_checksum_bytes)}
       \<union> (if off + length (concat (map encode_block bs))
             \<le> min n (off + length (concat (map encode_block bs)) + length post)
          then {} else {Incomplete})"
proof (induction bs arbitrary: seen pre off)
  case Nil
  then show ?case by (simp add: wire_consts)
next
  case (Cons b bs)
  let ?rest = "concat (map encode_block bs)"
  let ?data = "pre @ encode_block b @ ?rest @ post"
  have ok: "check_block seen b = None" and rest: "check_blocks (b_index b # seen) bs = None"
    using Cons.prems(1) by (auto split: option.splits)
  have size: "unat (of_nat (length (b_data b)) :: u32) = length (b_data b)"
    using ok by (simp add: check_block_facts unat_of_nat)
  let ?off = "off + length (encode_block b)"
  have IH: "walk_block_headers (length bs) (take n ?data) ?off
     \<in> {Known (?off + length ?rest + k_checksum_bytes)}
       \<union> (if ?off + length ?rest \<le> min n (?off + length ?rest + length post)
          then {} else {Incomplete})"
    using Cons.IH [OF rest, of "pre @ encode_block b" ?off] Cons.prems(2,3) by simp
  show ?case
  proof (cases "n < off + k_block_header_bytes")
    case True
    then have "length (take n ?data) < off + k_block_header_bytes" by simp
    then have "walk_block_headers (length (b # bs)) (take n ?data) off = Incomplete"
      by (simp only: length_Cons walk_block_headers.simps if_True)
    then show ?thesis using True
      by (simp add: k_block_header_bytes_def length_encode_block)
  next
    case False
    have field: "read_u32 (take n ?data) (off + 4) = of_nat (length (b_data b))"
      using False encode_block_nth(5) [OF Cons.prems(2), of b "?rest @ post"]
      by (simp add: read_u32_take k_block_header_bytes_def del: take_append)
    have bound: "\<not> off + 8 + length (b_data b) > k_max_frame_bytes"
      using Cons.prems(3) by (simp add: length_encode_block k_block_header_bytes_def)
    have long: "\<not> length (take n ?data) < off + 8"
      using False Cons.prems(2) by (simp add: length_encode_block k_block_header_bytes_def)
    have next_off: "off + 8 + length (b_data b) = ?off"
      by (simp add: length_encode_block k_block_header_bytes_def)
    have "walk_block_headers (length (b # bs)) (take n ?data) off
        = walk_block_headers (length bs) (take n ?data) ?off"
      using long bound
      by (simp only: length_Cons walk_block_headers.simps Let_def field size
          k_block_header_bytes_def next_off if_False)
    then show ?thesis using IH by (simp add: ac_simps)
  qed
qed

lemma frame_length_prefix_aux:
  assumes "encode f = Inr data" and "length data \<le> k_max_frame_bytes"
  shows "frame_length (Some (take n data)) \<in> {Incomplete, Known (length data)}"
    and "frame_length (Some data) = Known (length data)"
proof -
  note e = encode_InrD [OF assms(1)]
  let ?blocks = "concat (map encode_block (f_blocks f))"
  let ?crc = "write_u32 (checksum (encode_header f @ ?blocks))"
  have data: "data = encode_header f @ ?blocks @ ?crc" using e(4) by simp
  have total: "28 + length ?blocks + k_checksum_bytes = length data"
    by (simp add: data length_encode_header k_frame_header_bytes_def k_checksum_bytes_def)
  have walk: "walk_block_headers (length (f_blocks f)) (take m data) 28
     \<in> {Known (length data)} \<union> (if length data \<le> m then {} else {Incomplete})" for m
  proof -
    have "walk_block_headers (length (f_blocks f)) (take m data) 28
     \<in> {Known (length data)} \<union>
       (if 28 + length ?blocks \<le> min m (28 + length ?blocks + length ?crc) then {} else {Incomplete})"
      using walk_prefix [OF e(3), of "encode_header f" 28 m ?crc] assms(2)
      by (simp add: total data [symmetric] length_encode_header k_frame_header_bytes_def)
    then show ?thesis using total by (auto simp: k_checksum_bytes_def split: if_splits)
  qed
  have count: "unat (of_nat (length (f_blocks f)) :: u8) = length (f_blocks f)"
    using e(2) by (simp add: unat_of_nat)
  have nz: "(of_nat (length (f_blocks f)) :: u8) \<noteq> 0"
    using count e(1) by (metis length_0_conv unsigned_0)
  note h = header_fields [of f "?blocks @ ?crc", folded data]
  have head: "read_u32 (take m data) 0 = k_magic" if "4 \<le> m" for m
    using h(1) that by (simp add: read_u32_take)
  have fields: "read_u16 (take m data) 4 = k_version"
    "take m data ! 10 = of_nat (length (f_blocks f))" if "28 \<le> m" for m
    using h(2,5) that by (simp_all add: read_u16_def)
  have all: "frame_length (Some (take m data)) = (if min m (length data) < 28 then Incomplete
      else walk_block_headers (length (f_blocks f)) (take m data) 28)" for m
    using head [of m] fields [of m] count nz e(2) total
    by (auto simp: frame_length_def k_frame_header_bytes_def k_max_blocks_def)
  show "frame_length (Some (take n data)) \<in> {Incomplete, Known (length data)}"
    using walk [of n] by (auto simp: all split: if_splits)
  show "frame_length (Some data) = Known (length data)"
    using walk [of "length data"] all [of "length data"] total by simp
qed

subsection \<open>What a frame has to be\<close>

text \<open>The contract of \<open>encode\<close>, stated without its loop.\<close>

definition wf_block :: "block \<Rightarrow> bool" where
  "wf_block b \<longleftrightarrow>
     unat (b_index b) < k_max_blocks \<and> supported_here (b_payload b)
     \<and> b_channels b = k_block_channels \<and> b_data b \<noteq> [] \<and> length (b_data b) < 2 ^ 32
     \<and> (sample_bytes (b_payload b) \<noteq> 0 \<longrightarrow>
          (\<exists>frames. length (b_data b) = payload_bytes (b_payload b) k_block_channels frames))"

definition wf_frame :: "frame \<Rightarrow> bool" where
  "wf_frame f \<longleftrightarrow>
     f_blocks f \<noteq> [] \<and> length (f_blocks f) \<le> k_max_blocks
     \<and> distinct (map b_index (f_blocks f)) \<and> (\<forall>b \<in> set (f_blocks f). wf_block b)"

lemma check_block_wf: "check_block seen b = None \<longleftrightarrow> b_index b \<notin> set seen \<and> wf_block b"
proof -
  have "length (b_data b) mod (8 * s) = 0 \<longleftrightarrow> (\<exists>frames. length (b_data b) = frames * 8 * s)" for s
    by (auto simp: mod_0_imp_dvd dvd_def ac_simps)
  then show ?thesis
    by (auto simp: check_block_facts wf_block_def payload_bytes_def)
qed

lemma check_blocks_wf:
  "check_blocks seen bs = None \<longleftrightarrow>
     distinct (map b_index bs) \<and> set (map b_index bs) \<inter> set seen = {} \<and> (\<forall>b \<in> set bs. wf_block b)"
proof (induction bs arbitrary: seen)
  case Nil
  then show ?case by simp
next
  case (Cons b bs)
  have "check_blocks seen (b # bs) = None \<longleftrightarrow>
      check_block seen b = None \<and> check_blocks (b_index b # seen) bs = None"
    by (auto split: option.splits)
  then show ?case by (auto simp: Cons.IH check_block_wf)
qed

lemma encode_InrI:
  assumes "wf_frame f" shows "\<exists>data. encode f = Inr data"
proof -
  have "check_blocks [] (f_blocks f) = None"
    using assms by (simp add: wf_frame_def check_blocks_wf)
  then show ?thesis using assms by (simp add: wf_frame_def encode_def Let_def)
qed

lemma encode_wf: "encode f = Inr data \<Longrightarrow> wf_frame f"
  using encode_InrD [of f data] by (simp add: wf_frame_def check_blocks_wf k_max_blocks_def)

definition example_block :: block where
  "example_block = \<lparr>b_index = 0, b_payload = pcm_l24, b_channels = 8, b_data = replicate 24 7\<rparr>"

definition example_frame :: frame where
  "example_frame = \<lparr>f_link_id = 0, f_sequence = 5, f_sample_position = 240,
                    f_blocks = [example_block]\<rparr>"

lemma wf_example_frame: "wf_frame example_frame"
  by (auto simp: wf_frame_def wf_block_def example_frame_def example_block_def k_max_blocks_def
      k_block_channels_def supported_here_def payload_bytes_def)

lemma length_example_frame: "encode example_frame = Inr data \<Longrightarrow> length data = 64"
  by (auto dest!: length_encode
      simp: encoded_size_def example_frame_def example_block_def wire_consts)

subsection \<open>Properties\<close>

text \<open>
  C20. Encoding and decoding are inverse to each other in both directions: the bytes
  \<open>decode\<close> accepts as a frame are exactly the bytes \<open>encode\<close> writes for it, and every frame
  \<open>encode\<close> accepts is read back as it was. No second byte string decodes to the same frame.
\<close>

theorem decode_iff_encode: "decode (Some data) = Inr f \<longleftrightarrow> encode f = Inr data"
  using decode_encode_aux encode_decode_aux by blast

text \<open>
  \<open>encode\<close> refuses exactly the frames that do not satisfy the format's contract, and
  what it writes has the size \<open>encoded_size\<close> announced.
\<close>

theorem encode_total:
  "(\<exists>data. encode f = Inr data \<and> length data = encoded_size f) \<longleftrightarrow> wf_frame f"
  using encode_InrI encode_wf length_encode by blast

text \<open>
  C21. A frame with any one of its bytes changed in transit is refused, wherever the byte is:
  header, block header, payload or checksum.
\<close>

theorem corrupted_byte_refused:
  assumes "encode f = Inr data" and "i < length data" and "x \<noteq> data ! i"
  shows "refused (decode (Some (data[i := x])))"
  using corrupt_byte_refused_aux decode_encode_aux assms by blast

theorem corrupted_byte_refused_witness:
  "\<exists>data. encode example_frame = Inr data \<and> refused (decode (Some (data[40 := data ! 40 + 1])))"
proof -
  obtain data where data: "encode example_frame = Inr data"
    using encode_InrI [OF wf_example_frame] by blast
  have "40 < length data" using length_example_frame [OF data] by simp
  then have "refused (decode (Some (data[40 := data ! 40 + 1])))"
    by (rule corrupted_byte_refused [OF data]) simp
  then show ?thesis using data by blast
qed

text \<open>
  Asked about any prefix of a frame under the sanity ceiling, \<open>frame_length\<close> either says
  it cannot tell yet or gives the frame's true length, and asked about the whole frame it gives
  the length: a receiver waiting for the rest of a frame never waits for the wrong number of
  bytes and never gives a good frame up.
\<close>

theorem frame_length_prefix:
  assumes "encode f = Inr data" and "length data \<le> k_max_frame_bytes"
  shows "frame_length (Some (take n data)) \<in> {Incomplete, Known (length data)}
    \<and> frame_length (Some data) = Known (length data)"
  using frame_length_prefix_aux [OF assms] by blast

theorem frame_length_prefix_witness:
  "\<exists>data. encode example_frame = Inr data
     \<and> frame_length (Some (take 40 data)) \<in> {Incomplete, Known 64}
     \<and> frame_length (Some data) = Known 64"
proof -
  obtain data where data: "encode example_frame = Inr data"
    using encode_InrI [OF wf_example_frame] by blast
  have len: "length data = 64" by (rule length_example_frame [OF data])
  have "length data \<le> k_max_frame_bytes" using len by (simp add: k_max_frame_bytes_def)
  then show ?thesis using frame_length_prefix [OF data, of 40] data len by auto
qed

end
