(* ===== verification/Fragment.thy ===== *)
theory Fragment
  imports Prelude
begin

unbundle bit_operations_syntax

text \<open>
  Fragmentation and reassembly: the message half of src/src/wire/frame.cpp.

  A frame travels as messages of at most \<open>k_max_message_bytes\<close>, each with an 8-byte header
  that says which frame it is from, which fragment it is and how many there are.
  \<open>next_fragment\<close> cuts the next message of a frame, \<open>fragments\<close> is the caller's loop over it
  (\<^verbatim>\<open>Engine::step_transmit\<close>), and \<open>reassembler\<close> with \<open>feed\<close> and \<open>take_frame\<close> is the class
  \<^verbatim>\<open>Reassembler\<close>.

  The lemmas show that the loop ends and cuts the frame without loss or overlap; that feeding
  the fragments of a frame in order delivers the frame, whatever an interrupted frame left in
  the buffer; and that no loss, repetition, reordering or interleaving of the messages of any
  number of frames ever makes the reassembler hand out bytes that are not one of the frames
  sent.
\<close>

subsection \<open>Fragment headers\<close>

definition k_max_message_bytes :: nat where "k_max_message_bytes = 1316"
definition k_fragment_header_bytes :: nat where "k_fragment_header_bytes = 8"

definition payload_cap :: nat where
  "payload_cap = k_max_message_bytes - k_fragment_header_bytes"

record fragment_header =
  fh_frame_sequence :: u32
  fh_index :: u8
  fh_count :: u8

definition write_fragment_header :: "fragment_header \<Rightarrow> bytes" where
  "write_fragment_header header =
     [0x41, 0x46,
      ucast (fh_frame_sequence header AND 0xFF),
      ucast (drop_bit 8 (fh_frame_sequence header) AND 0xFF),
      ucast (drop_bit 16 (fh_frame_sequence header) AND 0xFF),
      ucast (drop_bit 24 (fh_frame_sequence header) AND 0xFF),
      fh_index header, fh_count header]"

definition read_fragment_header :: "bytes option \<Rightarrow> fragment_header option" where
  "read_fragment_header ptr =
     (case ptr of
        None \<Rightarrow> None
      | Some data \<Rightarrow>
          if length data < k_fragment_header_bytes then None
          else if data ! 0 \<noteq> 0x41 \<or> data ! 1 \<noteq> 0x46 then None
          else
            let header = \<lparr>fh_frame_sequence =
                    ucast (data ! 2) OR push_bit 8 (ucast (data ! 3))
                    OR push_bit 16 (ucast (data ! 4)) OR push_bit 24 (ucast (data ! 5)),
                  fh_index = data ! 6, fh_count = data ! 7\<rparr> in
            if fh_count header = 0 \<or> fh_index header \<ge> fh_count header then None
            else Some header)"

subsection \<open>Cutting a frame\<close>

definition fragment_count :: "nat \<Rightarrow> nat" where
  "fragment_count frame_bytes =
     (if frame_bytes = 0 then 0
      else let count = (frame_bytes + payload_cap - 1) div payload_cap in
           if count > 255 then 0 else count)"

text \<open>The message, and the offset the next call starts from; \<open>None\<close> is \<^verbatim>\<open>false\<close>.\<close>

definition next_fragment :: "bytes option \<Rightarrow> u32 \<Rightarrow> nat \<Rightarrow> (bytes \<times> nat) option" where
  "next_fragment ptr frame_sequence offset =
     (case ptr of
        None \<Rightarrow> None
      | Some frame \<Rightarrow>
          let size = length frame; count = (size + payload_cap - 1) div payload_cap in
          if offset \<ge> size then None
          else if count = 0 \<or> count > 255 then None
          else
            let index = offset div payload_cap;
                remaining = size - offset;
                n = (if remaining < payload_cap then remaining else payload_cap) in
            Some (write_fragment_header \<lparr>fh_frame_sequence = frame_sequence,
                    fh_index = of_nat index, fh_count = of_nat count\<rparr>
                  @ take n (drop offset frame), offset + n))"

text \<open>The caller's loop: call until it returns \<^verbatim>\<open>false\<close>.\<close>

function fragments_from :: "bytes \<Rightarrow> u32 \<Rightarrow> nat \<Rightarrow> bytes list" where
  "fragments_from frame seq offset =
     (case next_fragment (Some frame) seq offset of
        None \<Rightarrow> []
      | Some (message, offset') \<Rightarrow> message # fragments_from frame seq offset')"
  by pat_completeness auto
termination
  by (relation "measure (\<lambda>(frame, seq, offset). length frame - offset)")
    (auto simp: next_fragment_def Let_def payload_cap_def k_max_message_bytes_def
      k_fragment_header_bytes_def split: if_splits)

declare fragments_from.simps [simp del]

definition fragments :: "bytes \<Rightarrow> u32 \<Rightarrow> bytes list" where
  "fragments frame seq = fragments_from frame seq 0"

subsection \<open>The reassembler\<close>

record reassembler =
  r_buffer :: bytes
  r_frame_sequence :: u32
  r_count :: u8
  r_next_index :: u8
  r_assembling :: bool
  r_ready :: bool
  r_dropped :: nat

datatype fragment_error = NotOurMessage | CountChanged | NoCompleteFrame

definition reassembler_init :: reassembler where
  "reassembler_init =
     \<lparr>r_buffer = [], r_frame_sequence = 0, r_count = 0, r_next_index = 0,
      r_assembling = False, r_ready = False, r_dropped = 0\<rparr>"

definition abandon :: "reassembler \<Rightarrow> reassembler" where
  "abandon r =
     r\<lparr>r_buffer := [], r_assembling := False, r_ready := False, r_count := 0, r_next_index := 0\<rparr>"

text \<open>
  The two tests that notice a missing fragment, in the order of the code: after the first has
  abandoned the frame, the second finds nothing in progress.
\<close>

definition resync :: "reassembler \<Rightarrow> fragment_header \<Rightarrow> reassembler" where
  "resync r header =
     (let r1 = (if r_assembling r \<and> fh_frame_sequence header = r_frame_sequence r
                   \<and> fh_index header \<noteq> r_next_index r
                then (abandon r)\<lparr>r_dropped := r_dropped r + 1\<rparr> else r)
      in if r_assembling r1 \<and> fh_frame_sequence header \<noteq> r_frame_sequence r1
         then (abandon r1)\<lparr>r_dropped := r_dropped r1 + 1\<rparr> else r1)"

definition begin_frame :: "reassembler \<Rightarrow> fragment_header \<Rightarrow> reassembler" where
  "begin_frame r header =
     r\<lparr>r_assembling := True, r_frame_sequence := fh_frame_sequence header,
       r_count := fh_count header, r_next_index := 0, r_buffer := [], r_ready := False\<rparr>"

text \<open>Appending the payload of the expected fragment, and completing the frame on the last.\<close>

definition accept_fragment :: "reassembler \<Rightarrow> fragment_header \<Rightarrow> bytes \<Rightarrow> reassembler" where
  "accept_fragment r header payload =
     (if fh_index header \<noteq> r_next_index r then r
      else
        let r' = r\<lparr>r_buffer := r_buffer r @ payload, r_next_index := r_next_index r + 1\<rparr> in
        if r_next_index r' = r_count r' then r'\<lparr>r_ready := True, r_assembling := False\<rparr> else r')"

definition feed :: "reassembler \<Rightarrow> bytes option \<Rightarrow> reassembler \<times> fragment_error option" where
  "feed r ptr =
     (case ptr of
        None \<Rightarrow> (r, None)
      | Some data \<Rightarrow>
          if data = [] then (r, None)
          else
            case read_fragment_header ptr of
              None \<Rightarrow> (abandon r, Some NotOurMessage)
            | Some header \<Rightarrow>
                let payload = drop k_fragment_header_bytes data; r = resync r header in
                if \<not> r_assembling r then
                  if fh_index header \<noteq> 0 then (r, None)
                  else (accept_fragment (begin_frame r header) header payload, None)
                else if fh_count header \<noteq> r_count r then (abandon r, Some CountChanged)
                else (accept_fragment r header payload, None))"

definition frame_ready :: "reassembler \<Rightarrow> bool" where
  "frame_ready r = r_ready r"

definition frame_size :: "reassembler \<Rightarrow> nat" where
  "frame_size r = (if r_ready r then length (r_buffer r) else 0)"

definition buffered :: "reassembler \<Rightarrow> nat" where
  "buffered r = length (r_buffer r)"

definition take_frame :: "reassembler \<Rightarrow> reassembler \<times> (fragment_error + bytes)" where
  "take_frame r =
     (if \<not> frame_ready r then (r, Inl NoCompleteFrame)
      else (r\<lparr>r_buffer := [], r_ready := False, r_count := 0, r_next_index := 0,
              r_assembling := False\<rparr>, Inr (r_buffer r)))"

subsection \<open>Headers\<close>

lemma length_write_fragment_header [simp]: "length (write_fragment_header h) = 8"
  by (simp add: write_fragment_header_def)

lemma payload_cap_eq [simp]: "payload_cap = 1308"
  by (simp add: payload_cap_def k_max_message_bytes_def k_fragment_header_bytes_def)

lemma little_endian_u32:
  "(ucast (ucast v :: u8) :: u32) OR push_bit 8 (ucast (ucast (drop_bit 8 v) :: u8))
     OR push_bit 16 (ucast (ucast (drop_bit 16 v) :: u8))
     OR push_bit 24 (ucast (ucast (drop_bit 24 v) :: u8)) = (v :: u32)"
proof (rule bit_word_eqI)
  fix n assume "n < LENGTH(32)"
  then consider "n < 8" | "8 \<le> n" "n < 16" | "16 \<le> n" "n < 24" | "24 \<le> n" "n < 32" by fastforce
  then show "bit ((ucast (ucast v :: u8) :: u32) OR push_bit 8 (ucast (ucast (drop_bit 8 v) :: u8))
     OR push_bit 16 (ucast (ucast (drop_bit 16 v) :: u8))
     OR push_bit 24 (ucast (ucast (drop_bit 24 v) :: u8))) n = bit v n"
    by cases (auto simp: bit_simps)
qed

lemma read_write_fragment_header:
  "fh_index h < fh_count h \<Longrightarrow>
     read_fragment_header (Some (write_fragment_header h @ payload)) = Some h"
  using little_endian_u32 [of "fh_frame_sequence h"]
  by (auto simp: read_fragment_header_def write_fragment_header_def k_fragment_header_bytes_def
      ucast_low_byte Let_def)

subsection \<open>The fragments of a frame\<close>

definition fragment_at :: "bytes \<Rightarrow> u32 \<Rightarrow> nat \<Rightarrow> bytes" where
  "fragment_at frame seq i =
     write_fragment_header \<lparr>fh_frame_sequence = seq, fh_index = of_nat i,
       fh_count = of_nat (fragment_count (length frame))\<rparr>
     @ take payload_cap (drop (i * payload_cap) frame)"

lemma fragment_count_less: "i * 1308 < n \<longleftrightarrow> i < (n + 1307) div 1308" for i n :: nat
  by (auto simp: less_eq_div_iff_mult_less_eq Suc_le_eq [symmetric])

lemma fragment_count_pos:
  "fragment_count n \<noteq> 0 \<Longrightarrow>
     fragment_count n = (n + 1307) div 1308 \<and> fragment_count n \<le> 255 \<and> 0 < n"
  by (auto simp: fragment_count_def Let_def split: if_splits)

lemma next_fragment_at:
  assumes "fragment_count (length frame) \<noteq> 0" and "i < fragment_count (length frame)"
  shows "next_fragment (Some frame) seq (i * 1308) =
     Some (fragment_at frame seq i, min (Suc i * 1308) (length frame))"
proof -
  note c = fragment_count_pos [OF assms(1)]
  have "i * 1308 < length frame"
    using assms(2) c by (simp add: fragment_count_less)
  moreover have "take (min (length frame - i * 1308) 1308) (drop (i * 1308) frame)
      = take 1308 (drop (i * 1308) frame)" by (simp add: min_def)
  ultimately show ?thesis
    using c by (auto simp: next_fragment_def Let_def fragment_at_def min_def
        add.commute [of 1307])
qed

lemma next_fragment_end: "length frame \<le> offset \<Longrightarrow> next_fragment (Some frame) seq offset = None"
  by (simp add: next_fragment_def Let_def)

lemma fragments_from_eq:
  assumes "fragment_count (length frame) \<noteq> 0"
  shows "i \<le> fragment_count (length frame) \<Longrightarrow>
     fragments_from frame seq (min (i * 1308) (length frame))
       = map (fragment_at frame seq) [i..<fragment_count (length frame)]"
proof (induction "fragment_count (length frame) - i" arbitrary: i)
  case 0
  then have "i = fragment_count (length frame)" by simp
  then have "length frame \<le> i * 1308"
    using fragment_count_pos [OF assms] fragment_count_less [of i "length frame"] by simp
  then show ?case using 0
    by (subst fragments_from.simps) (simp add: next_fragment_end min_def)
next
  case (Suc k)
  then have lt: "i < fragment_count (length frame)" by simp
  then have "i * 1308 < length frame"
    using fragment_count_pos [OF assms] fragment_count_less [of i "length frame"] by simp
  then have "min (i * 1308) (length frame) = i * 1308" by simp
  then show ?case
    using Suc.hyps(1) [of "Suc i"] Suc.hyps(2) lt
    by (subst fragments_from.simps) (simp add: next_fragment_at [OF assms lt] upt_conv_Cons)
qed

lemma fragments_eq:
  assumes "fragment_count (length frame) \<noteq> 0"
  shows "fragments frame seq = map (fragment_at frame seq) [0..<fragment_count (length frame)]"
  using fragments_from_eq [OF assms, of 0] by (simp add: fragments_def)

lemma fragments_none:
  "fragment_count (length frame) = 0 \<Longrightarrow> fragments frame seq = []"
  by (auto simp: fragments_def fragments_from.simps [of frame seq 0] next_fragment_def Let_def
      fragment_count_def split: if_splits)

lemma concat_fragment_payloads:
  "concat (map (\<lambda>i. take 1308 (drop (i * 1308) frame)) [0..<n]) = take (n * 1308) frame"
proof (induction n)
  case 0
  then show ?case by simp
next
  case (Suc n)
  then show ?case using take_add [of "n * 1308" 1308 frame] by (simp add: ac_simps)
qed

lemma take_all_fragments:
  assumes "fragment_count (length frame) \<noteq> 0"
  shows "take (fragment_count (length frame) * 1308) frame = frame"
  using fragment_count_pos [OF assms] fragment_count_less [of "fragment_count (length frame)" "length frame"]
  by simp

lemma read_fragment_at:
  assumes "fragment_count (length frame) \<noteq> 0" and "i < fragment_count (length frame)"
  shows "read_fragment_header (Some (fragment_at frame seq i)) =
      Some \<lparr>fh_frame_sequence = seq, fh_index = of_nat i,
            fh_count = of_nat (fragment_count (length frame))\<rparr>"
proof -
  have "(of_nat i :: u8) < of_nat (fragment_count (length frame))"
    using assms(2) fragment_count_pos [OF assms(1)]
    by (simp add: word_less_nat_alt unat_of_nat)
  then show ?thesis
    by (simp add: fragment_at_def read_write_fragment_header)
qed

lemma drop_fragment_at:
  "drop k_fragment_header_bytes (fragment_at frame seq i) = take 1308 (drop (i * 1308) frame)"
  by (simp add: fragment_at_def k_fragment_header_bytes_def)

lemma fragment_at_neq_Nil [simp]: "fragment_at frame seq i \<noteq> []"
  by (simp add: fragment_at_def write_fragment_header_def)

subsection \<open>Reassembly\<close>

text \<open>
  \<open>sent\<close> says which frame each sequence number stands for. A message of the link is a
  fragment of one of those frames, or something that is not a fragment at all.
\<close>

definition from_link :: "(u32 \<Rightarrow> bytes option) \<Rightarrow> bytes \<Rightarrow> bool" where
  "from_link sent m \<longleftrightarrow>
     read_fragment_header (Some m) = None
     \<or> (\<exists>seq frame. sent seq = Some frame \<and> m \<in> set (fragments frame seq))"

text \<open>What the receiver does with the link: messages arrive, and complete frames are taken.\<close>

datatype receive_event = Message bytes | Take

fun receive_step :: "reassembler \<Rightarrow> receive_event \<Rightarrow> reassembler \<times> (u32 \<times> bytes) list" where
  "receive_step r (Message m) = (fst (feed r (Some m)), [])"
| "receive_step r Take =
     (case take_frame r of
        (r', Inl e) \<Rightarrow> (r', [])
      | (r', Inr frame) \<Rightarrow> (r', [(r_frame_sequence r, frame)]))"

fun receive_run :: "reassembler \<Rightarrow> receive_event list \<Rightarrow> reassembler \<times> (u32 \<times> bytes) list" where
  "receive_run r [] = (r, [])"
| "receive_run r (e # es) =
     (let (r1, out1) = receive_step r e; (r2, out2) = receive_run r1 es in (r2, out1 @ out2))"

text \<open>
  The invariant: a frame in progress holds exactly the fragments before the one expected next,
  all of them received, and a complete frame is one of the frames sent. \<open>seen\<close> is the set of
  messages that have arrived.
\<close>

definition in_progress :: "(u32 \<Rightarrow> bytes option) \<Rightarrow> bytes set \<Rightarrow> reassembler \<Rightarrow> bool" where
  "in_progress sent seen r \<longleftrightarrow>
     (\<exists>frame j. sent (r_frame_sequence r) = Some frame
        \<and> j < fragment_count (length frame)
        \<and> r_count r = of_nat (fragment_count (length frame)) \<and> r_next_index r = of_nat j
        \<and> r_buffer r = take (j * 1308) frame
        \<and> (\<forall>k < j. fragment_at frame (r_frame_sequence r) k \<in> seen))"

definition complete :: "(u32 \<Rightarrow> bytes option) \<Rightarrow> bytes set \<Rightarrow> reassembler \<Rightarrow> bool" where
  "complete sent seen r \<longleftrightarrow>
     sent (r_frame_sequence r) = Some (r_buffer r)
     \<and> set (fragments (r_buffer r) (r_frame_sequence r)) \<subseteq> seen"

definition rs_inv :: "(u32 \<Rightarrow> bytes option) \<Rightarrow> bytes set \<Rightarrow> reassembler \<Rightarrow> bool" where
  "rs_inv sent seen r \<longleftrightarrow>
     (r_assembling r \<longrightarrow> in_progress sent seen r)
     \<and> (r_ready r \<longrightarrow> \<not> r_assembling r \<and> complete sent seen r)"

lemma rs_inv_init [inv_intros]: "rs_inv sent seen reassembler_init"
  by (simp add: rs_inv_def reassembler_init_def)

lemma rs_inv_mono: "rs_inv sent seen r \<Longrightarrow> seen \<subseteq> seen' \<Longrightarrow> rs_inv sent seen' r"
  by (auto simp: rs_inv_def in_progress_def complete_def)

lemma rs_inv_abandon [inv_intros]: "rs_inv sent seen (abandon r)"
  by (simp add: rs_inv_def abandon_def)

lemma abandon_fields [simp]:
  "r_assembling (abandon r) = False" "r_ready (abandon r) = False"
  "r_dropped (abandon r) = r_dropped r" "r_buffer (abandon r) = []"
  by (simp_all add: abandon_def)

lemma rs_inv_dropped [simp]: "rs_inv sent seen (r\<lparr>r_dropped := d\<rparr>) = rs_inv sent seen r"
  by (simp add: rs_inv_def in_progress_def complete_def)

lemma rs_inv_resync [inv_intros]: "rs_inv sent seen r \<Longrightarrow> rs_inv sent seen (resync r h)"
  by (auto simp: resync_def Let_def intro: inv_intros)

lemma resync_assembling:
  "r_assembling (resync r h) \<longleftrightarrow>
     r_assembling r \<and> fh_frame_sequence h = r_frame_sequence r \<and> fh_index h = r_next_index r"
  by (auto simp: resync_def Let_def)

lemma resync_same:
  "r_assembling (resync r h) \<Longrightarrow> resync r h = r"
  by (auto simp: resync_def Let_def split: if_splits)

lemma of_nat_u8_inj: "i < 256 \<Longrightarrow> j < 256 \<Longrightarrow> (of_nat i :: u8) = of_nat j \<longleftrightarrow> i = j"
  by (auto simp: word_unat_eq_iff unat_of_nat)

text \<open>Accepting the expected fragment keeps the frame in progress, or completes it.\<close>

lemma rs_inv_accept:
  assumes "sent (r_frame_sequence r) = Some frame" and j: "j < fragment_count (length frame)"
    and "r_count r = of_nat (fragment_count (length frame))" and "r_next_index r = of_nat j"
    and "r_buffer r = take (j * 1308) frame"
    and "\<forall>k < j. fragment_at frame (r_frame_sequence r) k \<in> seen"
    and "\<not> r_ready r" and "r_assembling r" and "fh_index h = of_nat j"
    and "fragment_at frame (r_frame_sequence r) j \<in> seen"
  shows "rs_inv sent seen (accept_fragment r h (take 1308 (drop (j * 1308) frame)))"
proof -
  let ?n = "fragment_count (length frame)"
  have n: "?n \<noteq> 0" using j by simp
  have small: "?n < 256" using fragment_count_pos [OF n] by simp
  have buffer: "take (j * 1308) frame @ take 1308 (drop (j * 1308) frame) = take (Suc j * 1308) frame"
    using take_add [of "j * 1308" 1308 frame] by (simp add: ac_simps)
  have seen: "\<forall>k < Suc j. fragment_at frame (r_frame_sequence r) k \<in> seen"
    using assms(6,10) by (auto simp: less_Suc_eq)
  have last: "of_nat j + 1 = (of_nat ?n :: u8) \<longleftrightarrow> Suc j = ?n"
    using of_nat_u8_inj [of "Suc j" ?n] small j by (simp add: add.commute)
  show ?thesis
  proof (cases "Suc j = ?n")
    case True
    have "set (fragments frame (r_frame_sequence r)) \<subseteq> seen"
      using seen by (auto simp: fragments_eq [OF n] True)
    moreover have "take (Suc j * 1308) frame = frame"
      using take_all_fragments [OF n] True by simp
    ultimately show ?thesis
      using assms last True
      by (simp add: accept_fragment_def Let_def buffer rs_inv_def complete_def del: mult_Suc)
  next
    case False
    then have "in_progress sent seen
        (r\<lparr>r_buffer := take (Suc j * 1308) frame, r_next_index := of_nat j + 1\<rparr>)"
      using assms seen j unfolding in_progress_def
      by (intro exI [of _ frame] exI [of _ "Suc j"]) (simp add: add.commute)
    then show ?thesis
      using assms last False
      by (simp add: accept_fragment_def Let_def buffer rs_inv_def del: mult_Suc)
  qed
qed

lemma rs_inv_feed_fragment:
  assumes inv: "rs_inv sent seen r" and sent: "sent seq = Some frame"
    and i: "i < fragment_count (length frame)" and mem: "fragment_at frame seq i \<in> seen"
  shows "rs_inv sent seen (fst (feed r (Some (fragment_at frame seq i))))"
    and "snd (feed r (Some (fragment_at frame seq i))) = None"
proof -
  let ?n = "fragment_count (length frame)"
  let ?h = "\<lparr>fh_frame_sequence = seq, fh_index = of_nat i, fh_count = of_nat ?n :: u8\<rparr>"
  have n: "?n \<noteq> 0" using i by simp
  have small: "?n < 256" using fragment_count_pos [OF n] by simp
  define r' where "r' = resync r ?h"
  have inv': "rs_inv sent seen r'" unfolding r'_def using inv by (rule inv_intros)
  have feed: "feed r (Some (fragment_at frame seq i)) =
      (if \<not> r_assembling r' then
         if of_nat i \<noteq> (0 :: u8) then (r', None)
         else (accept_fragment (begin_frame r' ?h) ?h (take 1308 (drop (i * 1308) frame)), None)
       else if of_nat ?n \<noteq> r_count r' then (abandon r', Some CountChanged)
       else (accept_fragment r' ?h (take 1308 (drop (i * 1308) frame)), None))"
    by (simp add: feed_def read_fragment_at [OF n i] drop_fragment_at Let_def r'_def)
  have "rs_inv sent seen (fst (feed r (Some (fragment_at frame seq i))))
      \<and> snd (feed r (Some (fragment_at frame seq i))) = None"
  proof (cases "r_assembling r'")
    case True
    then have same: "r' = r" "fh_frame_sequence ?h = r_frame_sequence r" "fh_index ?h = r_next_index r"
      using resync_same [of r ?h] resync_assembling [of r ?h] by (auto simp: r'_def)
    from True inv' obtain j where j: "j < ?n" "r_count r' = of_nat ?n" "r_next_index r' = of_nat j"
        "r_buffer r' = take (j * 1308) frame" "\<forall>k < j. fragment_at frame (r_frame_sequence r') k \<in> seen"
      using sent same by (auto simp: rs_inv_def in_progress_def)
    have "i = j" using same j i small of_nat_u8_inj [of i j] by simp
    then have "rs_inv sent seen (accept_fragment r' ?h (take 1308 (drop (i * 1308) frame)))"
      using rs_inv_accept [of sent r' frame j seen ?h] True inv' j same sent mem
      by (simp add: rs_inv_def)
    then show ?thesis using True j by (simp add: feed)
  next
    case False
    show ?thesis
    proof (cases "i = 0")
      case True
      have "rs_inv sent seen (accept_fragment (begin_frame r' ?h) ?h (take 1308 (drop (0 * 1308) frame)))"
        using i sent mem True by (intro rs_inv_accept) (simp_all add: begin_frame_def)
      then show ?thesis unfolding feed using False by (simp add: True)
    next
      case i0: False
      then have "of_nat i \<noteq> (0 :: u8)" using of_nat_u8_inj [of i 0] i small by simp
      then show ?thesis using False inv' by (simp add: feed)
    qed
  qed
  then show "rs_inv sent seen (fst (feed r (Some (fragment_at frame seq i))))"
    and "snd (feed r (Some (fragment_at frame seq i))) = None" by auto
qed

lemma rs_inv_feed:
  assumes "rs_inv sent seen r" and "from_link sent m"
  shows "rs_inv sent (insert m seen) (fst (feed r (Some m)))"
proof (cases "read_fragment_header (Some m)")
  case None
  have "rs_inv sent (insert m seen) r" by (rule rs_inv_mono [OF assms(1)]) auto
  then show ?thesis using None by (auto simp: feed_def inv_intros)
next
  case (Some h)
  then obtain seq frame where m: "sent seq = Some frame" "m \<in> set (fragments frame seq)"
    using assms(2) by (auto simp: from_link_def)
  then have n: "fragment_count (length frame) \<noteq> 0"
    by (metis fragments_none list.set(1) empty_iff)
  then obtain i where i: "i < fragment_count (length frame)" "m = fragment_at frame seq i"
    using m(2) by (auto simp: fragments_eq)
  have "rs_inv sent (insert m seen) r" by (rule rs_inv_mono [OF assms(1)]) auto
  then show ?thesis
    using rs_inv_feed_fragment(1) [of sent "insert m seen" r seq frame i] m i by simp
qed

lemma take_frame_Inr: "take_frame r = (r', Inr frame) \<Longrightarrow> r_ready r \<and> frame = r_buffer r"
  by (auto simp: take_frame_def frame_ready_def split: if_splits)

lemma rs_inv_take: "rs_inv sent seen r \<Longrightarrow> rs_inv sent seen (fst (take_frame r))"
  by (auto simp: take_frame_def frame_ready_def rs_inv_def)

lemma receive_run_safe:
  "rs_inv sent seen r \<Longrightarrow> (\<And>m. Message m \<in> set es \<Longrightarrow> from_link sent m) \<Longrightarrow>
   (seq, frame) \<in> set (snd (receive_run r es)) \<Longrightarrow>
     sent seq = Some frame \<and> set (fragments frame seq) \<subseteq> seen \<union> {m. Message m \<in> set es}"
proof (induction es arbitrary: r seen)
  case Nil
  then show ?case by simp
next
  case (Cons e es)
  show ?case
  proof (cases e)
    case (Message m)
    have inv: "rs_inv sent (insert m seen) (fst (feed r (Some m)))"
      using Cons.prems(1,2) Message by (intro rs_inv_feed) auto
    have "(seq, frame) \<in> set (snd (receive_run (fst (feed r (Some m))) es))"
      using Cons.prems(3) Message by (simp add: case_prod_beta)
    from Cons.IH [OF inv _ this] Cons.prems(2) Message show ?thesis by auto
  next
    case Take
    note inv = rs_inv_take [OF Cons.prems(1)]
    consider "(seq, frame) \<in> set (snd (receive_run (fst (take_frame r)) es))"
      | "seq = r_frame_sequence r" "take_frame r = (fst (take_frame r), Inr frame)"
      using Cons.prems(3) Take
      by (cases "take_frame r") (auto simp: case_prod_beta split: sum.splits)
    then show ?thesis
    proof cases
      case 1
      from Cons.IH [OF inv _ 1] Cons.prems(2) show ?thesis by auto
    next
      case 2
      then have "r_ready r \<and> frame = r_buffer r" by (metis take_frame_Inr)
      then show ?thesis using Cons.prems(1) 2 by (auto simp: rs_inv_def complete_def)
    qed
  qed
qed


text \<open>Feeding the fragments of one frame in order.\<close>

definition feed_all :: "reassembler \<Rightarrow> bytes list \<Rightarrow> reassembler" where
  "feed_all r ms = foldl (\<lambda>r m. fst (feed r (Some m))) r ms"

definition after_fragments :: "reassembler \<Rightarrow> bytes \<Rightarrow> u32 \<Rightarrow> nat \<Rightarrow> reassembler" where
  "after_fragments r frame seq k =
     r\<lparr>r_buffer := take (k * 1308) frame, r_frame_sequence := seq,
       r_count := of_nat (fragment_count (length frame)), r_next_index := of_nat k,
       r_assembling := (k < fragment_count (length frame)),
       r_ready := (k = fragment_count (length frame)),
       r_dropped := r_dropped r + (if r_assembling r then 1 else 0)\<rparr>"

lemma feed_first:
  assumes n: "0 < fragment_count (length frame)"
    and free: "\<not> (r_assembling r \<and> r_frame_sequence r = seq)"
  shows "fst (feed r (Some (fragment_at frame seq 0))) = after_fragments r frame seq 1"
proof -
  let ?n = "fragment_count (length frame)"
  let ?h = "\<lparr>fh_frame_sequence = seq, fh_index = 0, fh_count = of_nat ?n :: u8\<rparr>"
  have small: "?n < 256" using n fragment_count_pos [of "length frame"] by simp
  have read: "read_fragment_header (Some (fragment_at frame seq 0)) = Some ?h"
    using read_fragment_at [of frame 0 seq] n by simp
  have re: "resync r ?h = (if r_assembling r then (abandon r)\<lparr>r_dropped := r_dropped r + 1\<rparr> else r)"
    using free by (auto simp: resync_def Let_def)
  have one: "(1 :: u8) = of_nat ?n \<longleftrightarrow> 1 = ?n" using of_nat_u8_inj [of 1 ?n] small by simp
  show ?thesis
    using n one drop_fragment_at [of frame seq 0]
    by (auto simp: feed_def read Let_def re accept_fragment_def begin_frame_def
        after_fragments_def abandon_def)
qed

lemma feed_next:
  assumes k: "k < fragment_count (length frame)"
  shows "fst (feed (after_fragments r frame seq k) (Some (fragment_at frame seq k)))
      = after_fragments r frame seq (Suc k)"
proof -
  let ?n = "fragment_count (length frame)"
  have n: "?n \<noteq> 0" using k by simp
  have small: "?n < 256" using fragment_count_pos [OF n] by simp
  have "of_nat k + 1 = (of_nat ?n :: u8) \<longleftrightarrow> Suc k = ?n"
    using of_nat_u8_inj [of "Suc k" ?n] small k by (simp add: add.commute)
  moreover have "take (k * 1308) frame @ take 1308 (drop (k * 1308) frame) = take (Suc k * 1308) frame"
    using take_add [of "k * 1308" 1308 frame] by (simp add: ac_simps)
  ultimately show ?thesis
    using k read_fragment_at [OF n k, of seq] drop_fragment_at [of frame seq k]
    by (auto simp: feed_def Let_def resync_def accept_fragment_def after_fragments_def
        add.commute simp del: mult_Suc)
qed

lemma feed_all_prefix:
  assumes n: "0 < fragment_count (length frame)"
    and free: "\<not> (r_assembling r \<and> r_frame_sequence r = seq)"
  shows "Suc k \<le> fragment_count (length frame) \<Longrightarrow>
     feed_all r (map (fragment_at frame seq) [0..<Suc k]) = after_fragments r frame seq (Suc k)"
proof (induction k)
  case 0
  then show ?case using feed_first [OF n free] by (simp add: feed_all_def)
next
  case (Suc k)
  have "feed_all r (map (fragment_at frame seq) [0..<Suc (Suc k)]) =
      fst (feed (feed_all r (map (fragment_at frame seq) [0..<Suc k]))
        (Some (fragment_at frame seq (Suc k))))"
    by (simp add: feed_all_def)
  then show ?case using Suc feed_next [of "Suc k" frame r seq] by simp
qed

lemma feed_all_fragments:
  assumes n: "fragment_count (length frame) \<noteq> 0"
    and free: "\<not> (r_assembling r \<and> r_frame_sequence r = seq)"
  shows "feed_all r (fragments frame seq) = after_fragments r frame seq (fragment_count (length frame))"
    and "r_buffer (after_fragments r frame seq (fragment_count (length frame))) = frame"
proof -
  obtain k where k: "fragment_count (length frame) = Suc k" using n by (cases "fragment_count (length frame)") auto
  then show "feed_all r (fragments frame seq) = after_fragments r frame seq (fragment_count (length frame))"
    using feed_all_prefix [of frame r seq k] n free by (simp add: fragments_eq)
  show "r_buffer (after_fragments r frame seq (fragment_count (length frame))) = frame"
    using take_all_fragments [OF n] by (simp add: after_fragments_def)
qed

lemma example_fragments:
  "fragment_count (length [1, 2, 3 :: u8]) = 1"
  "fragments [1, 2, 3] 9 = [fragment_at [1, 2, 3] 9 0]"
proof -
  show *: "fragment_count (length [1, 2, 3 :: u8]) = 1"
    by (simp add: fragment_count_def Let_def)
  show "fragments [1, 2, 3] 9 = [fragment_at [1, 2, 3] 9 0]"
    by (subst fragments_eq) (simp_all only: *, simp)
qed

subsection \<open>Properties\<close>

text \<open>
  The caller's loop ends and cuts a frame that fits into 255 fragments without loss or
  overlap: as many messages as \<open>fragment_count\<close> says, each within the message ceiling, their
  payloads adding up to the frame. A frame that does not fit produces no message at all.
\<close>

theorem fragments_partition:
  "if fragment_count (length frame) = 0 then fragments frame seq = []
   else concat (map (drop k_fragment_header_bytes) (fragments frame seq)) = frame
     \<and> length (fragments frame seq) = fragment_count (length frame)
     \<and> list_all (\<lambda>m. length m \<le> k_max_message_bytes) (fragments frame seq)"
proof (cases "fragment_count (length frame) = 0")
  case True
  then show ?thesis by (simp add: fragments_none)
next
  case n: False
  have "concat (map (drop k_fragment_header_bytes) (fragments frame seq)) =
      take (fragment_count (length frame) * 1308) frame"
    by (simp add: fragments_eq [OF n] comp_def drop_fragment_at concat_fragment_payloads)
  then show ?thesis
    using take_all_fragments [OF n] n
    by (auto simp: fragments_eq [OF n] fragment_at_def k_max_message_bytes_def list_all_iff)
qed

text \<open>
  C23. Whatever the link does to the messages -- loses some, repeats some, reorders them, mixes
  the fragments of different frames, slips in messages that are not fragments -- every frame the
  receiver takes is one of the frames sent, whole and byte for byte, under its own sequence
  number, and every fragment of it has arrived.
\<close>

theorem reassembly_safe:
  assumes "\<forall>m. Message m \<in> set es \<longrightarrow> from_link sent m"
    and "(seq, frame) \<in> set (snd (receive_run reassembler_init es))"
  shows "sent seq = Some frame \<and> set (fragments frame seq) \<subseteq> {m. Message m \<in> set es}"
  using receive_run_safe [OF rs_inv_init [of sent "{}"], of es seq frame] assms by auto

theorem reassembly_safe_witness:
  "[9 \<mapsto> [1, 2, 3 :: u8]] (9 :: u32) = Some [1, 2, 3]
   \<and> set (fragments [1, 2, 3] 9) \<subseteq> {m. Message m \<in> set [Message (fragment_at [1, 2, 3] 9 0), Take]}"
proof (rule reassembly_safe [where sent = "[9 \<mapsto> [1, 2, 3]]" and seq = 9 and frame = "[1, 2, 3]"
      and es = "[Message (fragment_at [1, 2, 3] 9 0), Take]"])
  let ?m = "fragment_at [1, 2, 3] 9 0"
  show "\<forall>m. Message m \<in> set [Message ?m, Take] \<longrightarrow> from_link [9 \<mapsto> [1, 2, 3]] m"
    by (auto simp: from_link_def example_fragments(2) intro!: exI [of _ 9])
  have "fst (feed reassembler_init (Some ?m)) = after_fragments reassembler_init [1, 2, 3] 9 1"
    by (rule feed_first) (simp_all only: example_fragments(1), simp_all add: reassembler_init_def)
  then show "(9, [1, 2, 3]) \<in> set (snd (receive_run reassembler_init [Message ?m, Take]))"
    using example_fragments(1)
    by (simp add: after_fragments_def take_frame_def frame_ready_def reassembler_init_def)
qed

text \<open>
  C24. A frame whose fragments all arrive in order is delivered, from any state of the
  reassembler that is not half-way through a frame of the same number: an interrupted frame
  costs that frame only, and is counted once. Nothing is reported as an error.
\<close>

theorem reassembly_delivers:
  assumes "fragment_count (length frame) \<noteq> 0"
    and "\<not> (r_assembling r \<and> r_frame_sequence r = seq)"
  shows "snd (take_frame (feed_all r (fragments frame seq))) = Inr frame
    \<and> r_dropped (feed_all r (fragments frame seq)) = r_dropped r + (if r_assembling r then 1 else 0)
    \<and> \<not> r_assembling (fst (take_frame (feed_all r (fragments frame seq))))"
  using feed_all_fragments [OF assms]
  by (simp add: take_frame_def frame_ready_def after_fragments_def)

theorem reassembly_delivers_witness:
  "snd (take_frame (feed_all (reassembler_init\<lparr>r_assembling := True\<rparr>) (fragments [1, 2, 3] 9)))
     = Inr [1, 2, 3]"
  using reassembly_delivers [of "[1, 2, 3]" "reassembler_init\<lparr>r_assembling := True\<rparr>" 9]
    example_fragments(1) by (simp add: reassembler_init_def)

end
