(* ===== verification/Util.thy ===== *)
theory Util
  imports Prelude
begin

text \<open>
  The string helpers of src/src/util.cpp: \<^verbatim>\<open>trim\<close>, \<^verbatim>\<open>to_lower\<close>, \<^verbatim>\<open>split\<close> and
  \<^verbatim>\<open>split_host_port\<close>. Characters are bytes and the classification is the C locale's, which is
  what \<^verbatim>\<open>isspace\<close>, \<^verbatim>\<open>isdigit\<close> and \<^verbatim>\<open>tolower\<close> use in a program that never calls
  \<^verbatim>\<open>setlocale\<close>.
\<close>

definition is_space :: "char \<Rightarrow> bool" where
  "is_space c \<longleftrightarrow> (of_char c :: nat) \<in> {9, 10, 11, 12, 13, 32}"

definition is_digit :: "char \<Rightarrow> bool" where
  "is_digit c \<longleftrightarrow> 48 \<le> (of_char c :: nat) \<and> (of_char c :: nat) \<le> 57"

definition lower_char :: "char \<Rightarrow> char" where
  "lower_char c =
     (if 65 \<le> (of_char c :: nat) \<and> (of_char c :: nat) \<le> 90 then char_of ((of_char c :: nat) + 32)
      else c)"

text \<open>The two loops of the code: from the front, then from the back.\<close>

definition trim :: "string \<Rightarrow> string" where
  "trim str = rev (dropWhile is_space (rev (dropWhile is_space str)))"

definition to_lower :: "string \<Rightarrow> string" where
  "to_lower str = map lower_char str"

fun split_at :: "string \<Rightarrow> char \<Rightarrow> string \<Rightarrow> string list" where
  "split_at acc separator [] = [rev acc]"
| "split_at acc separator (c # str) =
     (if c = separator then rev acc # split_at [] separator str
      else split_at (c # acc) separator str)"

definition split :: "string \<Rightarrow> char \<Rightarrow> string list" where
  "split str separator = split_at [] separator str"

text \<open>\<^verbatim>\<open>strtol\<close> on a string of digits: it stops at \<^verbatim>\<open>LONG_MAX\<close>.\<close>

definition digits_value :: "string \<Rightarrow> nat" where
  "digits_value number =
     min 9223372036854775807 (foldl (\<lambda>v c. 10 * v + ((of_char c :: nat) - 48)) 0 number)"

definition split_host_port :: "string \<Rightarrow> (string \<times> nat) option" where
  "split_host_port str =
     (case split (trim str) CHR '':'' of
        [first, second] \<Rightarrow>
          let name = trim first; number = trim second in
          if name = [] \<or> number = [] then None
          else if \<not> list_all is_digit number then None
          else
            let value = digits_value number in
            if value < 1 \<or> value > 65535 then None else Some (name, value)
      | _ \<Rightarrow> None)"

subsection \<open>Facts\<close>

lemma split_at_join:
  "concat (map (\<lambda>s. s @ [sep]) (split_at acc sep str)) = rev acc @ str @ [sep]"
  by (induction str arbitrary: acc) auto

lemma split_at_no_separator: "sep \<notin> set acc \<Longrightarrow> s \<in> set (split_at acc sep str) \<Longrightarrow> sep \<notin> set s"
proof (induction str arbitrary: acc)
  case (Cons c str)
  then show ?case using Cons.IH [of "[]"] Cons.IH [of "c # acc"] by (auto split: if_splits)
qed auto

lemma split_at_plain: "sep \<notin> set str \<Longrightarrow> split_at acc sep str = [rev acc @ str]"
  by (induction str arbitrary: acc) auto

lemma split_at_cut:
  "sep \<notin> set first \<Longrightarrow> split_at acc sep (first @ sep # rest) = (rev acc @ first) # split_at [] sep rest"
  by (induction first arbitrary: acc) auto

lemma to_lower_idem: "to_lower (to_lower str) = to_lower str"
proof -
  have "lower_char (lower_char c) = lower_char c" for c
    by (auto simp: lower_char_def)
  then show ?thesis by (simp add: to_lower_def)
qed

lemma dropWhile_hd: "dropWhile P xs = [] \<or> \<not> P (hd (dropWhile P xs))"
  by (induction xs) auto

lemma trim_trim: "trim (trim str) = trim str"
proof -
  define a where "a = dropWhile is_space str"
  define b where "b = dropWhile is_space (rev a)"
  have t: "trim str = rev b" by (simp add: trim_def a_def b_def)
  have "dropWhile is_space (rev b) = rev b"
  proof (cases "rev b")
    case (Cons c cs)
    obtain rest where "a = rev b @ rest"
      by (metis b_def rev_append rev_rev_ident takeWhile_dropWhile_id)
    then have "hd a = c" "a \<noteq> []" using Cons by auto
    then have "\<not> is_space c" using dropWhile_hd [of is_space str] by (auto simp: a_def)
    then show ?thesis using Cons by simp
  qed simp
  moreover have "dropWhile is_space b = b" by (simp add: b_def)
  ultimately show ?thesis by (simp add: t) (simp add: trim_def)
qed

lemma split_no_separator: "s \<in> set (split str sep) \<Longrightarrow> sep \<notin> set s"
  using split_at_no_separator [of sep "[]" s str] by (simp add: split_def)

lemma set_trim: "set (trim str) \<subseteq> set str"
proof -
  have "set (dropWhile is_space str) \<subseteq> set str" by (auto dest: set_dropWhileD)
  moreover have "set (dropWhile is_space (rev (dropWhile is_space str))) \<subseteq> set (dropWhile is_space str)"
    by (auto dest: set_dropWhileD)
  ultimately show ?thesis by (auto simp: trim_def)
qed

lemma trim_no_space:
  assumes "str \<noteq> []" "\<not> is_space (hd str)" "\<not> is_space (last str)" shows "trim str = str"
proof -
  have "dropWhile is_space str = str" using assms by (cases str) auto
  moreover have "dropWhile is_space (rev str) = rev str"
    using assms by (cases "rev str") (auto simp: hd_rev [symmetric])
  ultimately show ?thesis by (simp add: trim_def)
qed

lemma digit_not_space: "is_digit c \<Longrightarrow> \<not> is_space c"
  by (auto simp: is_digit_def is_space_def)

lemma trim_digits: "list_all is_digit ds \<Longrightarrow> ds \<noteq> [] \<Longrightarrow> trim ds = ds"
  by (intro trim_no_space) (auto simp: list_all_iff digit_not_space)

text \<open>
  A peer address that is accepted has a host that is not empty, has no colon in it and no
  blanks around it, and a port of 1 to 65535.
\<close>

theorem split_host_port_sound:
  assumes "split_host_port str = Some (host, port)"
  shows "host \<noteq> [] \<and> CHR '':'' \<notin> set host \<and> trim host = host \<and> 1 \<le> port \<and> port \<le> 65535"
proof -
  obtain first second where s: "split (trim str) CHR '':'' = [first, second]"
    and h: "host = trim first" "host \<noteq> []" and p: "1 \<le> port" "port \<le> 65535"
    using assms
    by (auto simp: split_host_port_def Let_def split: list.splits if_splits)
  have "CHR '':'' \<notin> set first" using split_no_separator [of first "trim str"] s by simp
  then have "CHR '':'' \<notin> set host" using set_trim [of first] h(1) by auto
  then show ?thesis using h p by (simp add: trim_trim)
qed

theorem split_host_port_sound_witness:
  "split_host_port '' 10.0.0.7 : 9000'' = Some (''10.0.0.7'', 9000)
   \<and> (1 :: nat) \<le> 9000 \<and> trim ''10.0.0.7'' = ''10.0.0.7''"
proof -
  have "split_host_port '' 10.0.0.7 : 9000'' = Some (''10.0.0.7'', 9000)"
    by (simp add: split_host_port_def trim_def split_def digits_value_def is_space_def is_digit_def
        Let_def)
  then show ?thesis using split_host_port_sound by blast
qed

lemma split_host_port_complete:
  assumes "trim host = host" "host \<noteq> []" "CHR '':'' \<notin> set host"
    and "list_all is_digit ds" "ds \<noteq> []" "1 \<le> digits_value ds" "digits_value ds \<le> 65535"
    and "\<not> is_space (hd host)"
  shows "split_host_port (host @ '':'' @ ds) = Some (host, digits_value ds)"
proof -
  have colon: "\<not> is_digit CHR '':''" by (simp add: is_digit_def)
  have "trim (host @ '':'' @ ds) = host @ '':'' @ ds"
    using assms by (intro trim_no_space) (auto simp: list_all_iff digit_not_space)
  moreover have "split (host @ '':'' @ ds) CHR '':'' = [host, ds]"
    using assms(3,4) colon
    by (auto simp: split_def split_at_cut split_at_plain list_all_iff)
  ultimately show ?thesis
    using assms by (simp add: split_host_port_def trim_digits)
qed

end
