(* ===== verification/Config.thy ===== *)
theory Config
  imports Prelude Util
begin

text \<open>
  The configuration document: src/src/config.hpp and src/src/config.cpp.

  The records are the structs of the header; \<open>validate\<close> is \<^verbatim>\<open>Config::validate\<close>, section by
  section, with one constructor of \<open>config_error\<close> (or of its section's error type) per refusal; \<open>parse_document\<close> reads a JSON
  document key by key as the code does, and \<open>config_to_json\<close> is \<^verbatim>\<open>Config::to_json\<close> up to the
  text \<^verbatim>\<open>dump\<close> prints.

  JSON itself is nlohmann's library, which is not part of the repository: a document is a value
  of \<open>json\<close>, its text is read by the parameter \<open>json_parse\<close>, and the conversion of a JSON
  integer to a C++ \<^verbatim>\<open>int\<close> is the parameter \<open>get_int\<close>, of which only the documented fact is
  used that it returns an integer that fits. A \<^verbatim>\<open>double\<close> is a real number.
\<close>

subsection \<open>The structs\<close>

record block_config =
  bc_index :: int
  bc_channels :: "int list"
  bc_gain_db :: real
  bc_mute :: bool
  bc_codec :: string
  bc_bitrate :: int

record audio_config =
  ac_backend :: string
  ac_device :: string
  ac_channels :: int
  ac_sample_rate :: int
  ac_format :: string
  ac_period_frames :: int
  ac_periods :: int

record link_config =
  lc_role :: string
  lc_mode :: string
  lc_peer :: string
  lc_local_port :: int
  lc_latency_ms :: int
  lc_alarm_delay_ms :: int
  lc_passphrase :: string
  lc_blocks :: int
  lc_receive_buffer_bytes :: int
  lc_flow_control_packets :: int

record daemon_config =
  dc_address :: string
  dc_port :: int
  dc_fake :: bool

record egress_config =
  ec_delay_ms :: real
  ec_test_signal_channel :: int

record config =
  cf_version :: int
  cf_audio :: audio_config
  cf_link :: link_config
  cf_daemon :: daemon_config
  cf_egress :: egress_config
  cf_blocks :: "block_config list"
  cf_http_addr :: string
  cf_http_port :: int

definition default_block :: block_config where
  "default_block = \<lparr>bc_index = 0, bc_channels = [], bc_gain_db = 0, bc_mute = False,
     bc_codec = ''pcm_l24'', bc_bitrate = 128000\<rparr>"

definition default_audio :: audio_config where
  "default_audio = \<lparr>ac_backend = ''ravenna'', ac_device = ''plughw:RAVENNA'', ac_channels = 64,
     ac_sample_rate = 48000, ac_format = ''s24_3le'', ac_period_frames = 48, ac_periods = 8\<rparr>"

definition default_link :: link_config where
  "default_link = \<lparr>lc_role = ''duplex'', lc_mode = ''rendezvous'', lc_peer = [],
     lc_local_port = 9000, lc_latency_ms = 120, lc_alarm_delay_ms = 500, lc_passphrase = [],
     lc_blocks = 8, lc_receive_buffer_bytes = 0, lc_flow_control_packets = 0\<rparr>"

definition default_daemon :: daemon_config where
  "default_daemon = \<lparr>dc_address = ''127.0.0.1'', dc_port = 8080, dc_fake = False\<rparr>"

definition default_egress :: egress_config where
  "default_egress = \<lparr>ec_delay_ms = 0, ec_test_signal_channel = -1\<rparr>"

definition default_config :: config where
  "default_config = \<lparr>cf_version = 1, cf_audio = default_audio, cf_link = default_link,
     cf_daemon = default_daemon, cf_egress = default_egress, cf_blocks = [],
     cf_http_addr = ''0.0.0.0'', cf_http_port = 8082\<rparr>"

lemmas default_defs = default_config_def default_audio_def default_link_def default_daemon_def
  default_egress_def

subsection \<open>fill\_default\_blocks\<close>

definition conventional_block :: "int \<Rightarrow> block_config" where
  "conventional_block index =
     default_block\<lparr>bc_index := index, bc_channels := map (\<lambda>channel. index * 8 + channel) [0..7]\<rparr>"

definition fill_default_blocks :: "config \<Rightarrow> config" where
  "fill_default_blocks c = c\<lparr>cf_blocks := map conventional_block [0..lc_blocks (cf_link c) - 1]\<rparr>"

subsection \<open>validate\<close>

datatype audio_error =
    UnknownBackend string | NoDevice | WrongSampleRate int | ChannelsOutOfRange int
  | ChannelsNotMultiple int | UnknownFormat string | NotAnOpusFrame int
  | NotOneMillisecond int int int | PeriodsOutOfRange int

datatype link_error =
    UnknownRole string | UnknownMode string | BadPeer string string | LocalPortOutOfRange int
  | LatencyOutOfRange int | AlarmNotAboveLatency int int | PassphraseLength nat
  | BlocksOutOfRange int | BlocksDoNotCover int int int | ReceiveBufferOutOfRange int
  | FlowControlOutOfRange int

datatype blocks_error =
    BlockEntries int nat | BlockIndexOutOfRange int int | DuplicateBlockIndex int
  | BlockChannelCount int nat | BlockChannelOutOfRange int int int
  | BlockChannelTaken int int | GainOutOfRange int real | UnknownCodec int string
  | BitrateOutOfRange int int

datatype document_error =
    UnknownKey string | ExpectedObject string | ExpectedInteger string | ExpectedNumber string
  | ExpectedBool string | ExpectedString string | ExpectedArray string
  | ChannelsRequired string | ExpectedIntegers string
  | NotValidJson | NotAnObject | CannotRead string

datatype config_error =
    WrongVersion int
  | AudioError audio_error
  | LinkError link_error
  | NoDaemonAddress | DaemonPortOutOfRange int
  | BlocksError blocks_error
  | EgressDelayOutOfRange real | TestChannelOutOfRange int int
  | NoHttpAddress | HttpPortOutOfRange int
  | DocumentError document_error

definition validate_audio :: "audio_config \<Rightarrow> block_config list \<Rightarrow> audio_error option" where
  "validate_audio audio blocks =
     (let one_ms = ac_sample_rate audio div 1000;
          any_opus = list_ex (\<lambda>block. to_lower (bc_codec block) = ''opus'') blocks;
          frame = ac_period_frames audio in
      if ac_backend audio \<noteq> ''ravenna'' \<and> ac_backend audio \<noteq> ''null''
         \<and> ac_backend audio \<noteq> ''coreaudio'' \<and> ac_backend audio \<noteq> ''hal''
        then Some (UnknownBackend (ac_backend audio))
      else if ac_device audio = [] then Some NoDevice
      else if ac_sample_rate audio \<noteq> 48000 then Some (WrongSampleRate (ac_sample_rate audio))
      else if ac_channels audio < 8 \<or> ac_channels audio > 64
        then Some (ChannelsOutOfRange (ac_channels audio))
      else if ac_channels audio mod 8 \<noteq> 0 then Some (ChannelsNotMultiple (ac_channels audio))
      else if ac_format audio \<noteq> ''s24_3le'' \<and> ac_format audio \<noteq> ''s16_le''
        then Some (UnknownFormat (ac_format audio))
      else if any_opus \<and> \<not> (frame = 120 \<or> frame = 240 \<or> frame = 480 \<or> frame = 960
                              \<or> frame = 1920 \<or> frame = 2880)
        then Some (NotAnOpusFrame frame)
      else if \<not> any_opus \<and> frame \<noteq> one_ms
        then Some (NotOneMillisecond (ac_sample_rate audio) one_ms frame)
      else if ac_periods audio < 2 \<or> ac_periods audio > 64
        then Some (PeriodsOutOfRange (ac_periods audio))
      else None)"

definition validate_link :: "link_config \<Rightarrow> audio_config \<Rightarrow> link_error option" where
  "validate_link link audio =
     (let role = to_lower (lc_role link); mode = to_lower (lc_mode link);
          expected_blocks = ac_channels audio div 8 in
      if role \<noteq> ''tx'' \<and> role \<noteq> ''rx'' \<and> role \<noteq> ''duplex'' then Some (UnknownRole (lc_role link))
      else if mode \<noteq> ''caller'' \<and> mode \<noteq> ''listener'' \<and> mode \<noteq> ''rendezvous'' \<and> mode \<noteq> ''loopback''
        then Some (UnknownMode (lc_mode link))
      else if mode \<noteq> ''listener'' \<and> mode \<noteq> ''loopback'' \<and> split_host_port (lc_peer link) = None
        then Some (BadPeer mode (lc_peer link))
      else if lc_local_port link < 1 \<or> lc_local_port link > 65535
        then Some (LocalPortOutOfRange (lc_local_port link))
      else if lc_latency_ms link < 20 \<or> lc_latency_ms link > 8000
        then Some (LatencyOutOfRange (lc_latency_ms link))
      else if lc_alarm_delay_ms link \<le> lc_latency_ms link
        then Some (AlarmNotAboveLatency (lc_latency_ms link) (lc_alarm_delay_ms link))
      else if lc_passphrase link \<noteq> []
              \<and> (length (lc_passphrase link) < 10 \<or> length (lc_passphrase link) > 79)
        then Some (PassphraseLength (length (lc_passphrase link)))
      else if lc_blocks link < 1 \<or> lc_blocks link > 8 then Some (BlocksOutOfRange (lc_blocks link))
      else if lc_blocks link \<noteq> expected_blocks
        then Some (BlocksDoNotCover (lc_blocks link) (ac_channels audio) expected_blocks)
      else if lc_receive_buffer_bytes link \<noteq> 0
              \<and> (lc_receive_buffer_bytes link < 1024 \<or> lc_receive_buffer_bytes link > 268435456)
        then Some (ReceiveBufferOutOfRange (lc_receive_buffer_bytes link))
      else if lc_flow_control_packets link \<noteq> 0
              \<and> (lc_flow_control_packets link < 32 \<or> lc_flow_control_packets link > 1000000)
        then Some (FlowControlOutOfRange (lc_flow_control_packets link))
      else None)"

definition validate_daemon :: "daemon_config \<Rightarrow> config_error option" where
  "validate_daemon daemon =
     (if dc_address daemon = [] then Some NoDaemonAddress
      else if dc_port daemon < 1 \<or> dc_port daemon > 65535
        then Some (DaemonPortOutOfRange (dc_port daemon))
      else None)"

text \<open>
  The inner loop over the channels of one block; \<open>channel_seen\<close> is the list of the channels
  already taken. The result carries it on to the next block.
\<close>

fun check_channels :: "int \<Rightarrow> int \<Rightarrow> int list \<Rightarrow> int list \<Rightarrow> blocks_error + int list" where
  "check_channels index device_channels channel_seen [] = Inr channel_seen"
| "check_channels index device_channels channel_seen (channel # rest) =
     (if channel < 0 \<or> channel \<ge> device_channels
        then Inl (BlockChannelOutOfRange index channel device_channels)
      else if channel \<in> set channel_seen then Inl (BlockChannelTaken index channel)
      else check_channels index device_channels (channel # channel_seen) rest)"

definition check_block_tail :: "block_config \<Rightarrow> blocks_error option" where
  "check_block_tail block =
     (let codec = to_lower (bc_codec block) in
      if bc_gain_db block < -60 \<or> bc_gain_db block > 24
        then Some (GainOutOfRange (bc_index block) (bc_gain_db block))
      else if codec \<noteq> ''pcm_l24'' \<and> codec \<noteq> ''pcm_l16'' \<and> codec \<noteq> ''opus''
        then Some (UnknownCodec (bc_index block) (bc_codec block))
      else if codec = ''opus'' \<and> (bc_bitrate block < 6000 \<or> bc_bitrate block > 256000)
        then Some (BitrateOutOfRange (bc_index block) (bc_bitrate block))
      else None)"

fun check_block_configs ::
  "int \<Rightarrow> int \<Rightarrow> int list \<Rightarrow> int list \<Rightarrow> block_config list \<Rightarrow> blocks_error option" where
  "check_block_configs blocks channels index_seen channel_seen [] = None"
| "check_block_configs blocks channels index_seen channel_seen (block # rest) =
     (if bc_index block < 0 \<or> bc_index block \<ge> blocks
        then Some (BlockIndexOutOfRange blocks (bc_index block))
      else if bc_index block \<in> set index_seen then Some (DuplicateBlockIndex (bc_index block))
      else if length (bc_channels block) \<noteq> 8
        then Some (BlockChannelCount (bc_index block) (length (bc_channels block)))
      else
        case check_channels (bc_index block) channels channel_seen (bc_channels block) of
          Inl e \<Rightarrow> Some e
        | Inr channel_seen' \<Rightarrow>
            or_else (check_block_tail block)
              (check_block_configs blocks channels (bc_index block # index_seen) channel_seen' rest))"

definition validate_blocks :: "config \<Rightarrow> blocks_error option" where
  "validate_blocks c =
     (if int (length (cf_blocks c)) \<noteq> lc_blocks (cf_link c)
        then Some (BlockEntries (lc_blocks (cf_link c)) (length (cf_blocks c)))
      else check_block_configs (lc_blocks (cf_link c)) (ac_channels (cf_audio c)) [] [] (cf_blocks c))"

definition validate_egress :: "egress_config \<Rightarrow> int \<Rightarrow> config_error option" where
  "validate_egress egress channels =
     (if ec_delay_ms egress < 0 \<or> ec_delay_ms egress > 5000
        then Some (EgressDelayOutOfRange (ec_delay_ms egress))
      else if ec_test_signal_channel egress < -1 \<or> ec_test_signal_channel egress \<ge> channels
        then Some (TestChannelOutOfRange channels (ec_test_signal_channel egress))
      else None)"

definition validate_http :: "config \<Rightarrow> config_error option" where
  "validate_http c =
     (if cf_http_addr c = [] then Some NoHttpAddress
      else if cf_http_port c < 1 \<or> cf_http_port c > 65535
        then Some (HttpPortOutOfRange (cf_http_port c))
      else None)"

definition validate :: "config \<Rightarrow> config_error option" where
  "validate c =
     (if cf_version c \<noteq> 1 then Some (WrongVersion (cf_version c))
      else or_else (map_option AudioError (validate_audio (cf_audio c) (cf_blocks c)))
        (or_else (map_option LinkError (validate_link (cf_link c) (cf_audio c)))
          (or_else (validate_daemon (cf_daemon c))
            (or_else (map_option BlocksError (validate_blocks c))
              (or_else (validate_egress (cf_egress c) (ac_channels (cf_audio c)))
                (validate_http c))))))"

subsection \<open>Reading a document\<close>

datatype json =
    JNull | JBool bool | JInt int | JReal real | JString string
  | JArray "json list" | JObject "(string \<times> json) list"

type_synonym json_object = "(string \<times> json) list"

fun check_keys :: "json_object \<Rightarrow> string list \<Rightarrow> string \<Rightarrow> document_error + unit" where
  "check_keys [] allowed prefix = Inr ()"
| "check_keys ((key, value) # rest) allowed prefix =
     (if key \<in> set allowed then check_keys rest allowed prefix
      else Inl (UnknownKey (prefix @ key)))"

definition want_object ::
  "json_object \<Rightarrow> string \<Rightarrow> string \<Rightarrow> document_error + json_object option" where
  "want_object parent key path =
     (case map_of parent key of
        None \<Rightarrow> Inr None
      | Some (JObject obj) \<Rightarrow> Inr (Some obj)
      | Some _ \<Rightarrow> Inl (ExpectedObject (path @ key)))"

definition read_int ::
  "(int \<Rightarrow> int) \<Rightarrow> json_object \<Rightarrow> string \<Rightarrow> string \<Rightarrow> int \<Rightarrow> document_error + int" where
  "read_int get_int parent key path out =
     (case map_of parent key of
        None \<Rightarrow> Inr out
      | Some (JInt n) \<Rightarrow> Inr (get_int n)
      | Some _ \<Rightarrow> Inl (ExpectedInteger (path @ key)))"

definition read_double ::
  "json_object \<Rightarrow> string \<Rightarrow> string \<Rightarrow> real \<Rightarrow> document_error + real" where
  "read_double parent key path out =
     (case map_of parent key of
        None \<Rightarrow> Inr out
      | Some (JInt n) \<Rightarrow> Inr (of_int n)
      | Some (JReal x) \<Rightarrow> Inr x
      | Some _ \<Rightarrow> Inl (ExpectedNumber (path @ key)))"

definition read_bool ::
  "json_object \<Rightarrow> string \<Rightarrow> string \<Rightarrow> bool \<Rightarrow> document_error + bool" where
  "read_bool parent key path out =
     (case map_of parent key of
        None \<Rightarrow> Inr out
      | Some (JBool b) \<Rightarrow> Inr b
      | Some _ \<Rightarrow> Inl (ExpectedBool (path @ key)))"

definition read_string ::
  "json_object \<Rightarrow> string \<Rightarrow> string \<Rightarrow> string \<Rightarrow> document_error + string" where
  "read_string parent key path out =
     (case map_of parent key of
        None \<Rightarrow> Inr out
      | Some (JString s) \<Rightarrow> Inr s
      | Some _ \<Rightarrow> Inl (ExpectedString (path @ key)))"

definition read_audio ::
  "(int \<Rightarrow> int) \<Rightarrow> json_object \<Rightarrow> audio_config \<Rightarrow> document_error + audio_config" where
  "read_audio get_int document audio =
     sum_bind (want_object document ''audio'' []) (\<lambda>found.
       case found of
         None \<Rightarrow> Inr audio
       | Some obj \<Rightarrow>
           sum_bind (check_keys obj [''backend'', ''device'', ''channels'', ''sample_rate'',
               ''format'', ''period_frames'', ''periods''] ''audio.'') (\<lambda>_.
           sum_bind (read_string obj ''backend'' ''audio.'' (ac_backend audio)) (\<lambda>backend.
           sum_bind (read_string obj ''device'' ''audio.'' (ac_device audio)) (\<lambda>device.
           sum_bind (read_int get_int obj ''channels'' ''audio.'' (ac_channels audio)) (\<lambda>channels.
           sum_bind (read_int get_int obj ''sample_rate'' ''audio.'' (ac_sample_rate audio)) (\<lambda>rate.
           sum_bind (read_string obj ''format'' ''audio.'' (ac_format audio)) (\<lambda>format.
           sum_bind (read_int get_int obj ''period_frames'' ''audio.'' (ac_period_frames audio)) (\<lambda>frames.
           sum_bind (read_int get_int obj ''periods'' ''audio.'' (ac_periods audio)) (\<lambda>periods.
             Inr \<lparr>ac_backend = backend, ac_device = device, ac_channels = channels,
                  ac_sample_rate = rate, ac_format = format, ac_period_frames = frames,
                  ac_periods = periods\<rparr>)))))))))"

definition read_link ::
  "(int \<Rightarrow> int) \<Rightarrow> json_object \<Rightarrow> link_config \<Rightarrow> document_error + link_config" where
  "read_link get_int document link =
     sum_bind (want_object document ''link'' []) (\<lambda>found.
       case found of
         None \<Rightarrow> Inr link
       | Some obj \<Rightarrow>
           sum_bind (check_keys obj [''role'', ''mode'', ''peer'', ''local_port'', ''latency_ms'',
               ''alarm_delay_ms'', ''passphrase'', ''blocks'', ''receive_buffer_bytes'',
               ''flow_control_packets''] ''link.'') (\<lambda>_.
           sum_bind (read_string obj ''role'' ''link.'' (lc_role link)) (\<lambda>role.
           sum_bind (read_string obj ''mode'' ''link.'' (lc_mode link)) (\<lambda>mode.
           sum_bind (read_string obj ''peer'' ''link.'' (lc_peer link)) (\<lambda>peer.
           sum_bind (read_int get_int obj ''local_port'' ''link.'' (lc_local_port link)) (\<lambda>local_port.
           sum_bind (read_int get_int obj ''latency_ms'' ''link.'' (lc_latency_ms link)) (\<lambda>latency.
           sum_bind (read_int get_int obj ''alarm_delay_ms'' ''link.'' (lc_alarm_delay_ms link)) (\<lambda>alarm.
           sum_bind (read_string obj ''passphrase'' ''link.'' (lc_passphrase link)) (\<lambda>passphrase.
           sum_bind (read_int get_int obj ''blocks'' ''link.'' (lc_blocks link)) (\<lambda>blocks.
           sum_bind (read_int get_int obj ''receive_buffer_bytes'' ''link.''
               (lc_receive_buffer_bytes link)) (\<lambda>receive_buffer.
           sum_bind (read_int get_int obj ''flow_control_packets'' ''link.''
               (lc_flow_control_packets link)) (\<lambda>flow_control.
             Inr \<lparr>lc_role = role, lc_mode = mode, lc_peer = peer, lc_local_port = local_port,
                  lc_latency_ms = latency, lc_alarm_delay_ms = alarm, lc_passphrase = passphrase,
                  lc_blocks = blocks, lc_receive_buffer_bytes = receive_buffer,
                  lc_flow_control_packets = flow_control\<rparr>))))))))))))"

definition read_daemon ::
  "(int \<Rightarrow> int) \<Rightarrow> json_object \<Rightarrow> daemon_config \<Rightarrow> document_error + daemon_config" where
  "read_daemon get_int document daemon =
     sum_bind (want_object document ''aes67_daemon'' []) (\<lambda>found.
       case found of
         None \<Rightarrow> Inr daemon
       | Some obj \<Rightarrow>
           sum_bind (check_keys obj [''address'', ''port'', ''fake''] ''aes67_daemon.'') (\<lambda>_.
           sum_bind (read_string obj ''address'' ''aes67_daemon.'' (dc_address daemon)) (\<lambda>address.
           sum_bind (read_int get_int obj ''port'' ''aes67_daemon.'' (dc_port daemon)) (\<lambda>port.
           sum_bind (read_bool obj ''fake'' ''aes67_daemon.'' (dc_fake daemon)) (\<lambda>fake.
             Inr \<lparr>dc_address = address, dc_port = port, dc_fake = fake\<rparr>)))))"

definition read_egress ::
  "(int \<Rightarrow> int) \<Rightarrow> json_object \<Rightarrow> egress_config \<Rightarrow> document_error + egress_config" where
  "read_egress get_int document egress =
     sum_bind (want_object document ''egress'' []) (\<lambda>found.
       case found of
         None \<Rightarrow> Inr egress
       | Some obj \<Rightarrow>
           sum_bind (check_keys obj [''delay_ms'', ''test_signal_channel''] ''egress.'') (\<lambda>_.
           sum_bind (read_double obj ''delay_ms'' ''egress.'' (ec_delay_ms egress)) (\<lambda>delay.
           sum_bind (read_int get_int obj ''test_signal_channel'' ''egress.''
               (ec_test_signal_channel egress)) (\<lambda>channel.
             Inr \<lparr>ec_delay_ms = delay, ec_test_signal_channel = channel\<rparr>))))"

text \<open>
  The block array. The index a block has when the document gives none is its position. The path
  in a message names the position too: \<open>show_position\<close> is the text \<^verbatim>\<open>blocks[i].\<close> the code builds
  with \<^verbatim>\<open>std::to_string\<close>.
\<close>

fun read_channels :: "(int \<Rightarrow> int) \<Rightarrow> string \<Rightarrow> json list \<Rightarrow> document_error + int list" where
  "read_channels get_int path [] = Inr []"
| "read_channels get_int path (JInt n # rest) =
     sum_bind (read_channels get_int path rest) (\<lambda>ns. Inr (get_int n # ns))"
| "read_channels get_int path (_ # rest) = Inl (ExpectedIntegers (path @ ''channels''))"

definition read_block ::
  "(int \<Rightarrow> int) \<Rightarrow> (nat \<Rightarrow> string) \<Rightarrow> nat \<Rightarrow> json \<Rightarrow> document_error + block_config" where
  "read_block get_int show_position position entry =
     (let path = show_position position in
      case entry of
        JObject obj \<Rightarrow>
          sum_bind (check_keys obj [''index'', ''channels'', ''gain_db'', ''mute'', ''codec'',
              ''bitrate_bps_per_channel''] path) (\<lambda>_.
          sum_bind (read_int get_int obj ''index'' path (int position)) (\<lambda>index.
          sum_bind (read_double obj ''gain_db'' path (bc_gain_db default_block)) (\<lambda>gain.
          sum_bind (read_bool obj ''mute'' path (bc_mute default_block)) (\<lambda>mute.
          sum_bind (read_string obj ''codec'' path (bc_codec default_block)) (\<lambda>codec.
          sum_bind (read_int get_int obj ''bitrate_bps_per_channel'' path
              (bc_bitrate default_block)) (\<lambda>bitrate.
          case map_of obj ''channels'' of
            None \<Rightarrow> Inl (ChannelsRequired (path @ ''channels''))
          | Some (JArray values) \<Rightarrow>
              sum_bind (read_channels get_int path values) (\<lambda>channels.
                Inr \<lparr>bc_index = index, bc_channels = channels, bc_gain_db = gain,
                     bc_mute = mute, bc_codec = codec, bc_bitrate = bitrate\<rparr>)
          | Some _ \<Rightarrow> Inl (ExpectedArray (path @ ''channels''))))))))
      | _ \<Rightarrow> Inl (ExpectedObject path))"

fun read_block_entries ::
  "(int \<Rightarrow> int) \<Rightarrow> (nat \<Rightarrow> string) \<Rightarrow> nat \<Rightarrow> json list \<Rightarrow> document_error + block_config list" where
  "read_block_entries get_int show_position position [] = Inr []"
| "read_block_entries get_int show_position position (entry # rest) =
     sum_bind (read_block get_int show_position position entry) (\<lambda>block.
       sum_bind (read_block_entries get_int show_position (position + 1) rest) (\<lambda>blocks.
         Inr (block # blocks)))"

definition read_blocks ::
  "(int \<Rightarrow> int) \<Rightarrow> (nat \<Rightarrow> string) \<Rightarrow> json_object \<Rightarrow> config \<Rightarrow> document_error + config" where
  "read_blocks get_int show_position document c =
     (case map_of document ''blocks'' of
        None \<Rightarrow> Inr (fill_default_blocks c)
      | Some (JArray entries) \<Rightarrow>
          sum_bind (read_block_entries get_int show_position 0 entries) (\<lambda>blocks.
            Inr (c\<lparr>cf_blocks := blocks\<rparr>))
      | Some _ \<Rightarrow> Inl (ExpectedArray ''blocks''))"

text \<open>\<^verbatim>\<open>parse_config\<close> after the text has become a document, and with it.\<close>

definition read_document ::
  "(int \<Rightarrow> int) \<Rightarrow> (nat \<Rightarrow> string) \<Rightarrow> json_object \<Rightarrow> document_error + config" where
  "read_document get_int show_position document =
     sum_bind (check_keys document [''version'', ''audio'', ''link'', ''aes67_daemon'', ''egress'',
         ''blocks'', ''http_addr'', ''http_port''] []) (\<lambda>_.
     sum_bind (read_int get_int document ''version'' [] (cf_version default_config)) (\<lambda>version.
     sum_bind (read_audio get_int document (cf_audio default_config)) (\<lambda>audio.
     sum_bind (read_link get_int document (cf_link default_config)) (\<lambda>link.
     sum_bind (read_daemon get_int document (cf_daemon default_config)) (\<lambda>daemon.
     sum_bind (read_egress get_int document (cf_egress default_config)) (\<lambda>egress.
     sum_bind (read_blocks get_int show_position document
         (default_config\<lparr>cf_version := version, cf_audio := audio, cf_link := link,
            cf_daemon := daemon, cf_egress := egress\<rparr>)) (\<lambda>parsed.
     sum_bind (read_string document ''http_addr'' [] (cf_http_addr parsed)) (\<lambda>http_addr.
     sum_bind (read_int get_int document ''http_port'' [] (cf_http_port parsed)) (\<lambda>http_port.
       Inr (parsed\<lparr>cf_http_addr := http_addr, cf_http_port := http_port\<rparr>))))))))))"

definition parse_config ::
  "(string \<Rightarrow> json option) \<Rightarrow> (int \<Rightarrow> int) \<Rightarrow> (nat \<Rightarrow> string) \<Rightarrow> string \<Rightarrow> config_error + config" where
  "parse_config json_parse get_int show_position json_text =
     (case json_parse json_text of
        None \<Rightarrow> Inl (DocumentError NotValidJson)
      | Some (JObject document) \<Rightarrow>
          (case read_document get_int show_position document of
             Inl e \<Rightarrow> Inl (DocumentError e)
           | Inr parsed \<Rightarrow>
               (case validate parsed of Some e \<Rightarrow> Inl e | None \<Rightarrow> Inr parsed))
      | Some _ \<Rightarrow> Inl (DocumentError NotAnObject))"

definition load_config ::
  "(string \<Rightarrow> string option) \<Rightarrow> (string \<Rightarrow> json option) \<Rightarrow> (int \<Rightarrow> int) \<Rightarrow> (nat \<Rightarrow> string)
     \<Rightarrow> string \<Rightarrow> config_error + config" where
  "load_config read_file json_parse get_int show_position path =
     (case read_file path of
        None \<Rightarrow> Inl (DocumentError (CannotRead path))
      | Some contents \<Rightarrow> parse_config json_parse get_int show_position contents)"

subsection \<open>to\_json\<close>

definition block_to_json :: "block_config \<Rightarrow> json" where
  "block_to_json block =
     JObject [(''index'', JInt (bc_index block)),
              (''channels'', JArray (map JInt (bc_channels block))),
              (''gain_db'', JReal (bc_gain_db block)),
              (''mute'', JBool (bc_mute block)),
              (''codec'', JString (bc_codec block)),
              (''bitrate_bps_per_channel'', JInt (bc_bitrate block))]"

definition config_to_json :: "config \<Rightarrow> json_object" where
  "config_to_json c =
     (let audio = cf_audio c; link = cf_link c; daemon = cf_daemon c; egress = cf_egress c in
      [(''version'', JInt (cf_version c)),
       (''audio'', JObject
          [(''backend'', JString (ac_backend audio)), (''device'', JString (ac_device audio)),
           (''channels'', JInt (ac_channels audio)), (''sample_rate'', JInt (ac_sample_rate audio)),
           (''format'', JString (ac_format audio)), (''period_frames'', JInt (ac_period_frames audio)),
           (''periods'', JInt (ac_periods audio))]),
       (''link'', JObject
          [(''role'', JString (lc_role link)), (''mode'', JString (lc_mode link)),
           (''peer'', JString (lc_peer link)), (''local_port'', JInt (lc_local_port link)),
           (''latency_ms'', JInt (lc_latency_ms link)),
           (''alarm_delay_ms'', JInt (lc_alarm_delay_ms link)),
           (''passphrase'', JString (lc_passphrase link)), (''blocks'', JInt (lc_blocks link)),
           (''receive_buffer_bytes'', JInt (lc_receive_buffer_bytes link)),
           (''flow_control_packets'', JInt (lc_flow_control_packets link))]),
       (''aes67_daemon'', JObject
          [(''address'', JString (dc_address daemon)), (''port'', JInt (dc_port daemon)),
           (''fake'', JBool (dc_fake daemon))]),
       (''egress'', JObject
          [(''delay_ms'', JReal (ec_delay_ms egress)),
           (''test_signal_channel'', JInt (ec_test_signal_channel egress))]),
       (''blocks'', JArray (map block_to_json (cf_blocks c))),
       (''http_addr'', JString (cf_http_addr c)),
       (''http_port'', JInt (cf_http_port c))])"

subsection \<open>What an accepted configuration guarantees\<close>

lemma check_channels_Inr:
  "check_channels i n seen cs = Inr seen' \<longleftrightarrow>
     seen' = rev cs @ seen \<and> distinct cs \<and> set cs \<inter> set seen = {} \<and> set cs \<subseteq> {0..<n}"
  by (induction cs arbitrary: seen) auto

lemma check_block_configs_None:
  "check_block_configs blocks n iseen cseen bs = None \<Longrightarrow>
     distinct (map bc_index bs) \<and> set (map bc_index bs) \<inter> set iseen = {}
     \<and> set (map bc_index bs) \<subseteq> {0..<blocks}
     \<and> distinct (concat (map bc_channels bs)) \<and> set (concat (map bc_channels bs)) \<inter> set cseen = {}
     \<and> set (concat (map bc_channels bs)) \<subseteq> {0..<n}
     \<and> (\<forall>b \<in> set bs. length (bc_channels b) = 8 \<and> check_block_tail b = None)"
proof (induction bs arbitrary: iseen cseen)
  case Nil
  then show ?case by simp
next
  case (Cons b bs)
  obtain cseen' where c: "check_channels (bc_index b) n cseen (bc_channels b) = Inr cseen'"
    using Cons.prems by (auto split: if_splits sum.splits)
  then have rec: "check_block_configs blocks n (bc_index b # iseen) cseen' bs = None"
    and b: "0 \<le> bc_index b" "bc_index b < blocks" "bc_index b \<notin> set iseen"
      "length (bc_channels b) = 8" "check_block_tail b = None"
    using Cons.prems by (auto simp: or_else_None split: if_splits)
  show ?case
    using Cons.IH [OF rec] b c [unfolded check_channels_Inr] by auto
qed

lemma validate_None:
  "validate c = None \<longleftrightarrow>
     cf_version c = 1 \<and> validate_audio (cf_audio c) (cf_blocks c) = None
     \<and> validate_link (cf_link c) (cf_audio c) = None \<and> validate_daemon (cf_daemon c) = None
     \<and> validate_blocks c = None
     \<and> validate_egress (cf_egress c) (ac_channels (cf_audio c)) = None \<and> validate_http c = None"
  by (simp add: validate_def or_else_None)

lemma validate_audio_None:
  "validate_audio audio blocks = None \<Longrightarrow>
     ac_sample_rate audio = 48000 \<and> 8 \<le> ac_channels audio \<and> ac_channels audio \<le> 64
     \<and> ac_channels audio mod 8 = 0 \<and> ac_format audio \<in> {''s24_3le'', ''s16_le''}
     \<and> ac_period_frames audio \<in> {48, 120, 240, 480, 960, 1920, 2880}
     \<and> 2 \<le> ac_periods audio \<and> ac_periods audio \<le> 64"
  by (auto simp: validate_audio_def Let_def split: if_splits)

lemma validate_link_None:
  "validate_link link audio = None \<Longrightarrow>
     lc_blocks link = ac_channels audio div 8 \<and> 1 \<le> lc_blocks link \<and> lc_blocks link \<le> 8
     \<and> 20 \<le> lc_latency_ms link \<and> lc_latency_ms link \<le> 8000
     \<and> lc_latency_ms link < lc_alarm_delay_ms link
     \<and> 1 \<le> lc_local_port link \<and> lc_local_port link \<le> 65535"
  by (auto simp: validate_link_def Let_def split: if_splits)

lemma length_concat_const:
  "(\<forall>b \<in> set bs. length (f b) = k) \<Longrightarrow> length (concat (map f bs)) = k * length bs"
  by (induction bs) auto

lemma distinct_full:
  assumes "distinct xs" "set xs \<subseteq> {0..<n}" "int (length xs) = n"
  shows "set xs = {0..<n}"
proof (rule card_subset_eq)
  show "card (set xs) = card {0..<n}"
    using assms(1,3) by (simp add: distinct_card)
qed (use assms in auto)

lemma validated_blocks:
  assumes "validate c = None"
  shows "int (length (cf_blocks c)) = lc_blocks (cf_link c)"
    and "ac_channels (cf_audio c) = 8 * lc_blocks (cf_link c)"
    and "distinct (map bc_index (cf_blocks c))"
    and "set (map bc_index (cf_blocks c)) = {0..<lc_blocks (cf_link c)}"
    and "distinct (concat (map bc_channels (cf_blocks c)))"
    and "set (concat (map bc_channels (cf_blocks c))) = {0..<ac_channels (cf_audio c)}"
    and "\<forall>b \<in> set (cf_blocks c). length (bc_channels b) = 8"
    and "\<forall>b \<in> set (cf_blocks c). bc_gain_db b \<le> 24"
proof -
  have v: "validate_audio (cf_audio c) (cf_blocks c) = None"
    "validate_link (cf_link c) (cf_audio c) = None" "validate_blocks c = None"
    using assms by (simp_all add: validate_None)
  show len: "int (length (cf_blocks c)) = lc_blocks (cf_link c)"
    using v(3) by (auto simp: validate_blocks_def split: if_splits)
  have checks: "check_block_configs (lc_blocks (cf_link c)) (ac_channels (cf_audio c)) [] []
      (cf_blocks c) = None"
    using v(3) len by (simp add: validate_blocks_def)
  note b = check_block_configs_None [OF checks]
  show ch: "ac_channels (cf_audio c) = 8 * lc_blocks (cf_link c)"
    using validate_audio_None [OF v(1)] validate_link_None [OF v(2)] by auto
  show "distinct (map bc_index (cf_blocks c))"
    "distinct (concat (map bc_channels (cf_blocks c)))"
    "\<forall>b \<in> set (cf_blocks c). length (bc_channels b) = 8" using b by auto
  show "\<forall>b \<in> set (cf_blocks c). bc_gain_db b \<le> 24"
    using b by (auto simp: check_block_tail_def Let_def split: if_splits)
  show "set (map bc_index (cf_blocks c)) = {0..<lc_blocks (cf_link c)}"
    using b len by (intro distinct_full) auto
  have "length (concat (map bc_channels (cf_blocks c))) = 8 * length (cf_blocks c)"
    using b by (intro length_concat_const) auto
  then show "set (concat (map bc_channels (cf_blocks c))) = {0..<ac_channels (cf_audio c)}"
    using b len ch by (intro distinct_full) auto
qed

subsection \<open>Writing a document and reading it back\<close>

definition fits :: "int \<Rightarrow> bool" where
  "fits n \<longleftrightarrow> - (2 ^ 31) \<le> n \<and> n < 2 ^ 31"

definition ints_fit :: "config \<Rightarrow> bool" where
  "ints_fit c \<longleftrightarrow>
     list_all fits
       ([cf_version c, ac_channels (cf_audio c), ac_sample_rate (cf_audio c),
         ac_period_frames (cf_audio c), ac_periods (cf_audio c), lc_local_port (cf_link c),
         lc_latency_ms (cf_link c), lc_alarm_delay_ms (cf_link c), lc_blocks (cf_link c),
         lc_receive_buffer_bytes (cf_link c), lc_flow_control_packets (cf_link c),
         dc_port (cf_daemon c), ec_test_signal_channel (cf_egress c), cf_http_port c]
        @ concat (map (\<lambda>b. bc_index b # bc_bitrate b # bc_channels b) (cf_blocks c)))"

definition reads_ints :: "(int \<Rightarrow> int) \<Rightarrow> bool" where
  "reads_ints get_int \<longleftrightarrow> (\<forall>n. fits n \<longrightarrow> get_int n = n)"

lemma read_channels_map:
  "(\<forall>n \<in> set ns. get_int n = n) \<Longrightarrow> read_channels get_int path (map JInt ns) = Inr ns"
  by (induction ns) auto

lemma read_block_to_json:
  assumes "get_int (bc_index b) = bc_index b" "get_int (bc_bitrate b) = bc_bitrate b"
    and "\<forall>n \<in> set (bc_channels b). get_int n = n"
  shows "read_block get_int show_position position (block_to_json b) = Inr b"
  using assms
  by (simp add: read_block_def block_to_json_def read_int_def read_double_def read_bool_def
      read_string_def read_channels_map)

lemma read_block_entries_to_json:
  "(\<forall>b \<in> set bs. get_int (bc_index b) = bc_index b \<and> get_int (bc_bitrate b) = bc_bitrate b
      \<and> (\<forall>n \<in> set (bc_channels b). get_int n = n)) \<Longrightarrow>
   read_block_entries get_int show_position position (map block_to_json bs) = Inr bs"
  by (induction bs arbitrary: position) (auto simp: read_block_to_json)

lemma read_document_to_json:
  assumes "reads_ints get_int" and "ints_fit c"
  shows "read_document get_int show_position (config_to_json c) = Inr c"
proof -
  have g: "get_int n = n" if "fits n" for n using assms(1) that by (simp add: reads_ints_def)
  have fit: "fits (cf_version c)" "fits (ac_channels (cf_audio c))" "fits (ac_sample_rate (cf_audio c))"
    "fits (ac_period_frames (cf_audio c))" "fits (ac_periods (cf_audio c))"
    "fits (lc_local_port (cf_link c))" "fits (lc_latency_ms (cf_link c))"
    "fits (lc_alarm_delay_ms (cf_link c))" "fits (lc_blocks (cf_link c))"
    "fits (lc_receive_buffer_bytes (cf_link c))" "fits (lc_flow_control_packets (cf_link c))"
    "fits (dc_port (cf_daemon c))" "fits (ec_test_signal_channel (cf_egress c))"
    "fits (cf_http_port c)"
    using assms(2) by (simp_all add: ints_fit_def)
  have blocks: "read_block_entries get_int show_position 0 (map block_to_json (cf_blocks c))
      = Inr (cf_blocks c)"
    by (rule read_block_entries_to_json)
      (use assms(2) g in \<open>auto simp: ints_fit_def list_all_iff\<close>)
  note reads = read_int_def read_double_def read_bool_def read_string_def want_object_def
  have audio: "read_audio get_int (config_to_json c) (cf_audio default_config) = Inr (cf_audio c)"
    by (simp add: read_audio_def config_to_json_def Let_def reads g fit)
  have link: "read_link get_int (config_to_json c) (cf_link default_config) = Inr (cf_link c)"
    by (simp add: read_link_def config_to_json_def Let_def reads g fit)
  have daemon: "read_daemon get_int (config_to_json c) (cf_daemon default_config) = Inr (cf_daemon c)"
    by (simp add: read_daemon_def config_to_json_def Let_def reads g fit)
  have egress: "read_egress get_int (config_to_json c) (cf_egress default_config) = Inr (cf_egress c)"
    by (simp add: read_egress_def config_to_json_def Let_def reads g fit)
  have keys: "check_keys (config_to_json c) [''version'', ''audio'', ''link'', ''aes67_daemon'',
      ''egress'', ''blocks'', ''http_addr'', ''http_port''] [] = Inr ()"
    by (simp add: config_to_json_def Let_def)
  show ?thesis
    by (simp add: read_document_def keys audio link daemon egress)
      (simp add: read_int_def read_string_def read_blocks_def config_to_json_def Let_def g fit
        blocks default_config_def)
qed

subsection \<open>Properties\<close>

text \<open>A configuration the witnesses use: the defaults, with a peer, two blocks and 16 channels.\<close>

definition example_config :: config where
  "example_config = fill_default_blocks (default_config\<lparr>
     cf_audio := default_audio\<lparr>ac_channels := 16\<rparr>,
     cf_link := default_link\<lparr>lc_peer := ''10.0.0.7:9000'', lc_blocks := 2\<rparr>\<rparr>)"

lemma split_example_peer: "split_host_port ''10.0.0.7:9000'' = Some (''10.0.0.7'', 9000)"
  by (simp add: split_host_port_def trim_def split_def digits_value_def is_space_def is_digit_def
      Let_def)

lemma upto_example: "[0..7] = [0, 1, 2, 3, 4, 5, 6, 7 :: int]" "[0..1] = [0, 1 :: int]"
  by (simp_all add: upto.simps)

lemma example_config_valid: "validate example_config = None"
  by (simp add: validate_None example_config_def default_defs fill_default_blocks_def
      conventional_block_def default_block_def upto_example validate_audio_def validate_link_def
      validate_daemon_def validate_blocks_def validate_egress_def validate_http_def
      check_block_tail_def to_lower_def lower_char_def split_example_peer Let_def)

lemma example_config_fits: "ints_fit example_config"
  by (simp add: ints_fit_def example_config_def default_defs fill_default_blocks_def
      conventional_block_def default_block_def upto_example fits_def)

text \<open>
  C25. An accepted configuration names every device channel in exactly one position of exactly one
  block, has one block per eight channels, and its block indices are the numbers below the block
  count, each once.
\<close>

theorem validate_blocks_cover:
  assumes "validate c = None"
  shows "distinct (concat (map bc_channels (cf_blocks c)))
    \<and> set (concat (map bc_channels (cf_blocks c))) = {0..<ac_channels (cf_audio c)}
    \<and> (\<forall>b \<in> set (cf_blocks c). length (bc_channels b) = 8)
    \<and> distinct (map bc_index (cf_blocks c))
    \<and> set (map bc_index (cf_blocks c)) = {0..<lc_blocks (cf_link c)}
    \<and> ac_channels (cf_audio c) = 8 * lc_blocks (cf_link c)"
  using validated_blocks [OF assms] by blast

theorem validate_blocks_cover_witness:
  "set (concat (map bc_channels (cf_blocks example_config)))
     = {0..<ac_channels (cf_audio example_config)}
   \<and> set (map bc_index (cf_blocks example_config)) = {0, 1}"
proof -
  have "{0..<2} = {0, 1 :: int}" by auto
  moreover have "lc_blocks (cf_link example_config) = 2"
    by (simp add: example_config_def fill_default_blocks_def)
  ultimately show ?thesis
    using validate_blocks_cover [OF example_config_valid] by simp
qed

text \<open>
  C26. What the daemon writes of its configuration is what it reads back: if the JSON text parses
  to the document \<^verbatim>\<open>to_json\<close> built, and JSON integers that fit an \<^verbatim>\<open>int\<close> are read as they are, a
  valid configuration is loaded from its own document unchanged, every field of every section
  and block included.
\<close>

theorem config_round_trip:
  assumes "validate c = None" and "ints_fit c" and "reads_ints get_int"
    and "json_parse json_text = Some (JObject (config_to_json c))"
  shows "parse_config json_parse get_int show_position json_text = Inr c"
  using assms by (simp add: parse_config_def read_document_to_json)

theorem config_round_trip_witness:
  "parse_config (\<lambda>t. if t = ''saved'' then Some (JObject (config_to_json example_config)) else None)
     id (\<lambda>_. ''blocks[].'') ''saved'' = Inr example_config"
  by (rule config_round_trip [OF example_config_valid example_config_fits])
    (simp_all add: reads_ints_def)

text \<open>What a document that is read must have looked like.\<close>

definition known_top_keys :: "string set" where
  "known_top_keys = {''version'', ''audio'', ''link'', ''aes67_daemon'', ''egress'', ''blocks'',
     ''http_addr'', ''http_port''}"

definition known_section_keys :: "string \<Rightarrow> string set" where
  "known_section_keys section =
     (if section = ''audio'' then {''backend'', ''device'', ''channels'', ''sample_rate'', ''format'',
          ''period_frames'', ''periods''}
      else if section = ''link'' then {''role'', ''mode'', ''peer'', ''local_port'', ''latency_ms'',
          ''alarm_delay_ms'', ''passphrase'', ''blocks'', ''receive_buffer_bytes'',
          ''flow_control_packets''}
      else if section = ''aes67_daemon'' then {''address'', ''port'', ''fake''}
      else if section = ''egress'' then {''delay_ms'', ''test_signal_channel''}
      else {})"

lemma check_keys_Inr: "check_keys obj allowed prefix = Inr u \<longleftrightarrow> fst ` set obj \<subseteq> set allowed"
  by (induction obj allowed prefix rule: check_keys.induct) auto

lemma section_keys:
  assumes "map_of document section = Some v"
    and "sum_bind (want_object document section []) (\<lambda>found. case found of None \<Rightarrow> Inr d
           | Some obj \<Rightarrow> sum_bind (check_keys obj allowed prefix) (k obj)) = Inr r"
  shows "\<exists>obj. v = JObject obj \<and> fst ` set obj \<subseteq> set allowed"
  using assms by (auto simp: want_object_def sum_bind_eq_Inr check_keys_Inr split: json.splits)

lemma read_document_keys:
  assumes "read_document get_int show_position document = Inr c"
  shows "fst ` set document \<subseteq> known_top_keys"
    and "section \<in> {''audio'', ''link'', ''aes67_daemon'', ''egress''} \<Longrightarrow>
      map_of document section = Some v \<Longrightarrow>
      \<exists>obj. v = JObject obj \<and> fst ` set obj \<subseteq> known_section_keys section"
proof -
  note d = assms [unfolded read_document_def sum_bind_eq_Inr]
  show "fst ` set document \<subseteq> known_top_keys"
    using d by (auto simp: check_keys_Inr known_top_keys_def)
  assume s: "section \<in> {''audio'', ''link'', ''aes67_daemon'', ''egress''}"
    and v: "map_of document section = Some v"
  from d obtain audio link daemon egress where
    a: "read_audio get_int document (cf_audio default_config) = Inr audio"
    and l: "read_link get_int document (cf_link default_config) = Inr link"
    and dm: "read_daemon get_int document (cf_daemon default_config) = Inr daemon"
    and e: "read_egress get_int document (cf_egress default_config) = Inr egress"
    by blast
  consider "section = ''audio''" | "section = ''link''" | "section = ''aes67_daemon''"
    | "section = ''egress''" using s by blast
  then show "\<exists>obj. v = JObject obj \<and> fst ` set obj \<subseteq> known_section_keys section"
  proof cases
    case 1 then show ?thesis
      using section_keys [OF v [unfolded 1] a [unfolded read_audio_def]]
      by (simp add: known_section_keys_def)
  next
    case 2 then show ?thesis
      using section_keys [OF v [unfolded 2] l [unfolded read_link_def]]
      by (simp add: known_section_keys_def)
  next
    case 3 then show ?thesis
      using section_keys [OF v [unfolded 3] dm [unfolded read_daemon_def]]
      by (simp add: known_section_keys_def)
  next
    case 4 then show ?thesis
      using section_keys [OF v [unfolded 4] e [unfolded read_egress_def]]
      by (simp add: known_section_keys_def)
  qed
qed

text \<open>
  Refuse rather than repair: a document that is accepted has only keys the schema knows, at
  the top level and in each of its four sections, each section is an object, and the result has
  passed \<^verbatim>\<open>validate\<close>.
\<close>

theorem parse_config_strict:
  assumes "parse_config json_parse get_int show_position json_text = Inr c"
  shows "\<exists>document. json_parse json_text = Some (JObject document)
    \<and> fst ` set document \<subseteq> known_top_keys
    \<and> (\<forall>section \<in> {''audio'', ''link'', ''aes67_daemon'', ''egress''}. \<forall>v.
         map_of document section = Some v \<longrightarrow>
           (\<exists>obj. v = JObject obj \<and> fst ` set obj \<subseteq> known_section_keys section))
    \<and> validate c = None"
proof -
  obtain document where j: "json_parse json_text = Some (JObject document)"
    and r: "read_document get_int show_position document = Inr c" and v: "validate c = None"
    using assms
    by (auto simp: parse_config_def split: option.splits json.splits sum.splits)
  show ?thesis using j v read_document_keys [OF r] by blast
qed

theorem parse_config_strict_witness:
  "\<exists>document. Some (JObject (config_to_json example_config)) = Some (JObject document)
     \<and> fst ` set document \<subseteq> known_top_keys \<and> validate example_config = None"
proof -
  let ?parse = "\<lambda>t :: string. Some (JObject (config_to_json example_config))"
  have "parse_config ?parse id (\<lambda>_. ''blocks[].'') [] = Inr example_config"
    by (simp add: parse_config_def example_config_valid
        read_document_to_json [OF _ example_config_fits] reads_ints_def)
  from parse_config_strict [OF this] show ?thesis by blast
qed

end
