(* ===== verification/Audio.thy ===== *)
theory Audio
  imports Prelude Config
begin

text \<open>
  The shape of the audio path, src/src/audio/backend.hpp, and the choice of a backend,
  src/src/audio/backend.cpp.

  An \<open>audio_format\<close> is the struct of the header with its three byte counts; \<open>audio_format_from\<close> is
  the one place where the configuration's format string becomes a sample width. Which backends a
  build contains is decided by its preprocessor symbols, so they are arguments here.
\<close>

record audio_format =
  af_sample_rate :: nat
  af_channels :: nat
  af_period_frames :: nat
  af_sample_bytes :: nat

definition default_format :: audio_format where
  "default_format =
     \<lparr>af_sample_rate = 48000, af_channels = 64, af_period_frames = 48, af_sample_bytes = 3\<rparr>"

definition period_samples :: "audio_format \<Rightarrow> nat" where
  "period_samples format = af_period_frames format * af_channels format"

definition period_bytes :: "audio_format \<Rightarrow> nat" where
  "period_bytes format = period_samples format * af_sample_bytes format"

definition frames_to_bytes :: "audio_format \<Rightarrow> nat \<Rightarrow> nat" where
  "frames_to_bytes format frames = frames * af_channels format * af_sample_bytes format"

definition audio_format_from :: "audio_config \<Rightarrow> audio_format" where
  "audio_format_from config =
     \<lparr>af_sample_rate = nat (ac_sample_rate config), af_channels = nat (ac_channels config),
      af_period_frames = nat (ac_period_frames config),
      af_sample_bytes = (if ac_format config = ''s16_le'' then 2 else 3)\<rparr>"

lemma period_bytes_frames: "period_bytes format = frames_to_bytes format (af_period_frames format)"
  by (simp add: period_bytes_def period_samples_def frames_to_bytes_def)

text \<open>What a validated configuration makes of the format.\<close>

lemma validated_format:
  assumes "validate c = None"
  defines "format \<equiv> audio_format_from (cf_audio c)"
  shows "af_sample_rate format = 48000" and "af_channels format = 8 * length (cf_blocks c)"
    and "0 < af_channels format" and "af_channels format \<le> 64"
    and "0 < af_period_frames format" and "af_period_frames format \<le> 2880"
    and "af_sample_bytes format \<in> {2, 3}" and "0 < period_bytes format"
proof -
  have v: "validate_audio (cf_audio c) (cf_blocks c) = None"
    using assms(1) by (simp add: validate_None)
  note a = validate_audio_None [OF v]
  show "af_sample_rate format = 48000" "0 < af_channels format" "af_channels format \<le> 64"
    "0 < af_period_frames format" "af_period_frames format \<le> 2880"
    "af_sample_bytes format \<in> {2, 3}"
    using a by (auto simp: format_def audio_format_from_def)
  show "af_channels format = 8 * length (cf_blocks c)"
    using validated_blocks(1,2) [OF assms(1)] by (simp add: format_def audio_format_from_def)
  show "0 < period_bytes format"
    using a by (auto simp: format_def audio_format_from_def period_bytes_def period_samples_def)
qed

subsection \<open>create\_audio\_backend\<close>

datatype backend_choice =
    NullBackend | RavennaBackend audio_config | HalBackend audio_config
  | CoreAudioBackend audio_config | UnavailableBackend unavailable_reason
and unavailable_reason = NoAlsaSupport | NoCoreAudioSupport | NoSuchBackend string

definition create_audio_backend :: "bool \<Rightarrow> bool \<Rightarrow> audio_config \<Rightarrow> backend_choice" where
  "create_audio_backend with_alsa with_coreaudio config =
     (if ac_backend config = ''null'' then NullBackend
      else if ac_backend config = ''ravenna''
        then if with_alsa then RavennaBackend config else UnavailableBackend NoAlsaSupport
      else if ac_backend config = ''hal'' then HalBackend config
      else if ac_backend config = ''coreaudio''
        then if with_coreaudio then CoreAudioBackend config
             else UnavailableBackend NoCoreAudioSupport
      else UnavailableBackend (NoSuchBackend (ac_backend config)))"

lemma validated_backend_known:
  "validate c = None \<Longrightarrow>
     create_audio_backend a b (cf_audio c) \<noteq> UnavailableBackend (NoSuchBackend name)"
  by (auto simp: validate_None validate_audio_def create_audio_backend_def Let_def
      split: if_splits)

end
