(* ===== verification/Pcm.thy ===== *)
theory Pcm
  imports Prelude Interfaces Audio
begin

unbundle bit_operations_syntax

text \<open>
  Samples: src/src/audio/pcm.cpp (s24_3le bytes to float and back) and src/src/audio/levels.cpp
  (gain and mute of a block, in place).

  A 32-bit sample value is an integer, since every value here fits; shifts of a negative value
  are arithmetic, as on the targets. A \<^verbatim>\<open>float\<close> is \<open>float_value\<close>: not a number, an infinity, or a
  real. Multiplying and dividing by \<open>2 ^ 23\<close> is exact for the 24-bit values and never loses a
  digit of a larger one before it is clipped, so the reals say what the floats do. \<^verbatim>\<open>lrintf\<close>
  rounds half to even, \<^verbatim>\<open>lround\<close> half away from zero. The gain factor is a real number.
\<close>

subsection \<open>s24\_3le and float\<close>

datatype float_value = NaN | PosInf | NegInf | Real real

definition k_full_scale :: real where "k_full_scale = 8388608"

definition k_min_sample :: real where "k_min_sample = -8388608"

definition k_max_sample :: real where "k_max_sample = 8388607"

definition s24_value :: "u8 \<Rightarrow> u8 \<Rightarrow> u8 \<Rightarrow> int" where
  "s24_value b0 b1 b2 =
     (let value = uint b0 OR push_bit 8 (uint b1) OR push_bit 16 (uint b2) in
      if value AND 0x800000 \<noteq> 0 then value OR NOT 0xFFFFFF else value)"

fun s24_3le_to_float :: "bytes \<Rightarrow> float_value list" where
  "s24_3le_to_float (b0 # b1 # b2 # rest) =
     Real (of_int (s24_value b0 b1 b2) / k_full_scale) # s24_3le_to_float rest"
| "s24_3le_to_float _ = []"

definition round_half_even :: "real \<Rightarrow> int" where
  "round_half_even x =
     (let below = \<lfloor>x\<rfloor>; part = x - of_int below in
      if part < 1 / 2 then below
      else if part > 1 / 2 then below + 1
      else if even below then below else below + 1)"

fun scale_and_clip :: "float_value \<Rightarrow> real" where
  "scale_and_clip NaN = 0"
| "scale_and_clip PosInf = k_max_sample"
| "scale_and_clip NegInf = k_min_sample"
| "scale_and_clip (Real x) =
     (let scaled = x * k_full_scale in
      if scaled < k_min_sample then k_min_sample
      else if scaled > k_max_sample then k_max_sample else scaled)"

definition s24_bytes :: "int \<Rightarrow> bytes" where
  "s24_bytes value =
     [word_of_int (value AND 0xff), word_of_int (drop_bit 8 value AND 0xff),
      word_of_int (drop_bit 16 value AND 0xff)]"

definition float_to_s24_3le :: "float_value list \<Rightarrow> bytes" where
  "float_to_s24_3le samples =
     concat (map (\<lambda>sample. s24_bytes (round_half_even (scale_and_clip sample))) samples)"

subsection \<open>Levels\<close>

definition decode_sample :: "nat \<Rightarrow> bytes \<Rightarrow> int" where
  "decode_sample sample_bytes at_bytes =
     (let value = uint (at_bytes ! 0) OR push_bit 8 (uint (at_bytes ! 1)) in
      if sample_bytes = 3 then
        let value = value OR push_bit 16 (uint (at_bytes ! 2)) in
        if value AND 0x800000 \<noteq> 0 then value OR NOT 0xFFFFFF else value
      else if value AND 0x8000 \<noteq> 0 then value OR NOT 0xFFFF else value)"

definition sample_ceiling :: "nat \<Rightarrow> int" where
  "sample_ceiling sample_bytes =
     (if sample_bytes = 3 then 0x7FFFFF else if sample_bytes = 2 then 0x7FFF else 0x7F)"

definition clip_sample :: "nat \<Rightarrow> int \<Rightarrow> int" where
  "clip_sample sample_bytes value =
     (let ceiling = sample_ceiling sample_bytes; floor = - (ceiling + 1) in
      if value > ceiling then ceiling else if value < floor then floor else value)"

definition encode_sample :: "nat \<Rightarrow> int \<Rightarrow> bytes" where
  "encode_sample sample_bytes value =
     (let value = clip_sample sample_bytes value in
      [word_of_int (value AND 0xff), word_of_int (drop_bit 8 value AND 0xff)]
      @ (if sample_bytes = 3 then [word_of_int (drop_bit 16 value AND 0xff)] else []))"

definition lround :: "real \<Rightarrow> int" where
  "lround x = (if x < 0 then - \<lfloor>- x + 1 / 2\<rfloor> else \<lfloor>x + 1 / 2\<rfloor>)"

definition to_int32 :: "int \<Rightarrow> int" where
  "to_int32 n = sint (word_of_int n :: u32)"

definition gain_factor :: "block_config \<Rightarrow> real" where
  "gain_factor block = (if bc_mute block then 0 else 10 powr (bc_gain_db block / 20))"

definition scale_sample :: "nat \<Rightarrow> real \<Rightarrow> nat \<Rightarrow> bytes \<Rightarrow> bytes" where
  "scale_sample sample_bytes factor k period =
     (let offset = k * sample_bytes;
          value = decode_sample sample_bytes (drop offset period);
          scaled = to_int32 (lround (of_int value * factor))
      in overwrite offset (encode_sample sample_bytes scaled) period)"

fun level_channels :: "audio_format \<Rightarrow> real \<Rightarrow> nat \<Rightarrow> int list \<Rightarrow> bytes \<Rightarrow> bytes" where
  "level_channels format factor frame [] period = period"
| "level_channels format factor frame (channel # rest) period =
     (if channel < 0 \<or> channel \<ge> int (af_channels format)
        then level_channels format factor frame rest period
      else level_channels format factor frame rest
        (scale_sample (af_sample_bytes format) factor
          (frame * af_channels format + nat channel) period))"

definition level_block :: "audio_format \<Rightarrow> block_config \<Rightarrow> bytes \<Rightarrow> bytes" where
  "level_block format block period =
     (if \<not> bc_mute block \<and> bc_gain_db block = 0 then period
      else fold (\<lambda>frame. level_channels format (gain_factor block) frame (bc_channels block))
        [0..<af_period_frames format] period)"

definition apply_block_levels ::
  "bytes option \<Rightarrow> audio_format \<Rightarrow> block_config list \<Rightarrow> bytes option" where
  "apply_block_levels period format blocks = map_option (fold (level_block format) blocks) period"

subsection \<open>Bytes and values\<close>

lemma bit_uint_u8: "bit (uint (b :: u8)) n \<longleftrightarrow> bit b n \<and> n < 8"
  by (auto simp: bit_uint_iff dest: bit_u8_lt)

lemma sign_extend:
  assumes "0 \<le> v" "v < 2 ^ Suc n"
  shows "(if v AND 2 ^ n \<noteq> 0 then v OR NOT (2 ^ Suc n - 1) else v) = signed_take_bit n (v :: int)"
proof -
  have t: "take_bit (Suc n) v = v" using assms by (simp add: take_bit_int_eq_self)
  have high: "\<not> bit v m" if "n < m" for m
    using t that by (metis bit_take_bit_iff not_less_eq not_less_iff_gr_or_eq)
  have "v AND 2 ^ n \<noteq> 0 \<longleftrightarrow> bit v n" by (metis and_exp_eq_0_iff_not_bit)
  moreover have "2 ^ Suc n - 1 = (mask (Suc n) :: int)" by (simp add: mask_eq_exp_minus_1)
  ultimately show ?thesis
    by (auto intro!: bit_eqI simp: bit_or_iff bit_not_iff bit_mask_iff bit_signed_take_bit_iff min_def
        dest: high) (metis high le_neq_implies_less not_less_eq)+
qed

lemma low_bytes_join:
  "uint (word_of_int (v AND 0xff) :: u8) OR push_bit 8 (uint (word_of_int (drop_bit 8 v AND 0xff) :: u8))
     = take_bit 16 (v :: int)"
  "uint (word_of_int (v AND 0xff) :: u8) OR push_bit 8 (uint (word_of_int (drop_bit 8 v AND 0xff) :: u8))
     OR push_bit 16 (uint (word_of_int (drop_bit 16 v AND 0xff) :: u8)) = take_bit 24 v"
proof -
  have m: "(255 :: int) = mask 8" by (simp add: mask_eq_exp_minus_1)
  have b: "uint (word_of_int (w AND 0xff) :: u8) = take_bit 8 w" for w :: int
    unfolding m take_bit_eq_mask [symmetric] by (simp add: uint_word_of_int take_bit_eq_mod)
  show "uint (word_of_int (v AND 0xff) :: u8)
      OR push_bit 8 (uint (word_of_int (drop_bit 8 v AND 0xff) :: u8)) = take_bit 16 v"
    "uint (word_of_int (v AND 0xff) :: u8)
      OR push_bit 8 (uint (word_of_int (drop_bit 8 v AND 0xff) :: u8))
      OR push_bit 16 (uint (word_of_int (drop_bit 16 v AND 0xff) :: u8)) = take_bit 24 v"
    unfolding b
    subgoal
      by (auto intro!: bit_eqI simp: bit_or_iff bit_push_bit_iff bit_take_bit_iff bit_drop_bit_eq)
    subgoal
      by (rule bit_eqI, rename_tac n, case_tac "16 \<le> n")
        (auto simp: bit_or_iff bit_push_bit_iff bit_take_bit_iff bit_drop_bit_eq)
    done
qed

lemma value_bounds:
  "0 \<le> uint (b0 :: u8) OR push_bit 8 (uint (b1 :: u8))"
  "uint b0 OR push_bit 8 (uint b1) < 2 ^ 16"
  "0 \<le> uint b0 OR push_bit 8 (uint b1) OR push_bit 16 (uint (b2 :: u8))"
  "uint b0 OR push_bit 8 (uint b1) OR push_bit 16 (uint b2) < 2 ^ 24"
proof -
  have "take_bit 16 (uint b0 OR push_bit 8 (uint b1)) = uint b0 OR push_bit 8 (uint b1)"
    by (auto intro!: bit_eqI simp: bit_or_iff bit_push_bit_iff bit_take_bit_iff bit_uint_u8)
  then show "uint b0 OR push_bit 8 (uint b1) < 2 ^ 16" "0 \<le> uint b0 OR push_bit 8 (uint b1)"
    by (metis take_bit_int_less_exp, metis take_bit_nonnegative)
  have "take_bit 24 (uint b0 OR push_bit 8 (uint b1) OR push_bit 16 (uint b2))
      = uint b0 OR push_bit 8 (uint b1) OR push_bit 16 (uint b2)"
    by (auto intro!: bit_eqI simp: bit_or_iff bit_push_bit_iff bit_take_bit_iff bit_uint_u8)
  then show "uint b0 OR push_bit 8 (uint b1) OR push_bit 16 (uint b2) < 2 ^ 24"
    "0 \<le> uint b0 OR push_bit 8 (uint b1) OR push_bit 16 (uint b2)"
    by (metis take_bit_int_less_exp, metis take_bit_nonnegative)
qed

lemma sign_extend_24:
  "0 \<le> v \<Longrightarrow> v < 2 ^ 24 \<Longrightarrow>
     (if v AND 0x800000 \<noteq> 0 then v OR NOT 0xFFFFFF else v) = signed_take_bit 23 (v :: int)"
proof -
  have e: "(2 :: int) ^ Suc 23 = 2 ^ 24" "(2 :: int) ^ 23 = 0x800000" "(2 :: int) ^ 24 - 1 = 0xFFFFFF"
    by simp_all
  show "0 \<le> v \<Longrightarrow> v < 2 ^ 24 \<Longrightarrow>
     (if v AND 0x800000 \<noteq> 0 then v OR NOT 0xFFFFFF else v) = signed_take_bit 23 v"
    by (rule sign_extend [of v 23, unfolded e])
qed

lemma sign_extend_16:
  "0 \<le> v \<Longrightarrow> v < 2 ^ 16 \<Longrightarrow>
     (if v AND 0x8000 \<noteq> 0 then v OR NOT 0xFFFF else v) = signed_take_bit 15 (v :: int)"
proof -
  have e: "(2 :: int) ^ Suc 15 = 2 ^ 16" "(2 :: int) ^ 15 = 0x8000" "(2 :: int) ^ 16 - 1 = 0xFFFF"
    by simp_all
  show "0 \<le> v \<Longrightarrow> v < 2 ^ 16 \<Longrightarrow>
     (if v AND 0x8000 \<noteq> 0 then v OR NOT 0xFFFF else v) = signed_take_bit 15 v"
    by (rule sign_extend [of v 15, unfolded e])
qed

lemma s24_value_extend:
  "s24_value b0 b1 b2 = signed_take_bit 23 (uint b0 OR push_bit 8 (uint b1) OR push_bit 16 (uint b2))"
  unfolding s24_value_def Let_def by (rule sign_extend_24 [OF value_bounds(3,4)])

lemma s24_value_range: "-8388608 \<le> s24_value b0 b1 b2 \<and> s24_value b0 b1 b2 < 8388608"
  using signed_take_bit_int_greater_eq_minus_exp [of 23] signed_take_bit_int_less_exp [of 23]
  by (simp add: s24_value_extend)

lemma s24_value_bytes:
  "-8388608 \<le> v \<Longrightarrow> v < 8388608 \<Longrightarrow>
     s24_value (word_of_int (v AND 0xff)) (word_of_int (drop_bit 8 v AND 0xff))
       (word_of_int (drop_bit 16 v AND 0xff)) = v"
  unfolding s24_value_extend low_bytes_join
  by (simp add: signed_take_bit_take_bit signed_take_bit_int_eq_self_iff)

lemma bytes_of_value:
  "s24_bytes (s24_value b0 b1 b2) = [b0, b1, b2]"
proof -
  let ?v = "s24_value b0 b1 b2"
  have bit: "bit ?v n \<longleftrightarrow> bit (uint b0 OR push_bit 8 (uint b1) OR push_bit 16 (uint b2)) n"
    if "n < 24" for n
    using that by (simp add: s24_value_extend bit_signed_take_bit_iff)
  have m: "(255 :: int) = mask 8" by (simp add: mask_eq_exp_minus_1)
  have "(word_of_int (?v AND 0xff) :: u8) = b0" "(word_of_int (drop_bit 8 ?v AND 0xff) :: u8) = b1"
    "(word_of_int (drop_bit 16 ?v AND 0xff) :: u8) = b2"
    unfolding m by (auto intro!: bit_word_eqI simp: bit_word_of_int_iff bit_and_iff bit_mask_iff
        bit_drop_bit_eq bit bit_or_iff bit_push_bit_iff bit_uint_u8)
  then show ?thesis by (simp add: s24_bytes_def)
qed

subsection \<open>Both widths are sample formats\<close>

lemma clip_range_24: "-8388608 \<le> clip_sample 3 v \<and> clip_sample 3 v < 8388608"
  by (simp add: clip_sample_def sample_ceiling_def Let_def)

lemma clip_range_16: "-32768 \<le> clip_sample 2 v \<and> clip_sample 2 v < 32768"
  by (simp add: clip_sample_def sample_ceiling_def Let_def)

lemma decode_sample_24: "decode_sample 3 bs = s24_value (bs ! 0) (bs ! 1) (bs ! 2)"
  unfolding decode_sample_def s24_value_def Let_def by (simp only: or.assoc refl if_True)

lemma decode_encode_24: "decode_sample 3 (encode_sample 3 v) = clip_sample 3 v"
  using s24_value_bytes [of "clip_sample 3 v"] clip_range_24 [of v]
  by (simp add: decode_sample_24 encode_sample_def Let_def)

lemma decode_sample_16:
  "decode_sample 2 bs = signed_take_bit 15 (uint (bs ! 0) OR push_bit 8 (uint (bs ! 1)))"
  using sign_extend_16 [OF value_bounds(1,2)] by (simp add: decode_sample_def Let_def)

lemma decode_encode_16: "decode_sample 2 (encode_sample 2 v) = clip_sample 2 v"
  using clip_range_16 [of v] unfolding decode_sample_16
  by (simp add: encode_sample_def Let_def low_bytes_join signed_take_bit_take_bit
      signed_take_bit_int_eq_self_iff)

interpretation s24: sample_width 3 "decode_sample 3" "encode_sample 3" "clip_sample 3"
  by unfold_locales (simp, simp add: encode_sample_def Let_def, rule decode_encode_24,
      simp add: decode_sample_24)

interpretation s16: sample_width 2 "decode_sample 2" "encode_sample 2" "clip_sample 2"
  by unfold_locales (simp, simp add: encode_sample_def Let_def, rule decode_encode_16,
      simp add: decode_sample_16)

subsection \<open>Levels over a period\<close>

text \<open>The samples of a block: the device channels it names, in every frame.\<close>

definition block_samples :: "audio_format \<Rightarrow> nat \<Rightarrow> int list \<Rightarrow> nat list" where
  "block_samples format frame channels =
     map (\<lambda>channel. frame * af_channels format + nat channel)
       (filter (\<lambda>channel. 0 \<le> channel \<and> channel < int (af_channels format)) channels)"

definition period_block_samples :: "audio_format \<Rightarrow> int list \<Rightarrow> nat list" where
  "period_block_samples format channels =
     concat (map (\<lambda>frame. block_samples format frame channels) [0..<af_period_frames format])"

definition levelled :: "real \<Rightarrow> int \<Rightarrow> int" where
  "levelled factor v = to_int32 (lround (of_int v * factor))"

lemma scale_sample_put:
  "scale_sample w factor k period =
     put_sample w (encode_sample w) k (levelled factor (sample_at w (decode_sample w) k period)) period"
  by (simp add: scale_sample_def put_sample_def sample_at_def levelled_def Let_def)

lemma level_channels_update:
  "level_channels format factor frame channels period =
     update_samples (af_sample_bytes format) (decode_sample (af_sample_bytes format))
       (encode_sample (af_sample_bytes format)) (levelled factor)
       (block_samples format frame channels) period"
  by (induction format factor frame channels period rule: level_channels.induct)
    (auto simp: block_samples_def update_samples_def scale_sample_put not_less)

lemma level_block_update:
  "level_block format block period =
     (if \<not> bc_mute block \<and> bc_gain_db block = 0 then period
      else update_samples (af_sample_bytes format) (decode_sample (af_sample_bytes format))
        (encode_sample (af_sample_bytes format)) (levelled (gain_factor block))
        (period_block_samples format (bc_channels block)) period)"
proof -
  have "fold (\<lambda>frame. level_channels format factor frame channels) frames period =
      update_samples (af_sample_bytes format) (decode_sample (af_sample_bytes format))
        (encode_sample (af_sample_bytes format)) (levelled factor)
        (concat (map (\<lambda>frame. block_samples format frame channels) frames)) period"
    for factor channels frames
    by (induction frames arbitrary: period)
      (simp_all add: level_channels_update update_samples_def)
  then show ?thesis by (simp add: level_block_def period_block_samples_def)
qed

lemma mem_period_block_samples:
  assumes "frame < af_period_frames format" "0 \<le> channel" "channel < int (af_channels format)"
  shows "frame * af_channels format + nat channel \<in> set (period_block_samples format channels)
    \<longleftrightarrow> channel \<in> set channels"
proof -
  let ?C = "af_channels format"
  have inj: "f * ?C + nat c = frame * ?C + nat channel \<longleftrightarrow> f = frame \<and> c = channel"
    if "0 \<le> c" "c < int ?C" for f c
  proof -
    have lt: "nat c < ?C" "nat channel < ?C" using that assms by auto
    have "(f * ?C + nat c) div ?C = f" "(frame * ?C + nat channel) div ?C = frame"
      "(f * ?C + nat c) mod ?C = nat c" "(frame * ?C + nat channel) mod ?C = nat channel"
      using lt by simp_all
    then show ?thesis using that assms by (metis eq_nat_nat_iff)
  qed
  show ?thesis
  proof
    assume "frame * ?C + nat channel \<in> set (period_block_samples format channels)"
    then obtain f c where "c \<in> set channels" "0 \<le> c" "c < int ?C"
      "frame * ?C + nat channel = f * ?C + nat c"
      by (auto simp: period_block_samples_def block_samples_def)
    then show "channel \<in> set channels" using inj [of c f] by simp
  next
    assume "channel \<in> set channels"
    then show "frame * ?C + nat channel \<in> set (period_block_samples format channels)"
      using assms by (auto simp: period_block_samples_def block_samples_def image_iff)
  qed
qed

lemma period_block_samples_ok:
  assumes "distinct channels"
  shows "distinct (period_block_samples format channels)"
    and "set (period_block_samples format channels) \<subseteq> {..<period_samples format}"
proof -
  let ?C = "af_channels format"
  have one: "distinct (block_samples format frame channels)" for frame
    using assms by (auto simp: block_samples_def distinct_map inj_on_def)
  have frame: "k div ?C = frame" if "k \<in> set (block_samples format frame channels)" for k frame
    using that by (auto simp: block_samples_def)
  have "distinct (concat (map (\<lambda>frame. block_samples format frame channels) frames))"
    if "distinct frames" for frames
    using that
  proof (induction frames)
    case (Cons f frames)
    have "set (block_samples format f channels)
        \<inter> set (concat (map (\<lambda>frame. block_samples format frame channels) frames)) = {}"
      using Cons.prems by (auto dest!: frame)
    then show ?case using Cons one by simp
  qed simp
  then show "distinct (period_block_samples format channels)" by (simp add: period_block_samples_def)
  have "frame * ?C + nat c < af_period_frames format * ?C"
    if "frame < af_period_frames format" "0 \<le> c" "c < int ?C" for frame c
  proof -
    have "nat c < ?C" using that by simp
    then have "frame * ?C + nat c < Suc frame * ?C" by simp
    also have "\<dots> \<le> af_period_frames format * ?C" using that(1) by (intro mult_le_mono1) simp
    finally show ?thesis .
  qed
  then show "set (period_block_samples format channels) \<subseteq> {..<period_samples format}"
    by (auto simp: period_block_samples_def block_samples_def period_samples_def)
qed

lemma format_width:
  "w \<in> {2, 3} \<Longrightarrow> sample_width w (decode_sample w) (encode_sample w) (clip_sample w)"
  using s24.sample_width_axioms s16.sample_width_axioms by auto

text \<open>What a block's level makes of one of its samples.\<close>

definition level_of :: "nat \<Rightarrow> block_config \<Rightarrow> int \<Rightarrow> int" where
  "level_of w block v =
     (if \<not> bc_mute block \<and> bc_gain_db block = 0 then v
      else clip_sample w (levelled (gain_factor block) v))"

definition get_sample :: "audio_format \<Rightarrow> nat \<Rightarrow> int \<Rightarrow> bytes \<Rightarrow> int" where
  "get_sample format frame channel period =
     sample_at (af_sample_bytes format) (decode_sample (af_sample_bytes format))
       (frame * af_channels format + nat channel) period"

lemma sample_index:
  assumes "frame < af_period_frames format" "0 \<le> channel" "channel < int (af_channels format)"
  shows "frame * af_channels format + nat channel < period_samples format"
proof -
  have "frame * af_channels format + nat channel < Suc frame * af_channels format"
    using assms(2,3) by (simp add: nat_less_iff)
  also have "\<dots> \<le> period_samples format"
    unfolding period_samples_def using assms(1) by (intro mult_le_mono1) simp
  finally show ?thesis .
qed

lemma level_block_sample:
  assumes "af_sample_bytes format \<in> {2, 3}" "distinct (bc_channels block)"
    and "length period = period_bytes format"
  shows "length (level_block format block period) = period_bytes format"
    and "frame < af_period_frames format \<Longrightarrow> 0 \<le> channel \<Longrightarrow> channel < int (af_channels format) \<Longrightarrow>
      get_sample format frame channel (level_block format block period)
        = (if channel \<in> set (bc_channels block)
           then level_of (af_sample_bytes format) block (get_sample format frame channel period)
           else get_sample format frame channel period)"
proof -
  note sw = format_width [OF assms(1)] and ks = period_block_samples_ok [OF assms(2), of format]
  have len: "length period = period_samples format * af_sample_bytes format"
    using assms(3) by (simp add: period_bytes_def)
  show "length (level_block format block period) = period_bytes format"
    using sample_width.length_update [OF sw ks(2) len] assms(3)
    by (simp add: level_block_update period_bytes_def)
  show "get_sample format frame channel (level_block format block period)
        = (if channel \<in> set (bc_channels block)
           then level_of (af_sample_bytes format) block (get_sample format frame channel period)
           else get_sample format frame channel period)"
    if r: "frame < af_period_frames format" "0 \<le> channel" "channel < int (af_channels format)"
    using sample_width.sample_at_update [OF sw ks sample_index [OF r] len]
    by (simp add: get_sample_def level_block_update level_of_def mem_period_block_samples [OF r])
qed

lemma level_blocks_sample:
  assumes "af_sample_bytes format \<in> {2, 3}" "frame < af_period_frames format"
    and "0 \<le> channel" "channel < int (af_channels format)"
    and "length period = period_bytes format" and "distinct (concat (map bc_channels blocks))"
  shows "length (fold (level_block format) blocks period) = period_bytes format
    \<and> get_sample format frame channel (fold (level_block format) blocks period)
      = (case find (\<lambda>block. channel \<in> set (bc_channels block)) blocks of
           None \<Rightarrow> get_sample format frame channel period
         | Some block \<Rightarrow> level_of (af_sample_bytes format) block
             (get_sample format frame channel period))"
  using assms(5,6)
proof (induction blocks arbitrary: period)
  case (Cons block blocks)
  have d: "distinct (bc_channels block)" "distinct (concat (map bc_channels blocks))"
    using Cons.prems(2) by auto
  note b = level_block_sample [OF assms(1) d(1) Cons.prems(1)]
  have later: "find (\<lambda>block. channel \<in> set (bc_channels block)) blocks = None"
    if "channel \<in> set (bc_channels block)"
    using that Cons.prems(2) by (auto simp: find_None_iff)
  show ?case
    using Cons.IH [OF b(1) d(2)] b(2) [OF assms(2-4)] later by (auto split: option.splits)
qed simp

text \<open>Up to 24 dB the scaled value fits 32 bits, so the conversion changes nothing.\<close>

lemma gain_factor_bounds:
  assumes "bc_gain_db block \<le> 24"
  shows "0 \<le> gain_factor block" "gain_factor block < 16"
proof -
  show "0 \<le> gain_factor block" by (simp add: gain_factor_def)
  have "(10 :: real) powr (bc_gain_db block / 20) \<le> 10 powr (6 / 5)"
    using assms by (intro powr_mono) auto
  moreover have "(10 :: real) powr (6 / 5) < 16"
  proof (rule power_less_imp_less_base [of _ 5])
    have "((10 :: real) powr (6 / 5)) ^ 5 = 10 powr (6 / 5 * 5)"
      by (simp add: powr_realpow [symmetric] powr_powr del: powr_realpow)
    then show "((10 :: real) powr (6 / 5)) ^ 5 < 16 ^ 5" by (simp add: powr_numeral)
  qed simp
  ultimately have "(10 :: real) powr (bc_gain_db block / 20) < 16" by linarith
  then show "gain_factor block < 16" by (simp add: gain_factor_def)
qed

lemma lround_abs: "\<bar>lround x\<bar> \<le> \<lfloor>\<bar>x\<bar> + 1 / 2\<rfloor>"
  by (auto simp: lround_def)

lemma levelled_fits:
  assumes "bc_gain_db block \<le> 24" "\<bar>v\<bar> \<le> 8388608"
  shows "levelled (gain_factor block) v = lround (of_int v * gain_factor block)"
proof -
  note g = gain_factor_bounds [OF assms(1)]
  have "\<bar>of_int v * gain_factor block\<bar> = \<bar>of_int v\<bar> * gain_factor block"
    using g by (simp add: abs_mult)
  also have "\<dots> \<le> 8388608 * 16" using g assms(2) by (intro mult_mono) auto
  finally have "\<bar>lround (of_int v * gain_factor block)\<bar> \<le> \<lfloor>8388608 * 16 + 1 / 2 :: real\<rfloor>"
    using lround_abs [of "of_int v * gain_factor block"] floor_mono order_trans
    by (meson add_mono_thms_linordered_semiring(3))
  then have "\<bar>lround (of_int v * gain_factor block)\<bar> \<le> 134217728" by simp
  then have "-2147483648 \<le> lround (of_int v * gain_factor block)"
    "lround (of_int v * gain_factor block) < 2147483648" by linarith+
  then show ?thesis
    by (simp add: levelled_def to_int32_def sint_sbintrunc' signed_take_bit_int_eq_self_iff)
qed


lemma distinct_concat_unique:
  "distinct (concat (map f bs)) \<Longrightarrow> b \<in> set bs \<Longrightarrow> b' \<in> set bs \<Longrightarrow> x \<in> set (f b) \<Longrightarrow>
     x \<in> set (f b') \<Longrightarrow> b = b'"
  by (induction bs) auto

lemma decode_sample_bounds: "w \<in> {2, 3} \<Longrightarrow> \<bar>decode_sample w bs\<bar> \<le> 8388608"
proof -
  have "\<bar>decode_sample 3 bs\<bar> \<le> 8388608"
    using s24_value_range [of "bs ! 0" "bs ! 1" "bs ! 2"] by (auto simp: decode_sample_24)
  moreover have "-32768 \<le> decode_sample 2 bs" "decode_sample 2 bs < 32768"
    using signed_take_bit_int_greater_eq_minus_exp [of 15] signed_take_bit_int_less_exp [of 15]
    by (simp_all add: decode_sample_16)
  ultimately show "w \<in> {2, 3} \<Longrightarrow> \<bar>decode_sample w bs\<bar> \<le> 8388608" by auto
qed

subsection \<open>Properties\<close>

text \<open>
  C31. The levels of a validated configuration, over a whole period: each sample is changed by the
  block that names its channel and by no other. At unity and unmuted it is untouched, muted it is
  zero, and otherwise it is the sample times \<open>10 ^ (gain / 20)\<close>, rounded to nearest and clipped to
  the format's range rather than wrapped.
\<close>

theorem levels_per_sample:
  assumes "validate c = None" "length period = period_bytes (audio_format_from (cf_audio c))"
    and "block \<in> set (cf_blocks c)" "channel \<in> set (bc_channels block)"
    and "frame < af_period_frames (audio_format_from (cf_audio c))"
  shows "\<exists>period'. apply_block_levels (Some period) (audio_format_from (cf_audio c)) (cf_blocks c)
      = Some period' \<and> length period' = length period
    \<and> get_sample (audio_format_from (cf_audio c)) frame channel period'
      = (let v = get_sample (audio_format_from (cf_audio c)) frame channel period;
             w = af_sample_bytes (audio_format_from (cf_audio c)) in
         if bc_mute block then 0
         else if bc_gain_db block = 0 then v
         else clip_sample w (lround (of_int v * 10 powr (bc_gain_db block / 20))))"
proof -
  let ?f = "audio_format_from (cf_audio c)"
  have w: "af_sample_bytes ?f \<in> {2, 3}" by (rule validated_format(7) [OF assms(1)])
  note v = validated_blocks [OF assms(1)]
  have "channel \<in> {0..<ac_channels (cf_audio c)}" using v(6) assms(3,4) by auto
  then have r: "0 \<le> channel" "channel < int (af_channels ?f)"
    by (auto simp: audio_format_from_def)
  have mem: "block' = block" if "block' \<in> set (cf_blocks c)" "channel \<in> set (bc_channels block')" for block'
  proof -
    show ?thesis by (rule distinct_concat_unique [OF v(5) that(1) assms(3) that(2) assms(4)])
  qed
  have find: "find (\<lambda>b. channel \<in> set (bc_channels b)) (cf_blocks c) = Some block"
  proof -
    obtain b' where b': "find (\<lambda>b. channel \<in> set (bc_channels b)) (cf_blocks c) = Some b'"
      using assms(3,4) by (cases "find (\<lambda>b. channel \<in> set (bc_channels b)) (cf_blocks c)")
        (auto simp: find_None_iff)
    then have "b' \<in> set (cf_blocks c)" "channel \<in> set (bc_channels b')"
      by (auto simp: find_Some_iff)
    then show ?thesis using b' mem by simp
  qed
  have gain: "bc_gain_db block \<le> 24" using v(8) assms(3) by auto
  have "\<bar>get_sample ?f frame channel period\<bar> \<le> 8388608"
    using decode_sample_bounds [OF w] by (simp add: get_sample_def sample_at_def)
  note fits = levelled_fits [OF gain this]
  have zero: "clip_sample (af_sample_bytes ?f) 0 = 0"
    using w by (auto simp: clip_sample_def sample_ceiling_def)
  show ?thesis
    using level_blocks_sample [OF w assms(5) r assms(2) v(5)] find fits zero assms(2)
    by (auto simp: apply_block_levels_def level_of_def Let_def gain_factor_def lround_def)
qed

text \<open>The example configuration with its first block muted.\<close>

definition muted_config :: config where
  "muted_config = example_config\<lparr>cf_blocks :=
     [(conventional_block 0)\<lparr>bc_mute := True\<rparr>, conventional_block 1]\<rparr>"

lemma muted_config_valid: "validate muted_config = None"
  by (simp add: validate_None muted_config_def example_config_def default_defs
      fill_default_blocks_def conventional_block_def default_block_def upto_example
      validate_audio_def validate_link_def validate_daemon_def validate_blocks_def
      validate_egress_def validate_http_def check_block_tail_def to_lower_def lower_char_def
      split_example_peer Let_def)

theorem levels_per_sample_witness:
  "\<exists>period'. apply_block_levels (Some (replicate 2304 1)) (audio_format_from (cf_audio muted_config))
      (cf_blocks muted_config) = Some period'
    \<and> get_sample (audio_format_from (cf_audio muted_config)) 47 3 period' = 0"
proof -
  let ?block = "(conventional_block 0)\<lparr>bc_mute := True\<rparr>"
  have "length (replicate 2304 (1 :: u8)) = period_bytes (audio_format_from (cf_audio muted_config))"
    by (simp add: muted_config_def example_config_def default_defs fill_default_blocks_def
        audio_format_from_def period_bytes_def period_samples_def)
  moreover have "?block \<in> set (cf_blocks muted_config)" by (simp add: muted_config_def)
  moreover have "3 \<in> set (bc_channels ?block)"
    by (simp add: conventional_block_def default_block_def upto_example)
  moreover have "47 < af_period_frames (audio_format_from (cf_audio muted_config))"
    by (simp add: muted_config_def example_config_def default_defs fill_default_blocks_def
        audio_format_from_def)
  ultimately show ?thesis
    using levels_per_sample [OF muted_config_valid] by fastforce
qed

lemma length_s24_3le_to_float: "length (s24_3le_to_float xs) = length xs div 3"
  by (induction xs rule: s24_3le_to_float.induct) simp_all

lemma length_float_bytes: "length (float_to_s24_3le xs) = length xs * 3"
  by (induction xs) (simp_all add: float_to_s24_3le_def s24_bytes_def Let_def)

lemma s24_float_round_trip_aux:
  assumes "3 dvd length samples"
  shows "float_to_s24_3le (s24_3le_to_float samples) = samples"
  using assms
proof (induction samples rule: s24_3le_to_float.induct)
  case (1 b0 b1 b2 rest)
  let ?v = "s24_value b0 b1 b2"
  have range: "-8388608 \<le> ?v" "?v < 8388608" using s24_value_range by auto
  have "round_half_even (scale_and_clip (Real (of_int ?v / k_full_scale))) = ?v"
    using range by (simp add: round_half_even_def k_full_scale_def k_min_sample_def k_max_sample_def
        Let_def)
  moreover have "3 dvd length rest" using 1(2) unfolding list.size by presburger
  ultimately show ?case using 1(1) by (simp add: float_to_s24_3le_def bytes_of_value)
qed (auto simp: float_to_s24_3le_def dest: dvd_imp_le)

text \<open>
  Bytes to float and back is the identity on every period of 24-bit samples: no sample loses
  a bit on the way through a float-native device.
\<close>

theorem s24_float_round_trip:
  assumes "3 dvd length samples"
  shows "float_to_s24_3le (s24_3le_to_float samples) = samples"
  by (rule s24_float_round_trip_aux [OF assms])

theorem s24_float_round_trip_witness:
  "float_to_s24_3le (s24_3le_to_float [0xFF, 0xFF, 0x7F, 0, 0, 0x80]) = [0xFF, 0xFF, 0x7F, 0, 0, 0x80]"
  by (rule s24_float_round_trip) (unfold list.size, presburger)

text \<open>
  Float to bytes never wraps: whatever the sample, a number out of range, an infinity or not a
  number at all, the three bytes written decode to a value within half a step of the clipped
  input, and to silence when it is not a number.
\<close>

theorem float_to_s24_clips:
  "\<exists>b0 b1 b2. float_to_s24_3le [sample] = [b0, b1, b2]
     \<and> \<bar>of_int (s24_value b0 b1 b2) - scale_and_clip sample\<bar> \<le> 1 / 2
     \<and> (sample = NaN \<longrightarrow> s24_value b0 b1 b2 = 0)"
proof -
  let ?x = "scale_and_clip sample" and ?v = "round_half_even (scale_and_clip sample)"
  have x: "-8388608 \<le> ?x" "?x \<le> 8388607"
    by (cases sample; simp add: k_min_sample_def k_max_sample_def Let_def)+
  have near: "\<bar>of_int ?v - ?x\<bar> \<le> 1 / 2"
    unfolding round_half_even_def Let_def by (auto simp: abs_le_iff)
  then have "-8388609 < (of_int ?v :: real)" "(of_int ?v :: real) < 8388608" using x by linarith+
  then have "-8388608 \<le> ?v" "?v < 8388608" by linarith+
  then have v: "s24_value (word_of_int (?v AND 0xff)) (word_of_int (drop_bit 8 ?v AND 0xff))
      (word_of_int (drop_bit 16 ?v AND 0xff)) = ?v"
    by (rule s24_value_bytes)
  have "float_to_s24_3le [sample] = [word_of_int (?v AND 0xff), word_of_int (drop_bit 8 ?v AND 0xff),
      word_of_int (drop_bit 16 ?v AND 0xff)]"
    by (simp add: float_to_s24_3le_def s24_bytes_def)
  moreover have "sample = NaN \<Longrightarrow> ?v = 0" by (simp add: round_half_even_def)
  ultimately show ?thesis using near v by metis
qed

theorem float_to_s24_clips_witness:
  "\<exists>b0 b1 b2. float_to_s24_3le [Real 2] = [b0, b1, b2]
     \<and> \<bar>of_int (s24_value b0 b1 b2) - 8388607 :: real\<bar> \<le> 1 / 2"
  using float_to_s24_clips [of "Real 2"]
  by (auto simp: k_full_scale_def k_max_sample_def k_min_sample_def)

end
