(* ===== verification/Link.thy ===== *)
theory Link
  imports Prelude Interfaces Config Fragment
begin

text \<open>
  The transport link: src/src/transport/link.hpp and src/src/transport/link.cpp.

  \<open>link\<close> is \<^verbatim>\<open>Link::Impl\<close>; the operations are the member functions, each one atomic, as the two
  mutexes make it. libsrt is not part of the repository: it is the parameter \<open>srt_api\<close>, a record
  of the calls the code makes, over a state \<open>'w\<close> that stands for the library and the network
  (and for the stop flag, which another thread sets). What the code relies on is the hypothesis
  \<open>srt_laws\<close>: which calls open and close sockets. \<open>with_srt\<close> says whether the build has libsrt,
  and \<open>now\<close> is the steady clock.

  Waiting for a caller may never end, so \<open>accept_loop\<close> is a partial function and opening a
  listener returns an option; \<open>accept_answers_stop\<close> says when it does end. The log line of a
  loopback and the text of the statistics are left out.
\<close>

subsection \<open>libsrt, as the code calls it\<close>

datatype srt_option =
    TransTypeLive | MessageApi bool | RcvLatency int | PeerLatency int | PayloadSize nat
  | TlPktDrop bool | Rendezvous bool | RcvBuf int | FlowControl int | Passphrase string
  | RcvSyn bool | SndSyn bool | RcvTimeo int | SndTimeo int | ConnTimeo int

datatype srt_code = EASYNCRCV | EASYNCSND | ETIMEOUT | OtherCode nat

record srt_performance =
  msRTT :: real
  mbpsBandwidth :: real
  mbpsRecvRate :: real
  msRcvBuf :: int
  msRcvTsbPdDelay :: int
  msSndBuf :: int
  pktRecvTotal :: int
  pktRcvLossTotal :: int
  pktRcvRetrans :: int
  pktRcvDropTotal :: int

type_synonym srt_socket = nat

record 'w srt_api =
  srt_create :: "'w \<Rightarrow> 'w \<times> srt_socket option"
  srt_close :: "srt_socket \<Rightarrow> 'w \<Rightarrow> 'w"
  srt_setsockopt :: "srt_socket \<Rightarrow> srt_option \<Rightarrow> 'w \<Rightarrow> 'w \<times> bool"
  srt_bind :: "srt_socket \<Rightarrow> int \<Rightarrow> 'w \<Rightarrow> 'w \<times> bool"
  srt_listen :: "srt_socket \<Rightarrow> 'w \<Rightarrow> 'w \<times> bool"
  srt_accept :: "srt_socket \<Rightarrow> 'w \<Rightarrow> 'w \<times> (srt_code + srt_socket)"
  srt_connect :: "srt_socket \<Rightarrow> string \<Rightarrow> nat \<Rightarrow> 'w \<Rightarrow> 'w \<times> bool"
  srt_sendmsg :: "srt_socket \<Rightarrow> bytes \<Rightarrow> 'w \<Rightarrow> 'w \<times> (srt_code + nat)"
  srt_recvmsg :: "srt_socket \<Rightarrow> nat \<Rightarrow> 'w \<Rightarrow> 'w \<times> (srt_code + bytes)"
  srt_bstats :: "srt_socket \<Rightarrow> 'w \<Rightarrow> 'w \<times> srt_performance option"
  inet_pton :: "string \<Rightarrow> bool"
  sleep_20ms :: "'w \<Rightarrow> 'w"
  abort_flag :: "'w \<Rightarrow> bool"

subsection \<open>State\<close>

record link =
  l_socket :: "srt_socket option"
  l_opened :: bool
  l_receive_timeout_ms :: int
  l_abort :: bool
  l_opened_at :: real
  l_peer :: string
  l_mode :: string
  l_queue :: "bytes list"

definition link_init :: link where
  "link_init = \<lparr>l_socket = None, l_opened = False, l_receive_timeout_ms = 500, l_abort = False,
     l_opened_at = 0, l_peer = [], l_mode = [], l_queue = []\<rparr>"

record link_stats =
  ls_rtt_ms :: real
  ls_bandwidth_mbps :: real
  ls_receive_rate_mbps :: real
  ls_receive_buffer_ms :: int
  ls_negotiated_latency_ms :: int
  ls_send_buffer_ms :: int
  ls_packets_received :: int
  ls_packets_lost :: int
  ls_packets_retransmitted :: int
  ls_packets_dropped :: int

datatype transport_error =
    UnknownLinkMode string | NoLibsrt | SocketRefused | OptionRefused srt_option
  | BindRefused int | PeerNotHostPort string | PeerNotAddress string | ListenRefused
  | AcceptRefused | StoppedWaiting | ConnectRefused
  | NothingToSend | MessageTooBig nat nat | LoopbackFull nat | LinkNotOpen
  | SendFailed | ShortSend nat nat | ReceiveFailed | NoLinkStats | StatsFailed

definition k_srt_receive_bytes :: nat where "k_srt_receive_bytes = 1500"
definition k_loopback_max_messages :: nat where "k_loopback_max_messages = 2048"
definition k_connect_timeout_ms :: int where "k_connect_timeout_ms = 4000"

definition mark_down :: "'w srt_api \<Rightarrow> link \<Rightarrow> 'w \<Rightarrow> link \<times> 'w" where
  "mark_down api l w =
     (case l_socket l of
        None \<Rightarrow> (l\<lparr>l_opened := False\<rparr>, w)
      | Some s \<Rightarrow> (l\<lparr>l_socket := None, l_opened := False\<rparr>, srt_close api s w))"

subsection \<open>Small operations\<close>

definition link_close :: "'w srt_api \<Rightarrow> link \<Rightarrow> 'w \<Rightarrow> link \<times> 'w" where
  "link_close api l w =
     (case mark_down api l w of (l', w') \<Rightarrow> (l'\<lparr>l_peer := [], l_mode := [], l_queue := []\<rparr>, w'))"

definition link_is_open :: "link \<Rightarrow> bool" where
  "link_is_open l = l_opened l"

definition uptime_seconds :: "link \<Rightarrow> real \<Rightarrow> real" where
  "uptime_seconds l now = (if \<not> l_opened l then 0 else now - l_opened_at l)"

definition set_receive_timeout_ms :: "'w srt_api \<Rightarrow> int \<Rightarrow> link \<Rightarrow> 'w \<Rightarrow> link \<times> 'w" where
  "set_receive_timeout_ms api timeout_ms l w =
     (l\<lparr>l_receive_timeout_ms := timeout_ms\<rparr>,
      case l_socket l of None \<Rightarrow> w
      | Some s \<Rightarrow> fst (srt_setsockopt api s (RcvTimeo timeout_ms) w))"

definition set_send_timeout_ms :: "'w srt_api \<Rightarrow> int \<Rightarrow> link \<Rightarrow> 'w \<Rightarrow> link \<times> 'w" where
  "set_send_timeout_ms api timeout_ms l w =
     (l, case l_socket l of None \<Rightarrow> w
         | Some s \<Rightarrow> fst (srt_setsockopt api s (SndTimeo timeout_ms) w))"

definition set_nonblocking :: "'w srt_api \<Rightarrow> link \<Rightarrow> 'w \<Rightarrow> link \<times> 'w" where
  "set_nonblocking api l w =
     (l, case l_socket l of None \<Rightarrow> w | Some s \<Rightarrow> fst (srt_setsockopt api s (RcvSyn False) w))"

definition set_abort_flag :: "bool \<Rightarrow> link \<Rightarrow> link" where
  "set_abort_flag flag l = l\<lparr>l_abort := flag\<rparr>"

definition peer_description :: "link \<Rightarrow> string" where
  "peer_description l = (if \<not> l_opened l then ''(down)'' else l_mode l @ '' '' @ l_peer l)"

subsection \<open>open\<close>

text \<open>The options the code sets, in its order; the first that is refused ends the attempt.\<close>

definition link_options :: "link_config \<Rightarrow> string \<Rightarrow> int \<Rightarrow> srt_option list" where
  "link_options config mode receive_timeout_ms =
     [TransTypeLive, MessageApi True, RcvLatency (lc_latency_ms config),
      PeerLatency (lc_latency_ms config), PayloadSize k_max_message_bytes, TlPktDrop True]
     @ (if mode = ''rendezvous'' then [Rendezvous True] else [])
     @ (if lc_receive_buffer_bytes config > 0 then [RcvBuf (lc_receive_buffer_bytes config)] else [])
     @ (if lc_flow_control_packets config > 0
        then [FlowControl (lc_flow_control_packets config)] else [])
     @ (if lc_passphrase config \<noteq> [] then [Passphrase (lc_passphrase config)] else [])
     @ [RcvSyn True, SndSyn True, RcvTimeo receive_timeout_ms]
     @ (if mode \<noteq> ''listener'' then [ConnTimeo k_connect_timeout_ms] else [])"

fun set_options ::
  "'w srt_api \<Rightarrow> srt_socket \<Rightarrow> srt_option list \<Rightarrow> 'w \<Rightarrow> 'w \<times> srt_option option" where
  "set_options api s [] w = (w, None)"
| "set_options api s (option # rest) w =
     (case srt_setsockopt api s option w of
        (w', True) \<Rightarrow> set_options api s rest w'
      | (w', False) \<Rightarrow> (w', Some option))"

datatype accept_end = Accepted srt_socket | AcceptError | AcceptStopped

partial_function (option) accept_loop ::
  "'w srt_api \<Rightarrow> srt_socket \<Rightarrow> bool \<Rightarrow> 'w \<Rightarrow> ('w \<times> accept_end) option" where
  "accept_loop api s watched w =
     (case srt_accept api s w of
        (w', Inr accepted) \<Rightarrow> Some (w', Accepted accepted)
      | (w', Inl code) \<Rightarrow>
          if code \<noteq> EASYNCRCV then Some (w', AcceptError)
          else if watched \<and> abort_flag api w' then Some (w', AcceptStopped)
          else accept_loop api s watched (sleep_20ms api w'))"

text \<open>Waiting for a caller on a bound socket. Every end of it closes the listening socket.\<close>

definition listen_and_accept ::
  "'w srt_api \<Rightarrow> srt_socket \<Rightarrow> bool \<Rightarrow> 'w \<Rightarrow> ('w \<times> (transport_error + srt_socket)) option" where
  "listen_and_accept api s watched w =
     (case srt_listen api s w of
        (w1, False) \<Rightarrow> Some (srt_close api s w1, Inl ListenRefused)
      | (w1, True) \<Rightarrow>
          (case accept_loop api s watched (fst (srt_setsockopt api s (RcvSyn False) w1)) of
             None \<Rightarrow> None
           | Some (w2, Accepted accepted) \<Rightarrow> Some (srt_close api s w2, Inr accepted)
           | Some (w2, AcceptError) \<Rightarrow> Some (srt_close api s w2, Inl AcceptRefused)
           | Some (w2, AcceptStopped) \<Rightarrow> Some (srt_close api s w2, Inl StoppedWaiting)))"

definition connect_peer ::
  "'w srt_api \<Rightarrow> srt_socket \<Rightarrow> link_config \<Rightarrow> 'w \<Rightarrow> 'w \<times> (transport_error + srt_socket)" where
  "connect_peer api s config w =
     (case split_host_port (lc_peer config) of
        None \<Rightarrow> (srt_close api s w, Inl (PeerNotHostPort (lc_peer config)))
      | Some (host, port) \<Rightarrow>
          if \<not> inet_pton api host then (srt_close api s w, Inl (PeerNotAddress host))
          else
            (case srt_connect api s host port w of
               (w1, False) \<Rightarrow> (srt_close api s w1, Inl ConnectRefused)
             | (w1, True) \<Rightarrow> (w1, Inr s)))"

text \<open>From a new socket to a connected one, or to none.\<close>

definition establish ::
  "'w srt_api \<Rightarrow> link_config \<Rightarrow> string \<Rightarrow> int \<Rightarrow> bool \<Rightarrow> 'w
     \<Rightarrow> ('w \<times> (transport_error + srt_socket)) option" where
  "establish api config mode receive_timeout_ms watched w =
     (case srt_create api w of
        (w1, None) \<Rightarrow> Some (w1, Inl SocketRefused)
      | (w1, Some s) \<Rightarrow>
          (case set_options api s (link_options config mode receive_timeout_ms) w1 of
             (w2, Some option) \<Rightarrow> Some (srt_close api s w2, Inl (OptionRefused option))
           | (w2, None) \<Rightarrow>
               (case srt_bind api s (lc_local_port config) w2 of
                  (w3, False) \<Rightarrow> Some (srt_close api s w3, Inl (BindRefused (lc_local_port config)))
                | (w3, True) \<Rightarrow>
                    if mode = ''listener'' then listen_and_accept api s watched w3
                    else Some (connect_peer api s config w3))))"

definition link_open ::
  "'w srt_api \<Rightarrow> bool \<Rightarrow> (int \<Rightarrow> string) \<Rightarrow> real \<Rightarrow> config \<Rightarrow> link \<Rightarrow> 'w
     \<Rightarrow> (link \<times> 'w \<times> transport_error option) option" where
  "link_open api with_srt show_int now config l w =
     (let mode = to_lower (lc_mode (cf_link config)) in
      if mode \<noteq> ''caller'' \<and> mode \<noteq> ''listener'' \<and> mode \<noteq> ''rendezvous'' \<and> mode \<noteq> ''loopback''
        then Some (l, w, Some (UnknownLinkMode (lc_mode (cf_link config))))
      else
        case mark_down api l w of (l1, w1) \<Rightarrow>
          let l2 = l1\<lparr>l_peer := [], l_mode := []\<rparr> in
          if mode = ''loopback'' then
            Some (l2\<lparr>l_queue := [], l_mode := mode, l_peer := ''(in-process)'', l_opened := True,
                     l_opened_at := now\<rparr>, w1, None)
          else if \<not> with_srt then Some (l2, w1, Some NoLibsrt)
          else
            case establish api (cf_link config) mode (l_receive_timeout_ms l2) (l_abort l2) w1 of
              None \<Rightarrow> None
            | Some (w2, Inl e) \<Rightarrow> Some (l2, w2, Some e)
            | Some (w2, Inr s) \<Rightarrow>
                Some (l2\<lparr>l_socket := Some s, l_opened := True, l_opened_at := now, l_mode := mode,
                         l_peer := (if mode = ''listener''
                                    then ''accepted on port '' @ show_int (lc_local_port (cf_link config))
                                    else lc_peer (cf_link config))\<rparr>, w2, None))"

subsection \<open>Messages\<close>

definition send_message ::
  "'w srt_api \<Rightarrow> bool \<Rightarrow> link \<Rightarrow> 'w \<Rightarrow> bytes option \<Rightarrow> link \<times> 'w \<times> transport_error option" where
  "send_message api with_srt l w message =
     (case message of
        None \<Rightarrow> (l, w, Some NothingToSend)
      | Some data \<Rightarrow>
          if data = [] then (l, w, Some NothingToSend)
          else if length data > k_max_message_bytes
            then (l, w, Some (MessageTooBig (length data) k_max_message_bytes))
          else if l_mode l = ''loopback'' then
            if length (l_queue l) \<ge> k_loopback_max_messages
              then (l, w, Some (LoopbackFull (length (l_queue l))))
            else (l\<lparr>l_queue := l_queue l @ [data]\<rparr>, w, None)
          else if \<not> with_srt then (l, w, Some NoLibsrt)
          else if \<not> l_opened l then (l, w, Some LinkNotOpen)
          else
            (case l_socket l of
               None \<Rightarrow> (l, w, Some LinkNotOpen)
             | Some s \<Rightarrow>
                 (case srt_sendmsg api s data w of
                    (w1, Inl code) \<Rightarrow>
                      if code \<noteq> EASYNCSND \<and> code \<noteq> ETIMEOUT
                      then (case mark_down api l w1 of (l2, w2) \<Rightarrow> (l2, w2, Some SendFailed))
                      else (l, w1, Some SendFailed)
                  | (w1, Inr sent) \<Rightarrow>
                      if sent \<noteq> length data then (l, w1, Some (ShortSend sent (length data)))
                      else (l, w1, None))))"

datatype receive_result = Received bytes | TimedOut | Refused transport_error

definition receive_message ::
  "'w srt_api \<Rightarrow> bool \<Rightarrow> link \<Rightarrow> 'w \<Rightarrow> link \<times> 'w \<times> receive_result" where
  "receive_message api with_srt l w =
     (if l_mode l = ''loopback'' then
        (case l_queue l of
           [] \<Rightarrow> (l, w, TimedOut)
         | message # rest \<Rightarrow> (l\<lparr>l_queue := rest\<rparr>, w, Received message))
      else if \<not> with_srt then (l, w, Refused NoLibsrt)
      else if \<not> l_opened l then (l, w, Refused LinkNotOpen)
      else
        (case l_socket l of
           None \<Rightarrow> (l, w, Refused LinkNotOpen)
         | Some s \<Rightarrow>
             (case srt_recvmsg api s k_srt_receive_bytes w of
                (w1, Inl code) \<Rightarrow>
                  if code = ETIMEOUT \<or> code = EASYNCRCV then (l, w1, TimedOut)
                  else (case mark_down api l w1 of (l2, w2) \<Rightarrow> (l2, w2, Refused ReceiveFailed))
              | (w1, Inr message) \<Rightarrow> (l, w1, Received message))))"

definition link_stats_of :: "srt_performance \<Rightarrow> link_stats" where
  "link_stats_of p =
     \<lparr>ls_rtt_ms = msRTT p, ls_bandwidth_mbps = mbpsBandwidth p,
      ls_receive_rate_mbps = mbpsRecvRate p, ls_receive_buffer_ms = msRcvBuf p,
      ls_negotiated_latency_ms = msRcvTsbPdDelay p, ls_send_buffer_ms = msSndBuf p,
      ls_packets_received = pktRecvTotal p, ls_packets_lost = pktRcvLossTotal p,
      ls_packets_retransmitted = pktRcvRetrans p, ls_packets_dropped = pktRcvDropTotal p\<rparr>"

definition read_stats ::
  "'w srt_api \<Rightarrow> bool \<Rightarrow> link \<Rightarrow> 'w \<Rightarrow> 'w \<times> (transport_error + link_stats)" where
  "read_stats api with_srt l w =
     (if l_mode l = ''loopback'' then (w, Inl NoLinkStats)
      else if \<not> with_srt then (w, Inl NoLibsrt)
      else if \<not> l_opened l then (w, Inl LinkNotOpen)
      else
        (case l_socket l of
           None \<Rightarrow> (w, Inl LinkNotOpen)
         | Some s \<Rightarrow>
             (case srt_bstats api s w of
                (w1, None) \<Rightarrow> (w1, Inl StatsFailed)
              | (w1, Some performance) \<Rightarrow> (w1, Inr (link_stats_of performance)))))"

subsection \<open>Sockets are owned\<close>

text \<open>
  What the code relies on of libsrt: a socket is open from the call that returns it until it is
  closed, and the other calls open and close none.
\<close>

definition srt_laws :: "'w srt_api \<Rightarrow> ('w \<Rightarrow> srt_socket set) \<Rightarrow> bool" where
  "srt_laws api opens \<longleftrightarrow>
     (\<forall>w w' s. srt_create api w = (w', Some s) \<longrightarrow> s \<notin> opens w \<and> opens w' = insert s (opens w))
     \<and> (\<forall>w w'. srt_create api w = (w', None) \<longrightarrow> opens w' = opens w)
     \<and> (\<forall>s w. opens (srt_close api s w) = opens w - {s})
     \<and> (\<forall>s o1 w. opens (fst (srt_setsockopt api s o1 w)) = opens w)
     \<and> (\<forall>s p w. opens (fst (srt_bind api s p w)) = opens w)
     \<and> (\<forall>s w. opens (fst (srt_listen api s w)) = opens w)
     \<and> (\<forall>s w w' a. srt_accept api s w = (w', Inr a) \<longrightarrow> a \<notin> opens w \<and> opens w' = insert a (opens w))
     \<and> (\<forall>s w w' c. srt_accept api s w = (w', Inl c) \<longrightarrow> opens w' = opens w)
     \<and> (\<forall>s h p w. opens (fst (srt_connect api s h p w)) = opens w)
     \<and> (\<forall>s d w. opens (fst (srt_sendmsg api s d w)) = opens w)
     \<and> (\<forall>s n w. opens (fst (srt_recvmsg api s n w)) = opens w)
     \<and> (\<forall>s w. opens (fst (srt_bstats api s w)) = opens w)
     \<and> (\<forall>w. opens (sleep_20ms api w) = opens w)"

lemma srt_lawsD:
  assumes "srt_laws api opens"
  shows "srt_create api w = (w', Some s) \<Longrightarrow> s \<notin> opens w \<and> opens w' = insert s (opens w)"
    and "srt_create api w = (w', None) \<Longrightarrow> opens w' = opens w"
    and "opens (srt_close api s w) = opens w - {s}"
    and "srt_setsockopt api s o1 w = (w', b) \<Longrightarrow> opens w' = opens w"
    and "srt_bind api s p w = (w', b) \<Longrightarrow> opens w' = opens w"
    and "srt_listen api s w = (w', b) \<Longrightarrow> opens w' = opens w"
    and "srt_accept api s w = (w', Inr a) \<Longrightarrow> a \<notin> opens w \<and> opens w' = insert a (opens w)"
    and "srt_accept api s w = (w', Inl c) \<Longrightarrow> opens w' = opens w"
    and "srt_connect api s h port w = (w', b) \<Longrightarrow> opens w' = opens w"
    and "srt_sendmsg api s d w = (w', rs) \<Longrightarrow> opens w' = opens w"
    and "srt_recvmsg api s n w = (w', rr) \<Longrightarrow> opens w' = opens w"
    and "srt_bstats api s w = (w', rb) \<Longrightarrow> opens w' = opens w"
    and "opens (sleep_20ms api w) = opens w"
  using assms unfolding srt_laws_def by (metis fst_conv)+

lemma set_options_opens:
  "srt_laws api opens \<Longrightarrow> set_options api s options w = (w', r) \<Longrightarrow> opens w' = opens w"
proof (induction options arbitrary: w)
  case (Cons option rest)
  then show ?case by (auto split: prod.splits bool.splits dest: srt_lawsD(4))
qed simp

lemma accept_loop_opens_aux:
  assumes "accept_loop api s watched w = Some y"
  shows "srt_laws api opens \<longrightarrow>
    (case snd y of Accepted a \<Rightarrow> a \<notin> opens w \<and> opens (fst y) = insert a (opens w)
     | _ \<Rightarrow> opens (fst y) = opens w)"
proof (rule accept_loop.raw_induct [OF _ assms, where P = "\<lambda>api s watched w y.
    srt_laws api opens \<longrightarrow>
    (case snd y of Accepted a \<Rightarrow> a \<notin> opens w \<and> opens (fst y) = insert a (opens w)
     | _ \<Rightarrow> opens (fst y) = opens w)"], intro impI)
  fix loop api s watched w y
  assume IH: "\<And>s watched w b y. loop s watched w b = Some y \<Longrightarrow> srt_laws s opens \<longrightarrow>
      (case snd y of Accepted a \<Rightarrow> a \<notin> opens b \<and> opens (fst y) = insert a (opens b)
       | _ \<Rightarrow> opens (fst y) = opens b)"
    and eq: "(case srt_accept api s w of
        (w', Inl code) \<Rightarrow>
          if code \<noteq> EASYNCRCV then Some (w', AcceptError)
          else if watched \<and> abort_flag api w' then Some (w', AcceptStopped)
          else loop api s watched (sleep_20ms api w')
      | (w', Inr accepted) \<Rightarrow> Some (w', Accepted accepted)) = Some y"
    and laws: "srt_laws api opens"
  obtain w1 answer where a: "srt_accept api s w = (w1, answer)" by (cases "srt_accept api s w")
  show "case snd y of Accepted a \<Rightarrow> a \<notin> opens w \<and> opens (fst y) = insert a (opens w)
     | _ \<Rightarrow> opens (fst y) = opens w"
  proof (cases answer)
    case (Inr accepted)
    then show ?thesis using eq a srt_lawsD(7) [OF laws] by auto
  next
    case (Inl code)
    then have w1: "opens w1 = opens w" using a srt_lawsD(8) [OF laws] by auto
    have "opens (sleep_20ms api w1) = opens w" using w1 srt_lawsD(13) [OF laws] by simp
    have "(if code \<noteq> EASYNCRCV then Some (w1, AcceptError)
        else if watched \<and> abort_flag api w1 then Some (w1, AcceptStopped)
        else loop api s watched (sleep_20ms api w1)) = Some y"
      using eq unfolding a Inl prod.case sum.case .
    then consider "y = (w1, AcceptError)" | "y = (w1, AcceptStopped)"
      | "loop api s watched (sleep_20ms api w1) = Some y"
      by (metis option.inject)
    then show ?thesis
    proof cases
      case 3
      from IH [OF this] laws \<open>opens (sleep_20ms api w1) = opens w\<close> show ?thesis
        by (cases "snd y") simp_all
    qed (simp_all add: w1)
  qed
qed

lemma accept_loop_opens:
  assumes "srt_laws api opens" and "accept_loop api s watched w = Some (w', r)"
  shows "case r of Accepted a \<Rightarrow> a \<notin> opens w \<and> opens w' = insert a (opens w) | _ \<Rightarrow> opens w' = opens w"
  using accept_loop_opens_aux [OF assms(2), of opens] assms(1) by (cases r) simp_all

text \<open>A listener that polls sees the stop flag: what it takes for the waiting to end.\<close>

definition poll :: "'w srt_api \<Rightarrow> srt_socket \<Rightarrow> 'w \<Rightarrow> 'w" where
  "poll api s w = sleep_20ms api (fst (srt_accept api s w))"

lemma accept_loop_ends:
  "abort_flag api (fst (srt_accept api s ((poll api s ^^ n) w))) \<Longrightarrow>
     accept_loop api s True w \<noteq> None"
proof (induction n arbitrary: w)
  case 0
  then show ?case by (subst accept_loop.simps) (auto split: prod.splits sum.splits)
next
  case (Suc n)
  have "accept_loop api s True (poll api s w) \<noteq> None"
    using Suc by (simp add: funpow_swap1)
  then show ?case
    by (subst accept_loop.simps) (auto split: prod.splits sum.splits simp: poll_def)
qed

lemma establish_opens:
  assumes laws: "srt_laws api opens" and "opens w = {}"
    and "establish api config mode timeout_ms watched w = Some (w', r)"
  shows "opens w' = (case r of Inl e \<Rightarrow> {} | Inr s \<Rightarrow> {s})"
proof -
  note l = srt_lawsD [OF laws]
  obtain w1 c where c: "srt_create api w = (w1, c)" by (cases "srt_create api w")
  show ?thesis
  proof (cases c)
    case None
    then show ?thesis using assms(2,3) c l(2) by (auto simp: establish_def)
  next
    case (Some s)
    have w1: "opens w1 = {s}" using c Some l(1) assms(2) by simp
    obtain w2 o2 where o2: "set_options api s (link_options config mode timeout_ms) w1 = (w2, o2)"
      by (cases "set_options api s (link_options config mode timeout_ms) w1")
    have w2: "opens w2 = {s}" using set_options_opens [OF laws o2] w1 by simp
    obtain w3 b where b: "srt_bind api s (lc_local_port config) w2 = (w3, b)"
      by (cases "srt_bind api s (lc_local_port config) w2")
    have w3: "opens w3 = {s}" using l(5) [OF b] w2 by simp
    have listen: "opens w' = (case r of Inl e \<Rightarrow> {} | Inr s \<Rightarrow> {s})"
      if la: "listen_and_accept api s watched w3 = Some (w', r)"
    proof -
      obtain w4 ok where li: "srt_listen api s w3 = (w4, ok)" by (cases "srt_listen api s w3")
      obtain w5 b5 where sy: "srt_setsockopt api s (RcvSyn False) w4 = (w5, b5)"
        by (cases "srt_setsockopt api s (RcvSyn False) w4")
      have w5: "opens w4 = {s}" "opens w5 = {s}" using l(4) [OF sy] l(6) [OF li] w3 by simp_all
      have "case r' of Accepted a \<Rightarrow> a \<noteq> s \<and> opens w6 = {a, s} | _ \<Rightarrow> opens w6 = {s}"
        if "accept_loop api s watched w5 = Some (w6, r')" for w6 r'
        using accept_loop_opens [OF laws that] w5 by (auto split: accept_end.splits)
      then show ?thesis
        using la li sy w5 l(3)
        by (auto simp: listen_and_accept_def split: bool.splits option.splits accept_end.splits)
    qed
    have connect: "opens w' = (case r of Inl e \<Rightarrow> {} | Inr s \<Rightarrow> {s})"
      if cp: "connect_peer api s config w3 = (w', r)"
      using cp w3 l(3) l(9) [of s _ _ w3]
      by (auto simp: connect_peer_def split: option.splits prod.splits bool.splits if_splits)
    show ?thesis
      using assms(3) c Some o2 w2 b w3 l(3) listen connect
      by (auto simp: establish_def split: option.splits bool.splits if_splits)
  qed
qed

definition owns :: "('w \<Rightarrow> srt_socket set) \<Rightarrow> link \<Rightarrow> 'w \<Rightarrow> bool" where
  "owns opens l w \<longleftrightarrow>
     opens w = set_option (l_socket l) \<and> (l_socket l \<noteq> None \<longrightarrow> l_opened l)
     \<and> (l_mode l = ''loopback'' \<longrightarrow> l_socket l = None)"

lemma mark_down_owns:
  "srt_laws api opens \<Longrightarrow> owns opens l w \<Longrightarrow> mark_down api l w = (l', w') \<Longrightarrow>
     owns opens l' w' \<and> opens w' = {} \<and> \<not> l_opened l' \<and> l_socket l' = None
     \<and> l_mode l' = l_mode l \<and> l_queue l' = l_queue l"
  by (auto simp: mark_down_def owns_def srt_lawsD(3) split: option.splits)

subsection \<open>The loopback is a message pipe\<close>

interpretation loopback: message_pipe "\<lambda>l. l_mode l = ''loopback''" l_queue
  "\<lambda>l m. case send_message api with_srt l w (Some m) of (l', _, e) \<Rightarrow> (l', e = None)"
  "\<lambda>l. case receive_message api with_srt l w of (l', _, r) \<Rightarrow>
     (l', case r of Received m \<Rightarrow> Some m | _ \<Rightarrow> None)"
  for api :: "'w srt_api" and with_srt w
  by unfold_locales
    (auto simp: send_message_def receive_message_def split: list.splits)

lemma set_option_owned: "owns opens l w \<Longrightarrow> opens w = set_option (l_socket l)"
  by (simp add: owns_def)

lemma open_owns:
  assumes laws: "srt_laws api opens" and own: "owns opens l w"
    and op: "link_open api with_srt show_int now config l w = Some (l', w', r)"
  shows "owns opens l' w' \<and> (r = None \<longrightarrow> l_opened l')
    \<and> (r \<noteq> None \<and> r \<noteq> Some (UnknownLinkMode (lc_mode (cf_link config))) \<longrightarrow>
         \<not> l_opened l' \<and> opens w' = {})"
proof -
  let ?mode = "to_lower (lc_mode (cf_link config))"
  obtain l1 w1 where md: "mark_down api l w = (l1, w1)" by (cases "mark_down api l w")
  note down = mark_down_owns [OF laws own md]
  let ?l2 = "l1\<lparr>l_peer := [], l_mode := []\<rparr>"
  let ?e = "establish api (cf_link config) ?mode (l_receive_timeout_ms ?l2) (l_abort ?l2) w1"
  consider (bad) "?mode \<noteq> ''caller'' \<and> ?mode \<noteq> ''listener'' \<and> ?mode \<noteq> ''rendezvous''
      \<and> ?mode \<noteq> ''loopback''"
    | (loop) "?mode = ''loopback''"
    | (none) "?mode \<in> {''caller'', ''listener'', ''rendezvous''}" "\<not> with_srt"
    | (net) "?mode \<in> {''caller'', ''listener'', ''rendezvous''}" "with_srt"
    by blast
  then show ?thesis
  proof cases
    case bad
    then have "l' = l" "w' = w" "r = Some (UnknownLinkMode (lc_mode (cf_link config)))"
      using op by (simp_all add: link_open_def Let_def)
    then show ?thesis using own by simp
  next
    case loop
    then show ?thesis using op md down by (auto simp: link_open_def Let_def owns_def)
  next
    case none
    then show ?thesis using op md down by (auto simp: link_open_def Let_def owns_def)
  next
    case net
    then have eq: "link_open api with_srt show_int now config l w =
      (case ?e of None \<Rightarrow> None
       | Some (w2, Inl e) \<Rightarrow> Some (?l2, w2, Some e)
       | Some (w2, Inr s) \<Rightarrow> Some (?l2\<lparr>l_socket := Some s, l_opened := True, l_opened_at := now,
            l_mode := ?mode, l_peer := (if ?mode = ''listener''
              then ''accepted on port '' @ show_int (lc_local_port (cf_link config))
              else lc_peer (cf_link config))\<rparr>, w2, None))"
      using md by (auto simp: link_open_def Let_def)
    obtain w2 res where e: "?e = Some (w2, res)" using op eq by (cases ?e) auto
    have opens: "opens w2 = (case res of Inl e \<Rightarrow> {} | Inr s \<Rightarrow> {s})"
      using establish_opens [OF laws _ e] down by blast
    show ?thesis
    proof (cases res)
      case (Inl e')
      then have "l' = ?l2" "w' = w2" "r = Some e'" using op eq e by simp_all
      then show ?thesis using down opens Inl by (simp add: owns_def)
    next
      case (Inr s)
      then have "l_socket l' = Some s" "l_opened l'" "w' = w2" "r = None" "l_mode l' = ?mode"
        using op eq e by auto
      then show ?thesis using net(1) opens Inr by (auto simp: owns_def)
    qed
  qed
qed

lemma close_owns:
  assumes "srt_laws api opens" "owns opens l w" "link_close api l w = (l', w')"
  shows "owns opens l' w' \<and> \<not> l_opened l' \<and> opens w' = {}"
proof -
  obtain l1 w1 where md: "mark_down api l w = (l1, w1)" by (cases "mark_down api l w")
  show ?thesis
    using mark_down_owns [OF assms(1,2) md] assms(3) md by (auto simp: link_close_def owns_def)
qed

lemma mark_down_owns_fst:
  assumes "srt_laws api opens" "owns opens l w" "opens w1 = opens w"
  shows "owns opens (fst (mark_down api l w1)) (snd (mark_down api l w1))"
    and "opens (snd (mark_down api l w1)) = {}" and "\<not> l_opened (fst (mark_down api l w1))"
proof -
  have "owns opens l w1" using assms(2,3) by (simp add: owns_def)
  from mark_down_owns [OF assms(1) this, of "fst (mark_down api l w1)" "snd (mark_down api l w1)"]
  show "owns opens (fst (mark_down api l w1)) (snd (mark_down api l w1))"
    and "opens (snd (mark_down api l w1)) = {}" and "\<not> l_opened (fst (mark_down api l w1))"
    by simp_all
qed

lemma message_calls_open_none:
  "srt_laws api opens \<Longrightarrow> opens (fst (srt_sendmsg api s data w)) = opens w"
  "srt_laws api opens \<Longrightarrow> opens (fst (srt_recvmsg api s n w)) = opens w"
  by (simp_all add: srt_laws_def)

lemma owns_same: "owns opens l w \<Longrightarrow> opens w1 = opens w \<Longrightarrow> owns opens l w1"
  by (simp add: owns_def)

lemma owns_queue: "owns opens l w \<Longrightarrow> owns opens (l\<lparr>l_queue := q\<rparr>) w"
  by (simp add: owns_def)

lemma send_owns:
  assumes laws: "srt_laws api opens" and own: "owns opens l w"
    and send: "send_message api with_srt l w m = (l', w', r)"
  shows "owns opens l' w'"
proof -
  have "owns opens (fst (send_message api with_srt l w m)) (fst (snd (send_message api with_srt l w m)))"
    using own
    by (simp add: send_message_def case_prod_unfold owns_queue owns_same [OF own]
        mark_down_owns_fst [OF laws own] message_calls_open_none [OF laws]
        split: option.split sum.split)
  then show ?thesis by (simp add: send)
qed

lemma receive_owns:
  assumes laws: "srt_laws api opens" and own: "owns opens l w"
    and receive: "receive_message api with_srt l w = (l', w', r)"
  shows "owns opens l' w' \<and> (r = TimedOut \<longrightarrow> l' = l)
    \<and> (r = Refused ReceiveFailed \<longrightarrow> \<not> l_opened l' \<and> opens w' = {})"
proof -
  have "owns opens (fst (receive_message api with_srt l w)) (fst (snd (receive_message api with_srt l w)))
    \<and> (snd (snd (receive_message api with_srt l w)) = TimedOut \<longrightarrow> fst (receive_message api with_srt l w) = l)
    \<and> (snd (snd (receive_message api with_srt l w)) = Refused ReceiveFailed \<longrightarrow>
         \<not> l_opened (fst (receive_message api with_srt l w))
         \<and> opens (fst (snd (receive_message api with_srt l w))) = {})"
    using own
    by (simp add: receive_message_def case_prod_unfold owns_queue owns_same [OF own]
        mark_down_owns_fst [OF laws own] message_calls_open_none [OF laws]
        split: option.split sum.split list.split)
  then show ?thesis by (simp add: receive)
qed

subsection \<open>Properties\<close>

text \<open>A library the witnesses use: sockets are numbered, nobody calls, and a stop comes.\<close>

definition demo_api :: "(nat list \<times> nat) srt_api" where
  "demo_api =
     \<lparr>srt_create = (\<lambda>(open, t). let s = Suc (sum_list open) in ((s # open, t), Some s)),
      srt_close = (\<lambda>s (open, t). (removeAll s open, t)),
      srt_setsockopt = (\<lambda>s option w. (w, True)),
      srt_bind = (\<lambda>s port w. (w, True)),
      srt_listen = (\<lambda>s w. (w, True)),
      srt_accept = (\<lambda>s w. (w, Inl EASYNCRCV)),
      srt_connect = (\<lambda>s host port w. (w, True)),
      srt_sendmsg = (\<lambda>s data w. (w, Inr (length data))),
      srt_recvmsg = (\<lambda>s n w. (w, Inl (OtherCode 1))),
      srt_bstats = (\<lambda>s w. (w, None)),
      inet_pton = (\<lambda>host. True),
      sleep_20ms = (\<lambda>(open, t). (open, t + 1)),
      abort_flag = (\<lambda>(open, t). 3 \<le> t)\<rparr>"

definition demo_opens :: "nat list \<times> nat \<Rightarrow> nat set" where
  "demo_opens w = set (fst w)"

lemma demo_laws: "srt_laws demo_api demo_opens"
proof -
  have fresh: "Suc (sum_list xs) \<notin> set xs" for xs :: "nat list"
    using member_le_sum_list [of "Suc (sum_list xs)" xs] by auto
  show ?thesis
    by (auto simp: srt_laws_def demo_api_def demo_opens_def Let_def fresh)
qed

text \<open>
  C32. No socket leaks: whatever the library answers, opening, closing, sending and receiving leave
  exactly the socket the link holds open, and none when it holds none. Every refusal of an attempt
  to open closes what it had created; a receive that times out leaves the link as it was, one that
  fails takes the link down and closes its socket.
\<close>

theorem sockets_owned:
  assumes "srt_laws api opens" and "owns opens l w"
  shows "(\<forall>l' w' r. link_open api with_srt show_int now config l w = Some (l', w', r) \<longrightarrow>
      owns opens l' w' \<and> (r = None \<longrightarrow> l_opened l')
      \<and> (r \<noteq> None \<and> r \<noteq> Some (UnknownLinkMode (lc_mode (cf_link config))) \<longrightarrow>
           \<not> l_opened l' \<and> opens w' = {}))
    \<and> (\<forall>l' w'. link_close api l w = (l', w') \<longrightarrow> owns opens l' w' \<and> \<not> l_opened l' \<and> opens w' = {})
    \<and> (\<forall>m l' w' r. send_message api with_srt l w m = (l', w', r) \<longrightarrow> owns opens l' w')
    \<and> (\<forall>l' w' r. receive_message api with_srt l w = (l', w', r) \<longrightarrow>
      owns opens l' w' \<and> (r = TimedOut \<longrightarrow> l' = l)
      \<and> (r = Refused ReceiveFailed \<longrightarrow> \<not> l_opened l' \<and> opens w' = {}))"
  using open_owns [OF assms] close_owns [OF assms] send_owns [OF assms] receive_owns [OF assms]
  by blast

theorem sockets_owned_witness:
  "\<exists>l' w'. link_close demo_api link_init ([], 0) = (l', w') \<and> owns demo_opens l' w'
     \<and> \<not> l_opened l' \<and> demo_opens w' = {}"
proof -
  have o: "owns demo_opens link_init ([], 0)" by (simp add: owns_def demo_opens_def link_init_def)
  show ?thesis using sockets_owned [OF demo_laws o] by (metis surj_pair)
qed

text \<open>
  A stop request ends the waiting for a caller: a listener that watches the flag returns once
  the flag is up after some number of polls, whatever the library answers meanwhile.
\<close>

theorem accept_answers_stop:
  assumes "abort_flag api (fst (srt_accept api s ((poll api s ^^ n) w)))"
  shows "accept_loop api s True w \<noteq> None"
  using accept_loop_ends [OF assms] .

theorem accept_answers_stop_witness:
  "accept_loop demo_api 1 True ([1], 0) \<noteq> None"
proof -
  have "abort_flag demo_api (fst (srt_accept demo_api 1 ((poll demo_api 1 ^^ 3) ([1], 0))))"
    by (simp add: poll_def demo_api_def numeral_3_eq_3)
  then show ?thesis using accept_answers_stop [of demo_api 1 3 "([1], 0)"] by simp
qed

definition loopback_run ::
  "'w srt_api \<Rightarrow> bool \<Rightarrow> 'w \<Rightarrow> link \<Rightarrow> bytes pipe_event list \<Rightarrow> link \<times> bytes list \<times> bytes list" where
  "loopback_run api with_srt w = pipe_run
     (\<lambda>l m. case send_message api with_srt l w (Some m) of (l', _, e) \<Rightarrow> (l', e = None))
     (\<lambda>l. case receive_message api with_srt l w of (l', _, r) \<Rightarrow>
        (l', case r of Received m \<Rightarrow> Some m | _ \<Rightarrow> None))"

lemma loopback_bounded:
  "l_mode l = ''loopback'' \<Longrightarrow> length (l_queue l) \<le> 2048 \<Longrightarrow>
     length (l_queue (fst (loopback_run api with_srt w l events))) \<le> 2048"
proof (induction events arbitrary: l)
  case (Cons e events)
  show ?case
  proof (cases e)
    case (Send m)
    let ?l = "fst (send_message api with_srt l w (Some m))"
    have "l_mode ?l = ''loopback''" "length (l_queue ?l) \<le> 2048"
      using Cons.prems by (auto simp: send_message_def k_loopback_max_messages_def)
    from Cons.IH [OF this] show ?thesis
      using Send by (simp add: loopback_run_def case_prod_unfold)
  next
    case Receive
    let ?l = "fst (receive_message api with_srt l w)"
    have "l_mode ?l = ''loopback''" "length (l_queue ?l) \<le> 2048"
      using Cons.prems by (auto simp: receive_message_def split: list.splits)
    from Cons.IH [OF this] show ?thesis
      using Receive by (simp add: loopback_run_def case_prod_unfold)
  qed
qed (simp add: loopback_run_def)

text \<open>
  The loopback is a bounded FIFO: whatever is sent and received on it after it is opened, the
  messages accepted are those received, in the same order and each once, followed by those still
  held, and never more than 2048 are held.
\<close>

theorem loopback_fifo:
  assumes "to_lower (lc_mode (cf_link config)) = ''loopback''"
    and "link_open api with_srt show_int now config l w = Some (l0, w0, r)"
    and "loopback_run api with_srt w0 l0 events = (l', sent, received)"
  shows "r = None \<and> sent = received @ l_queue l' \<and> length (l_queue l') \<le> 2048"
proof -
  have l0: "l_mode l0 = ''loopback''" "l_queue l0 = []" "r = None"
    using assms(1,2) by (auto simp: link_open_def Let_def split: prod.splits)
  have "l_queue l0 @ sent = received @ l_queue l'"
    using loopback.pipe_conserves [OF l0(1) assms(3) [unfolded loopback_run_def]] .
  then show ?thesis
    using l0 loopback_bounded [of l0 api with_srt w0 events] assms(3) by simp
qed

theorem loopback_fifo_witness:
  "\<exists>l0 w0. link_open demo_api False (\<lambda>_. []) 0
      (default_config\<lparr>cf_link := default_link\<lparr>lc_mode := ''loopback''\<rparr>\<rparr>) link_init ([], 0)
        = Some (l0, w0, None)
     \<and> (\<exists>l'. loopback_run demo_api False w0 l0 [Send [1], Send [2], Receive] = (l', [[1], [2]], [[1]])
          \<and> [[1], [2 :: u8]] = [[1]] @ l_queue l')"
proof -
  let ?c = "default_config\<lparr>cf_link := default_link\<lparr>lc_mode := ''loopback''\<rparr>\<rparr>"
  let ?l0 = "link_init\<lparr>l_mode := ''loopback'', l_peer := ''(in-process)'', l_opened := True\<rparr>"
  have m: "to_lower (lc_mode (cf_link ?c)) = ''loopback''"
    by (simp add: to_lower_def lower_char_def)
  have m': "to_lower ''loopback'' = ''loopback''" by (simp add: to_lower_def lower_char_def)
  have o: "link_open demo_api False (\<lambda>_. []) 0 ?c link_init ([], 0) = Some (?l0, ([], 0), None)"
    by (simp add: link_open_def m' Let_def mark_down_def link_init_def)
  obtain l' where r: "loopback_run demo_api False ([], 0) ?l0 [Send [1], Send [2], Receive]
      = (l', [[1], [2]], [[1]])"
    by (simp add: loopback_run_def send_message_def receive_message_def k_max_message_bytes_def
        k_loopback_max_messages_def link_init_def)
  show ?thesis using loopback_fifo [OF m o r] o r by blast
qed

text \<open>
  A message larger than one live-mode payload, an empty one and a missing one are refused
  before the library or the link is touched; on the network an accepted message is one the library
  took whole.
\<close>

theorem send_message_whole:
  "send_message api with_srt l w m =
     (case m of
        None \<Rightarrow> (l, w, Some NothingToSend)
      | Some data \<Rightarrow>
          if data = [] then (l, w, Some NothingToSend)
          else if 1316 < length data then (l, w, Some (MessageTooBig (length data) 1316))
          else send_message api with_srt l w m)
   \<and> (snd (snd (send_message api with_srt l w m)) = None \<and> l_mode l \<noteq> ''loopback'' \<longrightarrow>
        (\<exists>s data. m = Some data \<and> l_socket l = Some s
           \<and> snd (srt_sendmsg api s data w) = Inr (length data)))"
proof -
  have "\<exists>s data. m = Some data \<and> l_socket l = Some s
           \<and> snd (srt_sendmsg api s data w) = Inr (length data)"
    if "snd (snd (send_message api with_srt l w m)) = None" "l_mode l \<noteq> ''loopback''"
    using that by (auto simp: send_message_def split: option.splits if_splits prod.splits sum.splits)
  then show ?thesis
    by (auto simp: send_message_def k_max_message_bytes_def split: option.splits)
qed

theorem send_message_whole_witness:
  "send_message demo_api True link_init ([], 0) (Some (replicate 1317 0))
     = (link_init, ([], 0), Some (MessageTooBig 1317 1316))"
  using send_message_whole [of demo_api True link_init "([], 0)" "Some (replicate 1317 0)"]
  by (simp add: send_message_def k_max_message_bytes_def)

end
