(* ===== verification/RatioControl.thy ===== *)
theory RatioControl
  imports Pcm
begin

text \<open>
  The ratio control: src/src/clock/ratio_control.hpp and src/src/clock/ratio_control.cpp.

  \<open>ratio_control\<close> is the class, \<open>control_config\<close> its \<^verbatim>\<open>Config\<close>, \<open>update\<close> one update with the level the
  buffer holds and the time since the last one. A \<^verbatim>\<open>double\<close> is a real, so rounding is not modelled;
  the values the code tests for (not a number, an infinity) are those of \<open>float_value\<close>.
\<close>

subsection \<open>State\<close>

record control_config =
  cc_target_ms :: real
  cc_average_ms :: real
  cc_loop_period_ms :: real
  cc_damping :: real
  cc_limit_ppm :: real
  cc_slew_ppm_second :: real

definition default_control :: control_config where
  "default_control = \<lparr>cc_target_ms = 120, cc_average_ms = 100000, cc_loop_period_ms = 2000000,
     cc_damping = 0.8, cc_limit_ppm = 200, cc_slew_ppm_second = 50\<rparr>"

record ratio_control =
  rc_config :: control_config
  rc_average_level_ms :: real
  rc_integral_ppm :: real
  rc_correction_ppm :: real
  rc_updates :: nat
  rc_primed :: bool

definition control_init :: "control_config \<Rightarrow> ratio_control" where
  "control_init config = \<lparr>rc_config = config, rc_average_level_ms = 0, rc_integral_ppm = 0,
     rc_correction_ppm = 0, rc_updates = 0, rc_primed = False\<rparr>"

definition k_plant_ms_per_second_per_ppm :: real where
  "k_plant_ms_per_second_per_ppm = 1 / 1000"

definition k_two_pi :: real where
  "k_two_pi = 6.283185307179586"

subsection \<open>Operations\<close>

definition loop_omega :: "control_config \<Rightarrow> real" where
  "loop_omega config = k_two_pi * 1000 / cc_loop_period_ms config"

definition integral_ppm_per_ms_second :: "ratio_control \<Rightarrow> real" where
  "integral_ppm_per_ms_second c =
     loop_omega (rc_config c) * loop_omega (rc_config c) / k_plant_ms_per_second_per_ppm"

definition proportional_ppm_per_ms :: "ratio_control \<Rightarrow> real" where
  "proportional_ppm_per_ms c =
     2 * cc_damping (rc_config c) * loop_omega (rc_config c) / k_plant_ms_per_second_per_ppm"

definition ratio :: "ratio_control \<Rightarrow> real" where
  "ratio c = 1 + rc_correction_ppm c / 1000000"

definition offset_ppm :: "ratio_control \<Rightarrow> real" where
  "offset_ppm c = rc_correction_ppm c"

definition level_error_ms :: "ratio_control \<Rightarrow> real" where
  "level_error_ms c = rc_average_level_ms c - cc_target_ms (rc_config c)"

definition at_limit :: "ratio_control \<Rightarrow> bool" where
  "at_limit c \<longleftrightarrow> \<bar>rc_correction_ppm c\<bar> \<ge> cc_limit_ppm (rc_config c)"

text \<open>The clamp the code writes out three times: to \<open>bound\<close> either way.\<close>

definition clamp :: "real \<Rightarrow> real \<Rightarrow> real" where
  "clamp bound x = (if x > bound then bound else if x < - bound then - bound else x)"

definition averaged :: "ratio_control \<Rightarrow> real \<Rightarrow> real \<Rightarrow> real" where
  "averaged c level_ms elapsed_ms =
     (if \<not> rc_primed c then level_ms
      else if cc_average_ms (rc_config c) \<le> 0 then level_ms
      else
        let alpha = (if elapsed_ms \<ge> cc_average_ms (rc_config c) then 1
                     else elapsed_ms / cc_average_ms (rc_config c))
        in rc_average_level_ms c + alpha * (level_ms - rc_average_level_ms c))"

definition control_wanted :: "ratio_control \<Rightarrow> real \<Rightarrow> real \<Rightarrow> real" where
  "control_wanted c level_ms elapsed_ms =
     (let error = averaged c level_ms elapsed_ms - cc_target_ms (rc_config c) in
      rc_integral_ppm c + integral_ppm_per_ms_second c * error * (elapsed_ms / 1000)
      + proportional_ppm_per_ms c * error)"

definition control_step :: "ratio_control \<Rightarrow> real \<Rightarrow> real \<Rightarrow> ratio_control" where
  "control_step c level_ms elapsed_ms =
     (let average = averaged c level_ms elapsed_ms;
          proportional = proportional_ppm_per_ms c * (average - cc_target_ms (rc_config c));
          max_delta = cc_slew_ppm_second (rc_config c) * (elapsed_ms / 1000);
          delta = clamp max_delta (control_wanted c level_ms elapsed_ms - rc_correction_ppm c);
          correction = clamp (cc_limit_ppm (rc_config c)) (rc_correction_ppm c + delta)
      in c\<lparr>rc_average_level_ms := average,
           rc_integral_ppm := clamp (cc_limit_ppm (rc_config c)) (correction - proportional),
           rc_correction_ppm := correction, rc_updates := rc_updates c + 1, rc_primed := True\<rparr>)"

fun update :: "ratio_control \<Rightarrow> float_value \<Rightarrow> float_value \<Rightarrow> ratio_control" where
  "update c (Real level_ms) (Real elapsed_ms) =
     (if elapsed_ms \<le> 0 then c else control_step c level_ms elapsed_ms)"
| "update c _ _ = c"

subsection \<open>The clamps\<close>

lemma clamp_bounds: "0 \<le> bound \<Longrightarrow> \<bar>clamp bound x\<bar> \<le> bound"
  by (simp add: clamp_def abs_le_iff)

lemma clamp_id [simp]: "\<bar>x\<bar> \<le> bound \<Longrightarrow> clamp bound x = x"
  by (simp add: clamp_def abs_le_iff)

text \<open>Clamping a moved point moves it no further than it was moved.\<close>

lemma clamp_step: "\<bar>c\<bar> \<le> bound \<Longrightarrow> \<bar>clamp bound (c + d) - c\<bar> \<le> \<bar>d\<bar>"
  by (auto simp: clamp_def abs_le_iff)

lemma clamp_eq_zero: "0 < bound \<Longrightarrow> clamp bound x = 0 \<longleftrightarrow> x = 0"
  by (auto simp: clamp_def)

lemma clamp_inside: "\<bar>clamp bound x\<bar> < bound \<Longrightarrow> clamp bound x = x"
  by (auto simp: clamp_def abs_if split: if_splits)

lemma clamp_sign: "0 < bound \<Longrightarrow> clamp bound x \<noteq> x \<Longrightarrow> bound < x \<and> clamp bound x = bound
    \<or> x < - bound \<and> clamp bound x = - bound"
  by (auto simp: clamp_def split: if_splits)

subsection \<open>What every update keeps\<close>

text \<open>A configuration a loop can run with, and a control within its limit.\<close>

definition steerable :: "control_config \<Rightarrow> bool" where
  "steerable config \<longleftrightarrow> 0 < cc_limit_ppm config \<and> 0 < cc_slew_ppm_second config
     \<and> 0 < cc_loop_period_ms config \<and> 0 \<le> cc_damping config"

definition within_limit :: "ratio_control \<Rightarrow> bool" where
  "within_limit c \<longleftrightarrow> \<bar>rc_correction_ppm c\<bar> \<le> cc_limit_ppm (rc_config c)
     \<and> \<bar>rc_integral_ppm c\<bar> \<le> cc_limit_ppm (rc_config c)"

lemma default_steerable: "steerable default_control"
  by (simp add: steerable_def default_control_def)

lemma control_init_within: "steerable config \<Longrightarrow> within_limit (control_init config)"
  by (simp add: within_limit_def control_init_def steerable_def)

lemma step_within: "steerable (rc_config c) \<Longrightarrow> within_limit (control_step c level elapsed)"
  by (simp add: within_limit_def control_step_def Let_def clamp_bounds steerable_def)

lemma step_fields:
  "rc_config (control_step c l e) = rc_config c"
  "rc_average_level_ms (control_step c l e) = averaged c l e"
  "rc_correction_ppm (control_step c l e) = clamp (cc_limit_ppm (rc_config c))
     (rc_correction_ppm c + clamp (cc_slew_ppm_second (rc_config c) * (e / 1000))
        (control_wanted c l e - rc_correction_ppm c))"
  "rc_integral_ppm (control_step c l e) = clamp (cc_limit_ppm (rc_config c))
     (rc_correction_ppm (control_step c l e)
      - proportional_ppm_per_ms c * (averaged c l e - cc_target_ms (rc_config c)))"
  "rc_updates (control_step c l e) = rc_updates c + 1"
  "rc_primed (control_step c l e) \<longleftrightarrow> True"
  by (simp_all add: control_step_def Let_def)

lemmas step_config = step_fields(1)

lemma step_slew:
  assumes "steerable (rc_config c)" "within_limit c" "0 < elapsed"
  shows "\<bar>rc_correction_ppm (control_step c level elapsed) - rc_correction_ppm c\<bar>
    \<le> cc_slew_ppm_second (rc_config c) * (elapsed / 1000)"
proof -
  let ?slew = "cc_slew_ppm_second (rc_config c) * (elapsed / 1000)"
  have "0 \<le> ?slew" using assms by (simp add: steerable_def)
  then have "\<bar>clamp ?slew x\<bar> \<le> ?slew" for x by (rule clamp_bounds)
  moreover have "\<bar>rc_correction_ppm c\<bar> \<le> cc_limit_ppm (rc_config c)"
    using assms(2) by (simp add: within_limit_def)
  ultimately show ?thesis
    unfolding step_fields(3) by (meson clamp_step order_trans)
qed

lemma update_cases:
  obtains (ignored) "update c level elapsed = c"
    | (stepped) l e where "level = Real l" "elapsed = Real e" "0 < e"
        "update c level elapsed = control_step c l e"
proof (cases "\<exists>l e. level = Real l \<and> elapsed = Real e \<and> 0 < e")
  case True
  then show ?thesis using stepped by auto
next
  case False
  then have "update c level elapsed = c"
    by (cases "(c, level, elapsed)" rule: update.cases) auto
  then show ?thesis by (rule ignored)
qed

lemma update_config [simp]: "rc_config (update c level elapsed) = rc_config c"
  by (cases rule: update_cases [of c level elapsed]) (simp_all add: step_config)

lemma update_within [inv_intros]:
  "steerable (rc_config c) \<Longrightarrow> within_limit c \<Longrightarrow> within_limit (update c level elapsed)"
  by (cases rule: update_cases [of c level elapsed]) (simp_all add: step_within)

definition updates_run ::
  "ratio_control \<Rightarrow> (float_value \<times> float_value) list \<Rightarrow> ratio_control" where
  "updates_run c measurements = foldl (\<lambda>c (level, elapsed). update c level elapsed) c measurements"

lemma updates_run_within:
  "steerable (rc_config c) \<Longrightarrow> within_limit c \<Longrightarrow>
     within_limit (updates_run c measurements) \<and> rc_config (updates_run c measurements) = rc_config c"
proof (induction measurements arbitrary: c)
  case (Cons m measurements)
  obtain level elapsed where m: "m = (level, elapsed)" by (cases m)
  show ?case
    using Cons.IH [of "update c level elapsed"] Cons.prems
    by (simp add: updates_run_def m update_within)
qed (simp add: updates_run_def)

text \<open>
  C33. The ratio can neither run away nor step: whatever levels and intervals the loop is told,
  infinities and values that are not numbers among them, the correction stays within its limit, the
  ratio within that many parts per million of one, and one more update moves the correction by at
  most the slew rate times the time it covers, or, when it is told no number or no time, not at all.
\<close>

theorem correction_bounded:
  fixes measurements :: "(float_value \<times> float_value) list" and config :: control_config
  defines "c \<equiv> updates_run (control_init config) measurements"
  assumes "steerable config"
  shows "\<bar>offset_ppm c\<bar> \<le> cc_limit_ppm config
    \<and> \<bar>ratio c - 1\<bar> \<le> cc_limit_ppm config / 1000000
    \<and> \<bar>offset_ppm (update c level elapsed) - offset_ppm c\<bar>
        \<le> (case elapsed of Real e \<Rightarrow> cc_slew_ppm_second config * (max 0 e / 1000) | _ \<Rightarrow> 0)"
proof -
  have c: "within_limit c" "rc_config c = config"
    using updates_run_within [of "control_init config" measurements] assms(2)
      control_init_within [OF assms(2)]
    by (simp_all add: c_def control_init_def)
  have slew: "0 \<le> cc_slew_ppm_second config" using assms(2) by (simp add: steerable_def)
  have "\<bar>offset_ppm (update c level elapsed) - offset_ppm c\<bar>
      \<le> (case elapsed of Real e \<Rightarrow> cc_slew_ppm_second config * (max 0 e / 1000) | _ \<Rightarrow> 0)"
  proof (cases rule: update_cases [of c level elapsed])
    case ignored
    then show ?thesis using slew by (simp add: offset_ppm_def split: float_value.split)
  next
    case (stepped l e)
    then show ?thesis
      using step_slew [of c e l] c assms(2) by (simp add: offset_ppm_def)
  qed
  then show ?thesis using c by (simp add: within_limit_def offset_ppm_def ratio_def)
qed

theorem correction_bounded_witness:
  "\<bar>offset_ppm (updates_run (control_init default_control) [(Real 4000, Real 1), (NaN, Real 1)])\<bar> \<le> 200"
  using correction_bounded [OF default_steerable, of "[(Real 4000, Real 1), (NaN, Real 1)]" "Real 0" "Real 0"]
  by (simp add: default_control_def)

subsection \<open>Where the loop can rest\<close>

lemma averaged_rest:
  assumes "0 < elapsed" "averaged c level elapsed = rc_average_level_ms c"
  shows "level = rc_average_level_ms c"
proof -
  have "0 < elapsed / cc_average_ms (rc_config c)" if "0 < cc_average_ms (rc_config c)"
    using that assms(1) by simp
  then show ?thesis
    using assms by (auto simp: averaged_def Let_def split: if_splits)
qed

lemma gains_pos:
  assumes "steerable (rc_config c)"
  shows "0 < integral_ppm_per_ms_second c" and "0 \<le> proportional_ppm_per_ms c"
  using assms
  by (simp_all add: integral_ppm_per_ms_second_def proportional_ppm_per_ms_def loop_omega_def
      k_two_pi_def k_plant_ms_per_second_per_ppm_def steerable_def)

lemma rest_error:
  fixes kp ki :: real
  assumes "0 \<le> kp" "0 < ki" "\<bar>correction\<bar> < bound"
    and wanted: "integral + ki * error + kp * error = correction"
    and held: "clamp bound (correction - kp * error) = integral"
  shows "error = 0"
proof (cases "clamp bound (correction - kp * error) = correction - kp * error")
  case True
  then have "ki * error = 0" using wanted held by simp
  then show ?thesis using assms(2) by simp
next
  case False
  have "0 < bound" using assms(3) by linarith
  from clamp_sign [OF this False] show ?thesis
  proof
    assume a: "bound < correction - kp * error \<and> clamp bound (correction - kp * error) = bound"
    then have "kp * error < 0" "0 < ki * error" using assms(3) wanted held by linarith+
    then show ?thesis using assms(1,2) by (simp add: mult_less_0_iff zero_less_mult_iff)
  next
    assume a: "correction - kp * error < - bound \<and> clamp bound (correction - kp * error) = - bound"
    then have "0 < kp * error" "ki * error < 0" using assms(3) wanted held by linarith+
    then show ?thesis using assms(1,2) by (simp add: mult_less_0_iff zero_less_mult_iff)
  qed
qed

lemma rest_forward:
  assumes st: "steerable (rc_config c)" and p: "rc_primed c" "0 < elapsed"
    and inside: "\<not> at_limit c"
    and rest: "control_step c level elapsed = c\<lparr>rc_updates := rc_updates c + 1\<rparr>"
  shows "level = cc_target_ms (rc_config c) \<and> rc_average_level_ms c = level
    \<and> rc_integral_ppm c = rc_correction_ppm c"
proof -
  let ?config = "rc_config c"
  let ?e = "rc_average_level_ms c - cc_target_ms ?config"
  let ?kp = "proportional_ppm_per_ms c" and ?ki = "integral_ppm_per_ms_second c * (elapsed / 1000)"
  let ?slew = "cc_slew_ppm_second ?config * (elapsed / 1000)"
  have fields: "rc_average_level_ms (control_step c level elapsed) = rc_average_level_ms c"
    "rc_integral_ppm (control_step c level elapsed) = rc_integral_ppm c"
    "rc_correction_ppm (control_step c level elapsed) = rc_correction_ppm c"
    using rest by simp_all
  have avg: "averaged c level elapsed = rc_average_level_ms c"
    using fields(1) step_fields(2) by simp
  have lim: "\<bar>rc_correction_ppm c\<bar> < cc_limit_ppm ?config" using inside by (simp add: at_limit_def)
  note corr = fields(3) [unfolded step_fields(3)]
  have "rc_correction_ppm c + clamp ?slew (control_wanted c level elapsed - rc_correction_ppm c)
      = rc_correction_ppm c"
    using clamp_inside [of "cc_limit_ppm ?config" "rc_correction_ppm c
        + clamp ?slew (control_wanted c level elapsed - rc_correction_ppm c)"] corr lim by simp
  then have "clamp ?slew (control_wanted c level elapsed - rc_correction_ppm c) = 0" by simp
  moreover have "0 < ?slew" using st p by (simp add: steerable_def)
  ultimately have "control_wanted c level elapsed = rc_correction_ppm c" by (simp add: clamp_eq_zero)
  moreover have "control_wanted c level elapsed = rc_integral_ppm c + ?ki * ?e + ?kp * ?e"
    unfolding control_wanted_def Let_def avg by (simp add: field_simps)
  ultimately have w: "rc_integral_ppm c + ?ki * ?e + ?kp * ?e = rc_correction_ppm c" by metis
  have i: "clamp (cc_limit_ppm ?config) (rc_correction_ppm c - ?kp * ?e) = rc_integral_ppm c"
    using fields(2) unfolding step_fields(4) fields(3) avg .
  have "?e = 0"
    using rest_error [OF gains_pos(2) [OF st] _ lim w i] gains_pos(1) [OF st] p(2) by simp
  then show ?thesis using averaged_rest [OF p(2) avg] w by simp
qed

text \<open>
  The loop has no steady-state error. An update leaves a primed control that is not at its
  limit where it was exactly when the level it is told is the target, the average is there too, and
  the integral holds the whole correction: whatever the offset between the clocks, the only level
  the loop can rest at is the one it was asked to hold.
\<close>

theorem rest_only_at_target:
  assumes "steerable (rc_config c)" "rc_primed c" "0 < elapsed" "\<not> at_limit c"
  shows "update c (Real level) (Real elapsed) = c\<lparr>rc_updates := rc_updates c + 1\<rparr>
    \<longleftrightarrow> level = cc_target_ms (rc_config c) \<and> rc_average_level_ms c = level
      \<and> rc_integral_ppm c = rc_correction_ppm c"
proof
  assume "update c (Real level) (Real elapsed) = c\<lparr>rc_updates := rc_updates c + 1\<rparr>"
  then have "control_step c level elapsed = c\<lparr>rc_updates := rc_updates c + 1\<rparr>"
    using assms(3) by (metis update.simps(1) not_le)
  then show "level = cc_target_ms (rc_config c) \<and> rc_average_level_ms c = level
      \<and> rc_integral_ppm c = rc_correction_ppm c"
    by (rule rest_forward [OF assms])
next
  assume at: "level = cc_target_ms (rc_config c) \<and> rc_average_level_ms c = level
      \<and> rc_integral_ppm c = rc_correction_ppm c"
  have avg: "averaged c level elapsed = rc_average_level_ms c"
    using at assms(2) by (simp add: averaged_def Let_def)
  have zero: "rc_average_level_ms c - cc_target_ms (rc_config c) = 0" using at by simp
  have lim: "\<bar>rc_correction_ppm c\<bar> \<le> cc_limit_ppm (rc_config c)"
    using assms(4) by (simp add: at_limit_def)
  have slew: "0 \<le> cc_slew_ppm_second (rc_config c) * (elapsed / 1000)"
    using assms(1,3) by (simp add: steerable_def)
  have all_integral: "rc_integral_ppm c = rc_correction_ppm c" using at by blast
  have wanted: "control_wanted c level elapsed - rc_correction_ppm c = 0"
    unfolding control_wanted_def Let_def avg zero all_integral by simp
  have corr: "rc_correction_ppm (control_step c level elapsed) = rc_correction_ppm c"
    unfolding step_fields wanted using lim slew by simp
  have integral: "rc_integral_ppm (control_step c level elapsed) = rc_integral_ppm c"
    unfolding step_fields(4) corr avg zero all_integral using lim by simp
  have "control_step c level elapsed = c\<lparr>rc_updates := rc_updates c + 1\<rparr>"
    using corr integral assms(2) avg
    by (intro ratio_control.equality) (simp_all add: step_fields(1,2,5,6))
  then show "update c (Real level) (Real elapsed) = c\<lparr>rc_updates := rc_updates c + 1\<rparr>"
    using assms(3) by simp
qed

theorem rest_only_at_target_witness:
  "let c = (control_init default_control)\<lparr>rc_primed := True, rc_average_level_ms := 120\<rparr>
   in update c (Real 120) (Real 1) = c\<lparr>rc_updates := 1\<rparr>"
  using rest_only_at_target [of "(control_init default_control)\<lparr>rc_primed := True,
      rc_average_level_ms := 120\<rparr>" 1 120] default_steerable
  by (simp add: control_init_def default_control_def at_limit_def Let_def)

end
