(* ===== verification/Circular.thy ===== *)
theory Circular
  imports Prelude
begin

text \<open>
  Copies into and out of a circular buffer, as three components write them out
  (src/src/audio/float_ring.cpp, src/src/audio/shared_ring.cpp, src/src/delay/delay_line.cpp): one
  \<^verbatim>\<open>memcpy\<close> up to the end of the storage and one from its start. The storage holds \<open>capacity\<close>
  units of \<open>u\<close> elements, a unit being a frame of samples or a sample of bytes.
\<close>

definition unit_at :: "nat \<Rightarrow> 'a list \<Rightarrow> nat \<Rightarrow> 'a list" where
  "unit_at u xs k = chunk (k * u) u xs"

definition ring_put :: "nat \<Rightarrow> nat \<Rightarrow> nat \<Rightarrow> nat \<Rightarrow> 'a list \<Rightarrow> 'a list \<Rightarrow> 'a list" where
  "ring_put u capacity start n source buffer =
     (let first = min n (capacity - start);
          buffer1 = overwrite (start * u) (take (first * u) source) buffer
      in if n > first
         then overwrite 0 (chunk (first * u) ((n - first) * u) source) buffer1
         else buffer1)"

definition ring_get :: "nat \<Rightarrow> nat \<Rightarrow> nat \<Rightarrow> nat \<Rightarrow> 'a list \<Rightarrow> 'a list" where
  "ring_get u capacity start n buffer =
     (let first = min n (capacity - start) in
      if n > first
      then chunk (start * u) (first * u) buffer @ chunk 0 ((n - first) * u) buffer
      else chunk (start * u) (first * u) buffer)"

definition units :: "nat \<Rightarrow> nat \<Rightarrow> 'a list \<Rightarrow> 'a list list" where
  "units u n xs = map (unit_at u xs) [0..<n]"

subsection \<open>Distances around the ring\<close>

lemma slot_distance:
  fixes s c j n :: nat
  assumes "s < c" "j < c" "n \<le> c"
  shows "((s + j) mod c + c - (s + n) mod c) mod c = (if n \<le> j then j - n else j + c - n)"
proof -
  have once: "a < 2 * c \<Longrightarrow> a mod c = (if a < c then a else a - c)" for a
    by (simp add: mod_if)
  have x: "(s + j) mod c = (if s + j < c then s + j else s + j - c)"
    using assms by (intro once) simp
  have y: "(s + n) mod c = (if s + n < c then s + n else s + n - c)"
    using assms by (intro once) simp
  have z: "(s + j) mod c + c - (s + n) mod c < 2 * c"
    unfolding x y using assms by (auto split: if_split)
  show ?thesis
    unfolding once [OF z] unfolding x y using assms by (auto split: if_split)
qed

lemma slot_offset: "(s :: nat) < c \<Longrightarrow> k < c \<Longrightarrow> (k + c - s) mod c = (if s \<le> k then k - s else k + c - s)"
  using slot_distance [of 0 c k s] by simp

subsection \<open>Units of a list\<close>

lemma length_unit_at: "k < n \<Longrightarrow> length xs = n * u \<Longrightarrow> length (unit_at u xs k) = u"
  using slot_in_buffer [of k n u] by (simp add: unit_at_def)

lemma length_units [simp]: "length (units u n xs) = n"
  by (simp add: units_def)

lemma nth_units: "k < n \<Longrightarrow> units u n xs ! k = unit_at u xs k"
  by (simp add: units_def)

lemma unit_at_take: "k < m \<Longrightarrow> unit_at u (take (m * u) xs) k = unit_at u xs k"
proof -
  assume "k < m"
  then have "k * u + u \<le> m * u" using slot_in_buffer [of k m u] by simp
  then show ?thesis by (simp add: unit_at_def chunk_def drop_take take_take min_def)
qed

lemma unit_at_drop: "unit_at u (drop (m * u) xs) k = unit_at u xs (m + k)"
  by (simp add: unit_at_def chunk_def add_mult_distrib add.commute)

lemma unit_at_append:
  "length xs = m * u \<Longrightarrow>
     unit_at u (xs @ ys) k = (if k < m then unit_at u xs k else unit_at u ys (k - m))"
proof -
  assume l: "length xs = m * u"
  show ?thesis
  proof (cases "k < m")
    case True
    then have "k * u + u \<le> length xs" using slot_in_buffer [of k m u] l by simp
    then show ?thesis using True by (simp add: unit_at_def chunk_def)
  next
    case False
    then have "length xs \<le> k * u" using l by simp
    moreover have "k * u - m * u = (k - m) * u" by (simp add: diff_mult_distrib)
    ultimately show ?thesis using False l by (simp add: unit_at_def chunk_def)
  qed
qed

lemma concat_units:
  assumes "length xs = n * u"
  shows "concat (units u n xs) = xs"
  using assms
proof (induction n arbitrary: xs)
  case (Suc n)
  have "units u (Suc n) xs = unit_at u xs 0 # units u n (drop u xs)"
    unfolding units_def
    by (subst upt_rec)
      (auto simp: map_Suc_upt [symmetric] unit_at_def chunk_def add.commute simp del: upt_Suc)
  moreover have "concat (units u n (drop u xs)) = drop u xs" using Suc by simp
  ultimately show ?case by (simp add: unit_at_def chunk_def)
qed (simp add: units_def)

lemma units_eqI:
  assumes "length xs = n * u" "length ys = n * u" "\<And>k. k < n \<Longrightarrow> unit_at u xs k = unit_at u ys k"
  shows "xs = ys"
proof -
  have "units u n xs = units u n ys" using assms(3) by (simp add: units_def)
  then have "concat (units u n xs) = concat (units u n ys)" by (rule arg_cong)
  then show ?thesis unfolding concat_units [OF assms(1)] concat_units [OF assms(2)] .
qed

subsection \<open>What the copies do to the units\<close>

lemma unit_at_overwrite:
  assumes "k < capacity" "length buffer = capacity * u" "length data = m * u" "s + m \<le> capacity"
  shows "unit_at u (overwrite (s * u) data buffer) k
    = (if s \<le> k \<and> k < s + m then unit_at u data (k - s) else unit_at u buffer k)"
proof -
  have "s * u \<le> capacity * u" using assms(4) by (intro mult_le_mono1) simp
  then have pre: "length (take (s * u) buffer) = s * u" using assms(2) by simp
  have over: "overwrite (s * u) data buffer
      = take (s * u) buffer @ data @ drop ((s + m) * u) buffer"
    by (simp add: overwrite_def assms(3) add_mult_distrib)
  consider "k < s" | "s \<le> k" "k < s + m" | "s + m \<le> k" by linarith
  then show ?thesis
  proof cases
    case 1
    then show ?thesis unfolding over unit_at_append [OF pre] by (simp add: unit_at_take)
  next
    case 2
    then have "k - s < m" by linarith
    then show ?thesis
      using 2 unfolding over unit_at_append [OF pre] unit_at_append [OF assms(3)] by simp
  next
    case 3
    then have "\<not> k < s" "\<not> k - s < m" "s + m + (k - s - m) = k" "\<not> k < s + m" by linarith+
    then show ?thesis
      unfolding over unit_at_append [OF pre] unit_at_append [OF assms(3)] unit_at_drop by simp
  qed
qed

lemma ring_put_fits:
  assumes "start < capacity" "n \<le> capacity" "length source = n * u" "length buffer = capacity * u"
  shows "length (ring_put u capacity start n source buffer) = capacity * u"
    and "k < capacity \<Longrightarrow> unit_at u (ring_put u capacity start n source buffer) k
      = (if (k + capacity - start) mod capacity < n
         then unit_at u source ((k + capacity - start) mod capacity) else unit_at u buffer k)"
proof -
  define f where "f = min n (capacity - start)"
  have f: "f \<le> n" "start + f \<le> capacity" "f < n \<Longrightarrow> start + f = capacity"
    using assms(1) by (auto simp: f_def)
  define head where "head = take (f * u) source"
  define tail where "tail = chunk (f * u) ((n - f) * u) source"
  define b1 where "b1 = overwrite (start * u) head buffer"
  have put: "ring_put u capacity start n source buffer = (if f < n then overwrite 0 tail b1 else b1)"
    by (simp add: ring_put_def f_def head_def tail_def b1_def Let_def)
  have fu: "f * u \<le> n * u" using f(1) by (rule mult_le_mono1)
  have head: "length head = f * u" using assms(3) fu by (simp add: head_def)
  have tail: "length tail = (n - f) * u" using assms(3) fu by (simp add: tail_def diff_mult_distrib)
  have "(start + f) * u \<le> capacity * u" using f(2) by (rule mult_le_mono1)
  then have b1: "length b1 = capacity * u"
    using length_overwrite [of "start * u" head buffer] head assms(4)
    by (simp add: b1_def add_mult_distrib)
  have "(n - f) * u \<le> capacity * u" using assms(2) by (intro mult_le_mono1) simp
  then have "length (overwrite 0 tail b1) = capacity * u"
    using length_overwrite [of 0 tail b1] b1 tail by simp
  then show "length (ring_put u capacity start n source buffer) = capacity * u"
    using b1 by (simp add: put)
  assume k: "k < capacity"
  have first: "unit_at u b1 k
      = (if start \<le> k \<and> k < start + f then unit_at u source (k - start) else unit_at u buffer k)"
    using unit_at_overwrite [OF k assms(4) head f(2)] unit_at_take [of "k - start" f u source]
    by (auto simp: b1_def head_def)
  have wrapped: "unit_at u (overwrite 0 tail b1) k
      = (if k < n - f then unit_at u source (f + k) else unit_at u b1 k)"
    using unit_at_overwrite [OF k b1 tail, of 0] assms(2)
      unit_at_take [of k "n - f" u "drop (f * u) source"] unit_at_drop [of u f source k]
    by (simp add: tail_def chunk_def)
  note j = slot_offset [OF assms(1) k]
  show "unit_at u (ring_put u capacity start n source buffer) k
      = (if (k + capacity - start) mod capacity < n
         then unit_at u source ((k + capacity - start) mod capacity) else unit_at u buffer k)"
  proof (cases "f < n")
    case True
    then have full: "start + f = capacity" by (rule f(3))
    show ?thesis
    proof (cases "start \<le> k")
      case sk: True
      then have "\<not> k < n - f" "k < start + f" "k - start < n" using assms(2) k full \<open>f < n\<close> by linarith+
      then show ?thesis using sk unfolding put if_P [OF \<open>f < n\<close>] wrapped first j by simp
    next
      case sk: False
      then have "f + k = k + capacity - start" using full by linarith
      moreover have "k < n - f \<longleftrightarrow> f + k < n" by linarith
      ultimately show ?thesis using sk unfolding put if_P [OF \<open>f < n\<close>] wrapped first j by simp
    qed
  next
    case False
    then have "f = n" using f(1) by simp
    then have "start \<le> k \<and> k < start + f \<longleftrightarrow> start \<le> k \<and> k - start < n" "\<not> start \<le> k \<Longrightarrow> \<not> k + capacity - start < n"
      using f(2) by linarith+
    then show ?thesis unfolding put if_not_P [OF False] first j by auto
  qed
qed

lemma ring_get_fits:
  assumes "start < capacity" "n \<le> capacity" "length buffer = capacity * u"
  shows "length (ring_get u capacity start n buffer) = n * u"
    and "j < n \<Longrightarrow> unit_at u (ring_get u capacity start n buffer) j
      = unit_at u buffer ((start + j) mod capacity)"
proof -
  define f where "f = min n (capacity - start)"
  have f: "f \<le> n" "start + f \<le> capacity" "f < n \<Longrightarrow> start + f = capacity"
    using assms(1) by (auto simp: f_def)
  define head where "head = chunk (start * u) (f * u) buffer"
  define tail where "tail = chunk 0 ((n - f) * u) buffer"
  have get: "ring_get u capacity start n buffer = (if f < n then head @ tail else head)"
    by (simp add: ring_get_def f_def head_def tail_def Let_def)
  have "(start + f) * u \<le> capacity * u" using f(2) by (rule mult_le_mono1)
  then have head: "length head = f * u"
    using assms(3) by (simp add: head_def add_mult_distrib)
  have "(n - f) * u \<le> capacity * u" using assms(2) by (intro mult_le_mono1) simp
  then have tail: "length tail = (n - f) * u" using assms(3) by (simp add: tail_def)
  have "f * u + (n - f) * u = n * u" using f(1) by (simp flip: add_mult_distrib)
  then show "length (ring_get u capacity start n buffer) = n * u"
    using head tail f(1) by (cases "f < n") (simp_all add: get)
  assume j: "j < n"
  have h: "unit_at u head j = unit_at u buffer (start + j)" if "j < f"
    using unit_at_take [OF that, of u "drop (start * u) buffer"] unit_at_drop [of u start buffer j]
    by (simp add: head_def chunk_def)
  have t: "unit_at u tail (j - f) = unit_at u buffer (j - f)" if "\<not> j < f"
    using unit_at_take [of "j - f" "n - f" u buffer] j that by (simp add: tail_def chunk_def)
  show "unit_at u (ring_get u capacity start n buffer) j = unit_at u buffer ((start + j) mod capacity)"
  proof (cases "j < f")
    case True
    then have "(start + j) mod capacity = start + j" using f(2) by simp
    then show ?thesis using h True unit_at_append [OF head, of tail j] by (simp add: get)
  next
    case False
    then have "f < n" using j by simp
    then have "start + f = capacity" by (rule f(3))
    then have "start + j = capacity + (j - f)" "j - f < capacity" using False j assms(2) by linarith+
    then have "(start + j) mod capacity = j - f" by simp
    then show ?thesis using t False \<open>f < n\<close> unit_at_append [OF head, of tail j] by (simp add: get)
  qed
qed

subsection \<open>Slots of a free-running 64-bit frame counter\<close>

definition slot :: "nat \<Rightarrow> u64 \<Rightarrow> nat" where
  "slot capacity index = unat index mod capacity"

text \<open>
  Consecutive counters have consecutive slots as long as the counter does not wrap, and across the
  wrap too when the capacity divides two to the sixty-four, a power of two.
\<close>

definition wraps_evenly :: "nat \<Rightarrow> u64 \<Rightarrow> nat \<Rightarrow> bool" where
  "wraps_evenly capacity index n \<longleftrightarrow>
     capacity dvd 18446744073709551616 \<or> unat index + n \<le> 18446744073709551616"

lemma unat_add_nat: "unat (x + of_nat j :: u64) = (unat x + j) mod 18446744073709551616"
  by (simp add: unat_word_ariths unat_of_nat mod_simps)

lemma slot_add:
  "wraps_evenly capacity index n \<Longrightarrow> j < n \<Longrightarrow>
     slot capacity (index + of_nat j) = (slot capacity index + j) mod capacity"
  unfolding slot_def unat_add_nat wraps_evenly_def
  by (auto simp: mod_mod_cancel mod_add_left_eq)

lemma slot_less: "0 < capacity \<Longrightarrow> slot capacity index < capacity"
  by (simp add: slot_def)

lemma unat_sub_nat: "n \<le> unat d \<Longrightarrow> unat (d - of_nat n :: u64) = unat d - n"
proof -
  assume n: "n \<le> unat d"
  then have "n < 18446744073709551616" using unat_u64_lt [of d] by linarith
  then have "unat (of_nat n :: u64) = n" by (simp add: unat_of_nat)
  then show ?thesis using n by (simp add: unat_sub word_le_nat_alt)
qed

subsection \<open>Batches of frames\<close>

lemma ring_put_take:
  "ring_put u capacity start n source buffer = ring_put u capacity start n (take (n * u) source) buffer"
proof -
  define f where "f = min n (capacity - start)"
  have "f * u \<le> n * u" unfolding f_def by (intro mult_le_mono1) simp
  then have "take (f * u) (take (n * u) source) = take (f * u) source"
    "chunk (f * u) ((n - f) * u) (take (n * u) source) = chunk (f * u) ((n - f) * u) source"
    by (simp_all add: chunk_def drop_take diff_mult_distrib min_def)
  then show ?thesis unfolding ring_put_def f_def [symmetric] Let_def by (simp only:)
qed

lemma length_concat_frames:
  "list_all (\<lambda>f. length f = u) fs \<Longrightarrow> length (concat fs) = length fs * u"
  by (induction fs) auto

lemma units_concat:
  "list_all (\<lambda>f. length f = u) fs \<Longrightarrow> units u (length fs) (concat fs) = fs"
proof (induction fs)
  case (Cons f fs)
  have "unit_at u (f @ concat fs) k = (if k = 0 then f else unit_at u (concat fs) (k - 1))" for k
    using Cons.prems unit_at_append [of f 1 u "concat fs" k]
    by (auto simp: unit_at_def chunk_def)
  then have "units u (length (f # fs)) (concat (f # fs)) = f # units u (length fs) (concat fs)"
    by (intro nth_equalityI) (auto simp: nth_units nth_Cons' less_Suc_eq_0_disj)
  then show ?case using Cons by simp
qed (simp add: units_def)

end
