(* ===== verification/FloatRing.thy ===== *)
theory FloatRing
  imports Circular Interfaces Pcm
begin

text \<open>
  The ring between a realtime audio callback and the engine: src/src/audio/float_ring.hpp and
  src/src/audio/float_ring.cpp.

  \<open>float_ring\<close> is the class. The indices are 64-bit words, as \<^verbatim>\<open>size_t\<close> is on the targets, and
  their differences wrap. Each operation is one atomic step: with one producer and one consumer
  the acquire and release orders of the code make a whole write visible before its index is. The
  destination of a read is what the read returns. The counters are natural numbers.
\<close>

subsection \<open>State and operations\<close>

record float_ring =
  fr_buffer :: "float_value list"
  fr_capacity_frames :: nat
  fr_channels :: nat
  fr_write_index :: u64
  fr_read_index :: u64
  fr_frames_written :: nat
  fr_frames_read :: nat
  fr_frames_dropped :: nat
  fr_frames_underrun :: nat

definition float_ring_init :: float_ring where
  "float_ring_init = \<lparr>fr_buffer = [], fr_capacity_frames = 0, fr_channels = 0, fr_write_index = 0,
     fr_read_index = 0, fr_frames_written = 0, fr_frames_read = 0, fr_frames_dropped = 0,
     fr_frames_underrun = 0\<rparr>"

definition ring_open :: "nat \<Rightarrow> nat \<Rightarrow> float_ring \<Rightarrow> float_ring \<times> bool" where
  "ring_open frames channels r =
     (if frames < 2 \<or> channels = 0 then (r, False)
      else (\<lparr>fr_buffer = replicate (frames * channels) (Real 0), fr_capacity_frames = frames,
             fr_channels = channels, fr_write_index = 0, fr_read_index = 0, fr_frames_written = 0,
             fr_frames_read = 0, fr_frames_dropped = 0, fr_frames_underrun = 0\<rparr>, True))"

definition ring_close :: "float_ring \<Rightarrow> float_ring" where
  "ring_close r = r\<lparr>fr_buffer := [], fr_capacity_frames := 0, fr_channels := 0\<rparr>"

definition ring_is_open :: "float_ring \<Rightarrow> bool" where
  "ring_is_open r \<longleftrightarrow> fr_buffer r \<noteq> []"

definition ring_write :: "float_ring \<Rightarrow> float_value list option \<Rightarrow> nat \<Rightarrow> float_ring \<times> nat" where
  "ring_write r source frames =
     (if fr_buffer r = [] \<or> source = None \<or> frames = 0 then (r, 0)
      else
        let used = fr_write_index r - fr_read_index r;
            room = unat (of_nat (fr_capacity_frames r) - used);
            r1 = (if frames > room
                  then r\<lparr>fr_frames_dropped := fr_frames_dropped r + (frames - room)\<rparr> else r);
            n = (if frames > room then room else frames)
        in if n = 0 then (r1, 0)
           else
             (r1\<lparr>fr_buffer := ring_put (fr_channels r) (fr_capacity_frames r)
                   (slot (fr_capacity_frames r) (fr_write_index r)) n (the source) (fr_buffer r),
                 fr_write_index := fr_write_index r + of_nat n,
                 fr_frames_written := fr_frames_written r + n\<rparr>, n))"

text \<open>A read returns the frames taken and the samples it wrote to the destination.\<close>

definition ring_read :: "float_ring \<Rightarrow> nat \<Rightarrow> float_ring \<times> nat \<times> float_value list" where
  "ring_read r frames =
     (if fr_buffer r = [] \<or> frames = 0 then (r, 0, [])
      else
        let available = unat (fr_write_index r - fr_read_index r);
            r1 = (if frames > available
                  then r\<lparr>fr_frames_underrun := fr_frames_underrun r + (frames - available)\<rparr> else r);
            n = (if frames > available then available else frames)
        in if n = 0 then (r1, 0, [])
           else
             (r1\<lparr>fr_read_index := fr_read_index r + of_nat n,
                 fr_frames_read := fr_frames_read r + n\<rparr>, n,
              ring_get (fr_channels r) (fr_capacity_frames r)
                (slot (fr_capacity_frames r) (fr_read_index r)) n (fr_buffer r)))"

definition ring_available_read :: "float_ring \<Rightarrow> nat" where
  "ring_available_read r = unat (fr_write_index r - fr_read_index r)"

definition ring_available_write :: "float_ring \<Rightarrow> nat" where
  "ring_available_write r =
     unat (of_nat (fr_capacity_frames r) - (fr_write_index r - fr_read_index r))"

subsection \<open>What the ring holds\<close>

definition ring_used :: "float_ring \<Rightarrow> nat" where
  "ring_used r = unat (fr_write_index r - fr_read_index r)"

definition ring_ok :: "float_ring \<Rightarrow> bool" where
  "ring_ok r \<longleftrightarrow> 2 \<le> fr_capacity_frames r \<and> fr_capacity_frames r < 18446744073709551616
     \<and> 0 < fr_channels r \<and> length (fr_buffer r) = fr_capacity_frames r * fr_channels r
     \<and> ring_used r \<le> fr_capacity_frames r"

text \<open>The frames written and not read, oldest first, each where its counter says it is.\<close>

definition ring_held :: "float_ring \<Rightarrow> float_value list list" where
  "ring_held r = map (\<lambda>j. unit_at (fr_channels r) (fr_buffer r)
      (slot (fr_capacity_frames r) (fr_read_index r + of_nat j))) [0..<ring_used r]"

lemma length_ring_held [simp]: "length (ring_held r) = ring_used r"
  by (simp add: ring_held_def)

lemma ring_okD:
  assumes "ring_ok r"
  shows "0 < fr_capacity_frames r" and "fr_buffer r \<noteq> []"
    and "length (fr_buffer r) = fr_capacity_frames r * fr_channels r"
    and "ring_used r \<le> fr_capacity_frames r" and "0 < fr_channels r"
    and "unat (of_nat (fr_capacity_frames r) :: u64) = fr_capacity_frames r"
    and "unat (of_nat (fr_capacity_frames r) - (fr_write_index r - fr_read_index r))
      = fr_capacity_frames r - ring_used r"
proof -
  have c: "unat (of_nat (fr_capacity_frames r) :: u64) = fr_capacity_frames r"
    using assms by (simp add: ring_ok_def unat_of_nat)
  show "unat (of_nat (fr_capacity_frames r) - (fr_write_index r - fr_read_index r))
      = fr_capacity_frames r - ring_used r"
    using assms c
    by (simp add: ring_ok_def ring_used_def unat_sub_if')
  show "unat (of_nat (fr_capacity_frames r) :: u64) = fr_capacity_frames r" by (rule c)
qed (use assms in \<open>auto simp: ring_ok_def\<close>)

lemma ring_open_ok:
  assumes "ring_open frames channels r = (r', True)" "frames < 18446744073709551616"
  shows "ring_ok r' \<and> ring_held r' = [] \<and> fr_capacity_frames r' = frames \<and> fr_channels r' = channels"
  using assms by (auto simp: ring_open_def ring_ok_def ring_held_def ring_used_def split: if_splits)

text \<open>The writer's slot, counted from the reader's.\<close>

lemma write_slot:
  assumes "ring_ok r" "wraps_evenly (fr_capacity_frames r) (fr_read_index r) (fr_capacity_frames r)"
    and "ring_used r < fr_capacity_frames r"
  shows "slot (fr_capacity_frames r) (fr_write_index r)
    = (slot (fr_capacity_frames r) (fr_read_index r) + ring_used r) mod fr_capacity_frames r"
proof -
  have "fr_write_index r = fr_read_index r + of_nat (ring_used r)"
    by (simp add: ring_used_def)
  then show ?thesis using slot_add [OF assms(2,3)] by simp
qed

lemma ring_held_slots:
  assumes "ring_ok r" "wraps_evenly (fr_capacity_frames r) (fr_read_index r) (fr_capacity_frames r)"
  shows "ring_held r = map (\<lambda>j. unit_at (fr_channels r) (fr_buffer r)
      ((slot (fr_capacity_frames r) (fr_read_index r) + j) mod fr_capacity_frames r)) [0..<ring_used r]"
  unfolding ring_held_def
  using ring_okD(4) [OF assms(1)] slot_add [OF assms(2)] by (intro map_cong) auto

subsection \<open>Writing and reading\<close>

lemma ring_write_eq:
  assumes ok: "ring_ok r" and s: "0 < frames"
  defines "n \<equiv> min frames (fr_capacity_frames r - ring_used r)"
  shows "ring_write r (Some source) frames =
    (let r1 = r\<lparr>fr_frames_dropped := fr_frames_dropped r + (frames - n)\<rparr> in
     if n = 0 then (r1, 0)
     else (r1\<lparr>fr_buffer := ring_put (fr_channels r) (fr_capacity_frames r)
                (slot (fr_capacity_frames r) (fr_write_index r)) n source (fr_buffer r),
              fr_write_index := fr_write_index r + of_nat n,
              fr_frames_written := fr_frames_written r + n\<rparr>, n))"
  using s ring_okD(2,7) [OF ok] by (auto simp: ring_write_def n_def Let_def min_def)

lemma used_after_write:
  assumes "ring_ok r" "n \<le> fr_capacity_frames r - ring_used r"
  shows "unat (fr_write_index r + of_nat n - fr_read_index r) = ring_used r + n"
proof -
  have small: "ring_used r + n < 18446744073709551616" using assms unfolding ring_ok_def by linarith
  have move: "fr_write_index r + of_nat n - fr_read_index r = (fr_write_index r - fr_read_index r) + of_nat n"
    by simp
  show ?thesis unfolding move unat_add_nat using small by (simp add: ring_used_def)
qed

lemma write_held:
  assumes ok: "ring_ok r"
    and even: "wraps_evenly (fr_capacity_frames r) (fr_read_index r) (fr_capacity_frames r)"
    and n: "0 < n" "n \<le> fr_capacity_frames r - ring_used r"
    and source: "n * fr_channels r \<le> length source"
    and r': "fr_channels r' = fr_channels r" "fr_capacity_frames r' = fr_capacity_frames r"
      "fr_read_index r' = fr_read_index r" "fr_write_index r' = fr_write_index r + of_nat n"
      "fr_buffer r' = ring_put (fr_channels r) (fr_capacity_frames r)
         (slot (fr_capacity_frames r) (fr_write_index r)) n source (fr_buffer r)"
  shows "ring_ok r' \<and> ring_held r' = ring_held r @ units (fr_channels r) n source"
proof -
  let ?c = "fr_capacity_frames r" and ?u = "fr_channels r"
  let ?s = "slot ?c (fr_read_index r)" and ?src = "take (n * fr_channels r) source"
  have c: "0 < ?c" "ring_used r \<le> ?c" "length (fr_buffer r) = ?c * ?u"
    using ring_okD [OF ok] by auto
  have start: "slot ?c (fr_write_index r) = (?s + ring_used r) mod ?c"
    using write_slot [OF ok even] n by simp
  have s: "?s < ?c" "(?s + ring_used r) mod ?c < ?c" using c(1) by (simp_all add: slot_less)
  have src: "length ?src = n * ?u" using source by simp
  have used: "ring_used r' = ring_used r + n"
    using used_after_write [OF ok n(2)] r' by (simp add: ring_used_def)
  have buf: "fr_buffer r' = ring_put ?u ?c ((?s + ring_used r) mod ?c) n ?src (fr_buffer r)"
    using r'(5) ring_put_take [of ?u ?c "slot ?c (fr_write_index r)" n source] start by simp
  have n_le: "n \<le> ?c" using n(2) by linarith
  note put = ring_put_fits [OF s(2) n_le src c(3), folded buf]
  have ok': "ring_ok r'" using ok put(1) used n(2) c(2) r' by (simp add: ring_ok_def)
  have unit: "unit_at ?u (fr_buffer r') ((?s + j) mod ?c)
      = (if ring_used r \<le> j then unit_at ?u source (j - ring_used r)
         else unit_at ?u (fr_buffer r) ((?s + j) mod ?c))" if j: "j < ring_used r + n" for j
  proof -
    have "j < ?c" using j n(2) c(2) by linarith
    note d = slot_distance [OF s(1) this c(2)]
    have "(if ring_used r \<le> j then j - ring_used r else j + ?c - ring_used r) < n \<longleftrightarrow> ring_used r \<le> j"
      using j n(2) c(2) by auto
    then show ?thesis
      using put(2) [of "(?s + j) mod ?c"] c(1) d unit_at_take [of "j - ring_used r" n ?u source] j
      by auto
  qed
  have "ring_held r' = map (\<lambda>j. unit_at ?u (fr_buffer r') ((?s + j) mod ?c)) [0..<ring_used r + n]"
    using ring_held_slots [OF ok'] even r' used by simp
  also have "\<dots> = ring_held r @ units ?u n source"
    unfolding ring_held_slots [OF ok even]
    by (rule nth_equalityI) (auto simp: unit nth_append units_def)
  finally show ?thesis using ok' by simp
qed

text \<open>A write takes what fits, in order, behind what is held, and counts the rest.\<close>

lemma ring_write_refines:
  assumes ok: "ring_ok r"
    and even: "wraps_evenly (fr_capacity_frames r) (fr_read_index r) (fr_capacity_frames r)"
    and source: "length source = frames * fr_channels r"
    and w: "ring_write r (Some source) frames = (r', n)"
  shows "n = min frames (fr_capacity_frames r - ring_used r)"
    and "ring_ok r'" and "ring_held r' = ring_held r @ take n (units (fr_channels r) frames source)"
    and "fr_frames_written r' = fr_frames_written r + n"
    and "fr_frames_dropped r' = fr_frames_dropped r + (frames - n)"
    and "fr_read_index r' = fr_read_index r" "fr_capacity_frames r' = fr_capacity_frames r"
      "fr_channels r' = fr_channels r"
proof -
  let ?n = "min frames (fr_capacity_frames r - ring_used r)"
  show n: "n = ?n"
    using w ring_write_eq [OF ok, of frames source] by (cases "frames = 0")
      (auto simp: ring_write_def Let_def split: if_splits)
  show "fr_frames_written r' = fr_frames_written r + n"
    "fr_frames_dropped r' = fr_frames_dropped r + (frames - n)"
    "fr_read_index r' = fr_read_index r" "fr_capacity_frames r' = fr_capacity_frames r"
    "fr_channels r' = fr_channels r"
    using w ring_write_eq [OF ok, of frames source] by (cases "frames = 0";
      auto simp: ring_write_def Let_def split: if_splits)+
  have "ring_ok r' \<and> ring_held r' = ring_held r @ take n (units (fr_channels r) frames source)"
  proof (cases "n = 0")
    case True
    then have "fr_buffer r' = fr_buffer r" "fr_write_index r' = fr_write_index r"
      "fr_read_index r' = fr_read_index r" "fr_capacity_frames r' = fr_capacity_frames r"
      "fr_channels r' = fr_channels r"
      using w n ring_write_eq [OF ok, of frames source] by (cases "frames = 0";
        auto simp: ring_write_def Let_def split: if_splits)+
    then show ?thesis using ok True by (simp add: ring_ok_def ring_held_def ring_used_def)
  next
    case False
    then have "0 < frames" using n by auto
    have le: "n \<le> frames" using n by simp
    then have len: "n * fr_channels r \<le> length source" unfolding source by (rule mult_le_mono1)
    have "take n (units (fr_channels r) frames source) = units (fr_channels r) n source"
      using le by (simp add: units_def take_map min_def)
    moreover have "ring_ok r' \<and> ring_held r' = ring_held r @ units (fr_channels r) n source"
      by (rule write_held [OF ok even _ _ len])
        (use w False n ring_write_eq [OF ok \<open>0 < frames\<close>, of source] in \<open>auto simp: Let_def\<close>)
    ultimately show ?thesis by simp
  qed
  then show "ring_ok r'" "ring_held r' = ring_held r @ take n (units (fr_channels r) frames source)"
    by simp_all
qed

text \<open>A read gives the oldest frames, as many as are asked for and held, and counts the rest.\<close>

lemma ring_read_refines:
  assumes ok: "ring_ok r"
    and even: "wraps_evenly (fr_capacity_frames r) (fr_read_index r) (fr_capacity_frames r)"
    and rd: "ring_read r frames = (r', n, samples)"
  shows "n = min frames (ring_used r)" and "ring_ok r'"
    and "ring_held r = units (fr_channels r) n samples @ ring_held r'"
    and "length samples = n * fr_channels r"
    and "fr_frames_read r' = fr_frames_read r + n"
    and "fr_frames_underrun r' = fr_frames_underrun r + (frames - n)"
    and "fr_capacity_frames r' = fr_capacity_frames r" "fr_channels r' = fr_channels r"
proof -
  let ?c = "fr_capacity_frames r" and ?u = "fr_channels r" and ?s = "slot (fr_capacity_frames r) (fr_read_index r)"
  note o = ring_okD [OF ok]
  have eq: "n = min frames (ring_used r)
    \<and> fr_read_index r' = fr_read_index r + of_nat n \<and> fr_write_index r' = fr_write_index r
    \<and> fr_buffer r' = fr_buffer r \<and> fr_capacity_frames r' = ?c \<and> fr_channels r' = ?u
    \<and> fr_frames_read r' = fr_frames_read r + n
    \<and> fr_frames_underrun r' = fr_frames_underrun r + (frames - n)
    \<and> samples = (if n = 0 then [] else ring_get ?u ?c ?s n (fr_buffer r))"
    using rd o(2) by (auto simp: ring_read_def ring_used_def Let_def min_def split: if_splits)
  then show "n = min frames (ring_used r)" "fr_frames_read r' = fr_frames_read r + n"
    "fr_frames_underrun r' = fr_frames_underrun r + (frames - n)"
    "fr_capacity_frames r' = ?c" "fr_channels r' = ?u" by simp_all
  have n: "n \<le> ring_used r" "n \<le> ?c" using eq o(4) by auto
  note get = ring_get_fits [OF slot_less [OF o(1), of "fr_read_index r"] n(2) o(3)]
  show len: "length samples = n * ?u" using eq get(1) by simp
  have used: "ring_used r' = ring_used r - n"
  proof -
    have move: "fr_write_index r - (fr_read_index r + of_nat n)
        = (fr_write_index r - fr_read_index r) - of_nat n" by simp
    have idx: "fr_write_index r' = fr_write_index r" "fr_read_index r' = fr_read_index r + of_nat n"
      using eq by simp_all
    show ?thesis
      unfolding ring_used_def idx move using n(1) by (intro unat_sub_nat) (simp add: ring_used_def)
  qed
  show "ring_ok r'" using ok eq used n by (auto simp: ring_ok_def)
  have samples: "unit_at ?u samples j = unit_at ?u (fr_buffer r) ((?s + j) mod ?c)" if "j < n" for j
    using get(2) [OF that] eq that by auto
  have rest: "ring_held r' = map (\<lambda>j. unit_at ?u (fr_buffer r) ((?s + (n + j)) mod ?c)) [0..<ring_used r - n]"
  proof -
    have "slot ?c (fr_read_index r + of_nat n + of_nat j) = (?s + (n + j)) mod ?c"
      if "j < ring_used r - n" for j
      using slot_add [OF even, of "n + j"] that o(4) by (simp add: add.assoc)
    then show ?thesis using eq used by (simp add: ring_held_def)
  qed
  show "ring_held r = units ?u n samples @ ring_held r'"
    unfolding ring_held_slots [OF ok even] rest
    using n(1) by (intro nth_equalityI) (auto simp: units_def nth_append samples)
qed

subsection \<open>The ring is a pipe of frames\<close>

definition offer_frames :: "float_ring \<Rightarrow> float_value list list \<Rightarrow> float_ring \<times> nat" where
  "offer_frames r fs =
     (if list_all (\<lambda>f. length f = fr_channels r) fs
      then ring_write r (Some (concat fs)) (length fs) else (r, 0))"

definition fetch_frames :: "float_ring \<Rightarrow> nat \<Rightarrow> float_ring \<times> float_value list list" where
  "fetch_frames r n = (case ring_read r n of (r', k, samples) \<Rightarrow> (r', units (fr_channels r) k samples))"

definition even_ring :: "float_ring \<Rightarrow> bool" where
  "even_ring r \<longleftrightarrow> ring_ok r \<and> fr_capacity_frames r dvd 18446744073709551616"

lemma even_ring_wraps: "even_ring r \<Longrightarrow> wraps_evenly (fr_capacity_frames r) i n"
  by (simp add: even_ring_def wraps_evenly_def)

lemma offer_frames_facts:
  assumes "even_ring r" "offer_frames r fs = (r', n)"
  shows "even_ring r'" and "n \<le> length fs" and "ring_held r' = ring_held r @ take n fs"
    and "fr_channels r' = fr_channels r" and "fr_capacity_frames r' = fr_capacity_frames r"
    and "fr_frames_written r' = fr_frames_written r + n"
proof -
  have ok: "ring_ok r" using assms(1) by (simp add: even_ring_def)
  have "even_ring r' \<and> n \<le> length fs \<and> ring_held r' = ring_held r @ take n fs
    \<and> fr_channels r' = fr_channels r \<and> fr_capacity_frames r' = fr_capacity_frames r
    \<and> fr_frames_written r' = fr_frames_written r + n"
  proof (cases "list_all (\<lambda>f. length f = fr_channels r) fs")
    case True
    then have w: "ring_write r (Some (concat fs)) (length fs) = (r', n)"
      using assms(2) by (simp add: offer_frames_def)
    note f = ring_write_refines [OF ok even_ring_wraps [OF assms(1)] length_concat_frames [OF True] w]
    show ?thesis using f units_concat [OF True] assms(1) by (simp add: even_ring_def)
  qed (use assms in \<open>auto simp: offer_frames_def\<close>)
  then show "even_ring r'" "n \<le> length fs" "ring_held r' = ring_held r @ take n fs"
    "fr_channels r' = fr_channels r" "fr_capacity_frames r' = fr_capacity_frames r"
    "fr_frames_written r' = fr_frames_written r + n" by blast+
qed

lemma fetch_frames_facts:
  assumes "even_ring r" "fetch_frames r n = (r', out)"
  shows "even_ring r'" and "length out = min n (length (ring_held r))"
    and "ring_held r = out @ ring_held r'"
    and "fr_channels r' = fr_channels r" and "fr_capacity_frames r' = fr_capacity_frames r"
proof -
  obtain k samples where rd: "ring_read r n = (r', k, samples)" "out = units (fr_channels r) k samples"
    using assms(2) by (auto simp: fetch_frames_def split: prod.splits)
  have ok: "ring_ok r" using assms(1) by (simp add: even_ring_def)
  note f = ring_read_refines [OF ok even_ring_wraps [OF assms(1)] rd(1)]
  show "length out = min n (length (ring_held r))" using f(1) rd(2) by simp
  show "even_ring r'" "ring_held r = out @ ring_held r'"
    "fr_channels r' = fr_channels r" "fr_capacity_frames r' = fr_capacity_frames r"
    using f rd(2) assms(1) by (simp_all add: even_ring_def)
qed

interpretation ring: frame_pipe even_ring ring_held offer_frames fetch_frames
proof
  fix s :: float_ring and fs :: "float_value list list" assume i: "even_ring s"
  obtain s' n where o: "offer_frames s fs = (s', n)" by (cases "offer_frames s fs")
  show "even_ring (fst (offer_frames s fs))" "snd (offer_frames s fs) \<le> length fs"
    "ring_held (fst (offer_frames s fs)) = ring_held s @ take (snd (offer_frames s fs)) fs"
    using offer_frames_facts [OF i o] o by simp_all
next
  fix s :: float_ring and n assume i: "even_ring s"
  obtain s' out where f: "fetch_frames s n = (s', out)" by (cases "fetch_frames s n")
  show "even_ring (fst (fetch_frames s n))"
    "length (snd (fetch_frames s n)) = min n (length (ring_held s))"
    "ring_held s = snd (fetch_frames s n) @ ring_held (fst (fetch_frames s n))"
    using fetch_frames_facts [OF i f] f by simp_all
qed

subsection \<open>Properties\<close>

definition ring_run ::
  "float_ring \<Rightarrow> float_value list batch_event list
     \<Rightarrow> float_ring \<times> float_value list list \<times> float_value list list" where
  "ring_run = batch_run offer_frames fetch_frames"



lemma last_counter: "unat (- 1 :: u64) = 18446744073709551615"
  by (simp add: unsigned_minus_1_eq_mask mask_eq_exp_minus_1)

text \<open>
  The counters survive their own wrap only in a ring whose capacity divides two to the
  sixty-four. In an empty ring of three frames whose counters stand just below the wrap, a frame
  written before it and two after it are all accepted and counted and nothing is reported dropped,
  but the first two share a slot: what is read back has lost the first and ends in a frame that was
  never written.
\<close>

theorem wrap_overwrites_unread:
  "let r = (fst (ring_open 3 1 float_ring_init))\<lparr>fr_write_index := - 1, fr_read_index := - 1\<rparr>;
       (r1, n1) = ring_write r (Some [Real 1]) 1;
       (r2, n2) = ring_write r1 (Some [Real 2, Real 3]) 2;
       (r3, n3, samples) = ring_read r2 3
   in ring_ok r \<and> ring_held r = [] \<and> (n1, n2, n3) = (1, 2, 3)
      \<and> (fr_frames_written r3, fr_frames_dropped r3, fr_frames_underrun r3) = (3, 0, 0)
      \<and> samples = [Real 2, Real 3, Real 0]"
  by (simp add: ring_ok_def ring_used_def ring_held_def ring_open_def ring_write_def
        ring_read_def ring_put_def ring_get_def slot_def chunk_def overwrite_def last_counter
        eval_simps Let_def)

end
