(* ===== verification/SharedRing.thy ===== *)
theory SharedRing
  imports Circular Interfaces Pcm
begin

text \<open>
  The shared-memory contract between the application and its HAL plug-in:
  src/src/audio/shared_ring.hpp, src/src/audio/shared_ring.cpp and src/src/audio/device_bridge.cpp.

  \<open>ring_state\<close> is \<^verbatim>\<open>SharedRingState\<close> and \<open>shared_block\<close> the region's header; a \<open>shared_ring\<close> is the
  class together with the storage and the state it points to, so two processes that attach to one
  region are two users of one value. As in \<open>FloatRing\<close> each operation is one atomic step, which is
  what the single writer of each index and the acquire and release orders make of it, and the
  indices are 64-bit words. Unlike that ring, a full one gives up the oldest frames.
\<close>

subsection \<open>One ring\<close>

record ring_state =
  ss_write_index :: u64
  ss_read_index :: u64
  ss_frames_written :: nat
  ss_frames_read :: nat
  ss_frames_dropped :: nat
  ss_frames_underrun :: nat

definition ring_state_reset :: ring_state where
  "ring_state_reset = \<lparr>ss_write_index = 0, ss_read_index = 0, ss_frames_written = 0,
     ss_frames_read = 0, ss_frames_dropped = 0, ss_frames_underrun = 0\<rparr>"

record shared_ring =
  sr_attached :: bool
  sr_data :: "float_value list"
  sr_capacity_frames :: nat
  sr_channels :: nat
  sr_state :: ring_state

definition shared_ring_init :: shared_ring where
  "shared_ring_init = \<lparr>sr_attached = False, sr_data = [], sr_capacity_frames = 0, sr_channels = 0,
     sr_state = ring_state_reset\<rparr>"

definition shared_attach :: "float_value list \<Rightarrow> nat \<Rightarrow> nat \<Rightarrow> ring_state \<Rightarrow> shared_ring" where
  "shared_attach data capacity_frames channels state =
     \<lparr>sr_attached = True, sr_data = data, sr_capacity_frames = capacity_frames,
      sr_channels = channels, sr_state = state\<rparr>"

definition shared_detach :: "shared_ring \<Rightarrow> shared_ring" where
  "shared_detach r = shared_ring_init"

definition shared_write :: "shared_ring \<Rightarrow> float_value list option \<Rightarrow> nat \<Rightarrow> shared_ring \<times> nat" where
  "shared_write r source frames =
     (if \<not> sr_attached r \<or> source = None \<or> frames = 0 then (r, 0)
      else
        let st = sr_state r;
            capacity = sr_capacity_frames r;
            excess = (if frames > capacity then frames - capacity else 0);
            offered = drop (excess * sr_channels r) (the source);
            n = (if frames > capacity then capacity else frames);
            wanted = ss_write_index st - ss_read_index st + of_nat n;
            overwritten = (if unat wanted > capacity then unat (wanted - of_nat capacity) else 0)
        in (r\<lparr>sr_data := ring_put (sr_channels r) capacity (slot capacity (ss_write_index st)) n
                offered (sr_data r),
              sr_state := st\<lparr>ss_frames_dropped := ss_frames_dropped st + excess + overwritten,
                             ss_write_index := ss_write_index st + of_nat n,
                             ss_frames_written := ss_frames_written st + n\<rparr>\<rparr>, n))"

definition shared_read :: "shared_ring \<Rightarrow> nat \<Rightarrow> shared_ring \<times> nat \<times> float_value list" where
  "shared_read r frames =
     (if \<not> sr_attached r \<or> frames = 0 then (r, 0, [])
      else
        let st = sr_state r;
            capacity = sr_capacity_frames r;
            start_read = (if unat (ss_write_index st - ss_read_index st) > capacity
                          then ss_write_index st - of_nat capacity else ss_read_index st);
            available = unat (ss_write_index st - start_read);
            st1 = (if frames > available
                   then st\<lparr>ss_frames_underrun := ss_frames_underrun st + (frames - available)\<rparr> else st);
            n = (if frames > available then available else frames)
        in if n = 0 then
             (r\<lparr>sr_state := (if start_read \<noteq> ss_read_index st
                            then st1\<lparr>ss_read_index := start_read\<rparr> else st1)\<rparr>, 0, [])
           else
             (r\<lparr>sr_state := st1\<lparr>ss_read_index := start_read + of_nat n,
                               ss_frames_read := ss_frames_read st1 + n\<rparr>\<rparr>, n,
              ring_get (sr_channels r) capacity (slot capacity start_read) n (sr_data r)))"

definition shared_available_read :: "shared_ring \<Rightarrow> nat" where
  "shared_available_read r =
     (if \<not> sr_attached r then 0
      else min (unat (ss_write_index (sr_state r) - ss_read_index (sr_state r))) (sr_capacity_frames r))"

definition shared_available_write :: "shared_ring \<Rightarrow> nat" where
  "shared_available_write r =
     (if \<not> sr_attached r then 0
      else
        let used = unat (ss_write_index (sr_state r) - ss_read_index (sr_state r)) in
        if used \<ge> sr_capacity_frames r then 0 else sr_capacity_frames r - used)"

definition shared_lapped :: "shared_ring \<Rightarrow> bool" where
  "shared_lapped r \<longleftrightarrow> sr_attached r
     \<and> unat (ss_write_index (sr_state r) - ss_read_index (sr_state r)) > sr_capacity_frames r"

subsection \<open>What a ring holds\<close>

text \<open>
  \<open>shared_used\<close> counts what was written and not read, however much of it is gone; \<open>shared_held\<close> are
  the frames that still exist, oldest first.
\<close>

definition shared_used :: "shared_ring \<Rightarrow> nat" where
  "shared_used r = unat (ss_write_index (sr_state r) - ss_read_index (sr_state r))"

definition shared_live :: "shared_ring \<Rightarrow> nat" where
  "shared_live r = min (shared_used r) (sr_capacity_frames r)"

definition shared_held :: "shared_ring \<Rightarrow> float_value list list" where
  "shared_held r = map (\<lambda>j. unit_at (sr_channels r) (sr_data r)
      (slot (sr_capacity_frames r) (ss_write_index (sr_state r) - of_nat (shared_live r) + of_nat j)))
      [0..<shared_live r]"

definition shared_ok :: "shared_ring \<Rightarrow> bool" where
  "shared_ok r \<longleftrightarrow> sr_attached r \<and> 2 \<le> sr_capacity_frames r
     \<and> sr_capacity_frames r dvd 18446744073709551616 \<and> sr_capacity_frames r < 18446744073709551616
     \<and> 0 < sr_channels r \<and> length (sr_data r) = sr_capacity_frames r * sr_channels r"

lemma shared_okD:
  assumes "shared_ok r"
  shows "sr_attached r" and "0 < sr_capacity_frames r" and "0 < sr_channels r"
    and "sr_capacity_frames r dvd 18446744073709551616"
    and "length (sr_data r) = sr_capacity_frames r * sr_channels r"
    and "sr_capacity_frames r < 18446744073709551616"
  using assms by (auto simp: shared_ok_def)

lemma slot_back:
  assumes "c dvd 18446744073709551616" "m \<le> c" "c < 18446744073709551616" "0 < c"
  shows "slot c (w - of_nat m + of_nat j) = (slot c w + (c - m) + j) mod c"
proof -
  have w: "unat (w - of_nat m :: u64) = (unat w + (18446744073709551616 - m)) mod 18446744073709551616"
  proof -
    have e: "w - of_nat m = w + of_nat (18446744073709551616 - m)"
      using assms(2,3) by (simp add: of_nat_diff)
    show ?thesis unfolding e by (rule unat_add_nat)
  qed
  obtain k where k: "18446744073709551616 = c * k" using assms(1) by (auto simp: dvd_def)
  have "0 < k" using k by (cases k) auto
  then have "18446744073709551616 - m = (c - m) + c * (k - 1)"
    using k assms(2) by (cases k) auto
  then have "(unat w + (18446744073709551616 - m)) mod c = (unat w + (c - m)) mod c"
    by (metis add.assoc mod_mult_self2)
  then have "slot c (w - of_nat m) = (unat w + (c - m)) mod c"
    unfolding slot_def w using assms(1) by (simp add: mod_mod_cancel)
  moreover have "slot c (w - of_nat m + of_nat j) = (slot c (w - of_nat m) + j) mod c"
    using slot_add [of c "w - of_nat m" "Suc j" j] assms(1) by (simp add: wraps_evenly_def)
  moreover have "(unat w mod c + (c - m) + j) mod c = (unat w + (c - m) + j) mod c"
    by (metis add.assoc mod_add_left_eq)
  ultimately show ?thesis by (simp add: slot_def mod_simps)
qed

lemma shared_held_slots:
  assumes "shared_ok r"
  shows "shared_held r = map (\<lambda>j. unit_at (sr_channels r) (sr_data r)
      ((slot (sr_capacity_frames r) (ss_write_index (sr_state r))
        + (sr_capacity_frames r - shared_live r) + j) mod sr_capacity_frames r)) [0..<shared_live r]"
proof -
  note o = shared_okD [OF assms]
  have "shared_live r \<le> sr_capacity_frames r" by (simp add: shared_live_def)
  note slot_back [OF o(4) this o(6,2)]
  then show ?thesis unfolding shared_held_def by (intro map_cong refl) (simp only:)
qed

lemma length_shared_held [simp]: "length (shared_held r) = shared_live r"
  by (simp add: shared_held_def)

subsection \<open>Writing keeps the newest\<close>

lemma put_newest:
  assumes ok: "shared_ok r" and n: "n \<le> sr_capacity_frames r"
    and source: "n * sr_channels r \<le> length source"
    and used: "shared_used r + n < 18446744073709551616"
    and r': "sr_attached r'" "sr_capacity_frames r' = sr_capacity_frames r"
      "sr_channels r' = sr_channels r"
      "ss_write_index (sr_state r') = ss_write_index (sr_state r) + of_nat n"
      "ss_read_index (sr_state r') = ss_read_index (sr_state r)"
      "sr_data r' = ring_put (sr_channels r) (sr_capacity_frames r)
         (slot (sr_capacity_frames r) (ss_write_index (sr_state r))) n source (sr_data r)"
  shows "shared_ok r'" and "shared_used r' = shared_used r + n"
    and "shared_held r' = last_frames (sr_capacity_frames r)
      (shared_held r @ units (sr_channels r) n source)"
proof -
  let ?c = "sr_capacity_frames r" and ?u = "sr_channels r"
  let ?s = "slot ?c (ss_write_index (sr_state r))" and ?src = "take (n * sr_channels r) source"
  let ?live = "shared_live r" and ?live' = "shared_live r'"
  note o = shared_okD [OF ok]
  have s: "?s < ?c" using o(2) by (rule slot_less)
  have src: "length ?src = n * ?u" using source by simp
  have buf: "sr_data r' = ring_put ?u ?c ?s n ?src (sr_data r)"
    using r'(6) ring_put_take [of ?u ?c ?s n source] by simp
  note put = ring_put_fits [OF s n src o(5), folded buf]
  show ok': "shared_ok r'" using ok put(1) r' by (simp add: shared_ok_def)
  show used': "shared_used r' = shared_used r + n"
  proof -
    have move: "ss_write_index (sr_state r) + of_nat n - ss_read_index (sr_state r)
        = (ss_write_index (sr_state r) - ss_read_index (sr_state r)) + of_nat n" by simp
    show ?thesis
      unfolding shared_used_def r'(4,5) move unat_add_nat using used by (simp add: shared_used_def)
  qed
  have live: "?live \<le> ?c" by (simp add: shared_live_def)
  have live': "?live' = min (?live + n) ?c"
    using used' r'(2) n by (auto simp: shared_live_def)
  have s': "slot ?c (ss_write_index (sr_state r')) = (?s + n) mod ?c"
    using slot_add [of ?c "ss_write_index (sr_state r)" "Suc n" n] o(4) r'(4)
    by (simp add: wraps_evenly_def)
  have place: "((?s + n) mod ?c + (?c - ?live') + j) mod ?c = (?s + (n + (?c - ?live') + j)) mod ?c" for j
    by (simp add: mod_simps add.assoc)
  have held': "shared_held r' = map (\<lambda>j. unit_at ?u (sr_data r')
      ((?s + (n + (?c - ?live') + j)) mod ?c)) [0..<?live']"
    unfolding shared_held_slots [OF ok'] r'(2,3) s' place ..
  have unit: "unit_at ?u (sr_data r') ((?s + (n + (?c - ?live') + j)) mod ?c)
      = (if ?live' \<le> n + j then unit_at ?u source (n + j - ?live')
         else unit_at ?u (sr_data r) ((?s + (?c - (?live' - (n + j)))) mod ?c))" if j: "j < ?live'" for j
  proof (cases "?live' \<le> n + j")
    case True
    define d where "d = n + j - ?live'"
    have d: "d < n" "d < ?c" "n + (?c - ?live') + j = ?c + d"
      using True j live' n by (auto simp: d_def)
    have k: "(?s + (n + (?c - ?live') + j)) mod ?c = (?s + d) mod ?c"
      unfolding d(3) by (metis add.left_commute mod_add_self1)
    have dist: "((?s + d) mod ?c + ?c - ?s) mod ?c = d"
      using slot_distance [OF s d(2), of 0] s by simp
    have "(?s + d) mod ?c < ?c" using o(2) by simp
    then show ?thesis
      unfolding k put(2) [OF \<open>(?s + d) mod ?c < ?c\<close>] dist
      using d(1) True unit_at_take [OF d(1), of ?u source] by (simp add: d_def)
  next
    case False
    define d where "d = n + (?c - ?live') + j"
    have d: "n \<le> d" "d < ?c" "d = ?c - (?live' - (n + j))"
      using False live' by (auto simp: d_def)
    have dist: "((?s + d) mod ?c + ?c - ?s) mod ?c = d"
      using slot_distance [OF s d(2), of 0] s by simp
    have "(?s + d) mod ?c < ?c" using o(2) by simp
    then show ?thesis
      unfolding d_def [symmetric] put(2) [OF \<open>(?s + d) mod ?c < ?c\<close>] dist
      using d(1,3) False by simp
  qed
  show "shared_held r' = last_frames ?c (shared_held r @ units ?u n source)"
  proof (rule nth_equalityI)
    show "length (shared_held r') = length (last_frames ?c (shared_held r @ units ?u n source))"
      using live' by (simp add: last_frames_def)
  next
    fix j assume "j < length (shared_held r')"
    then have j: "j < ?live'" by simp
    let ?i = "?live + n - ?c + j"
    have i: "?live + n - ?c = ?live + n - ?live'" using live' by auto
    have nth: "last_frames ?c (shared_held r @ units ?u n source) ! j
        = (shared_held r @ units ?u n source) ! ?i"
      using j live' by (simp add: last_frames_def del: drop_append)
    show "shared_held r' ! j = last_frames ?c (shared_held r @ units ?u n source) ! j"
    proof (cases "?live' \<le> n + j")
      case True
      define d where "d = n + j - ?live'"
      have d: "?i = ?live + d" "d < n" using i live' j True by (auto simp: d_def)
      have "(shared_held r @ units ?u n source) ! (?live + d) = unit_at ?u source d"
        using d(2) by (simp add: nth_append nth_units)
      then show ?thesis
        unfolding nth d(1) held' using j True unit [OF j] by (simp add: d_def)
    next
      case False
      moreover have "?live' \<le> ?live + n" "?live' \<le> ?c" using live' by simp_all
      ultimately have lt: "?i < ?live" "?c - ?live + ?i = ?c - (?live' - (n + j))"
        unfolding i using live by linarith+
      have "(?s + (?c - ?live) + ?i) mod ?c = (?s + (?c - (?live' - (n + j)))) mod ?c"
        using lt(2) by (simp add: add.assoc)
      then show ?thesis
        unfolding nth held' using j False unit [OF j] lt(1) shared_held_slots [OF ok]
        by (simp add: nth_append)
    qed
  qed
qed

text \<open>The loss an offer larger than the ring, or a ring that is full, brings.\<close>

lemma last_frames_drop: "last_frames k (xs @ drop e ys) = last_frames k (xs @ ys)"
  if "length ys = k + e" for xs ys :: "'a list"
  using that by (simp add: last_frames_def)

lemma units_drop: "units u n (drop (e * u) xs) = drop e (units u (e + n) xs)"
  by (rule nth_equalityI) (auto simp: nth_units unit_at_drop units_def add.commute)

lemma shared_write_refines:
  assumes ok: "shared_ok r" and source: "length source = frames * sr_channels r"
    and used: "shared_used r + sr_capacity_frames r < 18446744073709551616"
    and w: "shared_write r (Some source) frames = (r', n)"
  shows "n = min frames (sr_capacity_frames r)" and "shared_ok r'"
    and "shared_used r' = shared_used r + n"
    and "shared_held r' = last_frames (sr_capacity_frames r)
      (shared_held r @ units (sr_channels r) frames source)"
    and "ss_frames_written (sr_state r') = ss_frames_written (sr_state r) + n"
    and "ss_frames_dropped (sr_state r') = ss_frames_dropped (sr_state r)
      + (shared_live r + frames - shared_live r')
      + (if frames = 0 then 0 else shared_used r - shared_live r)"
    and "sr_capacity_frames r' = sr_capacity_frames r" "sr_channels r' = sr_channels r"
proof -
  let ?c = "sr_capacity_frames r" and ?e = "frames - sr_capacity_frames r"
  let ?wanted = "ss_write_index (sr_state r) - ss_read_index (sr_state r) + of_nat n"
  note o = shared_okD [OF ok]
  have "n = min frames ?c \<and> shared_ok r' \<and> shared_used r' = shared_used r + n
    \<and> shared_held r' = last_frames ?c (shared_held r @ units (sr_channels r) frames source)
    \<and> ss_frames_written (sr_state r') = ss_frames_written (sr_state r) + n
    \<and> ss_frames_dropped (sr_state r') = ss_frames_dropped (sr_state r)
        + (shared_live r + frames - shared_live r')
        + (if frames = 0 then 0 else shared_used r - shared_live r)
    \<and> sr_capacity_frames r' = ?c \<and> sr_channels r' = sr_channels r"
  proof (cases "frames = 0")
    case True
    then have "shared_held r = last_frames ?c (shared_held r)"
      by (simp add: last_frames_def shared_live_def)
    then show ?thesis using w ok True by (simp add: shared_write_def units_def)
  next
    case False
    have n: "n = min frames ?c"
      and r': "sr_attached r'" "sr_capacity_frames r' = ?c" "sr_channels r' = sr_channels r"
        "ss_write_index (sr_state r') = ss_write_index (sr_state r) + of_nat n"
        "ss_read_index (sr_state r') = ss_read_index (sr_state r)"
        "sr_data r' = ring_put (sr_channels r) ?c (slot ?c (ss_write_index (sr_state r))) n
           (drop (?e * sr_channels r) source) (sr_data r)"
        "ss_frames_written (sr_state r') = ss_frames_written (sr_state r) + n"
        "ss_frames_dropped (sr_state r') = ss_frames_dropped (sr_state r) + ?e
          + (if unat ?wanted > ?c then unat (?wanted - of_nat ?c) else 0)"
      using w o(1) False by (auto simp: shared_write_def Let_def)
    have len: "n * sr_channels r \<le> length (drop (?e * sr_channels r) source)"
      using n source by (auto simp: diff_mult_distrib [symmetric] intro!: mult_le_mono1)
    have small: "n \<le> ?c" "shared_used r + n < 18446744073709551616" using n used by simp_all
    note put = put_newest [OF ok small(1) len small(2) r'(1-6)]
    have "shared_held r' = last_frames ?c (shared_held r @ drop ?e (units (sr_channels r) frames source))"
      using put(3) n units_drop [of "sr_channels r" n ?e source] by (simp add: min_def split: if_splits)
    also have "\<dots> = last_frames ?c (shared_held r @ units (sr_channels r) frames source)"
      by (cases "?e = 0") (auto intro!: last_frames_drop)
    finally have held: "shared_held r'
        = last_frames ?c (shared_held r @ units (sr_channels r) frames source)" .
    have wanted: "unat ?wanted = shared_used r + n"
      unfolding unat_add_nat using small(2) by (simp add: shared_used_def)
    then have over: "unat (?wanted - of_nat ?c) = shared_used r + n - ?c" if "?c < unat ?wanted"
      using that by (subst unat_sub_nat) auto
    have "ss_frames_dropped (sr_state r') = ss_frames_dropped (sr_state r) + ?e + (shared_used r + n - ?c)"
      using r'(8) wanted over by auto
    moreover have "?e + (shared_used r + n - ?c)
        = (shared_live r + frames - shared_live r') + (shared_used r - shared_live r)"
      using put(2) r'(2) n by (auto simp: shared_live_def)
    ultimately show ?thesis using n put held r' False by simp
  qed
  then show "n = min frames ?c" "shared_ok r'" "shared_used r' = shared_used r + n"
    "shared_held r' = last_frames ?c (shared_held r @ units (sr_channels r) frames source)"
    "ss_frames_written (sr_state r') = ss_frames_written (sr_state r) + n"
    "ss_frames_dropped (sr_state r') = ss_frames_dropped (sr_state r)
        + (shared_live r + frames - shared_live r')
        + (if frames = 0 then 0 else shared_used r - shared_live r)"
    "sr_capacity_frames r' = ?c" "sr_channels r' = sr_channels r" by blast+
qed

subsection \<open>Reading takes the oldest that still exist\<close>

lemma shared_read_refines:
  assumes ok: "shared_ok r" and rd: "shared_read r frames = (r', n, samples)"
  shows "n = min frames (shared_live r)" and "shared_ok r'"
    and "shared_held r = units (sr_channels r) n samples @ shared_held r'"
    and "length samples = n * sr_channels r"
    and "ss_frames_read (sr_state r') = ss_frames_read (sr_state r) + n"
    and "ss_frames_underrun (sr_state r') = ss_frames_underrun (sr_state r) + (frames - n)"
    and "frames \<noteq> 0 \<Longrightarrow> shared_used r' = shared_live r - n"
    and "sr_capacity_frames r' = sr_capacity_frames r" "sr_channels r' = sr_channels r"
proof -
  let ?c = "sr_capacity_frames r" and ?u = "sr_channels r" and ?live = "shared_live r"
  let ?w = "ss_write_index (sr_state r)" and ?start = "ss_write_index (sr_state r) - of_nat (shared_live r)"
  let ?s = "slot ?c ?w + (?c - ?live)"
  note o = shared_okD [OF ok]
  have live: "?live \<le> ?c" "?live \<le> shared_used r" by (simp_all add: shared_live_def)
  have start: "(if unat (?w - ss_read_index (sr_state r)) > ?c then ?w - of_nat ?c
      else ss_read_index (sr_state r)) = ?start"
    by (simp add: shared_live_def shared_used_def min_def)
  have avail: "unat (?w - ?start) = ?live"
    using live(1) o(6) by (simp add: unat_of_nat)
  have zero: "frames = 0 \<Longrightarrow> r' = r \<and> n = 0 \<and> samples = []"
    using rd by (simp add: shared_read_def)
  have eq: "n = min frames ?live \<and> sr_attached r' \<and> sr_capacity_frames r' = ?c \<and> sr_channels r' = ?u
    \<and> sr_data r' = sr_data r \<and> ss_write_index (sr_state r') = ?w
    \<and> ss_frames_read (sr_state r') = ss_frames_read (sr_state r) + n
    \<and> ss_frames_underrun (sr_state r') = ss_frames_underrun (sr_state r) + (frames - n)
    \<and> ss_read_index (sr_state r') = ?start + of_nat n
    \<and> samples = (if n = 0 then [] else ring_get ?u ?c (slot ?c ?start) n (sr_data r))" if "frames \<noteq> 0"
    using rd o(1) that unfolding shared_read_def Let_def start avail
    by (auto split: if_splits)
  show n: "n = min frames ?live" using eq zero by (cases "frames = 0") auto
  show "ss_frames_read (sr_state r') = ss_frames_read (sr_state r) + n"
    "ss_frames_underrun (sr_state r') = ss_frames_underrun (sr_state r) + (frames - n)"
    "sr_capacity_frames r' = ?c" "sr_channels r' = ?u" "shared_ok r'"
    using eq zero ok by (cases "frames = 0"; auto simp: shared_ok_def)+
  have slot_start: "slot ?c ?start = ?s mod ?c"
    using slot_back [OF o(4) live(1) o(6,2), of ?w 0] by simp
  have n_le: "n \<le> ?c" using n live(1) by simp
  have sc: "?s mod ?c < ?c" using o(2) by simp
  note get = ring_get_fits [OF sc n_le o(5)]
  show len: "length samples = n * ?u" using eq zero get(1) slot_start by (cases "frames = 0") auto
  show used': "shared_used r' = ?live - n" if f: "frames \<noteq> 0"
  proof -
    have move: "?w - (?start + of_nat n) = of_nat ?live - of_nat n" by simp
    have "unat (of_nat ?live :: u64) = ?live" using live(1) o(6) by (simp add: unat_of_nat)
    then show ?thesis
      using eq [OF f] unat_sub_nat [of n "of_nat ?live"] n unfolding shared_used_def move by simp
  qed
  show "shared_held r = units ?u n samples @ shared_held r'"
  proof (cases "frames = 0")
    case True
    then show ?thesis using zero by (simp add: units_def)
  next
    case False
    note e = eq [OF False]
    have ok': "shared_ok r'" using ok e by (auto simp: shared_ok_def)
    have live': "shared_live r' = ?live - n" using used' [OF False] e live by (simp add: shared_live_def)
    have samples: "unit_at ?u samples j = unit_at ?u (sr_data r) ((?s + j) mod ?c)" if "j < n" for j
      using get(2) [OF that] e that slot_start by (auto simp: mod_simps)
    have rest: "shared_held r' = map (\<lambda>j. unit_at ?u (sr_data r) ((?s + (n + j)) mod ?c)) [0..<?live - n]"
    proof -
      have "slot ?c ?w + (?c - (?live - n)) = ?s + n" using n live by simp
      then show ?thesis unfolding shared_held_slots [OF ok'] using e live' by (simp add: add.assoc)
    qed
    show ?thesis
      unfolding shared_held_slots [OF ok] rest
      using n by (intro nth_equalityI) (auto simp: units_def nth_append samples)
  qed
qed

subsection \<open>The ring is a pipe that gives up the oldest\<close>

definition offer_newest :: "shared_ring \<Rightarrow> float_value list list \<Rightarrow> shared_ring \<times> nat" where
  "offer_newest r fs =
     (if list_all (\<lambda>f. length f = sr_channels r) fs
      then (fst (shared_write r (Some (concat fs)) (length fs)), length fs) else (r, 0))"

definition fetch_oldest :: "shared_ring \<Rightarrow> nat \<Rightarrow> shared_ring \<times> float_value list list" where
  "fetch_oldest r n = (case shared_read r n of (r', k, samples) \<Rightarrow> (r', units (sr_channels r) k samples))"

definition shared_inv :: "nat \<Rightarrow> shared_ring \<Rightarrow> bool" where
  "shared_inv k r \<longleftrightarrow> shared_ok r
     \<and> shared_used r + k + sr_capacity_frames r < 18446744073709551616"

lemma last_frames_all: "length xs \<le> k \<Longrightarrow> last_frames k xs = xs"
  by (simp add: last_frames_def)

lemma offer_newest_facts:
  assumes "shared_inv (length fs + k) r" "offer_newest r fs = (r', n)"
  shows "shared_inv k r'" and "n \<le> length fs"
    and "shared_held r' = last_frames (sr_capacity_frames r) (shared_held r @ take n fs)"
    and "sr_capacity_frames r' = sr_capacity_frames r" and "sr_channels r' = sr_channels r"
proof -
  have ok: "shared_ok r" using assms(1) by (simp add: shared_inv_def)
  have "shared_inv k r' \<and> n \<le> length fs
    \<and> shared_held r' = last_frames (sr_capacity_frames r) (shared_held r @ take n fs)
    \<and> sr_capacity_frames r' = sr_capacity_frames r \<and> sr_channels r' = sr_channels r"
  proof (cases "list_all (\<lambda>f. length f = sr_channels r) fs")
    case True
    obtain m where w: "shared_write r (Some (concat fs)) (length fs) = (r', m)" "n = length fs"
      using assms(2) True by (cases "shared_write r (Some (concat fs)) (length fs)")
        (auto simp: offer_newest_def)
    have used: "shared_used r + sr_capacity_frames r < 18446744073709551616"
      using assms(1) by (simp add: shared_inv_def)
    note f = shared_write_refines [OF ok length_concat_frames [OF True] used w(1)]
    show ?thesis
      using f units_concat [OF True] w(2) assms(1) by (auto simp: shared_inv_def)
  qed (use assms in \<open>auto simp: offer_newest_def shared_inv_def last_frames_all shared_live_def\<close>)
  then show "shared_inv k r'" "n \<le> length fs"
    "shared_held r' = last_frames (sr_capacity_frames r) (shared_held r @ take n fs)"
    "sr_capacity_frames r' = sr_capacity_frames r" "sr_channels r' = sr_channels r" by blast+
qed

lemma fetch_oldest_facts:
  assumes "shared_inv k r" "fetch_oldest r n = (r', out)"
  shows "shared_inv k r'" and "shared_held r = out @ shared_held r'"
proof -
  obtain m samples where rd: "shared_read r n = (r', m, samples)" "out = units (sr_channels r) m samples"
    using assms(2) by (auto simp: fetch_oldest_def split: prod.splits)
  have ok: "shared_ok r" using assms(1) by (simp add: shared_inv_def)
  note f = shared_read_refines [OF ok rd(1)]
  show "shared_held r = out @ shared_held r'" using f(3) rd(2) by simp
  have "shared_used r' \<le> shared_used r"
    using f(7) rd(1) by (cases "n = 0") (auto simp: shared_read_def shared_live_def)
  then show "shared_inv k r'" using f(2,8) assms(1) by (simp add: shared_inv_def)
qed

interpretation hal: lossy_pipe shared_inv shared_held sr_capacity_frames offer_newest fetch_oldest
proof
  fix fs :: "float_value list list" and k and s :: shared_ring assume i: "shared_inv (length fs + k) s"
  obtain s' n where o: "offer_newest s fs = (s', n)" by (cases "offer_newest s fs")
  show "shared_inv k (fst (offer_newest s fs))"
    "shared_held (fst (offer_newest s fs))
      = last_frames (sr_capacity_frames s) (shared_held s @ take (snd (offer_newest s fs)) fs)"
    using offer_newest_facts [OF i o] o by simp_all
next
  fix k n and s :: shared_ring assume i: "shared_inv k s"
  obtain s' out where f: "fetch_oldest s n = (s', out)" by (cases "fetch_oldest s n")
  show "shared_inv k (fst (fetch_oldest s n))"
    "shared_held s = snd (fetch_oldest s n) @ shared_held (fst (fetch_oldest s n))"
    using fetch_oldest_facts [OF i f] f by simp_all
qed

subsection \<open>The region and the version check\<close>

definition k_shared_ring_magic :: u32 where "k_shared_ring_magic = 0x41363752"
definition k_shared_ring_version :: u32 where "k_shared_ring_version = 1"

record shared_block =
  sb_magic :: u32
  sb_version :: u32
  sb_channels :: u32
  sb_capacity_frames :: u32
  sb_to_host :: ring_state
  sb_from_host :: ring_state

text \<open>
  \<^verbatim>\<open>sizeof(SharedBlock)\<close>: four 32-bit fields and two states of six 64-bit atomics, each part aligned
  to a 64-byte line. A region is its header and the floats behind it.
\<close>

definition round_up :: "nat \<Rightarrow> nat \<Rightarrow> nat" where
  "round_up value alignment = (value + alignment - 1) div alignment * alignment"

definition sizeof_shared_block :: nat where
  "sizeof_shared_block = round_up (4 * 4) 64 + 2 * round_up (6 * 8) 64"

definition shared_data_offset :: nat where
  "shared_data_offset = round_up sizeof_shared_block 64"

definition shared_bytes_for :: "nat \<Rightarrow> nat \<Rightarrow> nat" where
  "shared_bytes_for capacity_frames channels = shared_data_offset + 2 * capacity_frames * channels * 4"

record region =
  rg_block :: shared_block
  rg_floats :: "float_value list"

record shared_audio =
  sa_block :: shared_block
  sa_to_host :: shared_ring
  sa_from_host :: shared_ring

datatype shared_error =
    RegionNull | CapacityTooSmall nat | NoSharedChannels | RegionTooSmall nat nat nat nat
  | SmallerThanHeader | BadMagic | RegionVersion u32 | ImpossibleShape u32 u32
  | TooSmallForShape nat nat

definition shared_bind :: "region \<Rightarrow> nat \<Rightarrow> shared_error + shared_audio" where
  "shared_bind region bytes =
     (let block = rg_block region;
          capacity = unat (sb_capacity_frames block); channels = unat (sb_channels block);
          needed = shared_bytes_for capacity channels
      in if bytes < needed then Inl (TooSmallForShape needed bytes)
         else Inr \<lparr>sa_block = block,
                   sa_to_host = shared_attach (chunk 0 (capacity * channels) (rg_floats region))
                     capacity channels (sb_to_host block),
                   sa_from_host = shared_attach
                     (chunk (capacity * channels) (capacity * channels) (rg_floats region))
                     capacity channels (sb_from_host block)\<rparr>)"

text \<open>A creation returns the region it has initialized beside the rings.\<close>

definition shared_create ::
  "region option \<Rightarrow> nat \<Rightarrow> nat \<Rightarrow> u32 \<Rightarrow> region option \<times> (shared_error + shared_audio)" where
  "shared_create region bytes capacity_frames channels =
     (case region of
        None \<Rightarrow> (region, Inl RegionNull)
      | Some memory \<Rightarrow>
          if capacity_frames < 2 then (region, Inl (CapacityTooSmall capacity_frames))
          else if channels = 0 then (region, Inl NoSharedChannels)
          else
            let needed = shared_bytes_for capacity_frames (unat channels) in
            if bytes < needed
              then (region, Inl (RegionTooSmall capacity_frames (unat channels) needed bytes))
            else
              let memory' = memory\<lparr>rg_block := \<lparr>sb_magic = k_shared_ring_magic,
                    sb_version = k_shared_ring_version, sb_channels = channels,
                    sb_capacity_frames = of_nat capacity_frames,
                    sb_to_host = ring_state_reset, sb_from_host = ring_state_reset\<rparr>\<rparr>
              in (Some memory', shared_bind memory' bytes))"

definition shared_audio_attach :: "region option \<Rightarrow> nat \<Rightarrow> shared_error + shared_audio" where
  "shared_audio_attach region bytes =
     (case region of
        None \<Rightarrow> Inl RegionNull
      | Some memory \<Rightarrow>
          let block = rg_block memory in
          if bytes < sizeof_shared_block then Inl SmallerThanHeader
          else if sb_magic block \<noteq> k_shared_ring_magic then Inl BadMagic
          else if sb_version block \<noteq> k_shared_ring_version then Inl (RegionVersion (sb_version block))
          else if sb_channels block = 0 \<or> unat (sb_capacity_frames block) < 2
            then Inl (ImpossibleShape (sb_channels block) (sb_capacity_frames block))
          else shared_bind memory bytes)"

text \<open>The floats a region of so many bytes has room for.\<close>

definition region_of :: "nat \<Rightarrow> region \<Rightarrow> bool" where
  "region_of bytes memory \<longleftrightarrow> length (rg_floats memory) = (bytes - shared_data_offset) div 4"

lemma sizes: "shared_data_offset = 192" "sizeof_shared_block = 192"
  by (simp_all add: shared_data_offset_def sizeof_shared_block_def round_up_def)

lemma bind_facts:
  assumes "shared_bind memory bytes = Inr a" "region_of bytes memory"
    and "2 \<le> unat (sb_capacity_frames (rg_block memory))" "sb_channels (rg_block memory) \<noteq> 0"
    and "unat (sb_capacity_frames (rg_block memory)) dvd 18446744073709551616"
  shows "shared_ok (sa_to_host a)" "shared_ok (sa_from_host a)"
proof -
  let ?c = "unat (sb_capacity_frames (rg_block memory))" and ?u = "unat (sb_channels (rg_block memory))"
  have "192 + 8 * (?c * ?u) \<le> bytes"
    using assms(1) by (auto simp: shared_bind_def shared_bytes_for_def sizes Let_def split: if_splits)
  then have room: "?c * ?u + ?c * ?u \<le> length (rg_floats memory)"
    using assms(2) by (simp add: region_of_def sizes)
  have "?c < 18446744073709551616" using unat_u32_lt [of "sb_capacity_frames (rg_block memory)"] by simp
  moreover have "0 < ?u" using assms(4) by (simp add: unat_gt_0)
  moreover have "a = \<lparr>sa_block = rg_block memory,
      sa_to_host = shared_attach (chunk 0 (?c * ?u) (rg_floats memory)) ?c ?u (sb_to_host (rg_block memory)),
      sa_from_host = shared_attach (chunk (?c * ?u) (?c * ?u) (rg_floats memory)) ?c ?u
        (sb_from_host (rg_block memory))\<rparr>"
    using assms(1) by (auto simp: shared_bind_def Let_def split: if_splits)
  ultimately show "shared_ok (sa_to_host a)" "shared_ok (sa_from_host a)"
    using assms(3,5) room by (simp_all add: shared_ok_def shared_attach_def)
qed

subsection \<open>Properties\<close>

definition shared_run ::
  "shared_ring \<Rightarrow> float_value list batch_event list
     \<Rightarrow> shared_ring \<times> float_value list list \<times> float_value list list" where
  "shared_run = batch_run offer_newest fetch_oldest"

text \<open>A region for the witnesses: four frames of one channel, both rings.\<close>

definition small_region :: region where
  "small_region =
     \<lparr>rg_block = \<lparr>sb_magic = 0, sb_version = 0, sb_channels = 0, sb_capacity_frames = 0,
        sb_to_host = ring_state_reset, sb_from_host = ring_state_reset\<rparr>,
      rg_floats = replicate 8 (Real 0)\<rparr>"

definition small_ring :: shared_ring where
  "small_ring = shared_attach (replicate 4 (Real 0)) 4 1 ring_state_reset"

lemma small_ring_ok: "shared_ok small_ring" "shared_used small_ring = 0"
  by (simp_all add: small_ring_def shared_attach_def shared_ok_def shared_used_def ring_state_reset_def)



text \<open>
  A write takes every frame it is offered and the ring then holds the newest, up to its
  capacity: what gives way is the oldest. Each frame that is lost is counted as dropped, and, when
  the ring had been lapped before, the frames lost to earlier writes are counted again.
\<close>

theorem write_keeps_newest:
  assumes "shared_ok r" "length source = frames * sr_channels r" "0 < frames"
    and "shared_used r + sr_capacity_frames r < 18446744073709551616"
    and "shared_write r (Some source) frames = (r', n)"
  shows "shared_held r' = last_frames (sr_capacity_frames r)
      (shared_held r @ units (sr_channels r) frames source)
    \<and> ss_frames_dropped (sr_state r') - ss_frames_dropped (sr_state r)
      = (length (shared_held r) + frames - length (shared_held r'))
        + (if shared_lapped r then shared_used r - sr_capacity_frames r else 0)"
proof -
  have "shared_lapped r \<longleftrightarrow> sr_capacity_frames r < shared_used r"
    using shared_okD(1) [OF assms(1)] by (simp add: shared_lapped_def shared_used_def)
  then have "shared_used r - shared_live r
      = (if shared_lapped r then shared_used r - sr_capacity_frames r else 0)"
    by (simp add: shared_live_def)
  then show ?thesis
    using shared_write_refines(4,6) [OF assms(1,2,4,5)] assms(3) unfolding length_shared_held by simp
qed

theorem write_keeps_newest_witness:
  "\<exists>r' n. shared_write small_ring (Some [Real 1, Real 2, Real 3, Real 4, Real 5]) 5 = (r', n)
     \<and> shared_held r' = [[Real 2], [Real 3], [Real 4], [Real 5]]"
proof -
  obtain r' n where w: "shared_write small_ring (Some [Real 1, Real 2, Real 3, Real 4, Real 5]) 5 = (r', n)"
    by (cases "shared_write small_ring (Some [Real 1, Real 2, Real 3, Real 4, Real 5]) 5")
  have small: "length [Real 1, Real 2, Real 3, Real 4, Real 5] = 5 * sr_channels small_ring"
    "shared_used small_ring + sr_capacity_frames small_ring < 18446744073709551616"
    by (simp_all add: small_ring_ok) (simp_all add: small_ring_def shared_attach_def)
  have "shared_held small_ring = []" using small_ring_ok(2) by (simp add: shared_held_def shared_live_def)
  then show ?thesis
    using write_keeps_newest [OF small_ring_ok(1) small(1) _ small(2) w] w
    by (simp add: units_def unit_at_def chunk_def last_frames_def upt_rec)
      (simp add: small_ring_def shared_attach_def)
qed

text \<open>
  The count of dropped frames is not the number of frames lost: three writes of four frames into a
  ring of four lose eight, and twelve are counted.
\<close>

theorem drops_counted_twice:
  "let fs = [Real 1, Real 2, Real 3, Real 4];
       r1 = fst (shared_write small_ring (Some fs) 4);
       r2 = fst (shared_write r1 (Some fs) 4);
       r3 = fst (shared_write r2 (Some fs) 4);
       (r4, n, samples) = shared_read r3 12
   in n = 4 \<and> ss_frames_written (sr_state r4) = 12 \<and> ss_frames_read (sr_state r4) = 4
      \<and> ss_frames_dropped (sr_state r4) = 12"
  by (simp add: small_ring_def shared_attach_def shared_write_def shared_read_def ring_state_reset_def
      ring_put_def ring_get_def slot_def chunk_def overwrite_def eval_simps Let_def)

text \<open>
  The two halves meet or refuse each other by name. A region one side has created is accepted by
  the other, with the same shape and both rings empty and sound; and whatever is in the memory, a
  region is accepted only if it bears our magic and our version, has a channel and two frames, and
  fits in the bytes that are mapped.
\<close>

theorem region_meets:
  "((\<exists>memory'. shared_create (Some memory) bytes capacity channels = (memory', Inr a)
      \<and> capacity < 4294967296 \<and> capacity dvd 18446744073709551616 \<and> region_of bytes memory) \<longrightarrow>
      shared_audio_attach (fst (shared_create (Some memory) bytes capacity channels)) bytes = Inr a
      \<and> shared_ok (sa_to_host a) \<and> shared_ok (sa_from_host a)
      \<and> shared_held (sa_to_host a) = [] \<and> shared_held (sa_from_host a) = []
      \<and> sr_capacity_frames (sa_to_host a) = capacity \<and> sr_channels (sa_from_host a) = unat channels)
   \<and> (shared_audio_attach (Some other) bytes = Inr b \<longleftrightarrow>
      192 \<le> bytes \<and> sb_magic (rg_block other) = k_shared_ring_magic
      \<and> sb_version (rg_block other) = k_shared_ring_version
      \<and> sb_channels (rg_block other) \<noteq> 0 \<and> 2 \<le> unat (sb_capacity_frames (rg_block other))
      \<and> shared_bind other bytes = Inr b)"
proof (rule conjI)
  show "shared_audio_attach (Some other) bytes = Inr b \<longleftrightarrow>
      192 \<le> bytes \<and> sb_magic (rg_block other) = k_shared_ring_magic
      \<and> sb_version (rg_block other) = k_shared_ring_version
      \<and> sb_channels (rg_block other) \<noteq> 0 \<and> 2 \<le> unat (sb_capacity_frames (rg_block other))
      \<and> shared_bind other bytes = Inr b"
    by (auto simp: shared_audio_attach_def sizes Let_def)
  show "(\<exists>memory'. shared_create (Some memory) bytes capacity channels = (memory', Inr a)
      \<and> capacity < 4294967296 \<and> capacity dvd 18446744073709551616 \<and> region_of bytes memory) \<longrightarrow>
      shared_audio_attach (fst (shared_create (Some memory) bytes capacity channels)) bytes = Inr a
      \<and> shared_ok (sa_to_host a) \<and> shared_ok (sa_from_host a)
      \<and> shared_held (sa_to_host a) = [] \<and> shared_held (sa_from_host a) = []
      \<and> sr_capacity_frames (sa_to_host a) = capacity \<and> sr_channels (sa_from_host a) = unat channels"
  proof (intro impI, elim exE conjE)
    fix memory'
    assume c: "shared_create (Some memory) bytes capacity channels = (memory', Inr a)"
      and cap: "capacity < 4294967296" "capacity dvd 18446744073709551616"
      and region: "region_of bytes memory"
    let ?block = "\<lparr>sb_magic = k_shared_ring_magic, sb_version = k_shared_ring_version,
      sb_channels = channels, sb_capacity_frames = of_nat capacity,
      sb_to_host = ring_state_reset, sb_from_host = ring_state_reset\<rparr>"
    let ?m = "memory\<lparr>rg_block := ?block\<rparr>"
    have m: "memory' = Some ?m" "shared_bind ?m bytes = Inr a" "2 \<le> capacity" "channels \<noteq> 0"
      "192 \<le> bytes"
      using c by (auto simp: shared_create_def shared_bytes_for_def sizes Let_def split: if_splits)
    have size: "unat (of_nat capacity :: u32) = capacity" using cap(1) by (simp add: unat_of_nat)
    have ok: "shared_ok (sa_to_host a)" "shared_ok (sa_from_host a)"
      using bind_facts [OF m(2)] region m(3,4) cap(2) by (simp_all add: region_of_def size)
    have rings: "sr_state (sa_to_host a) = ring_state_reset" "sr_state (sa_from_host a) = ring_state_reset"
      "sr_capacity_frames (sa_to_host a) = capacity" "sr_channels (sa_from_host a) = unat channels"
      using m(2) by (auto simp: shared_bind_def shared_attach_def size Let_def split: if_splits)
    have "shared_audio_attach memory' bytes = Inr a"
      using m by (simp add: shared_audio_attach_def sizes size)
    then show "shared_audio_attach (fst (shared_create (Some memory) bytes capacity channels)) bytes = Inr a
      \<and> shared_ok (sa_to_host a) \<and> shared_ok (sa_from_host a)
      \<and> shared_held (sa_to_host a) = [] \<and> shared_held (sa_from_host a) = []
      \<and> sr_capacity_frames (sa_to_host a) = capacity \<and> sr_channels (sa_from_host a) = unat channels"
      using ok rings c
      by (simp add: shared_held_def shared_live_def shared_used_def ring_state_reset_def)
  qed
qed

theorem region_meets_witness:
  "\<exists>a. snd (shared_create (Some small_region) 224 4 1) = Inr a
     \<and> shared_audio_attach (fst (shared_create (Some small_region) 224 4 1)) 224 = Inr a
     \<and> shared_ok (sa_to_host a)"
proof -
  obtain m a where c: "shared_create (Some small_region) 224 4 1 = (m, Inr a)"
    by (simp add: shared_create_def shared_bind_def shared_bytes_for_def sizes Let_def)
  have "region_of 224 small_region" by (simp add: region_of_def small_region_def sizes)
  then show ?thesis using region_meets [of small_region 224 4 1 a] c by auto
qed

end
