(* ===== verification/HalDevice.thy ===== *)
theory HalDevice
  imports SharedRing Audio
begin

text \<open>
  The two sides of the virtual device: the bodies of the plug-in's callbacks,
  src/src/audio/device_bridge.hpp and device_bridge.cpp; the mapping they meet in,
  src/src/audio/shared_region.hpp and shared_region.cpp; and the application's backend,
  src/src/audio/hal_backend.hpp and hal_backend.cpp.

  The operating system's shared memory is the parameter \<open>shm_api\<close>. The two rings are values of
  \<open>SharedRing\<close>; a caller's buffer is a list that an operation returns changed. Time is a count of
  microseconds, and waiting for a deadline is the time at which the wait ends.
\<close>

subsection \<open>DeviceBridge\<close>

record device_bridge =
  db_to_host :: "shared_ring option"
  db_from_host :: "shared_ring option"
  db_channels :: nat
  db_frames_silenced :: nat

definition bridge_init :: device_bridge where
  "bridge_init = \<lparr>db_to_host = None, db_from_host = None, db_channels = 0, db_frames_silenced = 0\<rparr>"

definition bridge_configure :: "nat \<Rightarrow> device_bridge \<Rightarrow> device_bridge" where
  "bridge_configure channels b = b\<lparr>db_channels := channels\<rparr>"

definition bridge_bind :: "shared_ring option \<Rightarrow> shared_ring option \<Rightarrow> device_bridge \<Rightarrow> device_bridge" where
  "bridge_bind to_host from_host b =
     b\<lparr>db_to_host := to_host, db_from_host := from_host,
       db_channels := (case to_host of
          Some ring \<Rightarrow> if db_channels b = 0 then sr_channels ring else db_channels b
        | None \<Rightarrow> db_channels b)\<rparr>"

definition bridge_unbind :: "device_bridge \<Rightarrow> device_bridge" where
  "bridge_unbind b = b\<lparr>db_to_host := None, db_from_host := None\<rparr>"

text \<open>The client's buffer comes in as the second argument and goes out as the second result.\<close>

definition read_input ::
  "device_bridge \<Rightarrow> float_value list option \<Rightarrow> nat \<Rightarrow> device_bridge \<times> float_value list option \<times> nat" where
  "read_input b destination frames =
     (case destination of
        None \<Rightarrow> (b, None, 0)
      | Some memory \<Rightarrow>
          if frames = 0 then (b, Some memory, 0)
          else
            let (b1, memory1, delivered) =
                  (case db_to_host b of
                     None \<Rightarrow> (b, memory, 0)
                   | Some ring \<Rightarrow>
                       (case shared_read ring frames of
                          (ring', n, samples) \<Rightarrow>
                            (b\<lparr>db_to_host := Some ring'\<rparr>, overwrite 0 samples memory, n)))
            in if delivered < frames \<and> db_channels b1 \<noteq> 0 then
                 let missing = frames - delivered in
                 (b1\<lparr>db_frames_silenced := db_frames_silenced b1 + missing\<rparr>,
                  Some (overwrite (delivered * db_channels b1)
                          (replicate (missing * db_channels b1) (Real 0)) memory1),
                  delivered)
               else (b1, Some memory1, delivered))"

definition write_output ::
  "device_bridge \<Rightarrow> float_value list option \<Rightarrow> nat \<Rightarrow> device_bridge \<times> nat" where
  "write_output b source frames =
     (if source = None \<or> frames = 0 then (b, 0)
      else
        (case db_from_host b of
           None \<Rightarrow> (b, 0)
         | Some ring \<Rightarrow>
             (case shared_write ring source frames of (ring', n) \<Rightarrow> (b\<lparr>db_from_host := Some ring'\<rparr>, n))))"

subsection \<open>SharedRegion\<close>

datatype shm_errno = EExist | OtherErrno string

record 'w shm_api =
  shm_open_exclusive :: "string \<Rightarrow> 'w \<Rightarrow> 'w \<times> (shm_errno + nat)"
  shm_open_existing :: "string \<Rightarrow> 'w \<Rightarrow> 'w \<times> (shm_errno + nat)"
  shm_truncate :: "nat \<Rightarrow> nat \<Rightarrow> 'w \<Rightarrow> 'w \<times> shm_errno option"
  shm_map :: "nat \<Rightarrow> nat \<Rightarrow> 'w \<Rightarrow> 'w \<times> (shm_errno + nat)"
  shm_unmap :: "nat \<Rightarrow> nat \<Rightarrow> 'w \<Rightarrow> 'w"
  shm_close :: "nat \<Rightarrow> 'w \<Rightarrow> 'w"
  shm_unlink :: "string \<Rightarrow> 'w \<Rightarrow> 'w \<times> bool"

record shared_region =
  sg_name :: string
  sg_fd :: "nat option"
  sg_data :: "nat option"
  sg_bytes :: nat

definition shared_region_init :: shared_region where
  "shared_region_init = \<lparr>sg_name = [], sg_fd = None, sg_data = None, sg_bytes = 0\<rparr>"

definition k_max_shared_region_name :: nat where "k_max_shared_region_name = 31"

datatype region_error =
    AlreadyOpen | NameWithoutSlash string | NameTooLong string nat nat | NoBytes
  | OpenRefused shm_errno | SizeRefused shm_errno | MapRefused shm_errno

definition region_open ::
  "'w shm_api \<Rightarrow> string \<Rightarrow> nat \<Rightarrow> shared_region \<Rightarrow> 'w \<Rightarrow> shared_region \<times> 'w \<times> (region_error + bool)" where
  "region_open api name bytes g w =
     (if sg_data g \<noteq> None then (g, w, Inl AlreadyOpen)
      else if name = [] \<or> hd name \<noteq> CHR ''/'' then (g, w, Inl (NameWithoutSlash name))
      else if length name > k_max_shared_region_name
        then (g, w, Inl (NameTooLong name (length name) k_max_shared_region_name))
      else if bytes = 0 then (g, w, Inl NoBytes)
      else
        let (w1, opened) =
              (case shm_open_exclusive api name w of
                 (w1, Inr fd) \<Rightarrow> (w1, Inr (fd, True))
               | (w1, Inl e) \<Rightarrow>
                   if e = EExist then
                     (case shm_open_existing api name w1 of
                        (w2, Inr fd) \<Rightarrow> (w2, Inr (fd, False))
                      | (w2, Inl e2) \<Rightarrow> (w2, Inl e2))
                   else (w1, Inl e))
        in case opened of
             Inl e \<Rightarrow> (g, w1, Inl (OpenRefused e))
           | Inr (fd, made_it) \<Rightarrow>
               (case (if made_it then shm_truncate api fd bytes w1 else (w1, None)) of
                  (w2, Some e) \<Rightarrow>
                    (g, fst (shm_unlink api name (shm_close api fd w2)), Inl (SizeRefused e))
                | (w2, None) \<Rightarrow>
                    (case shm_map api fd bytes w2 of
                       (w3, Inl e) \<Rightarrow> (g, shm_close api fd w3, Inl (MapRefused e))
                     | (w3, Inr mapping) \<Rightarrow>
                         (\<lparr>sg_name = name, sg_fd = Some fd, sg_data = Some mapping, sg_bytes = bytes\<rparr>,
                          w3, Inr made_it))))"

definition region_close :: "'w shm_api \<Rightarrow> shared_region \<Rightarrow> 'w \<Rightarrow> shared_region \<times> 'w" where
  "region_close api g w =
     (let w1 = (case sg_data g of Some a \<Rightarrow> shm_unmap api a (sg_bytes g) w | None \<Rightarrow> w);
          w2 = (case sg_fd g of Some fd \<Rightarrow> shm_close api fd w1 | None \<Rightarrow> w1)
      in (shared_region_init, w2))"

definition region_unlink :: "'w shm_api \<Rightarrow> string \<Rightarrow> 'w \<Rightarrow> 'w \<times> bool" where
  "region_unlink api name w =
     (if name = [] \<or> hd name \<noteq> CHR ''/'' then (w, False) else shm_unlink api name w)"

subsection \<open>HalBackend\<close>

record hal_device =
  hd_format :: audio_format
  hd_region_name :: string
  hd_open :: bool
  hd_region :: shared_region
  hd_audio :: "shared_audio option"
  hd_period_us :: int
  hd_next_read :: int
  hd_next_write :: int

definition k_hal_channels :: nat where "k_hal_channels = 64"
definition k_hal_capacity_frames :: nat where "k_hal_capacity_frames = 4096"
definition k_hal_region_name :: string where "k_hal_region_name = ''/aes67-srt-audio''"

definition hal_init :: "string \<Rightarrow> hal_device" where
  "hal_init region_name =
     \<lparr>hd_format = default_format,
      hd_region_name = (if region_name \<noteq> [] then region_name else k_hal_region_name),
      hd_open = False, hd_region = shared_region_init, hd_audio = None, hd_period_us = 0,
      hd_next_read = 0, hd_next_write = 0\<rparr>"

text \<open>
  One period boundary: when the call goes on, and the next deadline. A deadline of zero is one that
  was never set.
\<close>

definition pace :: "int \<Rightarrow> int \<Rightarrow> int \<Rightarrow> int \<times> int" where
  "pace period now deadline =
     (let d = (if deadline = 0 then now else deadline) in
      if now < d then (d, d + period)
      else if now - d > period then (now, now + period)
      else (now, d + period))"

datatype hal_error =
    HalNoPeriod | HalChannels nat nat | HalSampleRate nat | HalRegion region_error
  | HalShared shared_error | HalNotOpen | HalNotOnePeriod nat

text \<open>\<open>memory_at\<close> reads the header and the floats the mapping shows.\<close>

definition hal_open ::
  "'w shm_api \<Rightarrow> (nat \<Rightarrow> 'w \<Rightarrow> region) \<Rightarrow> audio_format \<Rightarrow> hal_device \<Rightarrow> 'w
     \<Rightarrow> hal_device \<times> 'w \<times> hal_error option" where
  "hal_open api memory_at format h w =
     (if af_sample_rate format = 0 \<or> af_channels format = 0 \<or> af_period_frames format = 0
        then (h, w, Some HalNoPeriod)
      else if af_channels format \<noteq> k_hal_channels
        then (h, w, Some (HalChannels k_hal_channels (af_channels format)))
      else if af_sample_rate format \<noteq> 48000
        then (h, w, Some (HalSampleRate (af_sample_rate format)))
      else
        let period_ms = real (af_period_frames format) * 1000 / real (af_sample_rate format);
            h1 = h\<lparr>hd_format := format, hd_period_us := \<lfloor>max 1 period_ms * 1000\<rfloor>\<rparr>;
            bytes = shared_bytes_for k_hal_capacity_frames (af_channels format)
        in case region_open api (hd_region_name h1) bytes (hd_region h1) w of
             (g, w1, Inl e) \<Rightarrow> (h1\<lparr>hd_region := g\<rparr>, w1, Some (HalRegion e))
           | (g, w1, Inr created) \<Rightarrow>
               (case (if created
                      then snd (shared_create (Some (memory_at (the (sg_data g)) w1)) bytes
                                  k_hal_capacity_frames (of_nat (af_channels format)))
                      else shared_audio_attach (Some (memory_at (the (sg_data g)) w1)) bytes) of
                  Inl e \<Rightarrow>
                    (case region_close api g w1 of
                       (g', w2) \<Rightarrow> (h1\<lparr>hd_region := g'\<rparr>, w2, Some (HalShared e)))
                | Inr audio \<Rightarrow>
                    (h1\<lparr>hd_region := g, hd_audio := Some audio, hd_open := True\<rparr>, w1, None)))"

definition hal_close :: "'w shm_api \<Rightarrow> hal_device \<Rightarrow> 'w \<Rightarrow> hal_device \<times> 'w" where
  "hal_close api h w =
     (case region_close api (hd_region h) w of (g, w') \<Rightarrow> (h\<lparr>hd_region := g, hd_open := False\<rparr>, w'))"

text \<open>A read returns the bytes of the period and the time at which it goes on.\<close>

definition hal_read ::
  "int \<Rightarrow> nat \<Rightarrow> hal_device \<Rightarrow> hal_device \<times> (hal_error + bytes \<times> int)" where
  "hal_read now frames h =
     (case (hd_open h, hd_audio h) of
        (True, Some audio) \<Rightarrow>
          if frames = 0 \<or> frames > af_period_frames (hd_format h)
            then (h, Inl (HalNotOnePeriod frames))
          else
            let (go, deadline) = pace (hd_period_us h) now (hd_next_read h);
                (ring', got, samples) = shared_read (sa_from_host audio) frames;
                scratch = samples @ replicate ((frames - got) * af_channels (hd_format h)) (Real 0)
            in (h\<lparr>hd_next_read := deadline, hd_audio := Some (audio\<lparr>sa_from_host := ring'\<rparr>)\<rparr>,
                Inr (float_to_s24_3le scratch, go))
      | _ \<Rightarrow> (h, Inl HalNotOpen))"

definition hal_write ::
  "int \<Rightarrow> bytes \<Rightarrow> nat \<Rightarrow> hal_device \<Rightarrow> hal_device \<times> (hal_error + int)" where
  "hal_write now source frames h =
     (case (hd_open h, hd_audio h) of
        (True, Some audio) \<Rightarrow>
          if frames = 0 \<or> frames > af_period_frames (hd_format h)
            then (h, Inl (HalNotOnePeriod frames))
          else
            let scratch = s24_3le_to_float (take (frames * af_channels (hd_format h) * 3) source);
                (go, deadline) = pace (hd_period_us h) now (hd_next_write h);
                (ring', n) = shared_write (sa_to_host audio) (Some scratch) frames
            in (h\<lparr>hd_next_write := deadline, hd_audio := Some (audio\<lparr>sa_to_host := ring'\<rparr>)\<rparr>, Inr go)
      | _ \<Rightarrow> (h, Inl HalNotOpen))"

definition hal_overruns :: "hal_device \<Rightarrow> u32" where
  "hal_overruns h =
     (case (hd_open h, hd_audio h) of
        (True, Some audio) \<Rightarrow> of_nat (ss_frames_dropped (sr_state (sa_to_host audio)))
      | _ \<Rightarrow> 0)"

definition hal_underruns :: "hal_device \<Rightarrow> u32" where
  "hal_underruns h =
     (case (hd_open h, hd_audio h) of
        (True, Some audio) \<Rightarrow> of_nat (ss_frames_underrun (sr_state (sa_from_host audio)))
      | _ \<Rightarrow> 0)"

subsection \<open>The client's buffer is always defined\<close>

lemma overwrite_all: "length ys = length xs \<Longrightarrow> overwrite 0 ys xs = ys"
  by (simp add: overwrite_def)

lemma read_input_bound:
  assumes ok: "shared_ok ring" and b: "db_to_host b = Some ring" "db_channels b = sr_channels ring"
    and memory: "length memory = frames * sr_channels ring" and f: "0 < frames"
    and rd: "read_input b (Some memory) frames = (b', memory', delivered)"
  shows "delivered = min frames (shared_live ring)"
    and "memory' = Some (concat (take delivered (shared_held ring))
      @ replicate ((frames - delivered) * sr_channels ring) (Real 0))"
    and "db_frames_silenced b' = db_frames_silenced b + (frames - delivered)"
    and "\<exists>ring'. db_to_host b' = Some ring' \<and> shared_ok ring'
      \<and> shared_held ring = take delivered (shared_held ring) @ shared_held ring'"
proof -
  let ?u = "sr_channels ring"
  obtain ring' n samples where r: "shared_read ring frames = (ring', n, samples)"
    by (cases "shared_read ring frames")
  note s = shared_read_refines [OF ok r]
  have u: "0 < ?u" using shared_okD(3) [OF ok] .
  have held: "take n (shared_held ring) = units ?u n samples" unfolding s(3) by simp
  have samples: "concat (take n (shared_held ring)) = samples"
    unfolding held by (rule concat_units [OF s(4)])
  have n: "n \<le> frames" using s(1) by simp
  have split: "frames * ?u = n * ?u + (frames - n) * ?u"
    using n by (simp flip: add_mult_distrib)
  have mem: "overwrite (n * ?u) (replicate ((frames - n) * ?u) (Real 0)) (overwrite 0 samples memory)
      = samples @ replicate ((frames - n) * ?u) (Real 0)"
    using s(4) memory split by (simp add: overwrite_def)
  have full: "overwrite 0 samples memory = samples" if "n = frames"
    using s(4) memory that by (intro overwrite_all) simp
  have eq: "delivered = n \<and> memory' = Some (samples @ replicate ((frames - n) * ?u) (Real 0))
    \<and> db_frames_silenced b' = db_frames_silenced b + (frames - n) \<and> db_to_host b' = Some ring'"
    using rd b f u r n mem full by (cases "n < frames") (auto simp: read_input_def Let_def)
  then show "delivered = min frames (shared_live ring)" using s(1) by simp
  show "memory' = Some (concat (take delivered (shared_held ring))
      @ replicate ((frames - delivered) * ?u) (Real 0))"
    using eq samples by simp
  show "db_frames_silenced b' = db_frames_silenced b + (frames - delivered)" using eq by simp
  show "\<exists>ring'. db_to_host b' = Some ring' \<and> shared_ok ring'
      \<and> shared_held ring = take delivered (shared_held ring) @ shared_held ring'"
    using eq s(2,3) held by auto
qed

lemma read_input_unbound:
  "db_to_host b = None \<Longrightarrow> db_channels b \<noteq> 0 \<Longrightarrow> length memory = frames * db_channels b \<Longrightarrow> 0 < frames \<Longrightarrow>
     read_input b (Some memory) frames
       = (b\<lparr>db_frames_silenced := db_frames_silenced b + frames\<rparr>,
          Some (replicate (frames * db_channels b) (Real 0)), 0)"
  by (simp add: read_input_def overwrite_all)

subsection \<open>Pacing\<close>

text \<open>
  A call goes on no earlier than it was made and no earlier than its deadline, and the next deadline
  is never more than one period away and never in the past: the caller is paced at one call a
  period and never sent a burst after it fell behind.
\<close>

lemma pace_bounds:
  assumes "0 < period" "pace period now deadline = (go, next)" "deadline \<le> now + period" "0 < now"
  shows "now \<le> go" and "deadline \<le> go" and "go \<le> next" and "next \<le> go + period"
    and "go \<le> now + period"
  using assms by (auto simp: pace_def Let_def split: if_splits)

fun paced :: "int \<Rightarrow> int \<Rightarrow> int \<Rightarrow> nat list \<Rightarrow> int list" where
  "paced period now deadline [] = []"
| "paced period now deadline (work # rest) =
     (case pace period now deadline of
        (go, next) \<Rightarrow> go # paced period (go + int work) next rest)"

lemma paced_spacing:
  assumes "0 < period" "0 < deadline" "deadline \<le> now + period" "0 < now"
    and "k < length (paced period now deadline works)"
  shows "deadline + int k * period - period \<le> paced period now deadline works ! k"
  using assms
proof (induction works arbitrary: now deadline k)
  case (Cons work works)
  obtain go nxt where p: "pace period now deadline = (go, nxt)" by (cases "pace period now deadline")
  note b = pace_bounds [OF Cons.prems(1) p Cons.prems(3,4)]
  have nxt: "deadline + period \<le> nxt" "0 < nxt" "nxt \<le> go + int work + period" "0 < go + int work"
    using p b Cons.prems(1-4) by (auto simp: pace_def Let_def split: if_splits)
  show ?case
  proof (cases k)
    case 0
    then show ?thesis using b(2) Cons.prems(1) p by simp
  next
    case (Suc m)
    have "nxt + int m * period - period \<le> paced period (go + int work) nxt works ! m"
      using Cons.IH [OF Cons.prems(1) nxt(2,3,4)] Cons.prems(5) Suc p by simp
    then show ?thesis using nxt(1) Suc p by (simp add: algebra_simps)
  qed
qed simp

subsection \<open>Properties\<close>

text \<open>
  C36. A period the application writes to the virtual device reaches the plug-in's client bit for bit:
  when the rings are sound and the one towards the host is empty and holds a period, what
  \<^verbatim>\<open>HalBackend::write\<close> puts in as bytes, \<^verbatim>\<open>DeviceBridge::read_input\<close> gives the client as samples that
  convert back to the same bytes, with no silence added; and asking for more is answered with
  silence after them, counted.
\<close>

theorem hal_period_reaches_client:
  assumes "hd_open h" "hd_audio h = Some audio" "shared_ok (sa_to_host audio)"
    and "shared_used (sa_to_host audio) = 0"
    and "sr_channels (sa_to_host audio) = af_channels (hd_format h)"
    and "sr_capacity_frames (sa_to_host audio) < 9223372036854775808"
    and "0 < frames" "frames \<le> af_period_frames (hd_format h)"
    and "frames \<le> sr_capacity_frames (sa_to_host audio)"
    and "length source = frames * af_channels (hd_format h) * 3"
    and "length memory = (frames + extra) * af_channels (hd_format h)"
  shows "\<exists>h' go audio' samples b.
    hal_write now source frames h = (h', Inr go) \<and> hd_audio h' = Some audio'
    \<and> read_input (bridge_bind (Some (sa_to_host audio')) None bridge_init) (Some memory) (frames + extra)
      = (b, Some (samples @ replicate (extra * af_channels (hd_format h)) (Real 0)), frames)
    \<and> float_to_s24_3le samples = source \<and> db_frames_silenced b = extra"
proof -
  let ?ring = "sa_to_host audio" and ?u = "af_channels (hd_format h)"
  let ?floats = "s24_3le_to_float source"
  obtain go deadline where p: "pace (hd_period_us h) now (hd_next_write h) = (go, deadline)"
    by (cases "pace (hd_period_us h) now (hd_next_write h)")
  obtain ring' n where w: "shared_write ?ring (Some ?floats) frames = (ring', n)"
    by (cases "shared_write ?ring (Some ?floats) frames")
  have len: "length ?floats = frames * ?u" using assms(10) length_s24_3le_to_float [of source] by simp
  have small: "shared_used ?ring + sr_capacity_frames ?ring < 18446744073709551616"
    using assms(4,6) by simp
  note wr = shared_write_refines [OF assms(3) len [folded assms(5)] small w]
  have "shared_held ?ring = []" using assms(4) by (simp add: shared_held_def shared_live_def)
  then have held: "shared_held ring' = units ?u frames ?floats"
    using wr(4) assms(5,9) by (simp add: last_frames_all)
  then have live: "shared_live ring' = frames" by (metis length_shared_held length_units)
  let ?audio = "audio\<lparr>sa_to_host := ring'\<rparr>"
  have hw: "hal_write now source frames h
      = (h\<lparr>hd_next_write := deadline, hd_audio := Some ?audio\<rparr>, Inr go)"
    using assms(1,2,7,8,10) p w by (simp add: hal_write_def)
  let ?b = "bridge_bind (Some (sa_to_host ?audio)) None bridge_init"
  have b: "db_to_host ?b = Some ring'" "db_channels ?b = sr_channels ring'"
    by (simp_all add: bridge_bind_def bridge_init_def)
  obtain b' memory' d where rd: "read_input ?b (Some memory) (frames + extra) = (b', memory', d)"
    by (cases "read_input ?b (Some memory) (frames + extra)")
  have mem: "length memory = (frames + extra) * sr_channels ring'" using assms(5,11) wr(8) by simp
  have pos: "0 < frames + extra" using assms(7) by simp
  note r = read_input_bound [OF wr(2) b mem pos rd]
  have d: "d = frames" using r(1) live by simp
  have "concat (take d (shared_held ring')) = ?floats"
    using held d concat_units [OF len] by simp
  then have "memory' = Some (?floats @ replicate (extra * ?u) (Real 0))"
    using r(2) d wr(8) assms(5) by simp
  moreover have "float_to_s24_3le ?floats = source"
    by (rule s24_float_round_trip_aux) (simp add: assms(10))
  moreover have "db_frames_silenced b' = extra"
    using r(3) d by (simp add: bridge_bind_def bridge_init_def)
  ultimately show ?thesis using hw rd d by auto
qed

definition demo_audio :: shared_audio where
  "demo_audio = \<lparr>sa_block = rg_block small_region, sa_to_host = small_ring, sa_from_host = small_ring\<rparr>"

definition demo_hal :: hal_device where
  "demo_hal = (hal_init [])\<lparr>hd_open := True, hd_audio := Some demo_audio,
     hd_format := \<lparr>af_sample_rate = 48000, af_channels = 1, af_period_frames = 2, af_sample_bytes = 3\<rparr>\<rparr>"

theorem hal_period_reaches_client_witness:
  "\<exists>h' go audio' samples b. hal_write 7 [1, 2, 3, 4, 5, 6] 2 demo_hal = (h', Inr go)
     \<and> hd_audio h' = Some audio'
     \<and> read_input (bridge_bind (Some (sa_to_host audio')) None bridge_init)
         (Some (replicate 3 (Real 0))) 3 = (b, Some (samples @ [Real 0]), 2)
     \<and> float_to_s24_3le samples = [1, 2, 3, 4, 5, 6] \<and> db_frames_silenced b = 1"
proof -
  have h: "hd_open demo_hal" "hd_audio demo_hal = Some demo_audio" "af_channels (hd_format demo_hal) = 1"
    "af_period_frames (hd_format demo_hal) = 2"
    by (simp_all add: demo_hal_def hal_init_def)
  have r: "sa_to_host demo_audio = small_ring" "sr_channels small_ring = 1" "sr_capacity_frames small_ring = 4"
    by (simp_all add: demo_audio_def small_ring_def shared_attach_def)
  show ?thesis
    using hal_period_reaches_client [OF h(1,2), of 2 "[1, 2, 3, 4, 5, 6]" "replicate 3 (Real 0)" 1 7]
      small_ring_ok
    by (simp add: h r)
qed

end
