(* ===== verification/DelayLine.thy ===== *)
theory DelayLine
  imports Circular Pcm
begin

text \<open>
  The A/V delay line: src/src/delay/delay_line.hpp and src/src/delay/delay_line.cpp.

  \<open>delay_line\<close> is the class with all its members; an offset is a \<open>float_value\<close>, because the code
  refuses one that is not a number. The input and the output of a period may be one buffer: the
  input is in the ring before anything is written, so the output is what the operation returns.
  The samples are decoded and encoded as in \<open>Pcm\<close>, the code having a copy of those functions. Frame
  counts are natural numbers.

  \<open>delay_spec\<close> is the line with unbounded memory: every frame is read from the whole history of the
  input. \<open>process_refines\<close> shows that the ring never forgets a frame that is still to be read.
\<close>

subsection \<open>State\<close>

record delay_config =
  dc_channels :: nat
  dc_sample_rate :: nat
  dc_period_frames :: nat
  dc_sample_bytes :: nat
  dc_capacity_ms :: real
  dc_fade_ms :: real

definition default_delay :: delay_config where
  "default_delay = \<lparr>dc_channels = 64, dc_sample_rate = 48000, dc_period_frames = 48,
     dc_sample_bytes = 3, dc_capacity_ms = 5000, dc_fade_ms = 10\<rparr>"

record delay_line =
  dl_config :: delay_config
  dl_sample_bytes :: nat
  dl_channels :: nat
  dl_ring_frames :: nat
  dl_max_delay_frames :: nat
  dl_fade_frames :: nat
  dl_ring :: bytes
  dl_written_frames :: nat
  dl_applied_delay :: nat
  dl_target_delay :: nat
  dl_fading :: bool
  dl_fade_from :: nat
  dl_fade_to :: nat
  dl_fade_step :: nat
  dl_pushed_frames :: nat
  dl_crossfades :: nat

definition delay_init :: delay_line where
  "delay_init = \<lparr>dl_config = default_delay, dl_sample_bytes = 3, dl_channels = 0,
     dl_ring_frames = 0, dl_max_delay_frames = 0, dl_fade_frames = 0, dl_ring = [],
     dl_written_frames = 0, dl_applied_delay = 0, dl_target_delay = 0, dl_fading = False,
     dl_fade_from = 0, dl_fade_to = 0, dl_fade_step = 0, dl_pushed_frames = 0, dl_crossfades = 0\<rparr>"

datatype delay_error =
    DelayNoChannels | DelaySampleBytes nat | DelayNoPeriod | DelayCapacity | DelayFade
  | DelayNotOpen | DelayOffset float_value real | DelayNoAudio | DelayFrames nat

definition frames_for_ms :: "real \<Rightarrow> nat \<Rightarrow> nat" where
  "frames_for_ms ms sample_rate = nat \<lfloor>ms * real sample_rate / 1000 + 1 / 2\<rfloor>"

subsection \<open>open, close, set\_offset\_ms\<close>

definition delay_open :: "delay_config \<Rightarrow> delay_line \<Rightarrow> delay_line \<times> delay_error option" where
  "delay_open config l =
     (if dc_channels config = 0 then (l, Some DelayNoChannels)
      else if dc_sample_bytes config \<noteq> 2 \<and> dc_sample_bytes config \<noteq> 3
        then (l, Some (DelaySampleBytes (dc_sample_bytes config)))
      else if dc_period_frames config = 0 \<or> dc_sample_rate config = 0 then (l, Some DelayNoPeriod)
      else if \<not> dc_capacity_ms config \<ge> 0 then (l, Some DelayCapacity)
      else if dc_fade_ms config < 0 then (l, Some DelayFade)
      else
        let max_delay = frames_for_ms (dc_capacity_ms config) (dc_sample_rate config);
            fade = frames_for_ms (dc_fade_ms config) (dc_sample_rate config);
            ring_frames = max_delay + fade + dc_period_frames config + 2
        in (\<lparr>dl_config = config, dl_sample_bytes = dc_sample_bytes config,
             dl_channels = dc_channels config, dl_ring_frames = ring_frames,
             dl_max_delay_frames = max_delay, dl_fade_frames = fade,
             dl_ring = replicate (ring_frames * dc_channels config * dc_sample_bytes config) 0,
             dl_written_frames = 0, dl_applied_delay = 0, dl_target_delay = 0, dl_fading = False,
             dl_fade_from = 0, dl_fade_to = 0, dl_fade_step = 0, dl_pushed_frames = 0,
             dl_crossfades = 0\<rparr>, None))"

definition delay_close :: "delay_line \<Rightarrow> delay_line" where
  "delay_close l = l\<lparr>dl_ring := [], dl_ring_frames := 0, dl_channels := 0, dl_written_frames := 0,
     dl_fading := False\<rparr>"

definition delay_is_open :: "delay_line \<Rightarrow> bool" where
  "delay_is_open l \<longleftrightarrow> dl_ring l \<noteq> []"

definition delay_capacity_ms :: "delay_line \<Rightarrow> real" where
  "delay_capacity_ms l =
     real (dl_max_delay_frames l) * 1000 / real (dc_sample_rate (dl_config l))"

definition set_offset_ms :: "float_value \<Rightarrow> delay_line \<Rightarrow> delay_line \<times> delay_error option" where
  "set_offset_ms offset_ms l =
     (if \<not> delay_is_open l then (l, Some DelayNotOpen)
      else case offset_ms of
        Real ms \<Rightarrow>
          if \<not> ms \<ge> 0 \<or> ms > delay_capacity_ms l
            then (l, Some (DelayOffset offset_ms (delay_capacity_ms l)))
          else
            let frames = frames_for_ms ms (dc_sample_rate (dl_config l));
                frames = (if frames > dl_max_delay_frames l then dl_max_delay_frames l else frames);
                l1 = l\<lparr>dl_target_delay := frames\<rparr>
            in (if dl_pushed_frames l = 0 \<and> \<not> dl_fading l then l1\<lparr>dl_applied_delay := frames\<rparr> else l1,
                None)
      | _ \<Rightarrow> (l, Some (DelayOffset offset_ms (delay_capacity_ms l))))"

definition delay_offset_ms :: "delay_line \<Rightarrow> real" where
  "delay_offset_ms l = real (dl_target_delay l) * 1000 / real (dc_sample_rate (dl_config l))"

definition applied_offset_ms :: "delay_line \<Rightarrow> real" where
  "applied_offset_ms l = real (dl_applied_delay l) * 1000 / real (dc_sample_rate (dl_config l))"

definition adjusting :: "delay_line \<Rightarrow> bool" where
  "adjusting l = dl_fading l"

subsection \<open>process\<close>

definition k_pi :: real where "k_pi = 3.14159265358979323846"

definition fade_weight :: "delay_line \<Rightarrow> nat \<Rightarrow> real" where
  "fade_weight l step =
     (if dl_fade_frames l = 0 then 1
      else if step \<ge> dl_fade_frames l then 1
      else 1 / 2 * (1 - cos (k_pi * (real step / real (dl_fade_frames l)))))"

definition ring_samples :: "delay_line \<Rightarrow> nat" where
  "ring_samples l = dl_ring_frames l * dl_channels l"

definition line_sample :: "delay_line \<Rightarrow> nat \<Rightarrow> nat \<Rightarrow> int" where
  "line_sample l frame channel =
     (let index = (frame * dl_channels l + channel) mod ring_samples l in
      decode_sample (dl_sample_bytes l) (drop (index * dl_sample_bytes l) (dl_ring l)))"

definition copy_out :: "delay_line \<Rightarrow> int \<Rightarrow> nat \<Rightarrow> bytes" where
  "copy_out l first frames =
     (let frame_bytes = dl_channels l * dl_sample_bytes l;
          out = replicate (frames * frame_bytes) 0
      in if first + int frames \<le> 0 then out
         else
           let start = (if first < 0 then 0 else nat first);
               skip = (if first < 0 then nat (- first) else 0);
               count = frames - skip;
               offset = (start * dl_channels l) mod ring_samples l
           in overwrite (skip * frame_bytes)
                (ring_get (dl_sample_bytes l) (ring_samples l) offset (count * dl_channels l) (dl_ring l))
                out)"

definition blend :: "nat \<Rightarrow> real \<Rightarrow> int \<Rightarrow> int \<Rightarrow> bytes" where
  "blend sample_bytes weight a b =
     encode_sample sample_bytes (to_int32 (lround (of_int a * (1 - weight) + of_int b * weight)))"

definition fade_sample :: "delay_line \<Rightarrow> int \<Rightarrow> nat \<Rightarrow> nat \<Rightarrow> bytes" where
  "fade_sample l read_base done channel =
     (let a_frame = read_base - int (dl_fade_from l) + int done;
          b_frame = read_base - int (dl_fade_to l) + int done;
          a = (if a_frame < 0 then 0 else line_sample l (nat a_frame) channel);
          b = (if b_frame < 0 then 0 else line_sample l (nat b_frame) channel)
      in blend (dl_sample_bytes l) (fade_weight l (dl_fade_step l)) a b)"

text \<open>The end of a fade: one step on, and the new offset applied after the last.\<close>

definition fade_advance :: "delay_line \<Rightarrow> delay_line" where
  "fade_advance l =
     (let l1 = l\<lparr>dl_fade_step := dl_fade_step l + 1\<rparr> in
      if dl_fade_step l1 > dl_fade_frames l1
        then l1\<lparr>dl_fading := False, dl_applied_delay := dl_fade_to l1,
                dl_crossfades := dl_crossfades l1 + 1\<rparr>
      else l1)"

fun fade_loop :: "delay_line \<Rightarrow> int \<Rightarrow> nat \<Rightarrow> nat \<Rightarrow> delay_line \<times> bytes \<times> nat" where
  "fade_loop l read_base done 0 = (l, [], done)"
| "fade_loop l read_base done (Suc left) =
     (if \<not> dl_fading l then (l, [], done)
      else
        let out = concat (map (fade_sample l read_base done) [0..<dl_channels l]) in
        case fade_loop (fade_advance l) read_base (done + 1) left of
          (l', rest, done') \<Rightarrow> (l', out @ rest, done'))"

definition fade_begin :: "delay_line \<Rightarrow> delay_line" where
  "fade_begin l =
     (if \<not> dl_fading l \<and> dl_target_delay l \<noteq> dl_applied_delay l
      then l\<lparr>dl_fading := True, dl_fade_from := dl_applied_delay l, dl_fade_to := dl_target_delay l,
             dl_fade_step := 0\<rparr>
      else l)"

definition delay_process ::
  "bytes option \<Rightarrow> nat \<Rightarrow> delay_line \<Rightarrow> delay_line \<times> (delay_error + bytes)" where
  "delay_process input frames l =
     (if \<not> delay_is_open l then (l, Inl DelayNotOpen)
      else case input of
        None \<Rightarrow> (l, Inl DelayNoAudio)
      | Some period \<Rightarrow>
          if frames = 0 \<or> frames > dc_period_frames (dl_config l)
            then (l, Inl (DelayFrames (dc_period_frames (dl_config l))))
          else
            let offset = (dl_written_frames l * dl_channels l) mod ring_samples l;
                l1 = l\<lparr>dl_ring := ring_put (dl_sample_bytes l) (ring_samples l) offset
                         (frames * dl_channels l) period (dl_ring l),
                       dl_written_frames := dl_written_frames l + frames,
                       dl_pushed_frames := dl_pushed_frames l + frames\<rparr>;
                read_base = int (dl_written_frames l1) - int frames;
                l2 = fade_begin l1
            in case fade_loop l2 read_base 0 frames of
                 (l3, faded, done) \<Rightarrow>
                   (l3, Inr (faded @
                      (if done < frames
                       then copy_out l3 (read_base - int (dl_applied_delay l3) + int done) (frames - done)
                       else []))))"

subsection \<open>The line with unbounded memory\<close>

definition tap :: "nat \<Rightarrow> bytes \<Rightarrow> nat \<Rightarrow> nat \<Rightarrow> bytes" where
  "tap frame_bytes history p delay =
     (if p < delay then replicate frame_bytes 0 else unit_at frame_bytes history (p - delay))"

definition blend_frame :: "delay_line \<Rightarrow> bytes \<Rightarrow> bytes \<Rightarrow> bytes" where
  "blend_frame l a b =
     concat (map (\<lambda>channel. blend (dl_sample_bytes l) (fade_weight l (dl_fade_step l))
         (decode_sample (dl_sample_bytes l) (drop (channel * dl_sample_bytes l) a))
         (decode_sample (dl_sample_bytes l) (drop (channel * dl_sample_bytes l) b))) [0..<dl_channels l])"

definition spec_frame :: "bytes \<Rightarrow> nat \<Rightarrow> delay_line \<Rightarrow> delay_line \<times> bytes" where
  "spec_frame history p l =
     (let frame_bytes = dl_channels l * dl_sample_bytes l in
      if dl_fading l
      then (fade_advance l, blend_frame l (tap frame_bytes history p (dl_fade_from l))
                              (tap frame_bytes history p (dl_fade_to l)))
      else (l, tap frame_bytes history p (dl_applied_delay l)))"

fun spec_frames :: "bytes \<Rightarrow> nat \<Rightarrow> nat \<Rightarrow> delay_line \<Rightarrow> delay_line \<times> bytes" where
  "spec_frames history p 0 l = (l, [])"
| "spec_frames history p (Suc n) l =
     (case spec_frame history p l of
        (l1, out) \<Rightarrow> (case spec_frames history (p + 1) n l1 of (l2, rest) \<Rightarrow> (l2, out @ rest)))"

definition delay_spec :: "bytes \<Rightarrow> nat \<Rightarrow> delay_line \<Rightarrow> delay_line \<times> bytes" where
  "delay_spec history frames l =
     spec_frames history (dl_written_frames l) frames
       (fade_begin (l\<lparr>dl_written_frames := dl_written_frames l + frames,
                      dl_pushed_frames := dl_pushed_frames l + frames\<rparr>))"

subsection \<open>The ring in frames\<close>

lemma ring_scale:
  assumes "0 < k"
  shows "ring_put u (c * k) (s * k) (n * k) source buffer = ring_put (k * u) c s n source buffer"
    and "ring_get u (c * k) (s * k) (n * k) buffer = ring_get (k * u) c s n buffer"
proof -
  have m: "min (n * k) (c * k - s * k) = min n (c - s) * k"
    by (simp add: nat_mult_min_left diff_mult_distrib)
  have less: "min n (c - s) * k < n * k \<longleftrightarrow> min n (c - s) < n" using assms by simp
  show "ring_put u (c * k) (s * k) (n * k) source buffer = ring_put (k * u) c s n source buffer"
    "ring_get u (c * k) (s * k) (n * k) buffer = ring_get (k * u) c s n buffer"
    unfolding ring_put_def ring_get_def m Let_def less
    by (simp_all add: mult.assoc diff_mult_distrib)
qed

text \<open>The bytes of a frame, a line that can run, and what its ring still knows of the input.\<close>

definition frame_bytes :: "delay_line \<Rightarrow> nat" where
  "frame_bytes l = dl_channels l * dl_sample_bytes l"

definition delay_ok :: "delay_line \<Rightarrow> bool" where
  "delay_ok l \<longleftrightarrow> 0 < dl_channels l \<and> dl_sample_bytes l \<in> {2, 3}
     \<and> dl_max_delay_frames l + dc_period_frames (dl_config l) + 2 \<le> dl_ring_frames l
     \<and> length (dl_ring l) = dl_ring_frames l * frame_bytes l
     \<and> dl_applied_delay l \<le> dl_max_delay_frames l \<and> dl_target_delay l \<le> dl_max_delay_frames l
     \<and> (dl_fading l \<longrightarrow> dl_fade_from l \<le> dl_max_delay_frames l
          \<and> dl_fade_to l \<le> dl_max_delay_frames l)"

definition remembers :: "delay_line \<Rightarrow> bytes \<Rightarrow> bool" where
  "remembers l history \<longleftrightarrow> length history = dl_written_frames l * frame_bytes l
     \<and> (\<forall>f < dl_written_frames l. dl_written_frames l \<le> f + dl_ring_frames l \<longrightarrow>
          unit_at (frame_bytes l) (dl_ring l) (f mod dl_ring_frames l)
            = unit_at (frame_bytes l) history f)"

lemma rememberedD:
  "remembers l h \<Longrightarrow> f < dl_written_frames l \<Longrightarrow> dl_written_frames l \<le> f + dl_ring_frames l \<Longrightarrow>
     unit_at (frame_bytes l) (dl_ring l) (f mod dl_ring_frames l) = unit_at (frame_bytes l) h f"
  by (simp add: remembers_def)

lemma delay_okD:
  assumes "delay_ok l"
  shows "0 < dl_channels l" and "dl_sample_bytes l \<in> {2, 3}" and "0 < dl_ring_frames l"
    and "0 < frame_bytes l" and "length (dl_ring l) = dl_ring_frames l * frame_bytes l"
    and "dl_max_delay_frames l + dc_period_frames (dl_config l) + 2 \<le> dl_ring_frames l"
    and "dl_applied_delay l \<le> dl_max_delay_frames l"
    and "dl_target_delay l \<le> dl_max_delay_frames l"
  using assms by (auto simp: delay_ok_def frame_bytes_def)

lemma offset_in_frames: "(w * ch) mod ring_samples l = (w mod dl_ring_frames l) * ch"
  if "ch = dl_channels l" for w
  using that by (simp add: ring_samples_def mod_mult_mult2)

text \<open>Writing a period keeps the memory, with the period added to the history.\<close>

lemma write_remembers:
  assumes ok: "delay_ok l" and mem: "remembers l h"
    and n: "n \<le> dc_period_frames (dl_config l)" and input: "length input = n * frame_bytes l"
  defines "l1 \<equiv> l\<lparr>dl_ring := ring_put (dl_sample_bytes l) (ring_samples l)
        ((dl_written_frames l * dl_channels l) mod ring_samples l) (n * dl_channels l) input (dl_ring l),
      dl_written_frames := dl_written_frames l + n, dl_pushed_frames := dl_pushed_frames l + n\<rparr>"
  shows "delay_ok l1" and "remembers l1 (h @ input)"
proof -
  let ?R = "dl_ring_frames l" and ?w = "dl_written_frames l" and ?u = "frame_bytes l"
  let ?s = "dl_written_frames l mod dl_ring_frames l"
  note o = delay_okD [OF ok]
  have ring: "dl_ring l1 = ring_put ?u ?R ?s n input (dl_ring l)"
    unfolding l1_def frame_bytes_def offset_in_frames [OF refl]
    by (simp add: ring_samples_def ring_scale(1) [OF o(1), of "dl_sample_bytes l"])
  have s: "?s < ?R" using o(3) by simp
  have nR: "n \<le> ?R" using n o(6) by linarith
  note put = ring_put_fits [OF s nR input o(5), folded ring]
  have same: "frame_bytes l1 = ?u" "dl_ring_frames l1 = ?R" "dl_written_frames l1 = ?w + n"
    by (simp_all add: l1_def frame_bytes_def)
  show "delay_ok l1" using ok put(1) by (simp add: delay_ok_def l1_def frame_bytes_def)
  have h: "length h = ?w * ?u" using mem by (simp add: remembers_def)
  have "unit_at ?u (dl_ring l1) (f mod ?R) = unit_at ?u (h @ input) f"
    if f: "f < ?w + n" "?w + n \<le> f + ?R" for f
  proof -
    have k: "f mod ?R < ?R" using o(3) by simp
    show ?thesis
    proof (cases "?w \<le> f")
      case True
      define j where "j = f - ?w"
      have j: "f = ?w + j" "j < n" using True f by (auto simp: j_def)
      have "f mod ?R = (?s + j) mod ?R" unfolding j(1) by (simp add: mod_simps)
      moreover have "((?s + j) mod ?R + ?R - ?s) mod ?R = j"
        using slot_distance [of ?s ?R j 0] s j nR by simp
      ultimately show ?thesis
        using put(2) [OF k] j unit_at_append [OF h, of input f] by simp
    next
      case False
      define j where "j = f + ?R - ?w"
      have j: "?w + j = f + ?R" "j < ?R" "n \<le> j" using False f by (auto simp: j_def)
      have "f mod ?R = (?w + j) mod ?R" unfolding j(1) by simp
      then have "f mod ?R = (?s + j) mod ?R" by (simp add: mod_simps)
      moreover have "((?s + j) mod ?R + ?R - ?s) mod ?R = j"
        using slot_distance [of ?s ?R j 0] s j by simp
      ultimately have "unit_at ?u (dl_ring l1) (f mod ?R) = unit_at ?u (dl_ring l) (f mod ?R)"
        using put(2) [OF k] j by simp
      also have "\<dots> = unit_at ?u h f" using rememberedD [OF mem, of f] False f by simp
      finally show ?thesis using False unit_at_append [OF h, of input f] by simp
    qed
  qed
  then show "remembers l1 (h @ input)"
    using h input by (simp add: remembers_def same add_mult_distrib)
qed

subsection \<open>Reading back\<close>

lemma decode_take:
  "w \<in> {2, 3} \<Longrightarrow> w \<le> length xs \<Longrightarrow> decode_sample w (take w xs) = decode_sample w xs"
  using s24.dec_take [of xs] s16.dec_take [of xs] by auto

lemma decode_zeros: "w \<in> {2, 3} \<Longrightarrow> w + k \<le> n \<Longrightarrow> decode_sample w (drop k (replicate n 0)) = 0"
  by (auto simp: decode_sample_def Let_def)

lemma decode_in_frame:
  assumes "w \<in> {2, 3}" "c < ch" "k < n" "length xs = n * (ch * w)"
  shows "decode_sample w (drop (c * w) (unit_at (ch * w) xs k)) = decode_sample w (drop ((k * ch + c) * w) xs)"
proof -
  have cw: "c * w + w \<le> ch * w" using slot_in_buffer [OF assms(2), of w] .
  have kw: "k * (ch * w) + ch * w \<le> length xs" using slot_in_buffer [OF assms(3)] assms(4) by simp
  have "take w (drop (c * w) (unit_at (ch * w) xs k)) = take w (drop ((k * ch + c) * w) xs)"
    using cw by (simp add: unit_at_def chunk_def drop_take take_take min_def algebra_simps)
  moreover have "w \<le> length (drop (c * w) (unit_at (ch * w) xs k))"
    using length_unit_at [OF assms(3,4)] cw by simp
  moreover have "w \<le> length (drop ((k * ch + c) * w) xs)"
    using cw kw by (simp add: algebra_simps)
  ultimately show ?thesis using decode_take [OF assms(1)] by metis
qed

lemma frame_index: "c < ch \<Longrightarrow> (a * ch + c) mod (n * ch) = (a mod n) * ch + (c :: nat)"
proof -
  assume c: "c < ch"
  have "(a * ch + c) mod (ch * n) = ch * ((a * ch + c) div ch mod n) + (a * ch + c) mod ch"
    by (rule mod_mult2_eq)
  then show ?thesis using c by (simp add: mult.commute)
qed

text \<open>A frame that can still be asked for: at most the longest delay before the last period.\<close>

definition reachable_frame :: "delay_line \<Rightarrow> nat \<Rightarrow> bool" where
  "reachable_frame l p \<longleftrightarrow> p < dl_written_frames l
     \<and> dl_written_frames l \<le> p + dc_period_frames (dl_config l)"

lemma tap_ring:
  assumes "delay_ok l" "remembers l h" "reachable_frame l p" "d \<le> dl_max_delay_frames l" "d \<le> p"
  shows "tap (frame_bytes l) h p d = unit_at (frame_bytes l) (dl_ring l) ((p - d) mod dl_ring_frames l)"
proof -
  have "p - d < dl_written_frames l" "dl_written_frames l \<le> (p - d) + dl_ring_frames l"
    using assms(3,4,5) delay_okD(6) [OF assms(1)] by (auto simp: reachable_frame_def)
  then show ?thesis using rememberedD [OF assms(2)] assms(5) by (simp add: tap_def)
qed

lemma tap_sample:
  assumes ok: "delay_ok l" and mem: "remembers l h" and p: "reachable_frame l p"
    and d: "d \<le> dl_max_delay_frames l" and c: "c < dl_channels l"
  shows "(if int p - int d < 0 then 0 else line_sample l (nat (int p - int d)) c)
    = decode_sample (dl_sample_bytes l) (drop (c * dl_sample_bytes l) (tap (frame_bytes l) h p d))"
proof -
  note o = delay_okD [OF ok]
  have fb: "frame_bytes l = dl_channels l * dl_sample_bytes l" by (simp add: frame_bytes_def)
  show ?thesis
  proof (cases "p < d")
    case True
    have "dl_sample_bytes l + c * dl_sample_bytes l \<le> frame_bytes l"
      using slot_in_buffer [OF c, of "dl_sample_bytes l"] fb by simp
    then show ?thesis using True decode_zeros [OF o(2)] by (simp add: tap_def)
  next
    case False
    let ?f = "p - d"
    have i: "(?f * dl_channels l + c) mod ring_samples l = (?f mod dl_ring_frames l) * dl_channels l + c"
      unfolding ring_samples_def by (rule frame_index [OF c])
    have k: "?f mod dl_ring_frames l < dl_ring_frames l" using o(3) by simp
    have "line_sample l ?f c
        = decode_sample (dl_sample_bytes l) (drop (c * dl_sample_bytes l)
            (unit_at (frame_bytes l) (dl_ring l) (?f mod dl_ring_frames l)))"
      using decode_in_frame [OF o(2) c k] o(5) unfolding line_sample_def i fb by simp
    moreover have "nat (int p - int d) = ?f" using False by simp
    ultimately show ?thesis using tap_ring [OF ok mem p d] False by simp
  qed
qed

lemma fade_samples:
  assumes ok: "delay_ok l" and mem: "remembers l h" and p: "reachable_frame l (b + done)"
    and fading: "dl_fading l"
  shows "concat (map (fade_sample l (int b) done) [0..<dl_channels l])
    = blend_frame l (tap (frame_bytes l) h (b + done) (dl_fade_from l))
        (tap (frame_bytes l) h (b + done) (dl_fade_to l))"
proof -
  have d: "dl_fade_from l \<le> dl_max_delay_frames l" "dl_fade_to l \<le> dl_max_delay_frames l"
    using ok fading by (auto simp: delay_ok_def)
  have move: "int b - int d + int done = int (b + done) - int d" for d by simp
  have "fade_sample l (int b) done c
      = blend (dl_sample_bytes l) (fade_weight l (dl_fade_step l))
          (decode_sample (dl_sample_bytes l) (drop (c * dl_sample_bytes l)
            (tap (frame_bytes l) h (b + done) (dl_fade_from l))))
          (decode_sample (dl_sample_bytes l) (drop (c * dl_sample_bytes l)
            (tap (frame_bytes l) h (b + done) (dl_fade_to l))))" if "c < dl_channels l" for c
    unfolding fade_sample_def Let_def move
    unfolding tap_sample [OF ok mem p d(1) that] tap_sample [OF ok mem p d(2) that] ..
  then show ?thesis unfolding blend_frame_def by (intro arg_cong [of _ _ concat] map_cong) auto
qed

lemma length_tap:
  "length h = w * u \<Longrightarrow> p < w \<Longrightarrow> length (tap u h p d) = u"
  using length_unit_at [of "p - d" w h u] by (simp add: tap_def)

definition taps :: "nat \<Rightarrow> bytes \<Rightarrow> nat \<Rightarrow> nat \<Rightarrow> nat \<Rightarrow> bytes" where
  "taps u h p d n = concat (map (\<lambda>i. tap u h (p + i) d) [0..<n])"

lemma taps_Suc: "taps u h p d (Suc n) = tap u h p d @ taps u h (p + 1) d n"
proof -
  have "map (\<lambda>i. tap u h (p + i) d) [0..<Suc n]
      = tap u h p d # map (\<lambda>i. tap u h (p + 1 + i) d) [0..<n]"
    by (rule nth_equalityI) (auto simp: nth_Cons' less_Suc_eq_0_disj simp del: upt_Suc)
  then show ?thesis by (simp add: taps_def)
qed

lemma taps_0: "taps u h p d 0 = []"
  by (simp add: taps_def)

text \<open>The bulk copy is the frames one by one.\<close>

lemma copy_out_taps:
  assumes ok: "delay_ok l" and mem: "remembers l h"
    and p: "\<And>i. i < n \<Longrightarrow> reachable_frame l (b + i)" and n: "0 < n"
    and d: "d \<le> dl_max_delay_frames l"
  shows "copy_out l (int b - int d) n = taps (frame_bytes l) h b d n"
proof -
  let ?u = "frame_bytes l" and ?R = "dl_ring_frames l"
  note o = delay_okD [OF ok]
  have fb: "dl_channels l * dl_sample_bytes l = ?u" by (simp add: frame_bytes_def)
  have h: "length h = dl_written_frames l * ?u" using mem by (simp add: remembers_def)
  have taps_len: "length (taps ?u h b d m) = m * ?u \<and> (\<forall>k<m. unit_at ?u (taps ?u h b d m) k
      = tap ?u h (b + k) d)" if "m \<le> n" for m
    using that
  proof (induction m)
    case (Suc m)
    have t: "taps ?u h b d (Suc m) = taps ?u h b d m @ tap ?u h (b + m) d"
      by (simp add: taps_def)
    have "b + m < dl_written_frames l" using p [of m] Suc.prems by (simp add: reachable_frame_def)
    then have lt: "length (tap ?u h (b + m) d) = ?u" by (rule length_tap [OF h])
    have one: "unit_at ?u (tap ?u h (b + m) d) 0 = tap ?u h (b + m) d"
      using lt by (simp add: unit_at_def chunk_def)
    have len: "length (taps ?u h b d m) = m * ?u" using Suc by simp
    show ?case
      unfolding t using Suc lt one unit_at_append [OF len, of "tap ?u h (b + m) d"]
      by (auto simp: less_Suc_eq)
  qed (simp add: taps_def)
  show ?thesis
  proof (cases "b + n \<le> d")
    case True
    then have "copy_out l (int b - int d) n = replicate (n * ?u) 0"
      by (simp add: copy_out_def fb Let_def)
    moreover have "taps ?u h b d n = replicate (n * ?u) 0"
    proof (rule units_eqI [of _ n ?u])
      fix k assume k: "k < n"
      then have "tap ?u h (b + k) d = replicate ?u 0" using True by (simp add: tap_def)
      moreover have "unit_at ?u (replicate (n * ?u) (0 :: u8)) k = replicate ?u 0"
        using slot_in_buffer [OF k, of ?u] by (simp add: unit_at_def chunk_def min_def)
      ultimately show "unit_at ?u (taps ?u h b d n) k = unit_at ?u (replicate (n * ?u) 0) k"
        using taps_len k by simp
    qed (use taps_len in simp_all)
    ultimately show ?thesis by simp
  next
    case False
    define skip where "skip = d - b"
    define start where "start = b - d"
    have split: "(if int b - int d < 0 then nat (- (int b - int d)) else 0) = skip"
      "(if int b - int d < 0 then 0 else nat (int b - int d)) = start"
      by (auto simp: skip_def start_def)
    have sn: "skip < n" using False n by (auto simp: skip_def)
    let ?get = "ring_get ?u ?R (start mod ?R) (n - skip) (dl_ring l)"
    have neg: "\<not> int b - int d + int n \<le> 0" using False by linarith
    have co: "copy_out l (int b - int d) n = overwrite (skip * ?u) ?get (replicate (n * ?u) 0)"
      unfolding copy_out_def Let_def fb if_not_P [OF neg] split offset_in_frames [OF refl]
      by (simp add: ring_samples_def ring_scale(2) [OF o(1), of "dl_sample_bytes l"] fb)
    have nR: "n - skip \<le> ?R"
      using p [of 0] p [of "n - 1"] n o(6) by (auto simp: reachable_frame_def)
    have sR: "start mod ?R < ?R" using o(3) by simp
    note get = ring_get_fits [OF sR nR o(5)]
    have zl: "length (replicate (n * ?u) (0 :: u8)) = n * ?u" by simp
    have sk: "skip + (n - skip) \<le> n" using sn by simp
    show ?thesis
    proof (rule units_eqI [of _ n ?u])
      show "length (copy_out l (int b - int d) n) = n * ?u"
        unfolding co using length_overwrite [of "skip * ?u" ?get "replicate (n * ?u) 0"] get(1) sn
        by (simp add: diff_mult_distrib)
      show "length (taps ?u h b d n) = n * ?u" using taps_len by simp
      fix k assume k: "k < n"
      have unit: "unit_at ?u (copy_out l (int b - int d) n) k
          = (if skip \<le> k then unit_at ?u ?get (k - skip) else unit_at ?u (replicate (n * ?u) 0) k)"
        unfolding co using unit_at_overwrite [OF k zl get(1) sk] k by simp
      show "unit_at ?u (copy_out l (int b - int d) n) k = unit_at ?u (taps ?u h b d n) k"
      proof (cases "skip \<le> k")
        case True
        then have j: "k - skip < n - skip" "start + (k - skip) = b + k - d" "d \<le> b + k"
          using k by (auto simp: skip_def start_def)
        have "unit_at ?u ?get (k - skip) = unit_at ?u (dl_ring l) ((b + k - d) mod ?R)"
          unfolding get(2) [OF j(1)] by (simp add: mod_simps j(2))
        then show ?thesis
          using unit True taps_len k tap_ring [OF ok mem p [OF k] d j(3)] by simp
      next
        case sk: False
        then have "b + k < d" by (auto simp: skip_def)
        moreover have "unit_at ?u (replicate (n * ?u) (0 :: u8)) k = replicate ?u 0"
          using slot_in_buffer [OF k, of ?u] by (simp add: unit_at_def chunk_def min_def)
        ultimately show ?thesis using unit sk taps_len k by (simp add: tap_def)
      qed
    qed
  qed
qed

subsection \<open>A period of the line is a period of the specification\<close>

lemma fade_advance_fields [simp]:
  "dl_ring (fade_advance l) = dl_ring l" "dl_channels (fade_advance l) = dl_channels l"
  "dl_sample_bytes (fade_advance l) = dl_sample_bytes l" "dl_config (fade_advance l) = dl_config l"
  "dl_ring_frames (fade_advance l) = dl_ring_frames l"
  "dl_max_delay_frames (fade_advance l) = dl_max_delay_frames l"
  "dl_written_frames (fade_advance l) = dl_written_frames l"
  "dl_target_delay (fade_advance l) = dl_target_delay l"
  "frame_bytes (fade_advance l) = frame_bytes l"
  by (simp_all add: fade_advance_def frame_bytes_def Let_def)

lemma fade_advance_keeps:
  "delay_ok l \<Longrightarrow> dl_fading l \<Longrightarrow> delay_ok (fade_advance l)"
  "remembers l h \<Longrightarrow> remembers (fade_advance l) h"
  "reachable_frame l p \<Longrightarrow> reachable_frame (fade_advance l) p"
  by (auto simp: delay_ok_def fade_advance_def frame_bytes_def remembers_def reachable_frame_def Let_def)

lemma fade_begin_keeps:
  "delay_ok l \<Longrightarrow> delay_ok (fade_begin l)"
  "remembers l h \<Longrightarrow> remembers (fade_begin l) h"
  "reachable_frame l p \<Longrightarrow> reachable_frame (fade_begin l) p"
  "frame_bytes (fade_begin l) = frame_bytes l" "dl_ring (fade_begin l) = dl_ring l"
  by (auto simp: delay_ok_def fade_begin_def frame_bytes_def remembers_def reachable_frame_def)

lemma spec_steady:
  "\<not> dl_fading l \<Longrightarrow> spec_frames h p n l = (l, taps (frame_bytes l) h p (dl_applied_delay l) n)"
proof (induction n arbitrary: p)
  case (Suc n)
  then show ?case by (simp add: spec_frame_def taps_Suc frame_bytes_def Let_def)
qed (simp add: taps_def)

lemma fade_loop_spec:
  assumes "delay_ok l" "remembers l h"
    and "\<And>i. done \<le> i \<Longrightarrow> i < done + left \<Longrightarrow> reachable_frame l (b + i)"
    and "fade_loop l (int b) done left = (l', out, done')"
  shows "delay_ok l' \<and> remembers l' h \<and> done \<le> done' \<and> done' \<le> done + left
    \<and> (\<forall>p. reachable_frame l p \<longrightarrow> reachable_frame l' p) \<and> frame_bytes l' = frame_bytes l
    \<and> dl_ring l' = dl_ring l \<and> dl_config l' = dl_config l
    \<and> spec_frames h (b + done) left l
      = (l', out @ taps (frame_bytes l) h (b + done') (dl_applied_delay l') (done + left - done'))"
  using assms
proof (induction left arbitrary: l "done" out)
  case 0
  then show ?case by (simp add: taps_0)
next
  case (Suc left)
  show ?case
  proof (cases "dl_fading l")
    case False
    then show ?thesis using Suc.prems spec_steady [OF False, of h "b + done" "Suc left"] by auto
  next
    case True
    let ?l1 = "fade_advance l"
    let ?out = "concat (map (fade_sample l (int b) done) [0..<dl_channels l])"
    obtain out1 where r: "fade_loop ?l1 (int b) (done + 1) left = (l', out1, done')" "out = ?out @ out1"
      using Suc.prems(4) True by (auto split: prod.splits)
    have reach: "reachable_frame ?l1 (b + i)" if "done + 1 \<le> i" "i < done + 1 + left" for i
      using Suc.prems(3) [of i] that by (intro fade_advance_keeps(3)) auto
    note IH = Suc.IH [OF fade_advance_keeps(1) [OF Suc.prems(1) True]
        fade_advance_keeps(2) [OF Suc.prems(2)] reach r(1)]
    have "?out = blend_frame l (tap (frame_bytes l) h (b + done) (dl_fade_from l))
        (tap (frame_bytes l) h (b + done) (dl_fade_to l))"
      by (rule fade_samples [OF Suc.prems(1,2) _ True]) (use Suc.prems(3) in auto)
    then have "spec_frame h (b + done) l = (?l1, ?out)"
      using True by (simp add: spec_frame_def frame_bytes_def Let_def)
    then show ?thesis using IH r(2) fade_advance_keeps(3) by (auto simp: add.assoc)
  qed
qed

text \<open>The specification does not look at the ring.\<close>

lemma spec_frame_ring:
  "spec_frame h p (l\<lparr>dl_ring := r\<rparr>)
     = (case spec_frame h p l of (l', out) \<Rightarrow> (l'\<lparr>dl_ring := r\<rparr>, out))"
  by (simp add: spec_frame_def fade_advance_def blend_frame_def fade_weight_def Let_def)

lemma spec_frames_ring:
  "spec_frames h p n (l\<lparr>dl_ring := r\<rparr>)
     = (case spec_frames h p n l of (l', out) \<Rightarrow> (l'\<lparr>dl_ring := r\<rparr>, out))"
proof (induction n arbitrary: p l)
  case (Suc n)
  obtain l1 out where f: "spec_frame h p l = (l1, out)" by (cases "spec_frame h p l")
  show ?case using Suc [of "p + 1" l1] f spec_frame_ring [of h p r l] by (simp split: prod.splits)
qed simp

lemma delay_spec_ring:
  "delay_spec h n (l\<lparr>dl_ring := r\<rparr>)
     = (case delay_spec h n l of (l', out) \<Rightarrow> (l'\<lparr>dl_ring := r\<rparr>, out))"
proof -
  let ?l = "l\<lparr>dl_written_frames := dl_written_frames l + n, dl_pushed_frames := dl_pushed_frames l + n\<rparr>"
  have begin_ring: "fade_begin (m\<lparr>dl_ring := r\<rparr>) = (fade_begin m)\<lparr>dl_ring := r\<rparr>" for m
    by (simp add: fade_begin_def)
  let ?r = "l\<lparr>dl_ring := r\<rparr>"
  have order: "?r\<lparr>dl_written_frames := dl_written_frames ?r + n,
      dl_pushed_frames := dl_pushed_frames ?r + n\<rparr> = ?l\<lparr>dl_ring := r\<rparr>" by simp
  have written: "dl_written_frames ?r = dl_written_frames l" by simp
  show ?thesis
    unfolding delay_spec_def order begin_ring unfolding written by (rule spec_frames_ring)
qed

lemma delay_spec_keeps_ring: "delay_spec h n l = (l', out) \<Longrightarrow> dl_ring l' = dl_ring l"
proof -
  assume s: "delay_spec h n l = (l', out)"
  have "l\<lparr>dl_ring := dl_ring l\<rparr> = l" by simp
  then have "(l', out) = (l'\<lparr>dl_ring := dl_ring l\<rparr>, out)"
    using delay_spec_ring [of h n "dl_ring l" l] s by simp
  then have "l' = l'\<lparr>dl_ring := dl_ring l\<rparr>" by simp
  then show ?thesis by (metis delay_line.select_convs(7) delay_line.surjective delay_line.update_convs(7))
qed

lemma process_spec:
  assumes ok: "delay_ok l" and mem: "remembers l h"
    and n: "0 < n" "n \<le> dc_period_frames (dl_config l)" and input: "length input = n * frame_bytes l"
  obtains l' out where "delay_process (Some input) n l = (l', Inr out)"
    and "delay_ok l'" and "remembers l' (h @ input)"
    and "delay_spec (h @ input) n (l\<lparr>dl_ring := dl_ring l'\<rparr>) = (l', out)"
    and "frame_bytes l' = frame_bytes l" and "dl_config l' = dl_config l"
proof -
  define l1 where "l1 = l\<lparr>dl_ring := ring_put (dl_sample_bytes l) (ring_samples l)
        ((dl_written_frames l * dl_channels l) mod ring_samples l) (n * dl_channels l) input (dl_ring l),
      dl_written_frames := dl_written_frames l + n, dl_pushed_frames := dl_pushed_frames l + n\<rparr>"
  note w = write_remembers [OF ok mem n(2) input, folded l1_def]
  let ?l2 = "fade_begin l1" and ?b = "dl_written_frames l"
  have l2: "delay_ok ?l2" "remembers ?l2 (h @ input)" "frame_bytes ?l2 = frame_bytes l"
    using fade_begin_keeps(1,2,4) w by (simp_all add: l1_def frame_bytes_def)
  have reach: "reachable_frame ?l2 (?b + i)" if "0 \<le> i" "i < 0 + n" for i
    using that n(2) by (intro fade_begin_keeps(3)) (simp add: l1_def reachable_frame_def)
  obtain l3 faded d where f: "fade_loop ?l2 (int ?b) 0 n = (l3, faded, d)"
    by (cases "fade_loop ?l2 (int ?b) 0 n")
  note s = fade_loop_spec [OF l2(1,2) reach f]
  have base: "int (dl_written_frames l1) - int n = int ?b" by (simp add: l1_def)
  have tail: "(if d < n then copy_out l3 (int ?b - int (dl_applied_delay l3) + int d) (n - d) else [])
      = taps (frame_bytes l) (h @ input) (?b + d) (dl_applied_delay l3) (n - d)"
  proof (cases "d < n")
    case True
    have "reachable_frame l3 (?b + d + i)" if "i < n - d" for i
      using s reach [of "d + i"] that by (simp add: add.assoc)
    moreover have "dl_applied_delay l3 \<le> dl_max_delay_frames l3" using s delay_okD(7) by blast
    ultimately have "copy_out l3 (int (?b + d) - int (dl_applied_delay l3)) (n - d)
        = taps (frame_bytes l3) (h @ input) (?b + d) (dl_applied_delay l3) (n - d)"
      using copy_out_taps [of l3 "h @ input" "n - d" "?b + d"] s True by simp
    moreover have move: "int ?b - int (dl_applied_delay l3) + int d = int (?b + d) - int (dl_applied_delay l3)"
      by simp
    ultimately show ?thesis using True s l2(3) unfolding move by simp
  qed (simp add: taps_0)
  have is_open: "delay_is_open l"
    using delay_okD(3,4,5) [OF ok] by (auto simp: delay_is_open_def)
  let ?out = "faded @ taps (frame_bytes l) (h @ input) (?b + d) (dl_applied_delay l3) (n - d)"
  have "delay_process (Some input) n l = (l3, Inr ?out)"
    unfolding delay_process_def using is_open n base f tail
    by (cases "d < n") (simp_all add: Let_def l1_def [symmetric])
  moreover have "delay_spec (h @ input) n (l\<lparr>dl_ring := dl_ring l3\<rparr>) = (l3, ?out)"
  proof -
    have "dl_ring l3 = dl_ring l1" using s fade_begin_keeps(5) by simp
    then have "delay_spec (h @ input) n (l\<lparr>dl_ring := dl_ring l3\<rparr>) = spec_frames (h @ input) ?b n ?l2"
      by (simp add: delay_spec_def l1_def)
    then show ?thesis using s l2(3) by simp
  qed
  moreover have "dl_config l3 = dl_config l" using s by (simp add: fade_begin_def l1_def)
  ultimately show ?thesis using that [of l3 ?out] s l2(3) by simp
qed

subsection \<open>Runs of a line\<close>

lemma open_ok:
  assumes "delay_open config l = (l', None)"
  shows "delay_ok l'" and "remembers l' []" and "dl_written_frames l' = 0"
    and "frame_bytes l' = dc_channels config * dc_sample_bytes config"
    and "dl_config l' = config" and "\<not> dl_fading l'" "dl_applied_delay l' = 0"
  using assms
  by (auto simp: delay_open_def delay_ok_def remembers_def frame_bytes_def mult.assoc Let_def
      split: if_splits)

lemma set_offset_keeps:
  assumes "set_offset_ms offset l = (l', r)" "delay_ok l" "remembers l h"
  shows "delay_ok l'" and "remembers l' h" and "dl_config l' = dl_config l"
    and "frame_bytes l' = frame_bytes l"
  using assms
  by (auto simp: set_offset_ms_def delay_ok_def remembers_def frame_bytes_def Let_def
      split: if_splits float_value.splits)

datatype delay_event = Offset float_value | Period bytes

fun delay_run :: "delay_line \<Rightarrow> delay_event list \<Rightarrow> delay_line \<times> bytes" where
  "delay_run l [] = (l, [])"
| "delay_run l (Offset ms # es) = delay_run (fst (set_offset_ms ms l)) es"
| "delay_run l (Period input # es) =
     (case delay_process (Some input) (length input div frame_bytes l) l of
        (l1, Inl e) \<Rightarrow> delay_run l1 es
      | (l1, Inr out) \<Rightarrow> (case delay_run l1 es of (l2, rest) \<Rightarrow> (l2, out @ rest)))"

text \<open>The same run over the specification; \<open>history\<close> is all the input so far.\<close>

fun spec_run :: "bytes \<Rightarrow> delay_line \<Rightarrow> delay_event list \<Rightarrow> bytes" where
  "spec_run history l [] = []"
| "spec_run history l (Offset ms # es) = spec_run history (fst (set_offset_ms ms l)) es"
| "spec_run history l (Period input # es) =
     (case delay_spec (history @ input) (length input div frame_bytes l) l of
        (l1, out) \<Rightarrow> out @ spec_run (history @ input) l1 es)"

definition whole_periods :: "delay_config \<Rightarrow> delay_event list \<Rightarrow> bool" where
  "whole_periods config es \<longleftrightarrow> (\<forall>input. Period input \<in> set es \<longrightarrow>
     (\<exists>n. 0 < n \<and> n \<le> dc_period_frames config
        \<and> length input = n * (dc_channels config * dc_sample_bytes config)))"

text \<open>The ring plays no part in the specification, but an open one is not empty.\<close>

lemma set_offset_ring:
  assumes "r \<noteq> []" "dl_ring l \<noteq> []"
  shows "fst (set_offset_ms ms (l\<lparr>dl_ring := r\<rparr>)) = (fst (set_offset_ms ms l))\<lparr>dl_ring := r\<rparr>"
  using assms
  by (simp add: set_offset_ms_def delay_is_open_def delay_capacity_ms_def Let_def
      split: float_value.split)

lemma spec_run_ring:
  assumes "r \<noteq> []" "dl_ring l \<noteq> []"
  shows "spec_run h (l\<lparr>dl_ring := r\<rparr>) es = spec_run h l es"
  using assms(2)
proof (induction es arbitrary: h l)
  case (Cons e es)
  show ?case
  proof (cases e)
    case (Offset ms)
    have "dl_ring (fst (set_offset_ms ms l)) = dl_ring l"
      by (simp add: set_offset_ms_def Let_def split: float_value.split)
    then have "spec_run h ((fst (set_offset_ms ms l))\<lparr>dl_ring := r\<rparr>) es
        = spec_run h (fst (set_offset_ms ms l)) es"
      using Cons by simp
    then show ?thesis using Offset set_offset_ring [OF assms(1) Cons.prems] by simp
  next
    case (Period input)
    let ?n = "length input div frame_bytes l"
    obtain l1 out where s: "delay_spec (h @ input) ?n l = (l1, out)"
      by (cases "delay_spec (h @ input) ?n l")
    have "delay_spec (h @ input) ?n (l\<lparr>dl_ring := r\<rparr>) = (l1\<lparr>dl_ring := r\<rparr>, out)"
      using s by (simp add: delay_spec_ring)
    moreover have "dl_ring l1 = dl_ring l" using s by (rule delay_spec_keeps_ring)
    ultimately show ?thesis
      using Period s Cons by (simp add: frame_bytes_def)
  qed
qed simp

lemma delay_run_spec:
  assumes "delay_ok l" "remembers l h" "whole_periods (dl_config l) es"
    and "frame_bytes l = dc_channels (dl_config l) * dc_sample_bytes (dl_config l)"
  shows "snd (delay_run l es) = spec_run h l es"
  using assms
proof (induction es arbitrary: l h)
  case (Cons e es)
  have rest: "whole_periods (dl_config l) es" using Cons.prems(3) by (simp add: whole_periods_def)
  show ?case
  proof (cases e)
    case (Offset ms)
    obtain l1 r where s: "set_offset_ms ms l = (l1, r)" by (cases "set_offset_ms ms l")
    note k = set_offset_keeps [OF s Cons.prems(1,2)]
    show ?thesis using Cons.IH [OF k(1,2)] rest k(3,4) Cons.prems(4) Offset s by simp
  next
    case (Period input)
    obtain n where n: "0 < n" "n \<le> dc_period_frames (dl_config l)" "length input = n * frame_bytes l"
      using Cons.prems(3,4) Period by (auto simp: whole_periods_def)
    have div: "length input div frame_bytes l = n"
      using n(3) delay_okD(4) [OF Cons.prems(1)] by simp
    obtain l1 out where p: "delay_process (Some input) n l = (l1, Inr out)" "delay_ok l1"
      "remembers l1 (h @ input)"
      "delay_spec (h @ input) n (l\<lparr>dl_ring := dl_ring l1\<rparr>) = (l1, out)" "frame_bytes l1 = frame_bytes l"
      and config: "dl_config l1 = dl_config l"
      using process_spec [OF Cons.prems(1,2) n] by blast
    have rings: "dl_ring l1 \<noteq> []" "dl_ring l \<noteq> []"
      using delay_okD(3,4,5) [OF p(2)] delay_okD(3,4,5) [OF Cons.prems(1)] by auto
    have "spec_run h l (e # es) = spec_run h (l\<lparr>dl_ring := dl_ring l1\<rparr>) (e # es)"
      using spec_run_ring [OF rings] by simp
    also have "\<dots> = out @ spec_run (h @ input) l1 es"
      using Period p(4) div by (simp add: frame_bytes_def)
    finally have "spec_run h l (e # es) = out @ spec_run (h @ input) l1 es" .
    moreover have "snd (delay_run l1 es) = spec_run (h @ input) l1 es"
      by (rule Cons.IH) (use p rest config Cons.prems(4) in auto)
    moreover have "snd (delay_run l (e # es)) = out @ snd (delay_run l1 es)"
      using Period p(1) div by (simp add: case_prod_unfold)
    ultimately show ?thesis by simp
  qed
qed simp

subsection \<open>A steady line\<close>

lemma taps_split: "taps u h p d (m + n) = taps u h p d m @ taps u h (p + m) d n"
  by (induction m arbitrary: p) (simp_all add: taps_0 taps_Suc)

lemma taps_append:
  assumes "length h = w * u" "p + n \<le> w"
  shows "taps u (h @ x) p d n = taps u h p d n"
  using assms(2)
proof (induction n arbitrary: p)
  case (Suc n)
  have "p - d < w" using Suc.prems by simp
  then have "tap u (h @ x) p d = tap u h p d"
    using unit_at_append [OF assms(1), of x "p - d"] by (simp add: tap_def)
  then show ?case using Suc by (simp add: taps_Suc)
qed (simp add: taps_0)

lemma taps_whole:
  assumes "length h = n * u"
  shows "taps u h 0 d n = take (n * u) (replicate (d * u) 0 @ h)"
  using assms
proof (induction n arbitrary: h)
  case (Suc n)
  let ?h = "take (n * u) h" and ?z = "replicate (d * u) (0 :: u8)"
  have h: "length ?h = n * u" "h = ?h @ drop (n * u) h" using Suc.prems by simp_all
  have split: "taps u h 0 d (n + 1) = taps u h 0 d n @ taps u h n d 1"
    using taps_split [of u h 0 d n 1] by simp
  have "taps u h 0 d n = taps u ?h 0 d n"
    using taps_append [OF h(1), of 0 n "drop (n * u) h" d] h(2) by simp
  also have "\<dots> = take (n * u) (?z @ ?h)" using Suc.IH [OF h(1)] .
  also have "\<dots> = take (n * u) (?z @ h)" by (simp add: min_def)
  finally have front: "taps u h 0 d n = take (n * u) (?z @ h)" .
  have "taps u h n d 1 = take u (drop (n * u) (?z @ h))"
  proof (cases "n < d")
    case True
    then have "n * u + u \<le> d * u" by (rule slot_in_buffer)
    then show ?thesis using True by (simp add: taps_def tap_def drop_replicate)
  next
    case False
    then have "n * u - d * u = (n - d) * u" "d * u \<le> n * u"
      by (simp_all add: diff_mult_distrib)
    then show ?thesis using False by (simp add: taps_def tap_def unit_at_def chunk_def)
  qed
  then show ?case
    using split front take_add [of "n * u" u "?z @ h"] by (simp add: add.commute)
qed (simp add: taps_0)

lemma spec_run_steady:
  assumes "\<not> dl_fading l" "dl_target_delay l = dl_applied_delay l" "u = frame_bytes l" "0 < u"
    and "length h = dl_written_frames l * u" "\<forall>p \<in> set ps. u dvd length p"
  shows "spec_run h l (map Period ps)
    = taps u (h @ concat ps) (dl_written_frames l) (dl_applied_delay l) (length (concat ps) div u)"
  using assms
proof (induction ps arbitrary: h l)
  case Nil
  then show ?case by (simp add: taps_0)
next
  case (Cons p ps)
  let ?w = "dl_written_frames l" and ?d = "dl_applied_delay l"
  obtain n where n: "length p = n * u" using Cons.prems(6) by (auto simp: dvd_def mult.commute)
  have div: "length p div u = n" using n Cons.prems(4) by simp
  let ?l1 = "l\<lparr>dl_written_frames := ?w + n, dl_pushed_frames := dl_pushed_frames l + n\<rparr>"
  have idle: "fade_begin ?l1 = ?l1" using Cons.prems(1,2) by (simp add: fade_begin_def)
  have s: "delay_spec (h @ p) n l = (?l1, taps u (h @ p) ?w ?d n)"
    unfolding delay_spec_def idle
    using spec_steady [of ?l1 "h @ p" ?w n] Cons.prems(1,3) by (simp add: frame_bytes_def)
  have hp: "length (h @ p) = (?w + n) * u" using Cons.prems(5) n by (simp add: add_mult_distrib)
  have IH: "spec_run (h @ p) ?l1 (map Period ps)
      = taps u ((h @ p) @ concat ps) (?w + n) ?d (length (concat ps) div u)"
    using Cons.IH [of ?l1 "h @ p"] Cons.prems hp by (simp add: frame_bytes_def)
  have "u dvd length (concat ps)"
    using Cons.prems(6) by (induction ps) auto
  then have total: "length (concat (p # ps)) div u = n + length (concat ps) div u"
    using n Cons.prems(4) by (simp add: div_plus_div_distrib_dvd_right)
  have "taps u (h @ p) ?w ?d n = taps u ((h @ p) @ concat ps) ?w ?d n"
    using taps_append [OF hp, of ?w n "concat ps" ?d] by simp
  then show ?case
    using s IH div Cons.prems(3) taps_split [of u "h @ p @ concat ps" ?w ?d n "length (concat ps) div u"]
    unfolding total by simp
qed

subsection \<open>A fade\<close>

lemma weight_bounds: "0 \<le> fade_weight l step \<and> fade_weight l step \<le> 1"
proof -
  have "-1 \<le> cos (k_pi * (real step / real (dl_fade_frames l)))"
    "cos (k_pi * (real step / real (dl_fade_frames l))) \<le> 1" by simp_all
  then show ?thesis unfolding fade_weight_def by auto
qed

lemma weight_ends:
  "0 < dl_fade_frames l \<Longrightarrow> fade_weight l 0 = 0" "dl_fade_frames l \<le> step \<Longrightarrow> fade_weight l step = 1"
  by (simp_all add: fade_weight_def)

lemma lround_mono: "x \<le> y \<Longrightarrow> lround x \<le> lround y"
proof -
  assume "x \<le> y"
  then show ?thesis
    by (auto simp: lround_def floor_mono intro: order_trans [of _ 0] split: if_splits)
qed

lemma lround_of_int [simp]: "lround (of_int n) = n"
proof -
  have "\<lfloor>of_int m + (1 / 2 :: real)\<rfloor> = m" for m :: int by linarith
  from this [of n] this [of "- n"] show ?thesis by (simp add: lround_def)
qed

lemma blend_between:
  fixes a b :: int
  assumes "0 \<le> w" "w \<le> 1"
  shows "min a b \<le> lround (of_int a * (1 - w) + of_int b * w)"
    and "lround (of_int a * (1 - w) + of_int b * w) \<le> max a b"
proof -
  let ?x = "of_int a * (1 - w) + of_int b * w :: real"
  have lo: "of_int (min a b) * (1 - w) + of_int (min a b) * w \<le> ?x"
    using assms by (intro add_mono mult_right_mono) auto
  have hi: "?x \<le> of_int (max a b) * (1 - w) + of_int (max a b) * w"
    using assms by (intro add_mono mult_right_mono) auto
  have one: "of_int m * (1 - w) + of_int m * w = of_int m" for m :: int
    by (simp add: algebra_simps)
  show "min a b \<le> lround ?x" using lround_mono [OF lo [unfolded one]] by simp
  show "lround ?x \<le> max a b" using lround_mono [OF hi [unfolded one]] by simp
qed

text \<open>A decoded sample, and anything between two of them, is encoded without being clipped.\<close>

lemma decode_range:
  "clip_sample 3 (decode_sample 3 bs) = decode_sample 3 bs"
  "clip_sample 2 (decode_sample 2 bs) = decode_sample 2 bs"
  using s24_value_range [of "bs ! 0" "bs ! 1" "bs ! 2"]
    signed_take_bit_int_greater_eq_minus_exp [of 15 "uint (bs ! 0) OR push_bit 8 (uint (bs ! 1))"]
    signed_take_bit_int_less_exp [of 15 "uint (bs ! 0) OR push_bit 8 (uint (bs ! 1))"]
  by (simp_all add: decode_sample_24 decode_sample_16 clip_sample_def sample_ceiling_def Let_def)

lemma clip_zero: "clip_sample w 0 = 0"
  by (simp add: clip_sample_def sample_ceiling_def Let_def)

lemma clip_between:
  "clip_sample w a = a \<Longrightarrow> clip_sample w b = b \<Longrightarrow> min a b \<le> v \<Longrightarrow> v \<le> max a b \<Longrightarrow> clip_sample w v = v"
  by (auto simp: clip_sample_def Let_def min_def max_def split: if_splits)

lemma to_int32_small: "\<bar>n\<bar> \<le> 8388608 \<Longrightarrow> to_int32 n = n"
  by (simp add: to_int32_def sint_sbintrunc' signed_take_bit_int_eq_self_iff abs_le_iff)

lemma clip_fits: "w \<in> {2, 3} \<Longrightarrow> clip_sample w a = a \<Longrightarrow> \<bar>a\<bar> \<le> 8388608"
  by (auto simp: clip_sample_def sample_ceiling_def Let_def split: if_splits)

lemma decode_blend:
  assumes "w \<in> {2, 3}" "clip_sample w a = a" "clip_sample w b = b" "0 \<le> x" "x \<le> 1"
  shows "decode_sample w (blend w x a b) = lround (of_int a * (1 - x) + of_int b * x)"
proof -
  let ?v = "lround (of_int a * (1 - x) + of_int b * x)"
  note between = blend_between [OF assms(4,5), of a b]
  have "\<bar>?v\<bar> \<le> 8388608"
    using between clip_fits [OF assms(1,2)] clip_fits [OF assms(1,3)] by linarith
  then have "to_int32 ?v = ?v" by (rule to_int32_small)
  then have "decode_sample w (blend w x a b) = clip_sample w ?v"
    using assms(1) by (auto simp: blend_def decode_encode_24 decode_encode_16)
  then show ?thesis using clip_between [OF assms(2,3) between] by simp
qed

text \<open>The sample a delay gives in frame \<open>k\<close> of the period that starts at \<open>base\<close>.\<close>

definition fade_tap :: "delay_line \<Rightarrow> int \<Rightarrow> nat \<Rightarrow> nat \<Rightarrow> nat \<Rightarrow> int" where
  "fade_tap l base delay k channel =
     (if base - int delay + int k < 0 then 0
      else line_sample l (nat (base - int delay + int k)) channel)"

lemma fade_tap_range: "dl_sample_bytes l \<in> {2, 3} \<Longrightarrow>
    clip_sample (dl_sample_bytes l) (fade_tap l base d k c) = fade_tap l base d k c"
  using decode_range by (auto simp: fade_tap_def line_sample_def Let_def clip_zero)

lemma fade_sample_value:
  "dl_sample_bytes l \<in> {2, 3} \<Longrightarrow> decode_sample (dl_sample_bytes l) (fade_sample l base k c)
    = lround (of_int (fade_tap l base (dl_fade_from l) k c) * (1 - fade_weight l (dl_fade_step l))
        + of_int (fade_tap l base (dl_fade_to l) k c) * fade_weight l (dl_fade_step l))"
  unfolding fade_sample_def Let_def fade_tap_def [symmetric]
  using weight_bounds [of l "dl_fade_step l"] by (intro decode_blend fade_tap_range) simp_all

lemma fade_loop_steps:
  assumes "dl_fading l" "dl_fade_step l \<le> dl_fade_frames l"
    and "fade_loop l base done left = (l', out, done')"
  shows "if dl_fade_frames l + 1 \<le> dl_fade_step l + left
    then done' = done + (dl_fade_frames l + 1 - dl_fade_step l) \<and> \<not> dl_fading l'
      \<and> dl_applied_delay l' = dl_fade_to l \<and> dl_crossfades l' = dl_crossfades l + 1
    else done' = done + left \<and> dl_fading l' \<and> dl_fade_step l' = dl_fade_step l + left
      \<and> dl_fade_to l' = dl_fade_to l \<and> dl_crossfades l' = dl_crossfades l"
  using assms
proof (induction left arbitrary: l "done" out)
  case (Suc left)
  obtain out1 where r: "fade_loop (fade_advance l) base (done + 1) left = (l', out1, done')"
    using Suc.prems(1,3) by (auto split: prod.splits)
  show ?case
  proof (cases "dl_fade_step l = dl_fade_frames l")
    case True
    then have "\<not> dl_fading (fade_advance l)" by (simp add: fade_advance_def Let_def)
    then have "l' = fade_advance l" "done' = done + 1" using r by (cases left; simp)+
    then show ?thesis using True by (simp add: fade_advance_def Let_def)
  next
    case False
    have l1: "fade_advance l = l\<lparr>dl_fade_step := dl_fade_step l + 1\<rparr>"
      using False Suc.prems(2) by (simp add: fade_advance_def Let_def)
    show ?thesis using Suc.IH [OF _ _ r] Suc.prems(1,2) False by (simp add: l1 split: if_splits)
  qed
qed simp

subsection \<open>Properties\<close>

text \<open>
  C37. The ring never forgets a frame it still owes: from open on, with offsets set at any time and
  periods of any whole number of frames, the bytes that come out are those of a line that keeps its
  whole history and reads every frame of every tap from it, crossfades included.
\<close>

theorem delay_matches_unbounded:
  assumes "delay_open config l = (l', None)" and "whole_periods config es"
  shows "snd (delay_run l' es) = spec_run [] l' es"
  using delay_run_spec [OF open_ok(1,2) [OF assms(1)]] open_ok(4,5) [OF assms(1)] assms(2) by simp

definition small_delay :: delay_config where
  "small_delay = \<lparr>dc_channels = 1, dc_sample_rate = 1000, dc_period_frames = 2, dc_sample_bytes = 2,
     dc_capacity_ms = 3, dc_fade_ms = 1\<rparr>"

lemma small_delay_opens: "delay_open small_delay delay_init = (fst (delay_open small_delay delay_init), None)"
  by (simp add: delay_open_def small_delay_def Let_def)

theorem delay_matches_unbounded_witness:
  "snd (delay_run (fst (delay_open small_delay delay_init))
      [Period [1, 0, 2, 0], Offset (Real 2), Period [3, 0, 4, 0], Period [5, 0, 6, 0]])
    = spec_run [] (fst (delay_open small_delay delay_init))
      [Period [1, 0, 2, 0], Offset (Real 2), Period [3, 0, 4, 0], Period [5, 0, 6, 0]]"
proof (rule delay_matches_unbounded [OF small_delay_opens])
  show "whole_periods small_delay
      [Period [1, 0, 2, 0], Offset (Real 2), Period [3, 0, 4, 0], Period [5, 0, 6, 0]]"
    by (auto simp: whole_periods_def small_delay_def intro!: exI [of _ 2])
qed

text \<open>
  A line whose offset is set before the audio starts delays by exactly the frames of that offset:
  what comes out is that much silence and then the input byte for byte, however it is cut into
  periods. At offset zero the line passes the input through unchanged.
\<close>

theorem steady_delay:
  assumes "delay_open config l = (l1, None)" "set_offset_ms (Real ms) l1 = (l2, None)"
    and "whole_periods config (map Period ps)"
  shows "snd (delay_run l2 (map Period ps))
    = take (length (concat ps))
        (replicate (frames_for_ms ms (dc_sample_rate config) * (dc_channels config * dc_sample_bytes config)) 0
          @ concat ps)"
proof -
  note o = open_ok [OF assms(1)]
  note k = set_offset_keeps [OF assms(2) o(1,2)]
  let ?u = "frame_bytes l2"
  have u: "?u = dc_channels config * dc_sample_bytes config" using k(4) o(4) by simp
  have pos: "0 < ?u" using delay_okD(4) [OF k(1)] .
  have rate: "0 < dc_sample_rate config" using assms(1) by (auto simp: delay_open_def split: if_splits)
  have ms: "ms * real (dc_sample_rate config) / 1000 \<le> real (dl_max_delay_frames l1)"
    using assms(2) rate o(5)
    by (auto simp: set_offset_ms_def delay_capacity_ms_def field_simps Let_def split: if_splits)
  have fits: "frames_for_ms ms (dc_sample_rate config) \<le> dl_max_delay_frames l1"
    unfolding frames_for_ms_def using ms by linarith
  have pushed: "dl_pushed_frames l1 = 0"
    using assms(1) by (auto simp: delay_open_def Let_def split: if_splits)
  have l2: "\<not> dl_fading l2" "dl_target_delay l2 = dl_applied_delay l2"
    "dl_applied_delay l2 = frames_for_ms ms (dc_sample_rate config)" "dl_written_frames l2 = 0"
    using assms(2) fits pushed o(3,5,6) by (auto simp: set_offset_ms_def Let_def split: if_splits)
  have whole: "\<forall>p \<in> set ps. ?u dvd length p"
    using assms(3) u by (fastforce simp: whole_periods_def)
  have dvd: "?u dvd length (concat ps)" using whole by (induction ps) auto
  have "snd (delay_run l2 (map Period ps)) = spec_run [] l2 (map Period ps)"
    by (rule delay_run_spec [OF k(1,2)]) (use k(3,4) o(4,5) assms(3) in simp_all)
  also have "\<dots> = taps ?u (concat ps) 0 (dl_applied_delay l2) (length (concat ps) div ?u)"
    using spec_run_steady [OF l2(1,2) refl pos, of "[]" ps] l2(4) whole by simp
  also have "\<dots> = take (length (concat ps)) (replicate (dl_applied_delay l2 * ?u) 0 @ concat ps)"
    using taps_whole [of "concat ps" "length (concat ps) div ?u" ?u] dvd by simp
  finally show ?thesis using l2(3) u by simp
qed

theorem steady_delay_witness:
  "\<exists>l1 l2. delay_open small_delay delay_init = (l1, None) \<and> set_offset_ms (Real 1) l1 = (l2, None)
    \<and> snd (delay_run l2 (map Period [[1, 0, 2, 0], [3, 0]])) = [0, 0, 1, 0, 2, 0]"
proof -
  let ?l1 = "fst (delay_open small_delay delay_init)"
  let ?l2 = "fst (set_offset_ms (Real 1) ?l1)"
  have frames: "frames_for_ms 1 1000 = 1" "frames_for_ms 3 1000 = 3"
    unfolding frames_for_ms_def by linarith+
  have set: "set_offset_ms (Real 1) ?l1 = (?l2, None)"
    by (simp add: set_offset_ms_def delay_is_open_def delay_capacity_ms_def delay_open_def
        small_delay_def frames Let_def)
  have periods: "whole_periods small_delay (map Period [[1, 0, 2, 0], [3, 0]])"
  proof -
    have "length [1, 0, 2, 0 :: u8] = 2 * 2" "length [3, 0 :: u8] = 1 * 2" by simp_all
    then show ?thesis unfolding whole_periods_def small_delay_def
      by (auto intro: exI [of _ 1] exI [of _ 2])
  qed
  have "snd (delay_run ?l2 (map Period [[1, 0, 2, 0], [3, 0]])) = [0, 0, 1, 0, 2, 0]"
    unfolding steady_delay [OF small_delay_opens set periods]
    by (simp add: small_delay_def frames numeral_2_eq_2)
  then show ?thesis using small_delay_opens set by blast
qed

text \<open>
  A change of offset does not click: every sample of the crossfade lies between the sample of the
  old offset and that of the new one; the first frame of a fade is the old offset's exactly and the
  last is the new one's exactly, never clipped or wrapped on the way.
\<close>

theorem crossfade_between:
  assumes "dl_sample_bytes l \<in> {2, 3}"
    and "old = fade_tap l base (dl_fade_from l) k channel" and "new = fade_tap l base (dl_fade_to l) k channel"
    and "v = decode_sample (dl_sample_bytes l) (fade_sample l base k channel)"
  shows "min old new \<le> v \<and> v \<le> max old new
    \<and> (dl_fade_step l = 0 \<and> 0 < dl_fade_frames l \<longrightarrow> v = old)
    \<and> (dl_fade_frames l \<le> dl_fade_step l \<longrightarrow> v = new)"
proof -
  let ?w = "fade_weight l (dl_fade_step l)"
  have v: "v = lround (of_int old * (1 - ?w) + of_int new * ?w)"
    using fade_sample_value [OF assms(1)] assms(2,3,4) by simp
  have "min old new \<le> v" "v \<le> max old new"
    unfolding v using blend_between weight_bounds by blast+
  then show ?thesis using v weight_ends [of l] by auto
qed

theorem crossfade_between_witness:
  "decode_sample 2 (fade_sample (delay_init\<lparr>dl_sample_bytes := 2, dl_channels := 1, dl_ring_frames := 2,
      dl_ring := [5, 0, 9, 0], dl_fade_frames := 4, dl_fading := True, dl_fade_from := 0,
      dl_fade_to := 1\<rparr>) 1 0 0) = 9"
proof -
  let ?l = "delay_init\<lparr>dl_sample_bytes := 2, dl_channels := 1, dl_ring_frames := 2,
      dl_ring := [5, 0, 9, 0], dl_fade_frames := 4, dl_fading := True, dl_fade_from := 0,
      dl_fade_to := 1\<rparr>"
  have "decode_sample 2 [9, 0] = 9"
    by (simp add: decode_sample_16 signed_take_bit_int_eq_self_iff)
  then have old: "fade_tap ?l 1 (dl_fade_from ?l) 0 0 = 9"
    by (simp add: fade_tap_def line_sample_def ring_samples_def delay_init_def Let_def)
  show ?thesis
    using crossfade_between [of ?l, OF _ refl refl refl, of 1 0 0] old
    by (simp add: delay_init_def)
qed

text \<open>
  A fade ends, after exactly \<open>fade_frames + 1\<close> frames, whatever periods it is cut into: a period
  with enough frames left stops the fade there, applies the new offset and counts one crossfade, and
  a shorter one only moves the fade on by its frames.
\<close>

theorem crossfade_ends:
  assumes "dl_fading l" "dl_fade_step l \<le> dl_fade_frames l"
    and "fade_loop l base done left = (l', out, done')"
  shows "if dl_fade_frames l + 1 \<le> dl_fade_step l + left
    then done' = done + (dl_fade_frames l + 1 - dl_fade_step l) \<and> \<not> dl_fading l'
      \<and> dl_applied_delay l' = dl_fade_to l \<and> dl_crossfades l' = dl_crossfades l + 1
    else done' = done + left \<and> dl_fading l' \<and> dl_fade_step l' = dl_fade_step l + left
      \<and> dl_fade_to l' = dl_fade_to l \<and> dl_crossfades l' = dl_crossfades l"
  using assms by (rule fade_loop_steps)

theorem crossfade_ends_witness:
  "\<exists>l' out. fade_loop (delay_init\<lparr>dl_fading := True, dl_fade_frames := 1, dl_fade_to := 7\<rparr>) 0 0 3
     = (l', out, 2) \<and> dl_applied_delay l' = 7"
proof -
  let ?l = "delay_init\<lparr>dl_fading := True, dl_fade_frames := 1, dl_fade_to := 7\<rparr>"
  obtain l' out d where f: "fade_loop ?l 0 0 3 = (l', out, d)" by (cases "fade_loop ?l 0 0 3")
  have "d = 2 \<and> dl_applied_delay l' = 7"
    using crossfade_ends [OF _ _ f] by (simp add: delay_init_def)
  then show ?thesis using f by blast
qed

end
