(* ===== verification/TestSignal.thy ===== *)
theory TestSignal
  imports Pcm
begin

text \<open>
  The impulse test signal: src/src/delay/test_signal.hpp and src/src/delay/test_signal.cpp.

  Frames are 64-bit counters that wrap, as in the code, so \<open>in_period\<close> is the code's comparison and
  not one of natural numbers. The code casts the channel count to \<^verbatim>\<open>int\<close> to compare it with a
  channel, which \<open>to_int32\<close> writes out.
\<close>

subsection \<open>State\<close>

record test_config =
  tc_channels :: nat
  tc_sample_rate :: nat
  tc_period_frames :: nat
  tc_sample_bytes :: nat
  tc_channel :: int
  tc_max_pending :: nat

definition default_test :: test_config where
  "default_test = \<lparr>tc_channels = 64, tc_sample_rate = 48000, tc_period_frames = 48,
     tc_sample_bytes = 3, tc_channel = -1, tc_max_pending = 8\<rparr>"

record pending_impulse =
  pi_frame :: u64
  pi_channel :: int

record test_signal =
  ts_config :: test_config
  ts_open :: bool
  ts_queue :: "pending_impulse list"
  ts_fired :: nat
  ts_missed :: nat

definition test_init :: test_signal where
  "test_init = \<lparr>ts_config = default_test, ts_open = False, ts_queue = [], ts_fired = 0,
     ts_missed = 0\<rparr>"

datatype test_error =
    TestNoChannels | TestSampleBytes | TestChannel int nat | TestMaxPending
  | TestNotSelected | TestNotOpen | TestQueueFull nat

subsection \<open>Operations\<close>

definition test_open :: "test_config \<Rightarrow> test_signal \<Rightarrow> test_signal \<times> test_error option" where
  "test_open config t =
     (if tc_channels config = 0 \<or> tc_period_frames config = 0 then (t, Some TestNoChannels)
      else if tc_sample_bytes config \<noteq> 2 \<and> tc_sample_bytes config \<noteq> 3 then (t, Some TestSampleBytes)
      else if tc_channel config < -1 \<or> tc_channel config \<ge> to_int32 (int (tc_channels config))
        then (t, Some (TestChannel (tc_channel config) (tc_channels config - 1)))
      else if tc_max_pending config = 0 then (t, Some TestMaxPending)
      else (\<lparr>ts_config = config, ts_open = True, ts_queue = [], ts_fired = 0, ts_missed = 0\<rparr>, None))"

definition test_close :: "test_signal \<Rightarrow> test_signal" where
  "test_close t = t\<lparr>ts_queue := [], ts_open := False\<rparr>"

definition test_enabled :: "test_signal \<Rightarrow> bool" where
  "test_enabled t \<longleftrightarrow> ts_open t \<and> tc_channel (ts_config t) \<ge> 0"

definition trigger_on :: "u64 \<Rightarrow> int \<Rightarrow> test_signal \<Rightarrow> test_signal \<times> test_error option" where
  "trigger_on at_frame channel t =
     (if \<not> ts_open t then (t, Some TestNotOpen)
      else if channel < 0 \<or> channel \<ge> to_int32 (int (tc_channels (ts_config t)))
        then (t, Some (TestChannel channel (tc_channels (ts_config t) - 1)))
      else if length (ts_queue t) \<ge> tc_max_pending (ts_config t)
        then (t\<lparr>ts_missed := ts_missed t + 1\<rparr>, Some (TestQueueFull (tc_max_pending (ts_config t))))
      else (t\<lparr>ts_queue := ts_queue t @ [\<lparr>pi_frame = at_frame, pi_channel = channel\<rparr>]\<rparr>, None))"

definition test_trigger :: "u64 \<Rightarrow> test_signal \<Rightarrow> test_signal \<times> test_error option" where
  "test_trigger at_frame t =
     (if \<not> test_enabled t then (t, Some TestNotSelected)
      else trigger_on at_frame (tc_channel (ts_config t)) t)"

definition mark_bytes :: "nat \<Rightarrow> int \<Rightarrow> bytes" where
  "mark_bytes sample_bytes value =
     [word_of_int (value AND 0xff), word_of_int (drop_bit 8 value AND 0xff)]
     @ (if sample_bytes = 3 then [word_of_int (drop_bit 16 value AND 0xff)] else [])"

definition full_scale :: "nat \<Rightarrow> int" where
  "full_scale sample_bytes = (if sample_bytes = 3 then 0x7FFFFF else 0x7FFF)"

definition in_period :: "nat \<Rightarrow> u64 \<Rightarrow> pending_impulse \<Rightarrow> bool" where
  "in_period frames first_frame p \<longleftrightarrow>
     pi_frame p \<ge> first_frame \<and> pi_frame p < first_frame + of_nat frames"

fun mix_queue ::
  "test_config \<Rightarrow> nat \<Rightarrow> u64 \<Rightarrow> pending_impulse list \<Rightarrow> bytes \<Rightarrow> bytes \<times> pending_impulse list \<times> nat" where
  "mix_queue config frames first_frame [] period = (period, [], 0)"
| "mix_queue config frames first_frame (p # queue) period =
     (if in_period frames first_frame p then
        let offset = unat (pi_frame p - first_frame);
            frame_bytes = tc_channels config * tc_sample_bytes config;
            at_byte = offset * frame_bytes + nat (pi_channel p) * tc_sample_bytes config
        in case mix_queue config frames first_frame queue
                  (overwrite at_byte (mark_bytes (tc_sample_bytes config)
                     (full_scale (tc_sample_bytes config))) period) of
             (period', kept, fired) \<Rightarrow> (period', kept, fired + 1)
      else
        case mix_queue config frames first_frame queue period of
          (period', kept, fired) \<Rightarrow> (period', p # kept, fired))"

definition test_mix ::
  "bytes option \<Rightarrow> nat \<Rightarrow> u64 \<Rightarrow> test_signal \<Rightarrow> test_signal \<times> bytes option" where
  "test_mix period frames first_frame t =
     (case period of
        None \<Rightarrow> (t, None)
      | Some samples \<Rightarrow>
          if \<not> ts_open t \<or> frames = 0 then (t, period)
          else case mix_queue (ts_config t) frames first_frame (ts_queue t) samples of
                 (samples', kept, fired) \<Rightarrow>
                   (t\<lparr>ts_queue := kept, ts_fired := ts_fired t + fired\<rparr>, Some samples'))"

definition test_pending :: "test_signal \<Rightarrow> nat" where
  "test_pending t = length (ts_queue t)"

subsection \<open>One mark\<close>

lemma mark_bytes_encode:
  "w \<in> {2, 3} \<Longrightarrow> mark_bytes w (full_scale w) = encode_sample w (full_scale w)"
  by (auto simp: mark_bytes_def encode_sample_def clip_sample_def sample_ceiling_def full_scale_def Let_def)

lemma mark_put:
  assumes "w \<in> {2, 3}" "k < n" "length b = n * w"
  defines "b' \<equiv> overwrite (k * w) (mark_bytes w (full_scale w)) b"
  shows "length b' = n * w"
    and "j < n \<Longrightarrow> decode_sample w (drop (j * w) b')
           = (if j = k then full_scale w else decode_sample w (drop (j * w) b))"
proof -
  have b': "b' = put_sample w (encode_sample w) k (full_scale w) b"
    by (simp add: b'_def mark_bytes_encode [OF assms(1)] put_sample_def)
  have clip: "clip_sample w (full_scale w) = full_scale w"
    using assms(1) by (auto simp: clip_sample_def sample_ceiling_def full_scale_def Let_def)
  show "length b' = n * w"
    using assms(1) s24.length_put [OF assms(2), of b] s16.length_put [OF assms(2), of b] assms(3)
    by (auto simp: b')
  assume j: "j < n"
  show "decode_sample w (drop (j * w) b')
      = (if j = k then full_scale w else decode_sample w (drop (j * w) b))"
    using assms(1) s24.sample_at_put [OF assms(2) j, of b "full_scale w"]
      s16.sample_at_put [OF assms(2) j, of b "full_scale w"] assms(3) clip
    by (auto simp: b' sample_at_def)
qed

text \<open>An impulse of a period, and the sample it replaces.\<close>

definition impulse_sample :: "test_config \<Rightarrow> u64 \<Rightarrow> pending_impulse \<Rightarrow> nat" where
  "impulse_sample config first_frame p =
     unat (pi_frame p - first_frame) * tc_channels config + nat (pi_channel p)"

definition queue_ok :: "test_config \<Rightarrow> pending_impulse list \<Rightarrow> bool" where
  "queue_ok config queue \<longleftrightarrow>
     (\<forall>p \<in> set queue. 0 \<le> pi_channel p \<and> nat (pi_channel p) < tc_channels config)"

lemma in_period_iff:
  assumes "unat first_frame + frames < 2 ^ 64"
  shows "in_period frames first_frame p \<longleftrightarrow>
    unat first_frame \<le> unat (pi_frame p) \<and> unat (pi_frame p) < unat first_frame + frames"
proof -
  have "unat (of_nat frames :: u64) = frames" using assms by (simp add: unat_of_nat take_bit_nat_eq_self)
  then have "unat (first_frame + of_nat frames) = unat first_frame + frames"
    using assms by (simp add: unat_word_ariths)
  then show ?thesis by (simp add: in_period_def word_le_nat_alt word_less_nat_alt)
qed

lemma impulse_offset:
  assumes "unat first_frame + frames < 2 ^ 64" "in_period frames first_frame p"
  shows "unat (pi_frame p - first_frame) = unat (pi_frame p) - unat first_frame"
    and "unat (pi_frame p - first_frame) < frames"
  using assms unat_sub [of first_frame "pi_frame p"]
  by (auto simp: in_period_iff word_le_nat_alt)

lemma impulse_in_period:
  assumes "unat first_frame + frames < 2 ^ 64" "in_period frames first_frame p"
    and "nat (pi_channel p) < tc_channels config"
  shows "impulse_sample config first_frame p < frames * tc_channels config"
  using slot_in_buffer [OF impulse_offset(2) [OF assms(1,2)], of "tc_channels config"] assms(3)
  by (simp add: impulse_sample_def)

lemma mix_queue_samples:
  assumes "tc_sample_bytes config \<in> {2, 3}" "unat first_frame + frames < 2 ^ 64"
    and "queue_ok config queue" "length period = frames * tc_channels config * tc_sample_bytes config"
    and "mix_queue config frames first_frame queue period = (period', kept, fired)"
  shows "length period' = length period \<and> kept = filter (\<lambda>p. \<not> in_period frames first_frame p) queue
    \<and> fired = length (filter (in_period frames first_frame) queue)
    \<and> (\<forall>j < frames * tc_channels config.
         decode_sample (tc_sample_bytes config) (drop (j * tc_sample_bytes config) period')
         = (if \<exists>p \<in> set queue. in_period frames first_frame p \<and> impulse_sample config first_frame p = j
            then full_scale (tc_sample_bytes config)
            else decode_sample (tc_sample_bytes config) (drop (j * tc_sample_bytes config) period)))"
  using assms(3,4,5)
proof (induction queue arbitrary: period kept fired)
  case (Cons p queue)
  let ?w = "tc_sample_bytes config"
  have queue: "queue_ok config queue" "nat (pi_channel p) < tc_channels config"
    using Cons.prems(1) by (auto simp: queue_ok_def)
  show ?case
  proof (cases "in_period frames first_frame p")
    case True
    let ?k = "impulse_sample config first_frame p"
    let ?b = "overwrite (?k * ?w) (mark_bytes ?w (full_scale ?w)) period"
    note put = mark_put [OF assms(1) impulse_in_period [OF assms(2) True queue(2)] Cons.prems(2)]
    obtain fired1 where m: "mix_queue config frames first_frame queue ?b = (period', kept, fired1)"
      "fired = fired1 + 1"
      using Cons.prems(3) True
      by (auto simp: impulse_sample_def add_mult_distrib mult.assoc Let_def split: prod.splits)
    show ?thesis using Cons.IH [OF queue(1) put(1) m(1)] put True m(2) by (auto simp: Cons.prems(2))
  next
    case False
    obtain kept1 where m: "mix_queue config frames first_frame queue period = (period', kept1, fired)"
      "kept = p # kept1"
      using Cons.prems(3) False by (auto split: prod.splits)
    show ?thesis using Cons.IH [OF queue(1) Cons.prems(2) m(1)] m(2) False by auto
  qed
qed simp

subsection \<open>What a signal keeps\<close>

definition test_ok :: "test_signal \<Rightarrow> bool" where
  "test_ok t \<longleftrightarrow> (ts_open t \<longrightarrow> tc_sample_bytes (ts_config t) \<in> {2, 3}
     \<and> tc_channels (ts_config t) < 2 ^ 31 \<and> queue_ok (ts_config t) (ts_queue t)
     \<and> length (ts_queue t) \<le> tc_max_pending (ts_config t))"

lemma channel_cast: "n < 2 ^ 31 \<Longrightarrow> to_int32 (int n) = int n"
  unfolding to_int32_def sint_sbintrunc' by (simp add: signed_take_bit_int_eq_self_iff)

lemma test_open_ok:
  "test_open config t = (t', None) \<Longrightarrow> tc_channels config < 2 ^ 31 \<Longrightarrow> test_ok t'"
  by (auto simp: test_open_def test_ok_def queue_ok_def split: if_splits)

lemma trigger_ok: "test_ok t \<Longrightarrow> test_ok (fst (trigger_on frame channel t))"
  by (auto simp: trigger_on_def test_ok_def queue_ok_def channel_cast)

lemma mix_ok:
  assumes "test_ok t"
  shows "test_ok (fst (test_mix period frames first t))"
proof (cases "ts_open t \<and> period \<noteq> None \<and> frames \<noteq> 0")
  case True
  have sub: "kept = filter (\<lambda>p. \<not> in_period frames first p) queue"
    if "mix_queue config frames first queue b = (b', kept, fired)" for config queue b b' kept fired
    using that
    by (induction queue arbitrary: b kept fired) (auto simp: Let_def split: if_splits prod.splits)
  obtain b where b: "period = Some b" using True by blast
  obtain b' kept fired where m: "mix_queue (ts_config t) frames first (ts_queue t) b = (b', kept, fired)"
    by (cases "mix_queue (ts_config t) frames first (ts_queue t) b")
  have mixed: "fst (test_mix period frames first t) = t\<lparr>ts_queue := kept, ts_fired := ts_fired t + fired\<rparr>"
    using True b m by (simp add: test_mix_def)
  have "length kept \<le> length (ts_queue t)" "set kept \<subseteq> set (ts_queue t)" using sub [OF m] by auto
  then show ?thesis using assms unfolding mixed by (auto simp: test_ok_def queue_ok_def)
qed (use assms in \<open>auto simp: test_mix_def split: option.splits\<close>)

datatype test_event = Trigger u64 int | Mix bytes u64

fun test_run :: "test_signal \<Rightarrow> test_event list \<Rightarrow> test_signal \<times> nat" where
  "test_run t [] = (t, 0)"
| "test_run t (Trigger frame channel # es) =
     (case trigger_on frame channel t of
        (t1, refusal) \<Rightarrow> (case test_run t1 es of
          (t2, accepted) \<Rightarrow> (t2, accepted + (if refusal = None then 1 else 0))))"
| "test_run t (Mix period first_frame # es) =
     test_run (fst (test_mix (Some period)
       (length period div (tc_channels (ts_config t) * tc_sample_bytes (ts_config t))) first_frame t)) es"

lemma mix_queue_ledger:
  "mix_queue config frames first queue b = (b', kept, fired) \<Longrightarrow> fired + length kept = length queue"
  by (induction queue arbitrary: b kept fired) (auto simp: Let_def split: if_splits prod.splits)

lemma test_run_ledger:
  "test_ok t \<Longrightarrow> test_run t es = (t', accepted) \<Longrightarrow>
     test_ok t' \<and> ts_open t' = ts_open t \<and> ts_config t' = ts_config t
     \<and> ts_fired t' + test_pending t' = ts_fired t + test_pending t + accepted"
proof (induction es arbitrary: t accepted)
  case (Cons e es)
  show ?case
  proof (cases e)
    case (Trigger frame channel)
    obtain t1 r where s: "trigger_on frame channel t = (t1, r)" by (cases "trigger_on frame channel t")
    obtain n where n: "test_run t1 es = (t', n)" "accepted = n + (if r = None then 1 else 0)"
      using Cons.prems(2) Trigger s by (auto split: prod.splits)
    have "test_ok t1" using trigger_ok [OF Cons.prems(1), of frame channel] s by simp
    moreover have "ts_open t1 = ts_open t \<and> ts_config t1 = ts_config t
        \<and> ts_fired t1 + test_pending t1 = ts_fired t + test_pending t + (if r = None then 1 else 0)"
      using s by (auto simp: trigger_on_def test_pending_def split: if_splits)
    ultimately show ?thesis using Cons.IH [OF _ n(1)] n(2) by auto
  next
    case (Mix b first)
    let ?n = "length b div (tc_channels (ts_config t) * tc_sample_bytes (ts_config t))"
    let ?t1 = "fst (test_mix (Some b) ?n first t)"
    have "ts_open ?t1 = ts_open t \<and> ts_config ?t1 = ts_config t
        \<and> ts_fired ?t1 + test_pending ?t1 = ts_fired t + test_pending t"
      by (auto simp: test_mix_def test_pending_def dest: mix_queue_ledger split: prod.splits)
    then show ?thesis
      using Cons.IH [OF mix_ok [OF Cons.prems(1)], of "Some b" ?n first accepted] Cons.prems(2) Mix by auto
  qed
qed simp

subsection \<open>Properties\<close>

text \<open>
  C38. An impulse lands on exactly its frame and its channel: after mixing a period, a sample is full
  scale if a queued impulse names that frame and channel, and is otherwise the sample that was there;
  the impulses of the period leave the queue and are counted, and every other one stays queued in
  order.
\<close>

theorem impulse_lands:
  assumes "test_ok t" "ts_open t" "0 < frames" "unat first_frame + frames < 2 ^ 64"
    and "w = tc_sample_bytes (ts_config t)" "ch = tc_channels (ts_config t)"
    and "length period = frames * ch * w"
    and "test_mix (Some period) frames first_frame t = (t', Some period')"
  shows "length period' = length period
    \<and> ts_queue t' = filter (\<lambda>p. \<not> in_period frames first_frame p) (ts_queue t)
    \<and> ts_fired t' = ts_fired t + length (filter (in_period frames first_frame) (ts_queue t))
    \<and> (\<forall>f < frames. \<forall>c < ch. decode_sample w (drop ((f * ch + c) * w) period')
         = (if \<exists>p \<in> set (ts_queue t). unat (pi_frame p) = unat first_frame + f \<and> pi_channel p = int c
            then full_scale w else decode_sample w (drop ((f * ch + c) * w) period)))"
proof -
  let ?in = "in_period frames first_frame"
  obtain kept fired where m: "mix_queue (ts_config t) frames first_frame (ts_queue t) period
      = (period', kept, fired)" "t' = t\<lparr>ts_queue := kept, ts_fired := ts_fired t + fired\<rparr>"
    using assms(2,3,8) by (auto simp: test_mix_def split: prod.splits)
  have ok: "tc_sample_bytes (ts_config t) \<in> {2, 3}" "queue_ok (ts_config t) (ts_queue t)"
    using assms(1,2) by (auto simp: test_ok_def)
  note mix = mix_queue_samples [OF ok(1) assms(4) ok(2) _ m(1), folded assms(5,6), OF assms(7)]
  have named: "(?in p \<and> impulse_sample (ts_config t) first_frame p = f * ch + c)
      \<longleftrightarrow> (unat (pi_frame p) = unat first_frame + f \<and> pi_channel p = int c)"
    if "p \<in> set (ts_queue t)" "f < frames" "c < ch" for p f c
  proof -
    have p: "0 \<le> pi_channel p" "nat (pi_channel p) < ch"
      using ok(2) that(1) assms(6) by (auto simp: queue_ok_def)
    have eq: "a * ch + nat (pi_channel p) = f * ch + c \<longleftrightarrow> a = f \<and> nat (pi_channel p) = c" for a
    proof
      assume e: "a * ch + nat (pi_channel p) = f * ch + c"
      have "a = f" using arg_cong [OF e, of "\<lambda>x. x div ch"] p(2) that(3) by simp
      with e show "a = f \<and> nat (pi_channel p) = c" by simp
    qed simp
    have c: "nat (pi_channel p) = c \<longleftrightarrow> pi_channel p = int c" using p(1) by auto
    show ?thesis
    proof (cases "?in p")
      case True
      have "unat (pi_frame p) - unat first_frame = f \<longleftrightarrow> unat (pi_frame p) = unat first_frame + f"
        using True in_period_iff [OF assms(4)] by auto
      moreover have "impulse_sample (ts_config t) first_frame p = f * ch + c
          \<longleftrightarrow> unat (pi_frame p) - unat first_frame = f \<and> nat (pi_channel p) = c"
        unfolding impulse_sample_def assms(6) [symmetric] impulse_offset(1) [OF assms(4) True] by (rule eq)
      ultimately show ?thesis using True c by blast
    next
      case False
      have "unat (pi_frame p) \<noteq> unat first_frame + f"
        using False that(2) unfolding in_period_iff [OF assms(4)] by linarith
      then show ?thesis using False by simp
    qed
  qed
  have "decode_sample w (drop ((f * ch + c) * w) period')
      = (if \<exists>p \<in> set (ts_queue t). unat (pi_frame p) = unat first_frame + f \<and> pi_channel p = int c
         then full_scale w else decode_sample w (drop ((f * ch + c) * w) period))"
    if fc: "f < frames" "c < ch" for f c
  proof -
    have "f * ch + c < frames * ch" using slot_in_buffer [OF fc(1), of ch] fc(2) by simp
    then have sample: "decode_sample w (drop ((f * ch + c) * w) period')
        = (if \<exists>p \<in> set (ts_queue t). ?in p \<and> impulse_sample (ts_config t) first_frame p = f * ch + c
           then full_scale w else decode_sample w (drop ((f * ch + c) * w) period))"
      using mix by blast
    have "(\<exists>p \<in> set (ts_queue t). ?in p \<and> impulse_sample (ts_config t) first_frame p = f * ch + c)
        \<longleftrightarrow> (\<exists>p \<in> set (ts_queue t). unat (pi_frame p) = unat first_frame + f \<and> pi_channel p = int c)"
      by (rule bex_cong [OF refl]) (rule named [OF _ fc])
    then show ?thesis unfolding sample by (simp only:)
  qed
  then show ?thesis using mix m(2) by simp
qed

definition small_test :: test_config where
  "small_test = \<lparr>tc_channels = 2, tc_sample_rate = 48000, tc_period_frames = 2, tc_sample_bytes = 2,
     tc_channel = 1, tc_max_pending = 2\<rparr>"

definition armed :: test_signal where
  "armed = \<lparr>ts_config = small_test, ts_open = True,
     ts_queue = [\<lparr>pi_frame = 101, pi_channel = 1\<rparr>, \<lparr>pi_frame = 102, pi_channel = 0\<rparr>],
     ts_fired = 0, ts_missed = 0\<rparr>"

theorem impulse_lands_witness:
  "\<exists>t' period'. test_mix (Some (replicate 8 0)) 2 100 armed = (t', Some period')
    \<and> decode_sample 2 (drop 6 period') = 0x7FFF \<and> ts_queue t' = [\<lparr>pi_frame = 102, pi_channel = 0\<rparr>]"
proof -
  obtain t' b where m: "test_mix (Some (replicate 8 0)) 2 100 armed = (t', Some b)"
    by (cases "mix_queue small_test 2 100 (ts_queue armed) (replicate 8 0)")
      (simp add: test_mix_def armed_def)
  have ok: "test_ok armed" "ts_open armed"
    by (simp_all add: test_ok_def armed_def small_test_def queue_ok_def)
  have here: "2 = tc_sample_bytes (ts_config armed)" "2 = tc_channels (ts_config armed)"
    by (simp_all add: armed_def small_test_def)
  have sizes: "0 < (2 :: nat)" "unat (100 :: u64) + 2 < 2 ^ 64" "length (replicate 8 (0 :: u8)) = 2 * 2 * 2"
    by simp_all
  note lands = impulse_lands [OF ok sizes(1,2) here sizes(3) m]
  have named: "\<exists>p \<in> set (ts_queue armed). unat (pi_frame p) = unat (100 :: u64) + 1 \<and> pi_channel p = int 1"
    by (simp add: armed_def)
  have "\<forall>f < 2. \<forall>c < 2. decode_sample 2 (drop ((f * 2 + c) * 2) b)
      = (if \<exists>p \<in> set (ts_queue armed). unat (pi_frame p) = unat (100 :: u64) + f \<and> pi_channel p = int c
         then full_scale 2 else decode_sample 2 (drop ((f * 2 + c) * 2) (replicate 8 0)))"
    using lands by blast
  then have "decode_sample 2 (drop ((1 * 2 + 1) * 2) b) = full_scale 2"
    using named by (meson one_less_numeral_iff semiring_norm(76))
  moreover have "ts_queue t' = filter (\<lambda>p. \<not> in_period 2 100 p) (ts_queue armed)"
    using lands by blast
  ultimately show ?thesis using m by (simp add: full_scale_def armed_def in_period_def)
qed

text \<open>
  No trigger is lost: from open on, whatever is triggered and mixed, every accepted trigger has
  either fired or is still queued, the queue stays within its limit, and its channels stay in range.
\<close>

theorem triggers_balance:
  assumes "test_open config t0 = (t, None)" "tc_channels config < 2 ^ 31"
    and "test_run t es = (t', accepted)"
  shows "ts_fired t' + test_pending t' = accepted \<and> test_pending t' \<le> tc_max_pending config
    \<and> queue_ok config (ts_queue t')"
proof -
  have "ts_open t \<and> ts_fired t = 0 \<and> test_pending t = 0 \<and> ts_config t = config"
    using assms(1) by (auto simp: test_open_def test_pending_def split: if_splits)
  then show ?thesis
    using test_run_ledger [OF test_open_ok [OF assms(1,2)] assms(3)]
    by (auto simp: test_ok_def test_pending_def)
qed

theorem triggers_balance_witness:
  "\<exists>t t' accepted. test_open small_test test_init = (t, None)
     \<and> test_run t [Trigger 5 1, Trigger 9 0, Trigger 9 1, Mix (replicate 8 0) 4] = (t', accepted)
     \<and> ts_fired t' + test_pending t' = accepted \<and> test_pending t' \<le> 2"
proof -
  let ?es = "[Trigger 5 1, Trigger 9 0, Trigger 9 1, Mix (replicate 8 0) 4]"
  have small: "tc_channels small_test < 2 ^ 31" by (simp add: small_test_def)
  have cast: "to_int32 2 = 2" using channel_cast [of 2] by simp
  obtain t where t: "test_open small_test test_init = (t, None)"
    by (simp add: test_open_def small_test_def cast)
  obtain t' n where r: "test_run t ?es = (t', n)" by (cases "test_run t ?es")
  show ?thesis using triggers_balance [OF t small r] t r by (auto simp: small_test_def)
qed

text \<open>
  A trigger for a frame that has already been played is accepted, although the header says it is
  refused, and it never leaves: no later period holds its frame.
\<close>

theorem passed_frame_stays:
  assumes "test_ok t" "ts_open t" "p \<in> set (ts_queue t)" "unat (pi_frame p) < unat first_frame"
    and "unat first_frame + frames < 2 ^ 64"
  shows "p \<in> set (ts_queue (fst (test_mix (Some period) frames first_frame t)))"
proof -
  have out: "\<not> in_period frames first_frame p" using assms(4) by (simp add: in_period_iff [OF assms(5)])
  have "p \<in> set kept"
    if "mix_queue config frames first_frame queue b = (b', kept, fired)" "p \<in> set queue"
    for config queue b b' kept fired
    using that out
    by (induction queue arbitrary: b kept fired) (auto simp: Let_def split: if_splits prod.splits)
  then show ?thesis using assms(3) by (auto simp: test_mix_def split: prod.splits)
qed

end
