(* ===== verification/Resampler.thy ===== *)
theory Resampler
  imports Playout Pcm
begin

text \<open>
  The resampler: src/src/clock/resampler.hpp and src/src/clock/resampler.cpp.

  libsamplerate is not part of the repository: \<open>samplerate\<close> holds the two functions the code calls,
  with whatever they do, and \<open>None\<close> stands for a build without the library. The laws a proof needs
  are in \<open>keeps_to_request\<close>, what the library documents of \<^verbatim>\<open>src_process\<close>: it uses no more input and
  gives no more output than it was offered.

  \<open>resampler\<close> is \<^verbatim>\<open>Impl\<close>; a null \<^verbatim>\<open>impl_\<close> is \<open>None\<close>. The scratch vectors are lists of their full
  length. The loop of a pull is \<open>pull_loop\<close>, which is \<open>None\<close> when the loop does not end;
  \<open>pull_returns\<close> shows that it does.
\<close>

subsection \<open>The library and the state\<close>

datatype converter = sinc_best | sinc_medium | sinc_fastest

datatype src_type = SRC_SINC_BEST_QUALITY | SRC_SINC_MEDIUM_QUALITY | SRC_SINC_FASTEST

fun converter_type :: "converter \<Rightarrow> src_type" where
  "converter_type sinc_best = SRC_SINC_BEST_QUALITY"
| "converter_type sinc_medium = SRC_SINC_MEDIUM_QUALITY"
| "converter_type sinc_fastest = SRC_SINC_FASTEST"

fun delay_for :: "converter \<Rightarrow> nat" where
  "delay_for sinc_best = 0"
| "delay_for sinc_medium = 0"
| "delay_for sinc_fastest = 0"

fun converter_name :: "converter \<Rightarrow> string" where
  "converter_name sinc_best = ''sinc_best''"
| "converter_name sinc_medium = ''sinc_medium''"
| "converter_name sinc_fastest = ''sinc_fastest''"

definition parse_converter :: "string \<Rightarrow> converter option" where
  "parse_converter name =
     (if name = ''sinc_best'' then Some sinc_best
      else if name = ''sinc_medium'' then Some sinc_medium
      else if name = ''sinc_fastest'' then Some sinc_fastest
      else None)"

record src_data =
  sd_data_in :: "float_value list"
  sd_input_frames :: nat
  sd_output_frames :: nat
  sd_src_ratio :: real
  sd_end_of_input :: int

record src_answer =
  sa_code :: int
  sa_input_frames_used :: nat
  sa_output_frames_gen :: nat
  sa_data_out :: "float_value list"

record 's samplerate =
  src_new :: "src_type \<Rightarrow> nat \<Rightarrow> int + 's"
  src_process :: "'s \<Rightarrow> src_data \<Rightarrow> 's \<times> src_answer"

record resampler_config =
  rc_converter :: converter
  rc_channels :: nat
  rc_rate :: nat
  rc_period_frames :: nat

record 's resampler =
  rs_state :: 's
  rs_config :: resampler_config
  rs_ratio :: real
  rs_in :: "float_value list"
  rs_carried_frames :: nat
  rs_pending_position :: nat
  rs_primed :: bool
  rs_out :: "float_value list"
  rs_period :: bytes
  rs_input_frames :: nat
  rs_output_frames :: nat
  rs_short_pulls :: nat

datatype resampler_error =
    ResamplerUnavailable | ResamplerConfig | ResamplerLibrary int | ResamplerNotOpen
  | ResamplerNoAudio | ResamplerTooLarge | ResamplerLookAhead | ResamplerNothing nat

subsection \<open>open, set\_ratio and the figures\<close>

definition resampler_open ::
  "'s samplerate option \<Rightarrow> resampler_config \<Rightarrow> 's resampler option \<times> resampler_error option" where
  "resampler_open library config =
     (case library of
        None \<Rightarrow> (None, Some ResamplerUnavailable)
      | Some src \<Rightarrow>
          if rc_channels config = 0 \<or> rc_rate config = 0 \<or> rc_period_frames config = 0
            then (None, Some ResamplerConfig)
          else
            let period_samples = rc_period_frames config * rc_channels config in
            case src_new src (converter_type (rc_converter config)) (rc_channels config) of
              Inl code \<Rightarrow> (None, Some (ResamplerLibrary code))
            | Inr state \<Rightarrow>
                (Some \<lparr>rs_state = state, rs_config = config, rs_ratio = 1,
                   rs_in = replicate (4 * period_samples) (Real 0), rs_carried_frames = 0,
                   rs_pending_position = 0, rs_primed = False,
                   rs_out = replicate period_samples (Real 0),
                   rs_period = replicate (period_samples * 3) 0,
                   rs_input_frames = 0, rs_output_frames = 0, rs_short_pulls = 0\<rparr>, None))"

definition resampler_close :: "'s resampler option \<Rightarrow> 's resampler option" where
  "resampler_close r = None"

definition set_ratio :: "float_value \<Rightarrow> 's resampler option \<Rightarrow> 's resampler option" where
  "set_ratio ratio r =
     (case (r, ratio) of
        (Some impl, Real x) \<Rightarrow>
          if x \<le> 0 then r
          else Some (impl\<lparr>rs_ratio := (if x < 1 / 2 then 1 / 2 else if x > 2 then 2 else x)\<rparr>)
      | _ \<Rightarrow> r)"

definition resampler_ratio :: "'s resampler option \<Rightarrow> real" where
  "resampler_ratio r = (case r of Some impl \<Rightarrow> rs_ratio impl | None \<Rightarrow> 1)"

definition input_frames :: "'s resampler option \<Rightarrow> nat" where
  "input_frames r = (case r of Some impl \<Rightarrow> rs_input_frames impl | None \<Rightarrow> 0)"

definition output_frames :: "'s resampler option \<Rightarrow> nat" where
  "output_frames r = (case r of Some impl \<Rightarrow> rs_output_frames impl | None \<Rightarrow> 0)"

definition short_pulls :: "'s resampler option \<Rightarrow> nat" where
  "short_pulls r = (case r of Some impl \<Rightarrow> rs_short_pulls impl | None \<Rightarrow> 0)"

definition pending_frames :: "'s resampler option \<Rightarrow> nat" where
  "pending_frames r = (case r of Some impl \<Rightarrow> rs_carried_frames impl | None \<Rightarrow> 0)"

definition converter_held_frames :: "'s resampler option \<Rightarrow> nat" where
  "converter_held_frames r =
     (case r of
        None \<Rightarrow> 0
      | Some impl \<Rightarrow>
          let taken = real (rs_output_frames impl) * rs_ratio impl;
              consumed = real (rs_input_frames impl)
          in if consumed \<le> taken then 0 else nat \<lfloor>consumed - taken + 1 / 2\<rfloor>)"

definition delay_frames :: "'s resampler option \<Rightarrow> nat" where
  "delay_frames r = (case r of Some impl \<Rightarrow> delay_for (rc_converter (rs_config impl)) | None \<Rightarrow> 0)"

subsection \<open>pull\<close>

datatype fill_result = Filled | BufferDry | LookAhead

definition fill_from_buffer ::
  "'s resampler \<Rightarrow> playout_buffer \<Rightarrow> 's resampler \<times> playout_buffer \<times> fill_result" where
  "fill_from_buffer r buffer =
     (let channels = rc_channels (rs_config r);
          period_frames = rc_period_frames (rs_config r);
          room = length (rs_in r) div channels
      in if rs_carried_frames r + period_frames > room then (r, buffer, LookAhead)
         else case take_period buffer of
           (buffer1, None) \<Rightarrow> (r, buffer1, BufferDry)
         | (buffer1, Some (audio, arrived)) \<Rightarrow>
             let r1 = r\<lparr>rs_period := overwrite 0 audio (rs_period r)\<rparr>;
                 r2 = (if \<not> rs_primed r1
                       then r1\<lparr>rs_primed := True, rs_pending_position := arrived\<rparr> else r1);
                 floats = s24_3le_to_float (take (period_frames * channels * 3) (rs_period r2));
                 r3 = r2\<lparr>rs_in := overwrite (rs_carried_frames r2 * channels) floats (rs_in r2),
                        rs_carried_frames := rs_carried_frames r2 + period_frames\<rparr>
             in (r3, buffer1, Filled))"

definition src_request :: "'s resampler \<Rightarrow> nat \<Rightarrow> src_data" where
  "src_request r wanted =
     \<lparr>sd_data_in = take (rs_carried_frames r * rc_channels (rs_config r)) (rs_in r),
      sd_input_frames = rs_carried_frames r, sd_output_frames = wanted,
      sd_src_ratio = 1 / rs_ratio r, sd_end_of_input = 0\<rparr>"

text \<open>One turn of the loop after the input is there: the call, the carry and the bytes.\<close>

definition convert_step ::
  "'s samplerate \<Rightarrow> 's resampler \<Rightarrow> bytes \<Rightarrow> nat \<Rightarrow> nat
     \<Rightarrow> 's resampler \<times> bytes \<times> (resampler_error + nat)" where
  "convert_step src r output frames produced =
     (case src_process src (rs_state r) (src_request r (frames - produced)) of
        (state, a) \<Rightarrow>
          let channels = rc_channels (rs_config r);
              r1 = r\<lparr>rs_state := state, rs_out := overwrite 0 (sa_data_out a) (rs_out r)\<rparr>
          in if sa_code a \<noteq> 0 then (r1, output, Inl (ResamplerLibrary (sa_code a)))
             else if sa_output_frames_gen a = 0 \<and> sa_input_frames_used a = 0
               then (r1, output, Inl (ResamplerNothing (rs_carried_frames r1)))
             else
               let used = sa_input_frames_used a;
                   left = rs_carried_frames r1 - used;
                   r2 = (if left > 0 \<and> used > 0
                         then r1\<lparr>rs_in := overwrite 0 (chunk (used * channels) (left * channels) (rs_in r1))
                                  (rs_in r1)\<rparr>
                         else r1);
                   r3 = r2\<lparr>rs_carried_frames := left,
                          rs_pending_position := add64 (rs_pending_position r2) used,
                          rs_input_frames := rs_input_frames r2 + used\<rparr>;
                   gen = sa_output_frames_gen a;
                   samples = float_to_s24_3le (take (gen * channels) (rs_out r3))
               in (r3\<lparr>rs_output_frames := rs_output_frames r3 + gen\<rparr>,
                   overwrite (produced * channels * 3) samples output, Inr gen))"

partial_function (option) pull_loop ::
  "'s samplerate \<Rightarrow> 's resampler \<Rightarrow> playout_buffer \<Rightarrow> bytes \<Rightarrow> nat \<Rightarrow> nat
     \<Rightarrow> ('s resampler \<times> playout_buffer \<times> bytes \<times> resampler_error option) option" where
  "pull_loop src r buffer output frames produced =
     (if \<not> produced < frames then Some (r, buffer, output, None)
      else case (if rs_carried_frames r = 0 then fill_from_buffer r buffer else (r, buffer, Filled)) of
        (r1, buffer1, filled) \<Rightarrow>
          (if filled = LookAhead then Some (r1, buffer1, output, Some ResamplerLookAhead)
           else if filled = BufferDry
             then Some (r1\<lparr>rs_short_pulls := rs_short_pulls r1 + 1\<rparr>, buffer1, output, None)
           else case convert_step src r1 output frames produced of
             (r2, output2, step) \<Rightarrow>
               (if isl step then Some (r2, buffer1, output2, Some (projl step))
                else pull_loop src r2 buffer1 output2 frames (produced + projr step))))"

declare pull_loop.simps [code]

text \<open>
  What a pull leaves: a refusal before anything is written, or the output with the position of its
  first frame, or with the error that stopped the conversion half-way. An empty error string, which
  is how the code says the buffer was dry, is \<open>PullDry\<close>.
\<close>

datatype pull_result = PullRefused resampler_error | PullDry | Pulled nat | PullStopped resampler_error

definition resampler_pull ::
  "'s samplerate option \<Rightarrow> 's resampler option \<Rightarrow> playout_buffer option \<Rightarrow> bytes option \<Rightarrow> nat
     \<Rightarrow> ('s resampler option \<times> playout_buffer option \<times> bytes option \<times> pull_result) option" where
  "resampler_pull library r buffer output frames =
     (case r of
        None \<Rightarrow> Some (r, buffer, output, PullRefused ResamplerNotOpen)
      | Some impl \<Rightarrow>
          if buffer = None \<or> output = None \<or> frames = 0
            then Some (r, buffer, output, PullRefused ResamplerNoAudio)
          else if frames > rc_period_frames (rs_config impl)
            then Some (r, buffer, output, PullRefused ResamplerTooLarge)
          else case library of
            None \<Rightarrow> Some (r, buffer, output, PullRefused ResamplerUnavailable)
          | Some src \<Rightarrow>
              case (if rs_carried_frames impl = 0 then fill_from_buffer impl (the buffer)
                    else (impl, the buffer, Filled)) of
                (impl1, buffer1, filled) \<Rightarrow>
                  if filled = LookAhead
                    then Some (Some impl1, Some buffer1, output, PullRefused ResamplerLookAhead)
                  else if filled = BufferDry then Some (Some impl1, Some buffer1, output, PullDry)
                  else
                    let silent = overwrite 0
                          (replicate (frames * rc_channels (rs_config impl1) * 3) 0) (the output);
                        started_at = (if rs_primed impl1 then rs_pending_position impl1 else 0)
                    in map_option
                         (\<lambda>(impl2, buffer2, output2, error).
                            (Some impl2, Some buffer2, Some output2,
                             case error of Some e \<Rightarrow> PullStopped e | None \<Rightarrow> Pulled started_at))
                         (pull_loop src impl1 buffer1 silent frames 0))"

subsection \<open>What the code relies on\<close>

text \<open>The documented contract of \<^verbatim>\<open>src_process\<close>, for \<open>channels\<close> interleaved channels.\<close>

definition keeps_to_request :: "'s samplerate \<Rightarrow> nat \<Rightarrow> bool" where
  "keeps_to_request src channels \<longleftrightarrow>
     (\<forall>s d. let a = snd (src_process src s d) in
        length (sa_data_out a) \<le> sd_output_frames d * channels
        \<and> (sa_code a = 0 \<longrightarrow>
             sa_input_frames_used a \<le> sd_input_frames d \<and> sa_output_frames_gen a \<le> sd_output_frames d
             \<and> length (sa_data_out a) = sa_output_frames_gen a * channels))"

definition resampler_ok :: "'s resampler \<Rightarrow> bool" where
  "resampler_ok r \<longleftrightarrow>
     (let ch = rc_channels (rs_config r); n = rc_period_frames (rs_config r) in
      0 < ch \<and> 0 < n \<and> length (rs_in r) = 4 * (n * ch) \<and> rs_carried_frames r \<le> 4 * n
      \<and> length (rs_period r) = n * ch * 3 \<and> (0 < rs_carried_frames r \<longrightarrow> rs_primed r)
      \<and> rs_pending_position r < 2 ^ 64 \<and> length (rs_out r) = n * ch)"

text \<open>The buffer carries the periods this resampler was opened for: 24-bit, the same shape.\<close>

definition feeds :: "playout_buffer \<Rightarrow> 's resampler \<Rightarrow> bool" where
  "feeds b r \<longleftrightarrow> pb_inv b \<and> pb_period_frames b = rc_period_frames (rs_config r)
     \<and> pb_period_bytes b = rc_period_frames (rs_config r) * rc_channels (rs_config r) * 3"

text \<open>The samples in the carry, and those of the periods some takes returned.\<close>

definition carry :: "'s resampler \<Rightarrow> float_value list" where
  "carry r = take (rs_carried_frames r * rc_channels (rs_config r)) (rs_in r)"

definition floats_of :: "(bytes \<times> nat) option list \<Rightarrow> float_value list" where
  "floats_of outs = concat (map (\<lambda>out. case out of Some (x, p) \<Rightarrow> s24_3le_to_float x | None \<Rightarrow> []) outs)"

definition periods_of :: "(bytes \<times> nat) option list \<Rightarrow> nat" where
  "periods_of outs = length (filter (\<lambda>out. out \<noteq> None) outs)"

definition held_periods :: "playout_buffer \<Rightarrow> nat" where
  "held_periods b = card {q. holds b q}"

lemma add64_less: "add64 a b < 2 ^ 64"
  by (simp add: add64_def)

lemma resampler_okD:
  assumes "resampler_ok r"
  shows "0 < rc_channels (rs_config r)" and "0 < rc_period_frames (rs_config r)"
    and "length (rs_in r) = 4 * (rc_period_frames (rs_config r) * rc_channels (rs_config r))"
    and "rs_carried_frames r \<le> 4 * rc_period_frames (rs_config r)"
    and "length (rs_period r) = rc_period_frames (rs_config r) * rc_channels (rs_config r) * 3"
    and "0 < rs_carried_frames r \<Longrightarrow> rs_primed r" and "rs_pending_position r < 2 ^ 64"
    and "length (rs_out r) = rc_period_frames (rs_config r) * rc_channels (rs_config r)"
  using assms by (auto simp: resampler_ok_def Let_def)

lemma length_carry: "resampler_ok r \<Longrightarrow> length (carry r) = rs_carried_frames r * rc_channels (rs_config r)"
proof -
  assume ok: "resampler_ok r"
  have "rs_carried_frames r * rc_channels (rs_config r)
      \<le> 4 * rc_period_frames (rs_config r) * rc_channels (rs_config r)"
    by (rule mult_le_mono1 [OF resampler_okD(4) [OF ok]])
  then show ?thesis using resampler_okD(3) [OF ok] by (simp only: carry_def length_take mult.assoc min_absorb2)
qed

subsection \<open>Taking a period into the carry\<close>

lemma take_some:
  assumes "pb_inv b" "take_period b = (b', Some (x, p))"
  shows "pb_inv b'" and "length x = pb_period_bytes b" and "held_periods b = Suc (held_periods b')"
    and "pb_period_frames b' = pb_period_frames b" and "pb_period_bytes b' = pb_period_bytes b"
    and "p = pb_head b"
proof -
  have run: "pb_head b < pb_contiguous_end b"
    using assms take_eq [OF assms(1)] pb_inv_order(1) [OF assms(1)] by (auto split: if_splits)
  have b': "b' = taken b" and x: "x = the (contents b (pb_head b))" and p: "p = pb_head b"
    using assms(2) run unfolding take_eq [OF assms(1)] by (auto split: if_splits)
  note held = held_in_run [OF assms(1) run]
  show "pb_inv b'" unfolding b' by (rule taken_props(1) [OF assms(1) run])
  show "pb_period_frames b' = pb_period_frames b" "pb_period_bytes b' = pb_period_bytes b"
    by (simp_all add: b' taken_def)
  show "p = pb_head b" by (rule p)
  have "{q. holds b' q} = {q. holds b q \<and> q \<noteq> pb_head b}"
    unfolding b' using taken_props(4) [OF assms(1) run] by blast
  then show "held_periods b = Suc (held_periods b')"
    using card_held_remove [OF held] by (simp add: held_periods_def)
  have shape: "pb_shape b" by (rule pb_inv_shape [OF assms(1)])
  have "x = chunk (slot_of b p * pb_period_bytes b) (pb_period_bytes b) (pb_audio b)"
    using held by (simp add: x p contents_def)
  moreover have "slot_of b p * pb_period_bytes b + pb_period_bytes b \<le> length (pb_audio b)"
    using slot_in_buffer [OF slot_of_lt [OF shape]] shape by (simp add: pb_shape_def)
  ultimately show "length x = pb_period_bytes b" by simp
qed

lemma take_none:
  assumes "pb_inv b" "take_period b = (b', None)"
  shows "pb_inv b'" and "pb_period_frames b' = pb_period_frames b"
    and "pb_period_bytes b' = pb_period_bytes b"
  using assms take_inv_aux [OF assms(1)] take_eq [OF assms(1)]
  by (auto simp: crossed_def split: if_splits)

lemma fill_empty:
  assumes ok: "resampler_ok r" and feeds: "feeds b r" and "rs_carried_frames r = 0"
    and fill: "fill_from_buffer r b = (r1, b1, result)"
  shows "result \<noteq> LookAhead"
    and "result = BufferDry \<Longrightarrow> r1 = r \<and> take_period b = (b1, None)"
    and "result = Filled \<Longrightarrow> \<exists>x p. take_period b = (b1, Some (x, p)) \<and> carry r1 = s24_3le_to_float x
      \<and> rs_pending_position r1 = (if rs_primed r then rs_pending_position r else p)"
    and "result = Filled \<Longrightarrow> resampler_ok r1 \<and> rs_primed r1
      \<and> rs_carried_frames r1 = rc_period_frames (rs_config r) \<and> rs_config r1 = rs_config r
      \<and> rs_input_frames r1 = rs_input_frames r \<and> rs_output_frames r1 = rs_output_frames r
      \<and> rs_short_pulls r1 = rs_short_pulls r \<and> rs_out r1 = rs_out r
      \<and> rs_state r1 = rs_state r \<and> rs_ratio r1 = rs_ratio r"
    and "feeds b1 r1"
    and "result = Filled \<Longrightarrow> held_periods b = Suc (held_periods b1)"
proof -
  let ?ch = "rc_channels (rs_config r)" and ?n = "rc_period_frames (rs_config r)"
  note o = resampler_okD [OF ok]
  have b: "pb_inv b" "pb_period_frames b = ?n" "pb_period_bytes b = ?n * ?ch * 3"
    using feeds by (auto simp: feeds_def)
  have room: "\<not> rs_carried_frames r + ?n > length (rs_in r) div ?ch"
    using o(1,3) assms(3) by simp
  obtain b' out where t: "take_period b = (b', out)" by (cases "take_period b")
  show "result \<noteq> LookAhead" using fill t room
    by (auto simp: fill_from_buffer_def Let_def split: option.splits prod.splits)
  show "result = BufferDry \<Longrightarrow> r1 = r \<and> take_period b = (b1, None)" using fill t room
    by (auto simp: fill_from_buffer_def Let_def split: option.splits prod.splits)
  have "(result = Filled \<longrightarrow> (\<exists>x p. take_period b = (b1, Some (x, p)) \<and> carry r1 = s24_3le_to_float x
      \<and> rs_pending_position r1 = (if rs_primed r then rs_pending_position r else p))
      \<and> resampler_ok r1 \<and> rs_primed r1
      \<and> rs_carried_frames r1 = rc_period_frames (rs_config r) \<and> rs_config r1 = rs_config r
      \<and> rs_input_frames r1 = rs_input_frames r \<and> rs_output_frames r1 = rs_output_frames r
      \<and> rs_short_pulls r1 = rs_short_pulls r \<and> rs_out r1 = rs_out r
      \<and> rs_state r1 = rs_state r \<and> rs_ratio r1 = rs_ratio r
      \<and> held_periods b = Suc (held_periods b1))
    \<and> feeds b1 r1"
  proof (cases out)
    case None
    then have "result = BufferDry" "r1 = r" "b1 = b'"
      using fill t room by (simp_all add: fill_from_buffer_def Let_def)
    then show ?thesis using take_none [OF b(1) t [unfolded None]] b by (simp add: feeds_def)
  next
    case (Some xp)
    obtain x p where xp: "xp = (x, p)" by (cases xp)
    note tk = take_some [OF b(1) t [unfolded Some xp]]
    have lx: "length x = length (rs_period r)" using tk(2) b(3) o(5) by simp
    then have period: "overwrite 0 x (rs_period r) = x" by (simp add: overwrite_def)
    have whole: "take (?n * ?ch * 3) x = x" using lx o(5) by simp
    have len: "length (s24_3le_to_float x) = ?n * ?ch" using lx o(5) by (simp add: length_s24_3le_to_float)
    have in_len: "length (overwrite 0 (s24_3le_to_float x) (rs_in r)) = 4 * (?n * ?ch)"
      using len o(3) by (simp add: overwrite_def)
    let ?r = "if rs_primed r then r\<lparr>rs_period := x\<rparr>
        else r\<lparr>rs_period := x, rs_primed := True, rs_pending_position := p\<rparr>"
    have "fill_from_buffer r b = (?r\<lparr>rs_in := overwrite 0 (s24_3le_to_float x) (rs_in r),
        rs_carried_frames := ?n\<rparr>, b', Filled)"
      unfolding fill_from_buffer_def Let_def if_not_P [OF room] t Some xp
      by (cases "rs_primed r") (simp_all add: period whole assms(3))
    then have r1: "result = Filled" "b1 = b'"
      "r1 = ?r\<lparr>rs_in := overwrite 0 (s24_3le_to_float x) (rs_in r), rs_carried_frames := ?n\<rparr>"
      using fill by simp_all
    have fields: "rs_config r1 = rs_config r" "rs_primed r1" "rs_carried_frames r1 = ?n"
      "rs_in r1 = overwrite 0 (s24_3le_to_float x) (rs_in r)" "rs_period r1 = x"
      "rs_pending_position r1 = (if rs_primed r then rs_pending_position r else p)"
      "rs_input_frames r1 = rs_input_frames r" "rs_output_frames r1 = rs_output_frames r"
      "rs_short_pulls r1 = rs_short_pulls r" "rs_out r1 = rs_out r" "rs_state r1 = rs_state r"
      "rs_ratio r1 = rs_ratio r"
      by (simp_all add: r1(3))
    have "carry r1 = s24_3le_to_float x"
      using len by (simp add: carry_def fields overwrite_def)
    moreover have "resampler_ok r1"
      using o in_len lx tk(6) pb_inv_range [OF b(1)] by (simp add: resampler_ok_def fields k_empty_def)
    ultimately show ?thesis
      using r1(1,2) fields t Some xp tk b by (simp add: feeds_def)
  qed
  then show "result = Filled \<Longrightarrow> \<exists>x p. take_period b = (b1, Some (x, p)) \<and> carry r1 = s24_3le_to_float x
      \<and> rs_pending_position r1 = (if rs_primed r then rs_pending_position r else p)"
    and "result = Filled \<Longrightarrow> resampler_ok r1 \<and> rs_primed r1
      \<and> rs_carried_frames r1 = rc_period_frames (rs_config r) \<and> rs_config r1 = rs_config r
      \<and> rs_input_frames r1 = rs_input_frames r \<and> rs_output_frames r1 = rs_output_frames r
      \<and> rs_short_pulls r1 = rs_short_pulls r \<and> rs_out r1 = rs_out r
      \<and> rs_state r1 = rs_state r \<and> rs_ratio r1 = rs_ratio r"
    and "feeds b1 r1" and "result = Filled \<Longrightarrow> held_periods b = Suc (held_periods b1)"
    by blast+
qed

subsection \<open>One turn of the converter\<close>

lemma convert_props:
  assumes ok: "resampler_ok r" and law: "keeps_to_request src (rc_channels (rs_config r))"
    and space: "frames \<le> rc_period_frames (rs_config r)"
    and size: "length output = frames * rc_channels (rs_config r) * 3" and p: "produced < frames"
    and step: "convert_step src r output frames produced = (r1, output1, result)"
  shows "\<exists>used gen. carry r1 = drop (used * rc_channels (rs_config r)) (carry r)
      \<and> rs_input_frames r1 = rs_input_frames r + used
      \<and> rs_carried_frames r1 + used = rs_carried_frames r
      \<and> rs_output_frames r1 = rs_output_frames r + gen
      \<and> rs_pending_position r1 = (if result = Inr gen then add64 (rs_pending_position r) used
          else rs_pending_position r)
      \<and> (if isl result then used = 0 \<and> gen = 0 else result = Inr gen \<and> 0 < used + gen \<and> produced + gen \<le> frames)"
    and "resampler_ok r1" and "rs_config r1 = rs_config r" and "rs_primed r1 = rs_primed r"
    and "rs_short_pulls r1 = rs_short_pulls r" and "length output1 = length output"
proof -
  let ?ch = "rc_channels (rs_config r)" and ?n = "rc_period_frames (rs_config r)"
  let ?d = "src_request r (frames - produced)"
  note o = resampler_okD [OF ok] and out = resampler_okD(8) [OF ok]
  obtain s a where call: "src_process src (rs_state r) ?d = (s, a)"
    by (cases "src_process src (rs_state r) ?d")
  have "length (sa_data_out a) \<le> (frames - produced) * ?ch"
    using law call by (auto simp: keeps_to_request_def Let_def src_request_def dest!: spec [of _ "rs_state r"] spec [of _ ?d])
  also have "\<dots> \<le> ?n * ?ch" using space by (intro mult_le_mono1) simp
  finally have lo: "length (overwrite 0 (sa_data_out a) (rs_out r)) = length (rs_out r)"
    using out by (simp add: length_overwrite)
  have lawful: "sa_code a = 0 \<Longrightarrow> sa_input_frames_used a \<le> rs_carried_frames r
      \<and> sa_output_frames_gen a \<le> frames - produced \<and> length (sa_data_out a) = sa_output_frames_gen a * ?ch"
    using law call by (auto simp: keeps_to_request_def Let_def src_request_def dest!: spec [of _ "rs_state r"] spec [of _ ?d])
  have all: "(\<exists>used gen. carry r1 = drop (used * ?ch) (carry r)
      \<and> rs_input_frames r1 = rs_input_frames r + used
      \<and> rs_carried_frames r1 + used = rs_carried_frames r
      \<and> rs_output_frames r1 = rs_output_frames r + gen
      \<and> rs_pending_position r1 = (if result = Inr gen then add64 (rs_pending_position r) used
          else rs_pending_position r)
      \<and> (if isl result then used = 0 \<and> gen = 0 else result = Inr gen \<and> 0 < used + gen \<and> produced + gen \<le> frames))
    \<and> resampler_ok r1 \<and> rs_config r1 = rs_config r \<and> rs_primed r1 = rs_primed r
    \<and> rs_short_pulls r1 = rs_short_pulls r \<and> length output1 = length output"
  proof (cases "sa_code a = 0 \<and> \<not> (sa_output_frames_gen a = 0 \<and> sa_input_frames_used a = 0)")
    case False
    then have r1: "r1 = r\<lparr>rs_state := s, rs_out := overwrite 0 (sa_data_out a) (rs_out r)\<rparr>"
      "output1 = output" "isl result"
      using step call by (auto simp: convert_step_def Let_def split: if_splits)
    have "resampler_ok r1" "carry r1 = carry r"
      using ok lo by (simp_all add: r1 resampler_ok_def carry_def)
    then show ?thesis using r1 by (intro conjI exI [of _ 0]) (auto simp: isl_def)
  next
    case True
    let ?used = "sa_input_frames_used a" and ?gen = "sa_output_frames_gen a"
    let ?left = "rs_carried_frames r - ?used"
    have law': "?used \<le> rs_carried_frames r" "?gen \<le> frames - produced"
      "length (sa_data_out a) = ?gen * ?ch" using lawful True by auto
    let ?in = "if ?left > 0 \<and> ?used > 0 then overwrite 0 (chunk (?used * ?ch) (?left * ?ch) (rs_in r)) (rs_in r)
        else rs_in r"
    let ?out = "overwrite 0 (sa_data_out a) (rs_out r)"
    have r1: "r1 = r\<lparr>rs_state := s, rs_out := ?out, rs_in := ?in, rs_carried_frames := ?left,
        rs_pending_position := add64 (rs_pending_position r) ?used,
        rs_input_frames := rs_input_frames r + ?used, rs_output_frames := rs_output_frames r + ?gen\<rparr>"
      and o1: "output1 = overwrite (produced * ?ch * 3) (float_to_s24_3le (take (?gen * ?ch) ?out)) output"
      and res: "result = Inr ?gen"
      using step call True by (cases r; auto simp: convert_step_def Let_def split: if_splits)+
    have gn: "?gen * ?ch \<le> ?n * ?ch" using law'(2) space p by (intro mult_le_mono1) simp
    have bound: "rs_carried_frames r * ?ch \<le> 4 * (?n * ?ch)"
      using mult_le_mono1 [OF o(4), of ?ch] by simp
    have sum: "?used * ?ch + ?left * ?ch = rs_carried_frames r * ?ch"
      using law'(1) by (simp add: add_mult_distrib [symmetric])
    have lc: "length (chunk (?used * ?ch) (?left * ?ch) (rs_in r)) = ?left * ?ch"
      unfolding length_chunk o(3) by (rule min_absorb1) (use sum bound in linarith)
    have "0 + length (chunk (?used * ?ch) (?left * ?ch) (rs_in r)) \<le> length (rs_in r)"
      unfolding lc o(3) using sum bound by linarith
    from length_overwrite [OF this] have li: "length ?in = length (rs_in r)" by (simp split: if_split)
    have "carry r1 = drop (?used * ?ch) (carry r)"
    proof (cases "?left > 0 \<and> ?used > 0")
      case True
      have "carry r1 = chunk (?used * ?ch) (?left * ?ch) (rs_in r)"
        using True lc by (simp add: carry_def r1 overwrite_def)
      also have "\<dots> = drop (?used * ?ch) (carry r)"
        by (simp add: chunk_def carry_def drop_take diff_mult_distrib)
      finally show ?thesis .
    next
      case False
      then show ?thesis using law'(1) length_carry [OF ok] by (auto simp: carry_def r1)
    qed
    moreover have "resampler_ok r1" using ok li lo law'(1) add64_less by (auto simp: resampler_ok_def r1 Let_def)
    moreover have "length output1 = length output"
    proof -
      have "length (float_to_s24_3le (take (?gen * ?ch) ?out)) = ?gen * ?ch * 3"
        using lo out gn by (simp add: length_float_bytes)
      moreover have "(produced + ?gen) * ?ch * 3 \<le> frames * ?ch * 3"
        using law'(2) p by (intro mult_le_mono1) simp
      ultimately show ?thesis using size unfolding o1
        by (intro length_overwrite) (simp add: algebra_simps)
    qed
    moreover have "0 < ?used + ?gen" "produced + ?gen \<le> frames" using True law'(2) p by auto
    ultimately show ?thesis
      using law'(1) by (intro conjI exI [of _ ?used] exI [of _ ?gen]) (simp_all add: r1 res)
  qed
  then show "\<exists>used gen. carry r1 = drop (used * ?ch) (carry r)
      \<and> rs_input_frames r1 = rs_input_frames r + used
      \<and> rs_carried_frames r1 + used = rs_carried_frames r
      \<and> rs_output_frames r1 = rs_output_frames r + gen
      \<and> rs_pending_position r1 = (if result = Inr gen then add64 (rs_pending_position r) used
          else rs_pending_position r)
      \<and> (if isl result then used = 0 \<and> gen = 0 else result = Inr gen \<and> 0 < used + gen \<and> produced + gen \<le> frames)"
    by blast
  show "resampler_ok r1" "rs_config r1 = rs_config r" "rs_primed r1 = rs_primed r"
    "rs_short_pulls r1 = rs_short_pulls r" "length output1 = length output"
    using all by blast+
qed

subsection \<open>A pull\<close>

lemma takes_append:
  "takes n b = (b1, o1) \<Longrightarrow> takes m b1 = (b2, o2) \<Longrightarrow> takes (n + m) b = (b2, o1 @ o2)"
  by (induction n arbitrary: b o1) (auto split: prod.splits)

lemma floats_of_append: "floats_of (o1 @ o2) = floats_of o1 @ floats_of o2"
  by (simp add: floats_of_def)

lemma periods_of_append: "periods_of (o1 @ o2) = periods_of o1 + periods_of o2"
  by (simp add: periods_of_def)

text \<open>
  What any part of a pull did: some takes, and the carry is what follows the frames the converter
  used in the old carry and the audio taken.
\<close>

definition moved ::
  "(bytes \<times> nat) option list \<Rightarrow> 's resampler \<Rightarrow> playout_buffer \<Rightarrow> 's resampler \<Rightarrow> playout_buffer \<Rightarrow> bool" where
  "moved outs r b r' b' \<longleftrightarrow>
     (let used = rs_input_frames r' - rs_input_frames r; ch = rc_channels (rs_config r);
          n = rc_period_frames (rs_config r) in
      resampler_ok r' \<and> feeds b' r' \<and> rs_config r' = rs_config r \<and> rs_primed r'
      \<and> takes (length outs) b = (b', outs) \<and> length (floats_of outs) = periods_of outs * n * ch
      \<and> rs_input_frames r \<le> rs_input_frames r'
      \<and> used + rs_carried_frames r' = rs_carried_frames r + periods_of outs * n
      \<and> carry r' = drop (used * ch) (carry r @ floats_of outs)
      \<and> rs_pending_position r' = add64 (rs_pending_position r) used)"

lemma moved_ok: "moved outs r b r' b' \<Longrightarrow> resampler_ok r' \<and> feeds b' r'"
  by (simp add: moved_def Let_def)

lemma moved_trans:
  assumes "moved o1 r b r1 b1" "moved o2 r1 b1 r2 b2" "resampler_ok r"
  shows "moved (o1 @ o2) r b r2 b2"
proof -
  let ?ch = "rc_channels (rs_config r)" and ?n = "rc_period_frames (rs_config r)"
  let ?k1 = "rs_input_frames r1 - rs_input_frames r" and ?k2 = "rs_input_frames r2 - rs_input_frames r1"
  note a = assms(1) [unfolded moved_def Let_def] and c = assms(2) [unfolded moved_def Let_def]
  have cfg: "rs_config r1 = rs_config r" using a by blast
  have k: "rs_input_frames r2 - rs_input_frames r = ?k2 + ?k1" using a c by linarith
  have "?k1 \<le> rs_carried_frames r + periods_of o1 * ?n" using a by linarith
  then have "?k1 * ?ch \<le> (rs_carried_frames r + periods_of o1 * ?n) * ?ch" by (rule mult_le_mono1)
  also have "\<dots> = length (carry r @ floats_of o1)"
    using a length_carry [OF assms(3)] by (simp add: add_mult_distrib)
  finally have "drop (?k1 * ?ch) (carry r @ floats_of o1) @ floats_of o2
      = drop (?k1 * ?ch) ((carry r @ floats_of o1) @ floats_of o2)" by simp
  moreover have "carry r1 = drop (?k1 * ?ch) (carry r @ floats_of o1)" using a by blast
  moreover have "carry r2 = drop (?k2 * ?ch) (carry r1 @ floats_of o2)" using c cfg by simp
  ultimately have carry: "carry r2 = drop ((?k2 + ?k1) * ?ch) (carry r @ floats_of (o1 @ o2))"
    by (simp only: floats_of_append append_assoc drop_drop add_mult_distrib)
  have "takes (length (o1 @ o2)) b = (b2, o1 @ o2)"
    using takes_append a c by fastforce
  moreover have "length (floats_of (o1 @ o2)) = periods_of (o1 @ o2) * ?n * ?ch"
    using a c cfg by (simp add: floats_of_append periods_of_append add_mult_distrib)
  moreover have "?k2 + ?k1 + rs_carried_frames r2 = rs_carried_frames r + periods_of (o1 @ o2) * ?n"
  proof -
    have "?k1 + rs_carried_frames r1 = rs_carried_frames r + periods_of o1 * ?n" using a by blast
    moreover have "?k2 + rs_carried_frames r2 = rs_carried_frames r1 + periods_of o2 * ?n"
      using c cfg by simp
    ultimately show ?thesis by (simp add: periods_of_append add_mult_distrib)
  qed
  moreover have "rs_pending_position r2 = add64 (rs_pending_position r) (?k2 + ?k1)"
    using a c by (simp add: add64_def mod_simps add.commute add.left_commute)
  ultimately show ?thesis
    unfolding moved_def Let_def k using a c carry cfg by simp
qed

lemma moved_still:
  assumes "resampler_ok r" "feeds b r" "rs_primed r" "takes (length outs) b = (b', outs)"
    and "floats_of outs = []" "periods_of outs = 0" "feeds b' r"
  shows "moved outs r b (r\<lparr>rs_short_pulls := s\<rparr>) b'"
  using assms resampler_okD(7) [OF assms(1)]
  by (simp add: moved_def resampler_ok_def feeds_def carry_def add64_def Let_def)

lemma moved_fill:
  assumes "resampler_ok r" "feeds b r" "rs_primed r" "rs_carried_frames r = 0"
    and "fill_from_buffer r b = (r1, b1, Filled)"
  obtains out where "moved [out] r b r1 b1"
proof -
  note f = fill_empty [OF assms(1,2,4,5)]
  obtain x p where t: "take_period b = (b1, Some (x, p))" "carry r1 = s24_3le_to_float x"
    "rs_pending_position r1 = rs_pending_position r" using f(3) assms(3) by auto
  have b: "pb_inv b" "pb_period_bytes b = rc_period_frames (rs_config r) * rc_channels (rs_config r) * 3"
    using assms(2) by (auto simp: feeds_def)
  have len: "length (s24_3le_to_float x) = rc_period_frames (rs_config r) * rc_channels (rs_config r)"
    using take_some(2) [OF b(1) t(1)] b(2) by (simp add: length_s24_3le_to_float)
  have "carry r = []" using assms(4) by (simp add: carry_def)
  then have "moved [Some (x, p)] r b r1 b1"
    using f(4,5) t len assms(4) resampler_okD(7) [OF assms(1)]
    by (simp add: moved_def floats_of_def periods_of_def add64_def Let_def)
  then show thesis by (rule that)
qed

lemma moved_convert:
  assumes "resampler_ok r" "feeds b r" "rs_primed r" "keeps_to_request src (rc_channels (rs_config r))"
    and "frames \<le> rc_period_frames (rs_config r)"
    and "length target = frames * rc_channels (rs_config r) * 3" and "produced < frames"
    and "convert_step src r target frames produced = (r1, target1, result)"
  shows "moved [] r b r1 b"
proof -
  note c = convert_props [OF assms(1,4-8)]
  obtain used gen where u: "carry r1 = drop (used * rc_channels (rs_config r)) (carry r)"
    "rs_input_frames r1 = rs_input_frames r + used" "rs_carried_frames r1 + used = rs_carried_frames r"
    "rs_pending_position r1 = (if result = Inr gen then add64 (rs_pending_position r) used
          else rs_pending_position r)" "if isl result then used = 0 else result = Inr gen"
    using c(1) by (metis (full_types))
  have "rs_pending_position r1 = add64 (rs_pending_position r) used"
    using u(4,5) resampler_okD(7) [OF assms(1)] by (cases "isl result") (auto simp: add64_def isl_def)
  then show ?thesis
    using assms(2,3) c u by (simp add: moved_def feeds_def floats_of_def periods_of_def Let_def)
qed

lemma pull_loop_returns:
  assumes "resampler_ok r" "feeds b r" "rs_primed r" "keeps_to_request src (rc_channels (rs_config r))"
    and "frames \<le> rc_period_frames (rs_config r)"
    and "length target = frames * rc_channels (rs_config r) * 3" and "produced \<le> frames"
  shows "\<exists>r' b' target' error outs. pull_loop src r b target frames produced = Some (r', b', target', error)
    \<and> moved outs r b r' b' \<and> length target' = length target
    \<and> (error = None \<longrightarrow> rs_short_pulls r' = rs_short_pulls r
          \<and> rs_output_frames r' = rs_output_frames r + (frames - produced)
        \<or> rs_short_pulls r' = rs_short_pulls r + 1
          \<and> rs_output_frames r' < rs_output_frames r + (frames - produced)
          \<and> rs_carried_frames r' = 0 \<and> outs \<noteq> [] \<and> last outs = None)"
  using assms
proof (induction "held_periods b * (rc_period_frames (rs_config r) + 1) + rs_carried_frames r
      + (frames - produced)" arbitrary: r b target produced rule: less_induct)
  case less
  note ok = less.prems(1) and fd = less.prems(2) and pr = less.prems(3) and law = less.prems(4)
    and fr = less.prems(5) and tg = less.prems(6)
  let ?ch = "rc_channels (rs_config r)" and ?n = "rc_period_frames (rs_config r)"
  show ?case
  proof (cases "produced < frames")
    case False
    have "moved [] r b r b"
      using moved_still [OF ok fd pr, of "[]" b "rs_short_pulls r"] fd
      by (simp add: floats_of_def periods_of_def)
    moreover have "pull_loop src r b target frames produced = Some (r, b, target, None)"
      using False by (simp add: pull_loop.simps)
    ultimately show ?thesis using False less.prems(7) by auto
  next
    case True
    obtain r1 b1 filled where f: "(if rs_carried_frames r = 0 then fill_from_buffer r b else (r, b, Filled))
        = (r1, b1, filled)" by (cases "if rs_carried_frames r = 0 then fill_from_buffer r b else (r, b, Filled)")
    have no_look: "filled \<noteq> LookAhead" using f fill_empty(1) [OF ok fd] by (auto split: if_splits)
    show ?thesis
    proof (cases "filled = BufferDry")
      case dry: True
      have empty: "rs_carried_frames r = 0" and fill: "fill_from_buffer r b = (r1, b1, BufferDry)"
        using f dry by (auto split: if_splits)
      have t: "r1 = r" "take_period b = (b1, None)" using fill_empty(2) [OF ok fd empty fill] by auto
      have "feeds b1 r" using fill_empty(5) [OF ok fd empty fill] t(1) by simp
      then have m: "moved [None] r b (r\<lparr>rs_short_pulls := rs_short_pulls r + 1\<rparr>) b1"
        using moved_still [OF ok fd pr, of "[None]" b1] t(2) by (simp add: floats_of_def periods_of_def)
      have "pull_loop src r b target frames produced
          = Some (r\<lparr>rs_short_pulls := rs_short_pulls r + 1\<rparr>, b1, target, None)"
        using True f dry t(1) by (subst pull_loop.simps) simp
      then show ?thesis using m True empty by (intro exI conjI) (assumption | simp)+
    next
      case False
      then have filled: "filled = Filled" using no_look by (cases filled) auto
      have pre: "resampler_ok r1 \<and> feeds b1 r1 \<and> rs_primed r1 \<and> rs_config r1 = rs_config r
          \<and> rs_out r1 = rs_out r \<and> rs_short_pulls r1 = rs_short_pulls r
          \<and> rs_output_frames r1 = rs_output_frames r
          \<and> held_periods b1 * (?n + 1) + rs_carried_frames r1 \<le> held_periods b * (?n + 1) + rs_carried_frames r
          \<and> (\<exists>o1. moved o1 r b r1 b1)"
      proof (cases "rs_carried_frames r = 0")
        case True
        have fill: "fill_from_buffer r b = (r1, b1, Filled)" using f True filled by simp
        obtain out where "moved [out] r b r1 b1" by (rule moved_fill [OF ok fd pr True fill])
        then show ?thesis
          using fill_empty(4,5,6) [OF ok fd True fill] True by (auto simp: add_mult_distrib)
      next
        case False
        have "moved [] r b r b"
          using moved_still [OF ok fd pr, of "[]" b "rs_short_pulls r"] fd
          by (simp add: floats_of_def periods_of_def)
        then show ?thesis using f False ok fd pr by auto
      qed
      then obtain o1 where o1: "moved o1 r b r1 b1" by blast
      obtain r2 target2 step where c: "convert_step src r1 target frames produced = (r2, target2, step)"
        by (cases "convert_step src r1 target frames produced")
      have pre1: "resampler_ok r1" "feeds b1 r1" "rs_primed r1"
        "keeps_to_request src (rc_channels (rs_config r1))" "frames \<le> rc_period_frames (rs_config r1)"
        "length target = frames * rc_channels (rs_config r1) * 3"
        using pre law fr tg by simp_all
      note cp = convert_props [OF pre1(1,4-6) True c]
      have m2: "moved o1 r b r2 b1"
        using moved_trans [OF o1 moved_convert [OF pre1 True c] ok] by simp
      have loop: "pull_loop src r b target frames produced =
          (if isl step then Some (r2, b1, target2, Some (projl step))
           else pull_loop src r2 b1 target2 frames (produced + projr step))"
        using True f filled c by (subst pull_loop.simps) simp
      obtain used gen where u: "rs_carried_frames r2 + used = rs_carried_frames r1"
        "rs_output_frames r2 = rs_output_frames r1 + gen"
        "if isl step then used = 0 \<and> gen = 0 else step = Inr gen \<and> 0 < used + gen \<and> produced + gen \<le> frames"
        using cp(1) by blast
      show ?thesis
      proof (cases "isl step")
        case True
        then show ?thesis using loop m2 cp(6) by (intro exI conjI) (assumption | simp)+
      next
        case step: False
        then have g: "step = Inr gen" "0 < used + gen" "produced + gen \<le> frames" using u(3) by simp_all
        have fd2: "feeds b1 r2" using m2 by (simp add: moved_def Let_def)
        have "\<exists>r' b' target' error outs. pull_loop src r2 b1 target2 frames (produced + gen)
              = Some (r', b', target', error)
            \<and> moved outs r2 b1 r' b' \<and> length target' = length target2
            \<and> (error = None \<longrightarrow> rs_short_pulls r' = rs_short_pulls r2
                  \<and> rs_output_frames r' = rs_output_frames r2 + (frames - (produced + gen))
                \<or> rs_short_pulls r' = rs_short_pulls r2 + 1
                  \<and> rs_output_frames r' < rs_output_frames r2 + (frames - (produced + gen))
                  \<and> rs_carried_frames r' = 0 \<and> outs \<noteq> [] \<and> last outs = None)"
        proof (rule less.hyps)
          have "rs_carried_frames r2 + (frames - (produced + gen)) < rs_carried_frames r1 + (frames - produced)"
            using u(1) g by linarith
          then show "held_periods b1 * (rc_period_frames (rs_config r2) + 1) + rs_carried_frames r2
              + (frames - (produced + gen))
            < held_periods b * (?n + 1) + rs_carried_frames r + (frames - produced)"
            using pre cp(3) by simp
        qed (use cp pre1 fd2 g(3) step pre in simp_all)
        then obtain r' b' target' error outs where
          l: "pull_loop src r2 b1 target2 frames (produced + gen) = Some (r', b', target', error)"
          and m: "moved outs r2 b1 r' b'" and t: "length target' = length target2"
          and e: "error = None \<longrightarrow> rs_short_pulls r' = rs_short_pulls r2
                  \<and> rs_output_frames r' = rs_output_frames r2 + (frames - (produced + gen))
                \<or> rs_short_pulls r' = rs_short_pulls r2 + 1
                  \<and> rs_output_frames r' < rs_output_frames r2 + (frames - (produced + gen))
                  \<and> rs_carried_frames r' = 0 \<and> outs \<noteq> [] \<and> last outs = None"
          by blast
        have total: "rs_output_frames r2 + (frames - (produced + gen))
            = rs_output_frames r + (frames - produced)"
          using u(2) g(3) pre by linarith
        have "rs_short_pulls r2 = rs_short_pulls r" using cp(5) pre by simp
        then have "error = None \<longrightarrow> rs_short_pulls r' = rs_short_pulls r
                  \<and> rs_output_frames r' = rs_output_frames r + (frames - produced)
                \<or> rs_short_pulls r' = rs_short_pulls r + 1
                  \<and> rs_output_frames r' < rs_output_frames r + (frames - produced)
                  \<and> rs_carried_frames r' = 0 \<and> o1 @ outs \<noteq> [] \<and> last (o1 @ outs) = None"
          using e unfolding total by auto
        moreover have "pull_loop src r b target frames produced = Some (r', b', target', error)"
          using loop l g(1) by simp
        moreover have "length target' = length target" using t cp(6) by simp
        ultimately show ?thesis using moved_trans [OF m2 m ok] by blast
      qed
    qed
  qed
qed

text \<open>
  One whole pull of an open resampler. The first audio settles where it starts: the position of the
  buffer's head, which is where \<open>primed_at\<close> sets it.
\<close>

definition primed_at :: "'s resampler \<Rightarrow> nat \<Rightarrow> 's resampler" where
  "primed_at r p = (if rs_primed r then r else r\<lparr>rs_primed := True, rs_pending_position := p\<rparr>)"

lemma fill_primed:
  assumes "feeds b r" "fill_from_buffer r b = (r1, b1, Filled)"
  shows "fill_from_buffer (primed_at r (pb_head b)) b = (r1, b1, Filled)"
proof -
  have p: "p = pb_head b" if "take_period b = (b', Some (x, p))" for b' x p
    using take_some(6) that assms(1) by (auto simp: feeds_def)
  show ?thesis
    using assms(2) p unfolding primed_at_def fill_from_buffer_def Let_def
    by (cases "rs_primed r") (auto split: if_splits option.splits prod.splits)
qed

lemma primed_at_ok:
  assumes "resampler_ok r" "feeds b r"
  shows "resampler_ok (primed_at r (pb_head b))" and "feeds b (primed_at r (pb_head b))"
    and "rs_primed (primed_at r (pb_head b))"
    and "rs_config (primed_at r p) = rs_config r" and "rs_carried_frames (primed_at r p) = rs_carried_frames r"
    and "rs_output_frames (primed_at r p) = rs_output_frames r"
    and "rs_short_pulls (primed_at r p) = rs_short_pulls r"
    and "rs_input_frames (primed_at r p) = rs_input_frames r" and "carry (primed_at r p) = carry r"
proof -
  have "pb_head b < 18446744073709551616"
    using assms(2) pb_inv_range [of b] by (simp add: feeds_def k_empty_def)
  then show "resampler_ok (primed_at r (pb_head b))"
    using assms(1) by (simp add: primed_at_def resampler_ok_def Let_def)
qed (use assms in \<open>simp_all add: primed_at_def feeds_def carry_def\<close>)

lemma resampler_pull_eq:
  assumes "0 < frames" "frames \<le> rc_period_frames (rs_config r)"
  shows "resampler_pull (Some src) (Some r) (Some b) (Some target) frames =
    (case (if rs_carried_frames r = 0 then fill_from_buffer r b else (r, b, Filled)) of
       (r1, b1, filled) \<Rightarrow>
         if filled = LookAhead then Some (Some r1, Some b1, Some target, PullRefused ResamplerLookAhead)
         else if filled = BufferDry then Some (Some r1, Some b1, Some target, PullDry)
         else map_option
           (\<lambda>(r2, b2, target2, error). (Some r2, Some b2, Some target2,
              case error of Some e \<Rightarrow> PullStopped e
              | None \<Rightarrow> Pulled (if rs_primed r1 then rs_pending_position r1 else 0)))
           (pull_loop src r1 b1
              (overwrite 0 (replicate (frames * rc_channels (rs_config r1) * 3) 0) target) frames 0))"
proof -
  have "frames \<noteq> 0" "\<not> frames > rc_period_frames (rs_config r)" using assms by simp_all
  then show ?thesis by (simp only: resampler_pull_def Let_def option.case option.sel simp_thms if_False option.distinct)
qed

lemma pull_props:
  assumes ok: "resampler_ok r" and fd: "feeds b r"
    and law: "keeps_to_request src (rc_channels (rs_config r))"
    and fr: "0 < frames" "frames \<le> rc_period_frames (rs_config r)"
    and size: "length target = frames * rc_channels (rs_config r) * 3"
  shows "\<exists>r' b' target' result. resampler_pull (Some src) (Some r) (Some b) (Some target) frames
      = Some (Some r', Some b', Some target', result)
    \<and> length target' = length target
    \<and> (result = PullDry \<and> r' = r \<and> target' = target \<and> take_period b = (b', None)
       \<or> (\<exists>outs. moved outs (primed_at r (pb_head b)) b r' b')
         \<and> (result = Pulled (rs_pending_position (primed_at r (pb_head b)))
              \<and> (rs_short_pulls r' = rs_short_pulls r \<and> rs_output_frames r' = rs_output_frames r + frames
                 \<or> rs_short_pulls r' = rs_short_pulls r + 1
                   \<and> rs_output_frames r' < rs_output_frames r + frames)
            \<or> (\<exists>e. result = PullStopped e)))"
proof -
  let ?r = "primed_at r (pb_head b)"
  let ?fill = "if rs_carried_frames r = 0 then fill_from_buffer r b else (r, b, Filled)"
  obtain r1 b1 filled where f: "?fill = (r1, b1, filled)" by (cases ?fill)
  have no_look: "filled \<noteq> LookAhead" using f fill_empty(1) [OF ok fd] by (auto split: if_splits)
  note p = primed_at_ok [OF ok fd]
  show ?thesis
  proof (cases "filled = BufferDry")
    case True
    then have empty: "rs_carried_frames r = 0" and fill: "fill_from_buffer r b = (r1, b1, BufferDry)"
      using f by (auto split: if_splits)
    then have "r1 = r" "take_period b = (b1, None)" using fill_empty(2) [OF ok fd empty fill] by auto
    moreover have "resampler_pull (Some src) (Some r) (Some b) (Some target) frames
        = Some (Some r1, Some b1, Some target, PullDry)"
      unfolding resampler_pull_eq [OF fr] f prod.case using True by simp
    ultimately show ?thesis by blast
  next
    case False
    then have filled: "filled = Filled" using no_look by (cases filled) auto
    have "resampler_ok r1 \<and> feeds b1 r1 \<and> rs_primed r1 \<and> rs_config r1 = rs_config r
        \<and> rs_short_pulls r1 = rs_short_pulls r \<and> rs_output_frames r1 = rs_output_frames r
        \<and> rs_pending_position r1 = rs_pending_position ?r \<and> (\<exists>o1. moved o1 ?r b r1 b1)"
    proof (cases "rs_carried_frames r = 0")
      case True
      have fill: "fill_from_buffer r b = (r1, b1, Filled)" using f True filled by simp
      have fill': "fill_from_buffer ?r b = (r1, b1, Filled)" by (rule fill_primed [OF fd fill])
      obtain out where "moved [out] ?r b r1 b1"
        using moved_fill [OF p(1,2,3) _ fill'] True p(5) by auto
      moreover have "rs_pending_position r1 = rs_pending_position ?r"
        using fill_empty(3) [OF p(1,2) _ fill'] True p(3,5) by auto
      ultimately show ?thesis using fill_empty(4,5) [OF ok fd True fill] by blast
    next
      case False
      then have same: "?r = r" using resampler_okD(6) [OF ok] by (simp add: primed_at_def)
      have "moved [] r b r b"
        using moved_still [OF ok fd _, of "[]" b "rs_short_pulls r"] fd p(3) same
        by (simp add: floats_of_def periods_of_def)
      then show ?thesis using f False ok fd p(3) same by auto
    qed
    then obtain o1 where r1: "resampler_ok r1" "feeds b1 r1" "rs_primed r1" "rs_config r1 = rs_config r"
      "rs_short_pulls r1 = rs_short_pulls r" "rs_output_frames r1 = rs_output_frames r"
      "rs_pending_position r1 = rs_pending_position ?r" "moved o1 ?r b r1 b1" by blast
    let ?silent = "overwrite 0 (replicate (frames * rc_channels (rs_config r1) * 3) 0) target"
    have silent: "length ?silent = frames * rc_channels (rs_config r1) * 3"
      using size r1(4) by (simp add: overwrite_def)
    have law1: "keeps_to_request src (rc_channels (rs_config r1))"
      and fr1: "frames \<le> rc_period_frames (rs_config r1)" using law fr(2) r1(4) by simp_all
    obtain r' b' target' error outs where l: "pull_loop src r1 b1 ?silent frames 0
        = Some (r', b', target', error)" "moved outs r1 b1 r' b'" "length target' = length ?silent"
      "error = None \<longrightarrow> rs_short_pulls r' = rs_short_pulls r1
          \<and> rs_output_frames r' = rs_output_frames r1 + (frames - 0)
        \<or> rs_short_pulls r' = rs_short_pulls r1 + 1
          \<and> rs_output_frames r' < rs_output_frames r1 + (frames - 0)
          \<and> rs_carried_frames r' = 0 \<and> outs \<noteq> [] \<and> last outs = None"
      using pull_loop_returns [OF r1(1,2,3) law1 fr1 silent le0] by blast
    have "resampler_pull (Some src) (Some r) (Some b) (Some target) frames
      = Some (Some r', Some b', Some target',
          case error of Some e \<Rightarrow> PullStopped e | None \<Rightarrow> Pulled (rs_pending_position ?r))"
      unfolding resampler_pull_eq [OF fr] f prod.case using filled l(1) r1(3,7) by (cases error) simp_all
    moreover have "length target' = length target" using l(3) silent size r1(4) by simp
    ultimately show ?thesis
      using moved_trans [OF r1(8) l(2) p(1)] l(4) r1(5,6) by (cases error) auto
  qed
qed

subsection \<open>Properties\<close>

text \<open>
  C39. A pull always comes back: with a library that keeps to what it was offered, whatever ratio and
  whatever it produces, a pull on an open resampler ends after finitely many conversions, and leaves
  the output its own length and the state well formed for the next pull.
\<close>

theorem pull_returns:
  assumes "resampler_ok r" and "feeds b r" and "keeps_to_request src (rc_channels (rs_config r))"
    and "0 < frames" "frames \<le> rc_period_frames (rs_config r)"
    and "length target = frames * rc_channels (rs_config r) * 3"
  shows "\<exists>r' b' target' result. resampler_pull (Some src) (Some r) (Some b) (Some target) frames
      = Some (Some r', Some b', Some target', result)
    \<and> length target' = length target \<and> resampler_ok r' \<and> feeds b' r'"
proof -
  obtain r' b' target' result where p: "resampler_pull (Some src) (Some r) (Some b) (Some target) frames
      = Some (Some r', Some b', Some target', result)" "length target' = length target"
    "r' = r \<and> take_period b = (b', None) \<or> (\<exists>outs. moved outs (primed_at r (pb_head b)) b r' b')"
    using pull_props [OF assms] by blast
  have dry: "feeds b' r" if "take_period b = (b', None)"
    using take_none [OF _ that] assms(2) by (simp add: feeds_def)
  have "resampler_ok r' \<and> feeds b' r'"
    using p(3)
  proof
    assume "\<exists>outs. moved outs (primed_at r (pb_head b)) b r' b'"
    then show ?thesis using moved_ok by blast
  qed (use assms(1) dry in simp)
  then show ?thesis using p(1,2) by blast
qed

text \<open>The library the witnesses use: it passes the samples through.\<close>

definition unity :: "nat \<Rightarrow> unit samplerate" where
  "unity channels = \<lparr>src_new = (\<lambda>_ _. Inr ()), src_process = (\<lambda>s d.
     let n = min (sd_input_frames d) (sd_output_frames d) in
     (s, \<lparr>sa_code = 0, sa_input_frames_used = n, sa_output_frames_gen = n,
          sa_data_out = take (n * channels) (sd_data_in d @ replicate (n * channels) (Real 0))\<rparr>))\<rparr>"

lemma unity_keeps: "keeps_to_request (unity channels) channels"
  by (auto simp: keeps_to_request_def unity_def Let_def min_def)

definition mono_resampler :: "unit resampler" where
  "mono_resampler = the (fst (resampler_open (Some (unity 1))
     \<lparr>rc_converter = sinc_medium, rc_channels = 1, rc_rate = 48000, rc_period_frames = 1\<rparr>))"

definition mono_format :: audio_format where
  "mono_format = \<lparr>af_sample_rate = 48000, af_channels = 1, af_period_frames = 1, af_sample_bytes = 3\<rparr>"

text \<open>A buffer that holds the periods 0 and 2, and has lost the one between them.\<close>

definition holed_buffer :: playout_buffer where
  "holed_buffer = fst (push (fst (push (playout_init 4 mono_format) 0 (Some [1, 2, 3]))) 2 (Some [4, 5, 6]))"

lemma mono_ok: "resampler_ok mono_resampler" "rs_config mono_resampler
    = \<lparr>rc_converter = sinc_medium, rc_channels = 1, rc_rate = 48000, rc_period_frames = 1\<rparr>"
  by (simp_all add: mono_resampler_def resampler_open_def unity_def resampler_ok_def Let_def)

lemma holed_feeds: "feeds holed_buffer mono_resampler"
proof -
  let ?b = "playout_init 4 mono_format"
  have i: "pb_inv ?b"
    by (rule playout_init_inv) (simp_all add: mono_format_def period_bytes_def period_samples_def)
  have shape: "pb_period_frames ?b = 1" "pb_period_bytes ?b = 3"
    "pb_period_frames (fst (push ?b 0 (Some [1, 2, 3]))) = 1"
    "pb_period_bytes (fst (push ?b 0 (Some [1, 2, 3]))) = 3" by code_simp+
  have "pb_inv (fst (push ?b 0 (Some [1, 2, 3])))"
    by (rule push_inv_aux [OF i]) (simp_all add: shape)
  then have "pb_inv holed_buffer"
    unfolding holed_buffer_def by (rule push_inv_aux) (simp_all add: shape last_position_def)
  moreover have "pb_period_frames holed_buffer = 1" "pb_period_bytes holed_buffer = 3" by code_simp+
  ultimately show ?thesis by (simp add: feeds_def mono_ok)
qed

theorem pull_returns_witness:
  "\<exists>r' b' target' result. resampler_pull (Some (unity 1)) (Some mono_resampler) (Some holed_buffer)
      (Some [9, 9, 9]) 1 = Some (Some r', Some b', Some target', result)
    \<and> length target' = length [9, 9, 9 :: u8] \<and> resampler_ok r' \<and> feeds b' r'"
  by (rule pull_returns [OF mono_ok(1) holed_feeds]) (simp_all add: mono_ok unity_keeps)

text \<open>
  C40. No audio is lost in the carry and none is invented: after any pull, what the resampler still
  carries is exactly what follows, in the old carry and the periods it took, the frames the converter
  reported as used; frames taken, used and carried balance; the position moves on by the frames
  used, from the buffer's head the first time; and a pull either gives all its frames or counts itself
  short.
\<close>

theorem pull_keeps_audio:
  assumes "resampler_ok r" and "feeds b r" and "keeps_to_request src (rc_channels (rs_config r))"
    and "0 < frames" "frames \<le> rc_period_frames (rs_config r)"
    and "length target = frames * rc_channels (rs_config r) * 3"
    and "resampler_pull (Some src) (Some r) (Some b) (Some target) frames
      = Some (Some r', Some b', Some target', result)" and "result \<noteq> PullDry"
    and "used = rs_input_frames r' - rs_input_frames r"
    and "start = (if rs_primed r then rs_pending_position r else pb_head b)"
  shows "\<exists>outs. takes (length outs) b = (b', outs)
    \<and> carry r' = drop (used * rc_channels (rs_config r)) (carry r @ floats_of outs)
    \<and> used + rs_carried_frames r' = rs_carried_frames r + periods_of outs * rc_period_frames (rs_config r)
    \<and> rs_pending_position r' = add64 start used
    \<and> (\<forall>position. result = Pulled position \<longrightarrow> position = start
         \<and> (rs_short_pulls r' = rs_short_pulls r \<and> rs_output_frames r' = rs_output_frames r + frames
            \<or> rs_short_pulls r' = rs_short_pulls r + 1
              \<and> rs_output_frames r' < rs_output_frames r + frames))"
proof -
  let ?r = "primed_at r (pb_head b)"
  have start: "rs_pending_position ?r = start" by (simp add: primed_at_def assms(10))
  obtain outs where m: "moved outs ?r b r' b'"
    and res: "result = Pulled start
        \<and> (rs_short_pulls r' = rs_short_pulls r \<and> rs_output_frames r' = rs_output_frames r + frames
           \<or> rs_short_pulls r' = rs_short_pulls r + 1 \<and> rs_output_frames r' < rs_output_frames r + frames)
      \<or> (\<exists>e. result = PullStopped e)"
    using pull_props [OF assms(1-6)] assms(7,8) start by auto
  show ?thesis
    using m res start primed_at_ok(4,5,8,9) [OF assms(1,2)] assms(9)
    by (intro exI [of _ outs]) (auto simp: moved_def Let_def)
qed

theorem pull_keeps_audio_witness:
  "\<exists>r' b' target' outs. resampler_pull (Some (unity 1)) (Some mono_resampler) (Some holed_buffer)
      (Some [9, 9, 9]) 1 = Some (Some r', Some b', Some target', Pulled 0)
    \<and> takes (length outs) holed_buffer = (b', outs)
    \<and> rs_input_frames r' + rs_carried_frames r' = periods_of outs"
proof -
  let ?pull = "resampler_pull (Some (unity 1)) (Some mono_resampler) (Some holed_buffer) (Some [9, 9, 9]) 1"
  have sizes: "keeps_to_request (unity 1) (rc_channels (rs_config mono_resampler))" "0 < (1 :: nat)"
    "1 \<le> rc_period_frames (rs_config mono_resampler)"
    "length [9, 9, 9 :: u8] = 1 * rc_channels (rs_config mono_resampler) * 3"
    by (simp_all add: mono_ok unity_keeps)
  obtain r' b' target' result where p: "?pull = Some (Some r', Some b', Some target', result)"
    using pull_props [OF mono_ok(1) holed_feeds sizes] by blast
  have "map_option (\<lambda>(r, b, out, result). result) ?pull = Some (Pulled 0)" by code_simp
  then have result: "result = Pulled 0" using p by simp
  then have "result \<noteq> PullDry" by simp
  from pull_keeps_audio [OF mono_ok(1) holed_feeds sizes p this refl refl] obtain outs where
    o: "takes (length outs) holed_buffer = (b', outs)"
      "rs_input_frames r' - rs_input_frames mono_resampler + rs_carried_frames r'
        = rs_carried_frames mono_resampler + periods_of outs * rc_period_frames (rs_config mono_resampler)"
    by blast
  have zero: "rs_input_frames mono_resampler = 0 \<and> rs_carried_frames mono_resampler = 0" by code_simp
  have "rs_input_frames r' + rs_carried_frames r' = periods_of outs"
    using o(2) zero mono_ok(2) by simp
  then show ?thesis using p result o(1) by blast
qed

text \<open>Pulls one after the other: the bytes of each and what it returned.\<close>

fun mono_pulls ::
  "nat \<Rightarrow> unit resampler option \<Rightarrow> playout_buffer option \<Rightarrow> (bytes option \<times> pull_result) list option" where
  "mono_pulls 0 r b = Some []"
| "mono_pulls (Suc n) r b =
     (case resampler_pull (Some (unity 1)) r b (Some [9, 9, 9]) 1 of
        None \<Rightarrow> None
      | Some (r', b', out, result) \<Rightarrow> map_option (\<lambda>rs. (out, result) # rs) (mono_pulls n r' b'))"

text \<open>
  The position a pull reports does not follow the sender over a hole. The buffer holds the periods of
  the positions 0 and 2; after the pull that finds the hole, the period of position 2 is given out
  under position 1, because the position the buffer returns is only looked at the first time.
\<close>

theorem position_ignores_holes:
  "mono_pulls 3 (Some mono_resampler) (Some holed_buffer)
     = Some [(Some [1, 2, 3], Pulled 0), (Some [9, 9, 9], PullDry), (Some [4, 5, 6], Pulled 1)]
   \<and> map (map_option snd) (snd (takes 3 holed_buffer)) = [Some 0, None, Some 2]"
  by (intro conjI; code_simp)

end
