(* ===== verification/Opus.thy ===== *)
theory Opus
  imports Pcm
begin

text \<open>
  The Opus codec of a block: src/src/codec/opus.hpp and src/src/codec/opus.cpp.

  libopus is not part of the repository: \<open>opus_api\<close> holds the calls the code makes, over the states
  of an encoder and a decoder, and \<open>None\<close> stands for a build without it. A call that returns an error
  code returns a negative number. The scratch vectors keep their lengths; the functions that fill
  them write at their front. What the code relies on is \<open>keeps_to_buffer\<close>: the library writes no more
  than the room it is given.
\<close>

subsection \<open>libopus and the state\<close>

record ('e, 'd) opus_api =
  encoder_create :: "int \<Rightarrow> nat \<Rightarrow> nat list \<Rightarrow> int + 'e"
  decoder_create :: "int \<Rightarrow> nat \<Rightarrow> nat list \<Rightarrow> int + 'd"
  set_bitrate :: "int \<Rightarrow> 'e \<Rightarrow> 'e"
  set_inband_fec :: "int \<Rightarrow> 'e \<Rightarrow> 'e"
  get_lookahead :: "'e \<Rightarrow> int option"
  encode_float :: "'e \<Rightarrow> float_value list \<Rightarrow> nat \<Rightarrow> nat \<Rightarrow> 'e \<times> int \<times> bytes"
  decode_float :: "'d \<Rightarrow> bytes \<Rightarrow> nat \<Rightarrow> 'd \<times> int \<times> float_value list"

definition k_max_packet_bytes :: nat where "k_max_packet_bytes = 4000"

record ('e, 'd) opus_block =
  ob_encoder :: "'e option"
  ob_decoder :: "'d option"
  ob_channels :: nat
  ob_sample_rate :: int
  ob_frame_frames :: nat
  ob_lookahead_ms :: real
  ob_floats :: "float_value list"
  ob_packet :: bytes

definition opus_init :: "('e, 'd) opus_block" where
  "opus_init = \<lparr>ob_encoder = None, ob_decoder = None, ob_channels = 0, ob_sample_rate = 48000,
     ob_frame_frames = 0, ob_lookahead_ms = 0, ob_floats = [], ob_packet = []\<rparr>"

datatype opus_error =
    OpusUnavailable | OpusChannels int | OpusShortFrame int | OpusEncoder int | OpusDecoder int
  | OpusEncoderNotOpen | OpusDecoderNotOpen | OpusNothingToEncode | OpusNothingToDecode
  | OpusFrameSize nat nat | OpusEncode int | OpusDecode int

subsection \<open>Operations\<close>

definition opus_available :: "('e, 'd) opus_api option \<Rightarrow> bool" where
  "opus_available library = (library \<noteq> None)"

definition opus_close :: "('e, 'd) opus_block \<Rightarrow> ('e, 'd) opus_block" where
  "opus_close b = b\<lparr>ob_encoder := None, ob_decoder := None, ob_channels := 0, ob_frame_frames := 0\<rparr>"

definition opus_open ::
  "('e, 'd) opus_api option \<Rightarrow> int \<Rightarrow> int \<Rightarrow> int \<Rightarrow> int \<Rightarrow> ('e, 'd) opus_block
     \<Rightarrow> ('e, 'd) opus_block \<times> opus_error option" where
  "opus_open library channels sample_rate frame_frames bitrate_bps_per_channel b =
     (case library of
        None \<Rightarrow> (b, Some OpusUnavailable)
      | Some api \<Rightarrow>
          let b0 = opus_close b in
          if channels < 1 \<or> channels > 255 then (b0, Some (OpusChannels channels))
          else if frame_frames < 120 then (b0, Some (OpusShortFrame frame_frames))
          else
            let n = nat channels; mapping = [0..<n] in
            case encoder_create api sample_rate n mapping of
              Inl status \<Rightarrow> (opus_close b0, Some (OpusEncoder status))
            | Inr encoder \<Rightarrow>
                case decoder_create api sample_rate n mapping of
                  Inl status \<Rightarrow> (opus_close (b0\<lparr>ob_encoder := Some encoder\<rparr>), Some (OpusDecoder status))
                | Inr decoder \<Rightarrow>
                    let bitrate = bitrate_bps_per_channel * channels;
                        encoder = set_inband_fec api 0 (set_bitrate api bitrate encoder);
                        lookahead_ms = (case get_lookahead api encoder of
                            Some frames \<Rightarrow> 1000 * real_of_int frames / real_of_int sample_rate
                          | None \<Rightarrow> ob_lookahead_ms b0)
                    in (\<lparr>ob_encoder = Some encoder, ob_decoder = Some decoder, ob_channels = n,
                         ob_sample_rate = sample_rate, ob_frame_frames = nat frame_frames,
                         ob_lookahead_ms = lookahead_ms,
                         ob_floats = replicate (n * nat frame_frames) (Real 0),
                         ob_packet = replicate k_max_packet_bytes 0\<rparr>, None))"

definition opus_is_open :: "('e, 'd) opus_block \<Rightarrow> bool" where
  "opus_is_open b \<longleftrightarrow> ob_encoder b \<noteq> None \<and> ob_decoder b \<noteq> None"

definition opus_encode ::
  "('e, 'd) opus_api option \<Rightarrow> bytes option \<Rightarrow> nat \<Rightarrow> ('e, 'd) opus_block
     \<Rightarrow> ('e, 'd) opus_block \<times> (opus_error + bytes)" where
  "opus_encode library pcm frames b =
     (case library of
        None \<Rightarrow> (b, Inl OpusUnavailable)
      | Some api \<Rightarrow>
          if \<not> opus_is_open b then (b, Inl OpusEncoderNotOpen)
          else if pcm = None then (b, Inl OpusNothingToEncode)
          else if frames \<noteq> ob_frame_frames b then (b, Inl (OpusFrameSize (ob_frame_frames b) frames))
          else
            let floats = overwrite 0
                  (s24_3le_to_float (take (frames * ob_channels b * 3) (the pcm))) (ob_floats b)
            in case encode_float api (the (ob_encoder b)) floats (ob_frame_frames b)
                    (length (ob_packet b)) of
                 (encoder, bytes, written) \<Rightarrow>
                   let b1 = b\<lparr>ob_encoder := Some encoder, ob_floats := floats,
                            ob_packet := overwrite 0 written (ob_packet b)\<rparr>
                   in if bytes < 0 then (b1, Inl (OpusEncode bytes))
                      else (b1, Inr (take (nat bytes) (ob_packet b1))))"

definition opus_decode ::
  "('e, 'd) opus_api option \<Rightarrow> bytes option \<Rightarrow> nat \<Rightarrow> bytes \<Rightarrow> ('e, 'd) opus_block
     \<Rightarrow> ('e, 'd) opus_block \<times> bytes \<times> opus_error option" where
  "opus_decode library packet frames pcm b =
     (case library of
        None \<Rightarrow> (b, pcm, Some OpusUnavailable)
      | Some api \<Rightarrow>
          if \<not> opus_is_open b then (b, pcm, Some OpusDecoderNotOpen)
          else if packet = None \<or> packet = Some [] then (b, pcm, Some OpusNothingToDecode)
          else if frames \<noteq> ob_frame_frames b
            then (b, pcm, Some (OpusFrameSize (ob_frame_frames b) frames))
          else case decode_float api (the (ob_decoder b)) (the packet) (ob_frame_frames b) of
            (decoder, decoded, floats) \<Rightarrow>
              let b1 = b\<lparr>ob_decoder := Some decoder, ob_floats := overwrite 0 floats (ob_floats b)\<rparr>
              in if decoded < 0 then (b1, pcm, Some (OpusDecode decoded))
                 else (b1, overwrite 0
                        (float_to_s24_3le (take (frames * ob_channels b1) (ob_floats b1))) pcm, None))"

subsection \<open>What an open codec keeps\<close>

definition keeps_to_buffer :: "('e, 'd) opus_api \<Rightarrow> nat \<Rightarrow> bool" where
  "keeps_to_buffer api channels \<longleftrightarrow>
     (\<forall>e floats frames room. length (snd (snd (encode_float api e floats frames room))) \<le> room)
     \<and> (\<forall>d packet frames. length (snd (snd (decode_float api d packet frames))) \<le> frames * channels)"

definition opus_ok :: "('e, 'd) opus_block \<Rightarrow> bool" where
  "opus_ok b \<longleftrightarrow> opus_is_open b \<and> length (ob_floats b) = ob_channels b * ob_frame_frames b
     \<and> length (ob_packet b) = k_max_packet_bytes"

lemma opus_open_ok:
  "opus_open library channels rate frames bitrate b = (b', None) \<Longrightarrow>
     opus_ok b' \<and> int (ob_channels b') = channels \<and> int (ob_frame_frames b') = frames"
  by (auto simp: opus_open_def opus_ok_def opus_is_open_def Let_def
      split: option.splits if_splits sum.splits)

lemma opus_encode_keeps:
  assumes "opus_encode (Some api) (Some pcm) frames b = (b', r)" "opus_ok b"
    and "keeps_to_buffer api (ob_channels b)" "length pcm = frames * ob_channels b * 3"
  shows "opus_ok b'" and "ob_channels b' = ob_channels b" and "ob_frame_frames b' = ob_frame_frames b"
    and "r = Inr packet \<Longrightarrow> length packet \<le> k_max_packet_bytes"
proof -
  let ?floats = "overwrite 0 (s24_3le_to_float (take (frames * ob_channels b * 3) pcm)) (ob_floats b)"
  have o: "length (ob_floats b) = ob_channels b * ob_frame_frames b" "length (ob_packet b) = k_max_packet_bytes"
    "opus_is_open b" using assms(2) by (auto simp: opus_ok_def)
  have "opus_ok b' \<and> ob_channels b' = ob_channels b \<and> ob_frame_frames b' = ob_frame_frames b
      \<and> (\<forall>packet. r = Inr packet \<longrightarrow> length packet \<le> k_max_packet_bytes)"
  proof (cases "frames = ob_frame_frames b")
    case True
    obtain e n w where c: "encode_float api (the (ob_encoder b)) ?floats (ob_frame_frames b)
        (length (ob_packet b)) = (e, n, w)" by (cases "encode_float api (the (ob_encoder b)) ?floats
        (ob_frame_frames b) (length (ob_packet b))")
    have "length (snd (snd (encode_float api (the (ob_encoder b)) ?floats (ob_frame_frames b)
        (length (ob_packet b))))) \<le> length (ob_packet b)"
      using assms(3) unfolding keeps_to_buffer_def by blast
    then have w: "length (overwrite 0 w (ob_packet b)) = k_max_packet_bytes"
      using c o(2) length_overwrite [of 0 w "ob_packet b"] by simp
    have f: "length ?floats = ob_channels b * ob_frame_frames b"
      using o(1) assms(4) True by (simp add: overwrite_def length_s24_3le_to_float mult.commute)
    have b': "b' = b\<lparr>ob_encoder := Some e, ob_floats := ?floats, ob_packet := overwrite 0 w (ob_packet b)\<rparr>"
      and r: "r = (if n < 0 then Inl (OpusEncode n) else Inr (take (nat n) (overwrite 0 w (ob_packet b))))"
      using assms(1) c o(3) True by (auto simp: opus_encode_def Let_def split: if_splits)
    show ?thesis using w f o(3) r by (auto simp: b' opus_ok_def opus_is_open_def)
  next
    case False
    then show ?thesis using assms(1,2) o(3) by (auto simp: opus_encode_def)
  qed
  then show "opus_ok b'" "ob_channels b' = ob_channels b" "ob_frame_frames b' = ob_frame_frames b"
    "r = Inr packet \<Longrightarrow> length packet \<le> k_max_packet_bytes" by blast+
qed

lemma opus_decode_keeps:
  assumes "opus_decode (Some api) packet frames pcm b = (b', pcm', r)" "opus_ok b"
    and "keeps_to_buffer api (ob_channels b)" "length pcm = frames * ob_channels b * 3"
  shows "opus_ok b'" and "ob_channels b' = ob_channels b" and "ob_frame_frames b' = ob_frame_frames b"
    and "length pcm' = length pcm"
proof -
  have o: "length (ob_floats b) = ob_channels b * ob_frame_frames b" "opus_is_open b"
    using assms(2) by (auto simp: opus_ok_def)
  have "opus_ok b' \<and> ob_channels b' = ob_channels b \<and> ob_frame_frames b' = ob_frame_frames b
      \<and> length pcm' = length pcm"
  proof (cases "frames = ob_frame_frames b \<and> packet \<noteq> None \<and> packet \<noteq> Some []")
    case True
    obtain d n fs where c: "decode_float api (the (ob_decoder b)) (the packet) (ob_frame_frames b)
        = (d, n, fs)" by (cases "decode_float api (the (ob_decoder b)) (the packet) (ob_frame_frames b)")
    have "length (snd (snd (decode_float api (the (ob_decoder b)) (the packet) (ob_frame_frames b))))
        \<le> ob_frame_frames b * ob_channels b"
      using assms(3) unfolding keeps_to_buffer_def by blast
    then have "length fs \<le> length (ob_floats b)" using c o(1) by (simp add: mult.commute)
    then have f: "length (overwrite 0 fs (ob_floats b)) = ob_channels b * ob_frame_frames b"
      using o(1) length_overwrite [of 0 fs "ob_floats b"] by simp
    have "length (float_to_s24_3le (take (frames * ob_channels b) (overwrite 0 fs (ob_floats b))))
        = length pcm"
      using f assms(4) True by (simp add: length_float_bytes mult.commute)
    then have p: "length (overwrite 0 (float_to_s24_3le (take (frames * ob_channels b)
        (overwrite 0 fs (ob_floats b)))) pcm) = length pcm" by (simp add: overwrite_def)
    have "b' = b\<lparr>ob_decoder := Some d, ob_floats := overwrite 0 fs (ob_floats b)\<rparr>"
      and "pcm' = pcm \<or> pcm' = overwrite 0 (float_to_s24_3le (take (frames * ob_channels b)
        (overwrite 0 fs (ob_floats b)))) pcm"
      using assms(1) c o(2) True by (auto simp: opus_decode_def Let_def split: if_splits)
    then show ?thesis using f p assms(2) by (auto simp: opus_ok_def opus_is_open_def)
  next
    case False
    then show ?thesis using assms(1,2) o(2) by (auto simp: opus_decode_def split: if_splits)
  qed
  then show "opus_ok b'" "ob_channels b' = ob_channels b" "ob_frame_frames b' = ob_frame_frames b"
    "length pcm' = length pcm" by blast+
qed

end
