(* ===== verification/Framing.thy ===== *)
theory Framing
  imports Wire Opus Audio Circular
begin

text \<open>
  Between a period and a frame: \<^verbatim>\<open>Engine::codec_for_block\<close>, \<^verbatim>\<open>Engine::pack_period\<close> and
  \<^verbatim>\<open>Engine::unpack_frame\<close> of src/src/engine.cpp.

  \<open>framer\<close> holds the members of the engine these functions use. The copying loops are
  \<open>gather_slots\<close> and \<open>scatter_slots\<close>, one step per slot, with the check of the channel inside as in
  the code. The encodes run in parallel on one codec per block; here they run in the order of the
  jobs, each on the codec its block names. A null output frame has no counterpart.
\<close>

subsection \<open>State\<close>

record ('e, 'd) framer =
  fr_config :: config
  fr_format :: audio_format
  fr_codecs :: "('e, 'd) opus_block option list"
  fr_tx_block_pcm :: "bytes list"
  fr_codec_pcm :: bytes
  fr_link_id :: u16

datatype framing_error =
    NoPeriodToPack | BlockChannels int nat | DeviceChannel int int nat
  | NoPeriodToFill | NotOurLink u16 u16 | BlockCount nat nat | NoSuchBlock u8 nat | BlockTwice u8
  | OpusMissing nat | OpusRefused opus_error | NoCodec | WrongPayload u8 payload_type nat
  | ShorterThanHeader u8

subsection \<open>codec\_for\_block\<close>

text \<open>A pointer to the codec of a block is its index; \<open>NoCodec\<close> is a null pointer with no message.\<close>

definition codec_for_block ::
  "('e, 'd) opus_api option \<Rightarrow> nat \<Rightarrow> bool \<Rightarrow> ('e, 'd) framer \<Rightarrow> ('e, 'd) framer \<times> (framing_error + nat)" where
  "codec_for_block library block_index opus_wanted f =
     (let blocks = cf_blocks (fr_config f) in
      if block_index \<ge> length blocks then (f, Inl NoCodec)
      else if \<not> opus_wanted then (f, Inl NoCodec)
      else
        let f1 = (if length (fr_codecs f) < length blocks
                  then f\<lparr>fr_codecs := fr_codecs f
                           @ replicate (length blocks - length (fr_codecs f)) None\<rparr> else f)
        in case fr_codecs f1 ! block_index of
             Some _ \<Rightarrow> (f1, Inr block_index)
           | None \<Rightarrow>
               if \<not> opus_available library then (f1, Inl (OpusMissing block_index))
               else case opus_open library (int (unat k_block_channels))
                    (int (af_sample_rate (fr_format f1))) (int (af_period_frames (fr_format f1)))
                    (bc_bitrate (blocks ! block_index)) opus_init of
                 (_, Some e) \<Rightarrow> (f1, Inl (OpusRefused e))
               | (codec, None) \<Rightarrow>
                   (f1\<lparr>fr_codecs := (fr_codecs f1)[block_index := Some codec]\<rparr>, Inr block_index))"

subsection \<open>pack\_period\<close>

definition size_of_int :: "int \<Rightarrow> nat" where
  "size_of_int n = nat (n mod 18446744073709551616)"

fun gather_slots ::
  "audio_format \<Rightarrow> block_config \<Rightarrow> bytes \<Rightarrow> nat \<Rightarrow> (nat \<times> int) list \<Rightarrow> bytes
     \<Rightarrow> bytes \<times> framing_error option" where
  "gather_slots format block period frame_index [] pcm = (pcm, None)"
| "gather_slots format block period frame_index ((position, device_channel) # rest) pcm =
     (if device_channel < 0 \<or> device_channel \<ge> to_int32 (int (af_channels format))
      then (pcm, Some (DeviceChannel (bc_index block) device_channel (af_channels format)))
      else
        let from = (frame_index * af_channels format + nat device_channel) * af_sample_bytes format;
            to = (frame_index * length (bc_channels block) + position) * af_sample_bytes format
        in gather_slots format block period frame_index rest
             (overwrite to (chunk from (af_sample_bytes format) period) pcm))"

fun gather_frames ::
  "audio_format \<Rightarrow> block_config \<Rightarrow> bytes \<Rightarrow> nat list \<Rightarrow> bytes \<Rightarrow> bytes \<times> framing_error option" where
  "gather_frames format block period [] pcm = (pcm, None)"
| "gather_frames format block period (frame_index # rest) pcm =
     (case gather_slots format block period frame_index (List.enumerate 0 (bc_channels block)) pcm of
        (pcm1, Some e) \<Rightarrow> (pcm1, Some e)
      | (pcm1, None) \<Rightarrow> gather_frames format block period rest pcm1)"

fun pack_blocks ::
  "bytes \<Rightarrow> payload_type \<Rightarrow> nat \<Rightarrow> block_config list \<Rightarrow> ('e, 'd) framer
     \<Rightarrow> ('e, 'd) framer \<times> (framing_error + block list \<times> nat list)" where
  "pack_blocks period payload position [] f = (f, Inr ([], []))"
| "pack_blocks period payload position (block # rest) f =
     (if length (bc_channels block) \<noteq> unat k_block_channels
      then (f, Inl (BlockChannels (bc_index block) (length (bc_channels block))))
      else
        case gather_frames (fr_format f) block period [0..<af_period_frames (fr_format f)]
               (fr_tx_block_pcm f ! position) of
          (pcm, failed) \<Rightarrow>
            let f1 = f\<lparr>fr_tx_block_pcm := (fr_tx_block_pcm f)[position := pcm]\<rparr> in
            case failed of
              Some e \<Rightarrow> (f1, Inl e)
            | None \<Rightarrow>
                let is_opus = (to_lower (bc_codec block) = ''opus'');
                    size = payload_bytes payload k_block_channels (af_period_frames (fr_format f1));
                    wire_block = \<lparr>b_index = word_of_int (bc_index block),
                      b_payload = (if is_opus then opus else payload), b_channels = k_block_channels,
                      b_data = (if is_opus then [] else take size pcm)\<rparr>
                in case pack_blocks period payload (position + 1) rest f1 of
                     (f2, Inl e) \<Rightarrow> (f2, Inl e)
                   | (f2, Inr (blocks, opus_blocks)) \<Rightarrow>
                       (f2, Inr (wire_block # blocks,
                          if is_opus then position # opus_blocks else opus_blocks)))"

fun resolve_encoders ::
  "('e, 'd) opus_api option \<Rightarrow> nat list \<Rightarrow> ('e, 'd) framer
     \<Rightarrow> ('e, 'd) framer \<times> (framing_error + nat list)" where
  "resolve_encoders library [] f = (f, Inr [])"
| "resolve_encoders library (position # rest) f =
     (case codec_for_block library (size_of_int (bc_index (cf_blocks (fr_config f) ! position))) True f of
        (f1, Inl e) \<Rightarrow> (f1, Inl e)
      | (f1, Inr codec) \<Rightarrow>
          (case resolve_encoders library rest f1 of
             (f2, Inl e) \<Rightarrow> (f2, Inl e)
           | (f2, Inr codecs) \<Rightarrow> (f2, Inr (codec # codecs))))"

text \<open>The jobs of the pool: every one runs, whatever the others do, and has its own error.\<close>

fun run_encoders ::
  "('e, 'd) opus_api option \<Rightarrow> (nat \<times> nat) list \<Rightarrow> block list \<Rightarrow> ('e, 'd) framer
     \<Rightarrow> ('e, 'd) framer \<times> block list \<times> opus_error list" where
  "run_encoders library [] blocks f = (f, blocks, [])"
| "run_encoders library ((position, codec) # rest) blocks f =
     (case opus_encode library (Some (fr_tx_block_pcm f ! position))
             (af_period_frames (fr_format f)) (the (fr_codecs f ! codec)) of
        (codec1, encoded) \<Rightarrow>
          let f1 = f\<lparr>fr_codecs := (fr_codecs f)[codec := Some codec1]\<rparr>;
              blocks1 = (case encoded of
                  Inr packet \<Rightarrow> blocks[position := (blocks ! position)\<lparr>b_data := packet\<rparr>]
                | Inl _ \<Rightarrow> blocks)
          in case run_encoders library rest blocks1 f1 of
               (f2, blocks2, errors) \<Rightarrow>
                 (f2, blocks2, case encoded of Inl e \<Rightarrow> e # errors | Inr _ \<Rightarrow> errors))"

definition pack_period ::
  "('e, 'd) opus_api option \<Rightarrow> bytes option \<Rightarrow> u64 \<Rightarrow> ('e, 'd) framer
     \<Rightarrow> ('e, 'd) framer \<times> (framing_error + frame)" where
  "pack_period library period sample_position f =
     (case period of
        None \<Rightarrow> (f, Inl NoPeriodToPack)
      | Some samples \<Rightarrow>
          let payload = (if af_sample_bytes (fr_format f) = 2 then pcm_l16 else pcm_l24) in
          case pack_blocks samples payload 0 (cf_blocks (fr_config f)) f of
            (f1, Inl e) \<Rightarrow> (f1, Inl e)
          | (f1, Inr (blocks, opus_blocks)) \<Rightarrow>
              (case resolve_encoders library opus_blocks f1 of
                 (f2, Inl e) \<Rightarrow> (f2, Inl e)
               | (f2, Inr codecs) \<Rightarrow>
                   case run_encoders library (zip opus_blocks codecs) blocks f2 of
                     (f3, blocks3, e # _) \<Rightarrow> (f3, Inl (OpusRefused e))
                   | (f3, blocks3, []) \<Rightarrow>
                       (f3, Inr \<lparr>f_link_id = fr_link_id f3, f_sequence = 0,
                                 f_sample_position = sample_position, f_blocks = blocks3\<rparr>)))"

subsection \<open>unpack\_frame\<close>

fun scatter_slots ::
  "audio_format \<Rightarrow> block \<Rightarrow> bytes \<Rightarrow> nat \<Rightarrow> (nat \<times> int) list \<Rightarrow> bytes
     \<Rightarrow> bytes \<times> framing_error option" where
  "scatter_slots format block pcm frame_index [] period = (period, None)"
| "scatter_slots format block pcm frame_index ((position, device_channel) # rest) period =
     (if device_channel < 0 \<or> device_channel \<ge> to_int32 (int (af_channels format))
      then (period, Some (DeviceChannel (uint (b_index block)) device_channel (af_channels format)))
      else
        let stride = af_sample_bytes format;
            from = (frame_index * unat (b_channels block) + position) * stride;
            to = (frame_index * af_channels format + nat device_channel) * stride
        in if from + stride > length pcm then (period, Some (ShorterThanHeader (b_index block)))
           else scatter_slots format block pcm frame_index rest
                  (overwrite to (chunk from stride pcm) period))"

fun scatter_frames ::
  "audio_format \<Rightarrow> block \<Rightarrow> block_config \<Rightarrow> bytes \<Rightarrow> nat list \<Rightarrow> bytes
     \<Rightarrow> bytes \<times> framing_error option" where
  "scatter_frames format block destination pcm [] period = (period, None)"
| "scatter_frames format block destination pcm (frame_index # rest) period =
     (case scatter_slots format block pcm frame_index
             (List.enumerate 0 (bc_channels destination)) period of
        (period1, Some e) \<Rightarrow> (period1, Some e)
      | (period1, None) \<Rightarrow> scatter_frames format block destination pcm rest period1)"

text \<open>The samples of a block: its payload, or what the codec makes of it.\<close>

definition block_pcm ::
  "('e, 'd) opus_api option \<Rightarrow> block \<Rightarrow> ('e, 'd) framer \<Rightarrow> ('e, 'd) framer \<times> (framing_error + bytes)" where
  "block_pcm library block f =
     (if b_payload block = opus then
        case codec_for_block library (unat (b_index block)) True f of
          (f1, Inl e) \<Rightarrow> (f1, Inl e)
        | (f1, Inr codec) \<Rightarrow>
            case opus_decode library (Some (b_data block)) (af_period_frames (fr_format f1))
                   (fr_codec_pcm f1) (the (fr_codecs f1 ! codec)) of
              (codec1, pcm, failed) \<Rightarrow>
                let f2 = f1\<lparr>fr_codecs := (fr_codecs f1)[codec := Some codec1], fr_codec_pcm := pcm\<rparr>
                in (f2, case failed of Some e \<Rightarrow> Inl (OpusRefused e) | None \<Rightarrow> Inr pcm)
      else if sample_bytes (b_payload block) \<noteq> af_sample_bytes (fr_format f)
        then (f, Inl (WrongPayload (b_index block) (b_payload block) (af_sample_bytes (fr_format f))))
      else (f, Inr (b_data block)))"

fun unpack_blocks ::
  "('e, 'd) opus_api option \<Rightarrow> block list \<Rightarrow> bool list \<Rightarrow> bytes \<Rightarrow> ('e, 'd) framer
     \<Rightarrow> ('e, 'd) framer \<times> bytes \<times> framing_error option" where
  "unpack_blocks library [] filled period f = (f, period, None)"
| "unpack_blocks library (block # rest) filled period f =
     (let index = unat (b_index block); expected = length (cf_blocks (fr_config f)) in
      if index \<ge> expected then (f, period, Some (NoSuchBlock (b_index block) expected))
      else if filled ! index then (f, period, Some (BlockTwice (b_index block)))
      else case block_pcm library block f of
        (f1, Inl e) \<Rightarrow> (f1, period, Some e)
      | (f1, Inr pcm) \<Rightarrow>
          (case scatter_frames (fr_format f1) block (cf_blocks (fr_config f1) ! index) pcm
                  [0..<af_period_frames (fr_format f1)] period of
             (period1, Some e) \<Rightarrow> (f1, period1, Some e)
           | (period1, None) \<Rightarrow> unpack_blocks library rest (filled[index := True]) period1 f1))"

definition unpack_frame ::
  "('e, 'd) opus_api option \<Rightarrow> frame \<Rightarrow> bytes option \<Rightarrow> ('e, 'd) framer
     \<Rightarrow> ('e, 'd) framer \<times> bytes option \<times> framing_error option" where
  "unpack_frame library frame period f =
     (case period of
        None \<Rightarrow> (f, None, Some NoPeriodToFill)
      | Some target \<Rightarrow>
          if f_link_id frame \<noteq> fr_link_id f
            then (f, period, Some (NotOurLink (f_link_id frame) (fr_link_id f)))
          else if length (f_blocks frame) \<noteq> length (cf_blocks (fr_config f))
            then (f, period, Some (BlockCount (length (f_blocks frame)) (length (cf_blocks (fr_config f)))))
          else
            let silent = overwrite 0 (replicate (period_bytes (fr_format f)) 0) target in
            case unpack_blocks library (f_blocks frame)
                   (replicate (length (cf_blocks (fr_config f))) False) silent f of
              (f1, filled_period, failed) \<Rightarrow> (f1, Some filled_period, failed))"

subsection \<open>Copying sample by sample\<close>

definition copy_units :: "nat \<Rightarrow> bytes \<Rightarrow> (nat \<times> nat) list \<Rightarrow> bytes \<Rightarrow> bytes" where
  "copy_units u source pairs target =
     fold (\<lambda>(to, from). overwrite (to * u) (unit_at u source from)) pairs target"

lemma copy_units_append:
  "copy_units u source (ps @ qs) target = copy_units u source qs (copy_units u source ps target)"
  by (simp add: copy_units_def)

lemma copy_units_Cons:
  "copy_units u source ((a, b) # ps) target
     = copy_units u source ps (overwrite (a * u) (unit_at u source b) target)"
  by (simp add: copy_units_def)

text \<open>If every pair copies what \<open>wanted\<close> asks for, the copied units are the wanted ones.\<close>

lemma copy_agrees:
  assumes "\<And>a b. (a, b) \<in> set ps \<Longrightarrow> a < n \<and> b < m \<and> unit_at u source b = wanted a"
    and "length target = n * u" "length source = m * u"
  shows "length (copy_units u source ps target) = n * u"
    and "k < n \<Longrightarrow> k \<in> fst ` set ps \<or> unit_at u target k = wanted k \<Longrightarrow>
      unit_at u (copy_units u source ps target) k = wanted k"
proof -
  have "length (copy_units u source ps target) = n * u
    \<and> (\<forall>k < n. k \<in> fst ` set ps \<or> unit_at u target k = wanted k \<longrightarrow>
         unit_at u (copy_units u source ps target) k = wanted k)"
    using assms(1,2)
  proof (induction ps arbitrary: target)
    case (Cons p ps)
    obtain a b where p: "p = (a, b)" by (cases p)
    have ab: "a < n" "b < m" "unit_at u source b = wanted a" using Cons.prems(1) p by auto
    let ?t = "overwrite (a * u) (unit_at u source b) target"
    have lu: "length (unit_at u source b) = 1 * u" using length_unit_at [OF ab(2) assms(3)] by simp
    have fits: "a + 1 \<le> n" using ab(1) by simp
    have lt: "length ?t = n * u"
      using length_overwrite [of "a * u" "unit_at u source b" target] lu Cons.prems(2)
        slot_in_buffer [OF ab(1), of u] by simp
    have one: "unit_at u (unit_at u source b) 0 = unit_at u source b"
      using lu by (simp add: unit_at_def chunk_def)
    have ut: "unit_at u ?t k = (if k = a then wanted a else unit_at u target k)" if "k < n" for k
      using unit_at_overwrite [OF that Cons.prems(2) lu fits] one ab(3) by auto
    have IH: "length (copy_units u source ps ?t) = n * u
        \<and> (\<forall>k < n. k \<in> fst ` set ps \<or> unit_at u ?t k = wanted k \<longrightarrow>
             unit_at u (copy_units u source ps ?t) k = wanted k)"
      by (rule Cons.IH [OF _ lt]) (use Cons.prems(1) in auto)
    then show ?case using ut unfolding p copy_units_Cons by auto
  qed (simp add: copy_units_def)
  then show "length (copy_units u source ps target) = n * u"
    and "k < n \<Longrightarrow> k \<in> fst ` set ps \<or> unit_at u target k = wanted k \<Longrightarrow>
      unit_at u (copy_units u source ps target) k = wanted k" by blast+
qed

lemma channel_cast_small: "n \<le> 64 \<Longrightarrow> to_int32 (int n) = int n"
  unfolding to_int32_def sint_sbintrunc' by (simp add: signed_take_bit_int_eq_self_iff)

subsection \<open>The loops copy\<close>

definition slot_pairs :: "nat \<Rightarrow> nat \<Rightarrow> int list \<Rightarrow> nat \<Rightarrow> (nat \<times> nat) list" where
  "slot_pairs width channels cs frame =
     map (\<lambda>(s, c). (frame * width + s, frame * channels + nat c)) (List.enumerate 0 cs)"

lemma gather_slots_copy:
  assumes "\<forall>(s, c) \<in> set slots. 0 \<le> c \<and> c < int (af_channels format)" "af_channels format \<le> 64"
  shows "gather_slots format block period frame slots pcm
    = (copy_units (af_sample_bytes format) period
         (map (\<lambda>(s, c). (frame * length (bc_channels block) + s, frame * af_channels format + nat c)) slots) pcm,
       None)"
  using assms(1)
proof (induction slots arbitrary: pcm)
  case (Cons p slots)
  then show ?case
    by (cases p) (auto simp: copy_units_Cons channel_cast_small [OF assms(2)] unit_at_def Let_def)
qed (simp add: copy_units_def)

lemma gather_frames_copy:
  assumes "\<forall>c \<in> set (bc_channels block). 0 \<le> c \<and> c < int (af_channels format)" "af_channels format \<le> 64"
  shows "gather_frames format block period frames pcm
    = (copy_units (af_sample_bytes format) period
         (concat (map (slot_pairs (length (bc_channels block)) (af_channels format) (bc_channels block)) frames))
         pcm, None)"
proof (induction frames arbitrary: pcm)
  case (Cons frame frames)
  have "\<forall>(s, c) \<in> set (List.enumerate 0 (bc_channels block)). 0 \<le> c \<and> c < int (af_channels format)"
    using assms(1) by (auto simp: in_set_enumerate_eq)
  note g = gather_slots_copy [OF this assms(2)]
  show ?case by (simp add: g Cons.IH slot_pairs_def copy_units_append)
qed (simp add: copy_units_def)

lemma scatter_slots_copy:
  assumes "\<forall>(s, c) \<in> set slots. 0 \<le> c \<and> c < int (af_channels format) \<and> s < unat (b_channels block)"
    and "af_channels format \<le> 64" "frame < frames"
    and "length pcm = frames * unat (b_channels block) * af_sample_bytes format"
  shows "scatter_slots format block pcm frame slots period
    = (copy_units (af_sample_bytes format) pcm
         (map (\<lambda>(s, c). (frame * af_channels format + nat c, frame * unat (b_channels block) + s)) slots) period,
       None)"
  using assms(1)
proof (induction slots arbitrary: period)
  case (Cons p slots)
  obtain s c where p: "p = (s, c)" by (cases p)
  have c: "0 \<le> c" "c < int (af_channels format)" "s < unat (b_channels block)" using Cons.prems p by auto
  have "frame * unat (b_channels block) + s < frames * unat (b_channels block)"
    using slot_in_buffer [OF assms(3), of "unat (b_channels block)"] c(3) by simp
  then have "(frame * unat (b_channels block) + s) * af_sample_bytes format + af_sample_bytes format
      \<le> length pcm" using slot_in_buffer assms(4) by simp
  then have room: "\<not> length pcm < (frame * unat (b_channels block) + s) * af_sample_bytes format
      + af_sample_bytes format" by simp
  show ?case using Cons.IH Cons.prems c room unfolding p
    by (simp add: copy_units_Cons channel_cast_small [OF assms(2)] unit_at_def Let_def)
qed (simp add: copy_units_def)

lemma scatter_frames_copy:
  assumes "\<forall>c \<in> set (bc_channels destination). 0 \<le> c \<and> c < int (af_channels format)"
    and "length (bc_channels destination) = unat (b_channels block)"
    and "af_channels format \<le> 64" "\<forall>frame \<in> set fs. frame < frames"
    and "length pcm = frames * unat (b_channels block) * af_sample_bytes format"
  shows "scatter_frames format block destination pcm fs period
    = (copy_units (af_sample_bytes format) pcm
         (map prod.swap (concat (map (slot_pairs (unat (b_channels block)) (af_channels format)
            (bc_channels destination)) fs))) period, None)"
  using assms(4)
proof (induction fs arbitrary: period)
  case (Cons frame fs)
  have slots: "\<forall>(s, c) \<in> set (List.enumerate 0 (bc_channels destination)).
      0 \<le> c \<and> c < int (af_channels format) \<and> s < unat (b_channels block)"
    using assms(1,2) by (auto simp: in_set_enumerate_eq)
  have swap: "map prod.swap (slot_pairs k n cs frame)
      = map (\<lambda>(s, c). (frame * n + nat c, frame * k + s)) (List.enumerate 0 cs)" for k n cs
    by (simp add: slot_pairs_def case_prod_unfold)
  show ?case
    using Cons.IH Cons.prems scatter_slots_copy [OF slots assms(3) _ assms(5)]
    by (simp add: swap copy_units_append)
qed (simp add: copy_units_def)

lemma mem_slot_pairs:
  "(a, b) \<in> set (concat (map (slot_pairs k n cs) [0..<frames])) \<longleftrightarrow>
     (\<exists>f < frames. \<exists>s < length cs. a = f * k + s \<and> b = f * n + nat (cs ! s))"
  by (auto simp: slot_pairs_def in_set_enumerate_eq image_iff Bex_def)

subsection \<open>A prepared framer\<close>

definition framer_ready :: "('e, 'd) framer \<Rightarrow> bool" where
  "framer_ready f \<longleftrightarrow> validate (fr_config f) = None
     \<and> fr_format f = audio_format_from (cf_audio (fr_config f))
     \<and> length (fr_tx_block_pcm f) = length (cf_blocks (fr_config f))
     \<and> (\<forall>pcm \<in> set (fr_tx_block_pcm f).
          length pcm = af_period_frames (fr_format f) * 8 * af_sample_bytes (fr_format f))"

definition pcm_only :: "config \<Rightarrow> bool" where
  "pcm_only c \<longleftrightarrow> (\<forall>b \<in> set (cf_blocks c). to_lower (bc_codec b) \<noteq> ''opus'')"

text \<open>The blocks of the configuration stand in the order of their indices.\<close>

definition in_order :: "config \<Rightarrow> bool" where
  "in_order c \<longleftrightarrow> (\<forall>i < length (cf_blocks c). bc_index (cf_blocks c ! i) = int i)"

definition pcm_payload :: "audio_format \<Rightarrow> payload_type" where
  "pcm_payload format = (if af_sample_bytes format = 2 then pcm_l16 else pcm_l24)"

lemma readyD:
  assumes "framer_ready f"
  shows "0 < af_period_frames (fr_format f)" and "af_channels (fr_format f) \<le> 64"
    and "af_sample_bytes (fr_format f) \<in> {2, 3}"
    and "af_channels (fr_format f) = 8 * length (cf_blocks (fr_config f))"
    and "\<forall>b \<in> set (cf_blocks (fr_config f)). length (bc_channels b) = 8
      \<and> (\<forall>c \<in> set (bc_channels b). 0 \<le> c \<and> c < int (af_channels (fr_format f)))"
    and "c < af_channels (fr_format f) \<Longrightarrow>
      \<exists>i < length (cf_blocks (fr_config f)). \<exists>s < 8. bc_channels (cf_blocks (fr_config f) ! i) ! s = int c"
    and "length (cf_blocks (fr_config f)) \<le> 8" and "0 < length (cf_blocks (fr_config f))"
    and "af_period_frames (fr_format f) \<le> 2880" and "distinct (map bc_index (cf_blocks (fr_config f)))"
    and "\<forall>b \<in> set (cf_blocks (fr_config f)). 0 \<le> bc_index b \<and> bc_index b < int (length (cf_blocks (fr_config f)))"
proof -
  have v: "validate (fr_config f) = None" and fmt: "fr_format f = audio_format_from (cf_audio (fr_config f))"
    using assms by (auto simp: framer_ready_def)
  note vf = validated_format [OF v] and vb = validated_blocks [OF v]
  show "distinct (map bc_index (cf_blocks (fr_config f)))" by (rule vb(3))
  show "\<forall>b \<in> set (cf_blocks (fr_config f)). 0 \<le> bc_index b \<and> bc_index b < int (length (cf_blocks (fr_config f)))"
    using vb(4) vb(1) by force
  show "0 < af_period_frames (fr_format f)" "af_period_frames (fr_format f) \<le> 2880"
    "af_channels (fr_format f) \<le> 64"
    "af_sample_bytes (fr_format f) \<in> {2, 3}"
    and ch: "af_channels (fr_format f) = 8 * length (cf_blocks (fr_config f))"
    unfolding fmt using vf by simp_all
  show "length (cf_blocks (fr_config f)) \<le> 8" "0 < length (cf_blocks (fr_config f))"
    using vf(2,3,4) by simp_all
  have all: "set (concat (map bc_channels (cf_blocks (fr_config f)))) = {0..<int (af_channels (fr_format f))}"
    using vb(6,1,2) ch by simp
  have "0 \<le> c \<and> c < int (af_channels (fr_format f))"
    if "b \<in> set (cf_blocks (fr_config f))" "c \<in> set (bc_channels b)" for b c
  proof -
    have "c \<in> set (concat (map bc_channels (cf_blocks (fr_config f))))" using that by auto
    then show ?thesis unfolding all by simp
  qed
  then show "\<forall>b \<in> set (cf_blocks (fr_config f)). length (bc_channels b) = 8
      \<and> (\<forall>c \<in> set (bc_channels b). 0 \<le> c \<and> c < int (af_channels (fr_format f)))"
    using vb(7) by blast
  show "\<exists>i < length (cf_blocks (fr_config f)). \<exists>s < 8. bc_channels (cf_blocks (fr_config f) ! i) ! s = int c"
    if "c < af_channels (fr_format f)"
  proof -
    have "int c \<in> set (concat (map bc_channels (cf_blocks (fr_config f))))" unfolding all using that by simp
    then obtain b where b: "b \<in> set (cf_blocks (fr_config f))" "int c \<in> set (bc_channels b)" by auto
    then show ?thesis using vb(7) by (metis in_set_conv_nth)
  qed
qed

subsection \<open>What packing a period makes\<close>

text \<open>The sample a block's own interleaving holds at unit \<open>k\<close>: slot \<open>k mod 8\<close> of frame \<open>k div 8\<close>.\<close>

definition block_sample :: "audio_format \<Rightarrow> int list \<Rightarrow> bytes \<Rightarrow> nat \<Rightarrow> bytes" where
  "block_sample format cs period k =
     unit_at (af_sample_bytes format) period ((k div 8) * af_channels format + nat (cs ! (k mod 8)))"

definition packed_block :: "audio_format \<Rightarrow> block_config \<Rightarrow> bytes \<Rightarrow> block \<Rightarrow> bool" where
  "packed_block format config period b \<longleftrightarrow>
     b_index b = word_of_int (bc_index config) \<and> b_payload b = pcm_payload format
     \<and> b_channels b = k_block_channels
     \<and> length (b_data b) = af_period_frames format * 8 * af_sample_bytes format
     \<and> (\<forall>k < af_period_frames format * 8.
          unit_at (af_sample_bytes format) (b_data b) k = block_sample format (bc_channels config) period k)"

lemma gather_block:
  assumes "length cs = 8" "\<forall>c \<in> set cs. 0 \<le> c \<and> c < int (af_channels format)"
    and "length period = af_period_frames format * af_channels format * af_sample_bytes format"
    and "length pcm = af_period_frames format * 8 * af_sample_bytes format"
  defines "pcm' \<equiv> copy_units (af_sample_bytes format) period
      (concat (map (slot_pairs 8 (af_channels format) cs) [0..<af_period_frames format])) pcm"
  shows "length pcm' = af_period_frames format * 8 * af_sample_bytes format"
    and "k < af_period_frames format * 8 \<Longrightarrow>
      unit_at (af_sample_bytes format) pcm' k = block_sample format cs period k"
proof -
  let ?P = "af_period_frames format" and ?C = "af_channels format" and ?u = "af_sample_bytes format"
  let ?ps = "concat (map (slot_pairs 8 ?C cs) [0..<?P])"
  have ok: "a < ?P * 8 \<and> b < ?P * ?C \<and> unit_at ?u period b = block_sample format cs period a"
    if "(a, b) \<in> set ?ps" for a b
  proof -
    obtain f s where fs: "f < ?P" "s < 8" "a = f * 8 + s" "b = f * ?C + nat (cs ! s)"
      using \<open>(a, b) \<in> set ?ps\<close> unfolding mem_slot_pairs assms(1) by blast
    have "cs ! s \<in> set cs" using assms(1) fs(2) by simp
    then have "nat (cs ! s) < ?C" using assms(2) by auto
    then have "b < ?P * ?C" using slot_in_buffer [OF fs(1), of ?C] fs(4) by simp
    moreover have "a < ?P * 8" using fs(1,2,3) by simp
    moreover have "a div 8 = f" "a mod 8 = s" using fs(2,3) by simp_all
    ultimately show ?thesis using fs(4) by (simp add: block_sample_def)
  qed
  note copy = copy_agrees [where ps = ?ps, OF _ assms(4,3)]
  show "length pcm' = ?P * 8 * ?u" unfolding pcm'_def by (rule copy(1)) (rule ok)
  assume k: "k < ?P * 8"
  have "(k, (k div 8) * ?C + nat (cs ! (k mod 8))) \<in> set ?ps"
    unfolding mem_slot_pairs assms(1) using k
    by (intro exI [of _ "k div 8"] exI [of _ "k mod 8"] conjI) (auto simp: less_mult_imp_div_less)
  then have "k \<in> fst ` set ?ps" by force
  then show "unit_at ?u pcm' k = block_sample format cs period k"
    unfolding pcm'_def by (intro copy(2) [rotated, OF k] disjI1 ok)
qed

lemma pcm_payload_bytes:
  "af_sample_bytes format \<in> {2, 3} \<Longrightarrow> sample_bytes (pcm_payload format) = af_sample_bytes format"
  "af_sample_bytes format \<in> {2, 3} \<Longrightarrow>
     payload_bytes (pcm_payload format) k_block_channels n = n * 8 * af_sample_bytes format"
  by (auto simp: pcm_payload_def payload_bytes_def k_block_channels_def)

lemma pack_blocks_pcm:
  assumes "af_channels format \<le> 64" "af_sample_bytes format \<in> {2, 3}"
    and "length period = af_period_frames format * af_channels format * af_sample_bytes format"
    and "\<forall>b \<in> set bs. length (bc_channels b) = 8 \<and> to_lower (bc_codec b) \<noteq> ''opus''
      \<and> (\<forall>c \<in> set (bc_channels b). 0 \<le> c \<and> c < int (af_channels format))"
    and "fr_format f = format" "position + length bs \<le> length (fr_tx_block_pcm f)"
    and "\<forall>pcm \<in> set (fr_tx_block_pcm f). length pcm = af_period_frames format * 8 * af_sample_bytes format"
  shows "\<exists>pcms blocks. pack_blocks period (pcm_payload format) position bs f
      = (f\<lparr>fr_tx_block_pcm := pcms\<rparr>, Inr (blocks, []))
    \<and> length pcms = length (fr_tx_block_pcm f)
    \<and> (\<forall>pcm \<in> set pcms. length pcm = af_period_frames format * 8 * af_sample_bytes format)
    \<and> list_all2 (\<lambda>c b. packed_block format c period b) bs blocks"
  using assms(4-7)
proof (induction bs arbitrary: position f)
  case Nil
  show ?case by (intro exI [of _ "fr_tx_block_pcm f"] exI [of _ "[]"]) (use Nil in simp)
next
  case (Cons b bs)
  let ?size = "af_period_frames format * 8 * af_sample_bytes format"
  have b: "length (bc_channels b) = 8" "to_lower (bc_codec b) \<noteq> ''opus''"
    "\<forall>c \<in> set (bc_channels b). 0 \<le> c \<and> c < int (af_channels format)" using Cons.prems(1) by auto
  have old: "length (fr_tx_block_pcm f ! position) = ?size" using Cons.prems(3,4) by simp
  define pcm where "pcm = copy_units (af_sample_bytes format) period
      (concat (map (slot_pairs 8 (af_channels format) (bc_channels b)) [0..<af_period_frames format]))
      (fr_tx_block_pcm f ! position)"
  note g = gather_block [OF b(1,3) assms(3) old, folded pcm_def]
  have gather: "gather_frames format b period [0..<af_period_frames format] (fr_tx_block_pcm f ! position)
      = (pcm, None)"
    using gather_frames_copy [OF b(3) assms(1)] b(1) by (simp add: pcm_def)
  let ?f = "f\<lparr>fr_tx_block_pcm := (fr_tx_block_pcm f)[position := pcm]\<rparr>"
  have "\<forall>pcm \<in> set ((fr_tx_block_pcm f)[position := pcm]). length pcm = ?size"
    using Cons.prems(4) g(1) set_update_subset_insert by fastforce
  then obtain pcms blocks where IH: "pack_blocks period (pcm_payload format) (position + 1) bs ?f
      = (?f\<lparr>fr_tx_block_pcm := pcms\<rparr>, Inr (blocks, []))" "length pcms = length (fr_tx_block_pcm f)"
    "\<forall>pcm \<in> set pcms. length pcm = ?size" "list_all2 (\<lambda>c b. packed_block format c period b) bs blocks"
    using Cons.IH [of ?f "position + 1"] Cons.prems by auto
  have eight: "unat k_block_channels = 8" by (simp add: k_block_channels_def)
  let ?block = "\<lparr>b_index = word_of_int (bc_index b), b_payload = pcm_payload format,
      b_channels = k_block_channels, b_data = pcm\<rparr>"
  have "packed_block format b period ?block" using g by (simp add: packed_block_def)
  moreover have "pack_blocks period (pcm_payload format) position (b # bs) f
      = (f\<lparr>fr_tx_block_pcm := pcms\<rparr>, Inr (?block # blocks, []))"
    using b(1,2) gather IH(1) Cons.prems(2) g(1) pcm_payload_bytes(2) [OF assms(2)]
    by (simp add: eight Let_def)
  ultimately show ?case using IH by blast
qed

lemma word_index: "0 \<le> i \<Longrightarrow> i < 8 \<Longrightarrow> unat (word_of_int i :: u8) = nat i"
  using take_bit_int_eq_self [of i 8] by (simp add: unsigned_of_int)

lemma pack_period_pcm:
  assumes "framer_ready f" "pcm_only (fr_config f)"
    and "length period = period_bytes (fr_format f)"
  shows "\<exists>pcms frame. pack_period library (Some period) position f
      = (f\<lparr>fr_tx_block_pcm := pcms\<rparr>, Inr frame)
    \<and> framer_ready (f\<lparr>fr_tx_block_pcm := pcms\<rparr>)
    \<and> f_link_id frame = fr_link_id f \<and> f_sample_position frame = position
    \<and> list_all2 (\<lambda>c b. packed_block (fr_format f) c period b) (cf_blocks (fr_config f)) (f_blocks frame)"
proof -
  note r = readyD [OF assms(1)]
  have len: "length period = af_period_frames (fr_format f) * af_channels (fr_format f)
      * af_sample_bytes (fr_format f)" using assms(3) by (simp add: period_bytes_def period_samples_def)
  have blocks: "\<forall>b \<in> set (cf_blocks (fr_config f)). length (bc_channels b) = 8
      \<and> to_lower (bc_codec b) \<noteq> ''opus''
      \<and> (\<forall>c \<in> set (bc_channels b). 0 \<le> c \<and> c < int (af_channels (fr_format f)))"
    using r(5) assms(2) by (simp add: pcm_only_def)
  have fits: "0 + length (cf_blocks (fr_config f)) \<le> length (fr_tx_block_pcm f)"
    and sizes: "\<forall>pcm \<in> set (fr_tx_block_pcm f).
      length pcm = af_period_frames (fr_format f) * 8 * af_sample_bytes (fr_format f)"
    using assms(1) by (auto simp: framer_ready_def)
  obtain pcms bs where p: "pack_blocks period (pcm_payload (fr_format f)) 0 (cf_blocks (fr_config f)) f
      = (f\<lparr>fr_tx_block_pcm := pcms\<rparr>, Inr (bs, []))" "length pcms = length (fr_tx_block_pcm f)"
    "\<forall>pcm \<in> set pcms. length pcm = af_period_frames (fr_format f) * 8 * af_sample_bytes (fr_format f)"
    "list_all2 (\<lambda>c b. packed_block (fr_format f) c period b) (cf_blocks (fr_config f)) bs"
    using pack_blocks_pcm [OF r(2,3) len blocks refl fits sizes] by blast
  have "framer_ready (f\<lparr>fr_tx_block_pcm := pcms\<rparr>)"
    using assms(1) p(2,3) by (simp add: framer_ready_def)
  moreover have "pack_period library (Some period) position f = (f\<lparr>fr_tx_block_pcm := pcms\<rparr>,
      Inr \<lparr>f_link_id = fr_link_id f, f_sequence = 0, f_sample_position = position, f_blocks = bs\<rparr>)"
    using p(1) by (simp add: pack_period_def pcm_payload_def Let_def)
  ultimately show ?thesis using p(4) by auto
qed

text \<open>The frame is one the wire format accepts.\<close>

lemma packed_wf:
  assumes "framer_ready f"
    and "list_all2 (\<lambda>c b. packed_block (fr_format f) c period b) (cf_blocks (fr_config f)) (f_blocks frame)"
  shows "wf_frame frame"
proof -
  let ?cs = "cf_blocks (fr_config f)" and ?bs = "f_blocks frame"
  note r = readyD [OF assms(1)]
  have len: "length ?bs = length ?cs" using assms(2) by (simp add: list_all2_lengthD)
  have nth: "packed_block (fr_format f) (?cs ! i) period (?bs ! i)" if "i < length ?bs" for i
    using list_all2_nthD2 [OF assms(2) that] .
  have index: "unat (b_index (?bs ! i)) = nat (bc_index (?cs ! i))"
    and small: "0 \<le> bc_index (?cs ! i)" "bc_index (?cs ! i) < 8" if "i < length ?bs" for i
  proof -
    have "?cs ! i \<in> set ?cs" using that len by simp
    then show b: "0 \<le> bc_index (?cs ! i)" "bc_index (?cs ! i) < 8" using r(11,7) by fastforce+
    then show "unat (b_index (?bs ! i)) = nat (bc_index (?cs ! i))"
      using nth [OF that] word_index by (simp add: packed_block_def)
  qed
  have "i = j" if "i < length ?bs" "j < length ?bs" "b_index (?bs ! i) = b_index (?bs ! j)" for i j
  proof -
    have "bc_index (?cs ! i) = bc_index (?cs ! j)"
      using index [OF that(1)] index [OF that(2)] small [OF that(1)] small [OF that(2)] that(3) by simp
    then show ?thesis using r(10) that(1,2) len nth_eq_iff_index_eq [of "map bc_index ?cs" i j] by simp
  qed
  then have "distinct (map b_index ?bs)" unfolding distinct_conv_nth by (metis length_map nth_map)
  moreover have "wf_block (?bs ! i)" if "i < length ?bs" for i
  proof -
    note b = nth [OF that, unfolded packed_block_def]
    let ?n = "af_period_frames (fr_format f) * 8 * af_sample_bytes (fr_format f)"
    have "?n \<le> 2880 * 8 * 3" using r(3,9) by (intro mult_le_mono) auto
    then have big: "length (b_data (?bs ! i)) < 2 ^ 32" using b by simp
    have "0 < ?n" using r(1,3) by auto
    then have "b_data (?bs ! i) \<noteq> []" using b by force
    moreover have "length (b_data (?bs ! i))
        = payload_bytes (b_payload (?bs ! i)) k_block_channels (af_period_frames (fr_format f))"
      using b pcm_payload_bytes(2) [OF r(3)] by simp
    moreover have "unat (b_index (?bs ! i)) < k_max_blocks"
      using index [OF that] small [OF that] by (simp add: k_max_blocks_def)
    ultimately show ?thesis
      using b big by (auto simp: wf_block_def supported_here_def pcm_payload_def)
  qed
  ultimately show ?thesis
    using len r(7,8) by (auto simp: wf_frame_def k_max_blocks_def in_set_conv_nth)
qed

subsection \<open>What unpacking it gives back\<close>

lemma scatter_block:
  assumes "packed_block format config period b" "length (bc_channels config) = 8"
    and "\<forall>c \<in> set (bc_channels config). 0 \<le> c \<and> c < int (af_channels format)"
    and "length target = af_period_frames format * af_channels format * af_sample_bytes format"
  defines "target' \<equiv> copy_units (af_sample_bytes format) (b_data b)
      (map prod.swap (concat (map (slot_pairs 8 (af_channels format) (bc_channels config))
         [0..<af_period_frames format]))) target"
  shows "length target' = length target"
    and "k < af_period_frames format * af_channels format \<Longrightarrow>
      unit_at (af_sample_bytes format) target k = unit_at (af_sample_bytes format) period k
      \<or> (\<exists>f < af_period_frames format. \<exists>c \<in> set (bc_channels config). k = f * af_channels format + nat c) \<Longrightarrow>
      unit_at (af_sample_bytes format) target' k = unit_at (af_sample_bytes format) period k"
proof -
  let ?P = "af_period_frames format" and ?C = "af_channels format" and ?u = "af_sample_bytes format"
  let ?ps = "concat (map (slot_pairs 8 ?C (bc_channels config)) [0..<?P])"
  have data: "length (b_data b) = ?P * 8 * ?u"
    and samples: "\<And>k. k < ?P * 8 \<Longrightarrow> unit_at ?u (b_data b) k = block_sample format (bc_channels config) period k"
    using assms(1) by (auto simp: packed_block_def)
  have ok: "a < ?P * ?C \<and> n < ?P * 8 \<and> unit_at ?u (b_data b) n = unit_at ?u period a"
    if "(a, n) \<in> set (map prod.swap ?ps)" for a n
  proof -
    have "(n, a) \<in> set ?ps" using that by (auto simp: prod.swap_def)
    then obtain f s where fs: "f < ?P" "s < 8" "n = f * 8 + s" "a = f * ?C + nat (bc_channels config ! s)"
      unfolding mem_slot_pairs assms(2) by blast
    have "bc_channels config ! s \<in> set (bc_channels config)" using assms(2) fs(2) by simp
    then have "nat (bc_channels config ! s) < ?C" using assms(3) by auto
    then have "a < ?P * ?C" using slot_in_buffer [OF fs(1), of ?C] fs(4) by simp
    moreover have n: "n < ?P * 8" using fs(1,2,3) by simp
    moreover have "n div 8 = f" "n mod 8 = s" using fs(2,3) by simp_all
    ultimately show ?thesis using fs(4) samples [OF n] by (simp add: block_sample_def)
  qed
  show "length target' = length target" 
    unfolding target'_def assms(4) by (rule copy_agrees(1) [OF _ assms(4) data]) (rule ok)
  assume k: "k < ?P * ?C" and here: "unit_at ?u target k = unit_at ?u period k
      \<or> (\<exists>f < ?P. \<exists>c \<in> set (bc_channels config). k = f * ?C + nat c)"
  have "k \<in> fst ` set (map prod.swap ?ps)" if fc: "f < ?P" "c \<in> set (bc_channels config)" "k = f * ?C + nat c" for f c
  proof -
    obtain s where s: "s < 8" "c = bc_channels config ! s" using fc(2) assms(2) by (metis in_set_conv_nth)
    then have "(f * 8 + s, k) \<in> set ?ps" unfolding mem_slot_pairs assms(2) using fc(1,3) by blast
    then show ?thesis by force
  qed
  then have "k \<in> fst ` set (map prod.swap ?ps) \<or> unit_at ?u target k = unit_at ?u period k"
    using here by blast
  then show "unit_at ?u target' k = unit_at ?u period k"
    unfolding target'_def by (rule copy_agrees(2) [OF _ assms(4) data k, rotated]) (rule ok)
qed

lemma unpack_blocks_pcm:
  assumes "framer_ready g" "fr_format g = format"
    and "list_all2 (\<lambda>i b. i < length (cf_blocks (fr_config g)) \<and> unat (b_index b) = i
      \<and> packed_block format (cf_blocks (fr_config g) ! i) period b) ks bs"
    and "distinct ks" "\<forall>i \<in> set ks. \<not> filled ! i" "length filled = length (cf_blocks (fr_config g))"
    and "length target = af_period_frames format * af_channels format * af_sample_bytes format"
  shows "\<exists>target'. unpack_blocks library bs filled target g = (g, target', None)
    \<and> length target' = length target
    \<and> (\<forall>k < af_period_frames format * af_channels format.
         unit_at (af_sample_bytes format) target k = unit_at (af_sample_bytes format) period k
         \<or> (\<exists>i \<in> set ks. \<exists>f < af_period_frames format. \<exists>c \<in> set (bc_channels (cf_blocks (fr_config g) ! i)).
              k = f * af_channels format + nat c) \<longrightarrow>
         unit_at (af_sample_bytes format) target' k = unit_at (af_sample_bytes format) period k)"
  using assms(3-)
proof (induction bs arbitrary: ks filled target rule: list.induct)
  case Nil

  have none: "ks = []" using Nil(1) by simp
  show ?case unfolding none by simp
next
  case (Cons b bs)
  let ?cs = "cf_blocks (fr_config g)"
  obtain i js where i: "ks = i # js" "i < length ?cs" "unat (b_index b) = i"
    "packed_block format (?cs ! i) period b"
    and rest: "list_all2 (\<lambda>i b. i < length ?cs \<and> unat (b_index b) = i
      \<and> packed_block format (?cs ! i) period b) js bs"
    using Cons.prems(1) by (auto simp: list_all2_Cons2)
  note r = readyD [OF assms(1), unfolded assms(2)]
  have c: "length (bc_channels (?cs ! i)) = 8"
    "\<forall>c \<in> set (bc_channels (?cs ! i)). 0 \<le> c \<and> c < int (af_channels format)"
    using r(5) i(2) by auto
  have eight: "unat (b_channels b) = 8" using i(4) by (simp add: packed_block_def k_block_channels_def)
  have data: "length (b_data b) = af_period_frames format * unat (b_channels b) * af_sample_bytes format"
    and payload: "b_payload b = pcm_payload format" using i(4) eight by (simp_all add: packed_block_def)
  have pcm: "block_pcm library b g = (g, Inr (b_data b))"
    using payload pcm_payload_bytes(1) [OF r(3)] assms(2)
    by (auto simp: block_pcm_def pcm_payload_def)
  define target1 where "target1 = copy_units (af_sample_bytes format) (b_data b)
      (map prod.swap (concat (map (slot_pairs 8 (af_channels format) (bc_channels (?cs ! i)))
         [0..<af_period_frames format]))) target"
  note s = scatter_block [OF i(4) c Cons.prems(5), folded target1_def]
  have "scatter_frames format b (?cs ! i) (b_data b) [0..<af_period_frames format] target = (target1, None)"
    using scatter_frames_copy [OF c(2) _ r(2) _ data, of "[0..<af_period_frames format]" target] c(1) eight
    by (simp add: target1_def)
  then have step: "unpack_blocks library (b # bs) filled target g
      = unpack_blocks library bs (filled[i := True]) target1 g"
    using i(2,3) Cons.prems(3) i(1) pcm assms(2) by simp
  have "filled[i := True] ! j = filled ! j" if "j \<in> set js" for j
    using that Cons.prems(2) i(1) by (metis distinct.simps(2) nth_list_update_neq)
  then have "\<forall>j \<in> set js. \<not> filled[i := True] ! j"
    using Cons.prems(3) i(1) by auto
  moreover have "length (filled[i := True]) = length ?cs" "distinct js"
    "length target1 = af_period_frames format * af_channels format * af_sample_bytes format"
    using Cons.prems i(1) s(1) by auto
  ultimately obtain target' where IH: "unpack_blocks library bs (filled[i := True]) target1 g = (g, target', None)"
    "length target' = length target1"
    "\<forall>k < af_period_frames format * af_channels format.
         unit_at (af_sample_bytes format) target1 k = unit_at (af_sample_bytes format) period k
         \<or> (\<exists>i \<in> set js. \<exists>f < af_period_frames format. \<exists>c \<in> set (bc_channels (?cs ! i)).
              k = f * af_channels format + nat c) \<longrightarrow>
         unit_at (af_sample_bytes format) target' k = unit_at (af_sample_bytes format) period k"
    using Cons.IH [OF rest] by blast
  have "unit_at (af_sample_bytes format) target' k = unit_at (af_sample_bytes format) period k"
    if k: "k < af_period_frames format * af_channels format"
      "unit_at (af_sample_bytes format) target k = unit_at (af_sample_bytes format) period k
         \<or> (\<exists>i \<in> set ks. \<exists>f < af_period_frames format. \<exists>c \<in> set (bc_channels (?cs ! i)).
              k = f * af_channels format + nat c)" for k
  proof -
    have "unit_at (af_sample_bytes format) target1 k = unit_at (af_sample_bytes format) period k
        \<or> (\<exists>i \<in> set js. \<exists>f < af_period_frames format. \<exists>c \<in> set (bc_channels (?cs ! i)).
              k = f * af_channels format + nat c)"
      using s(2) [OF k(1)] k(2) unfolding i(1) list.set(2) by blast
    then show ?thesis using IH(3) k(1) by blast
  qed
  then show ?case using step IH(1,2) s(1) by auto
qed

text \<open>A frame packed by one end and unpacked by another of the same configuration.\<close>

lemma unpack_packed:
  assumes "framer_ready g" "in_order (fr_config g)" "fr_link_id g = f_link_id frame"
    and "list_all2 (\<lambda>c b. packed_block (fr_format g) c period b) (cf_blocks (fr_config g)) (f_blocks frame)"
    and "length period = period_bytes (fr_format g)" "length target = period_bytes (fr_format g)"
  shows "unpack_frame library frame (Some target) g = (g, Some period, None)"
proof -
  let ?cs = "cf_blocks (fr_config g)" and ?bs = "f_blocks frame" and ?fmt = "fr_format g"
  let ?units = "af_period_frames ?fmt * af_channels ?fmt"
  note r = readyD [OF assms(1)]
  have len: "length ?bs = length ?cs" using assms(4) by (simp add: list_all2_lengthD)
  have bytes: "period_bytes ?fmt = ?units * af_sample_bytes ?fmt"
    by (simp add: period_bytes_def period_samples_def)
  have silent: "overwrite 0 (replicate (period_bytes ?fmt) 0) target = replicate (period_bytes ?fmt) 0"
    using assms(6) by (simp add: overwrite_def)
  have "list_all2 (\<lambda>i b. i < length ?cs \<and> unat (b_index b) = i
      \<and> packed_block ?fmt (?cs ! i) period b) [0..<length ?cs] ?bs"
  proof (rule list_all2_all_nthI)
    fix i assume "i < length [0..<length ?cs]"
    then have i: "i < length ?cs" "i < 8" using r(7) by simp_all
    have p: "packed_block ?fmt (?cs ! i) period (?bs ! i)" using list_all2_nthD [OF assms(4) i(1)] .
    have "bc_index (?cs ! i) = int i" using assms(2) i(1) by (simp add: in_order_def)
    then have "unat (b_index (?bs ! i)) = i" using p i(2) word_index [of "int i"] by (simp add: packed_block_def)
    then show "[0..<length ?cs] ! i < length ?cs \<and> unat (b_index (?bs ! i)) = [0..<length ?cs] ! i
      \<and> packed_block ?fmt (?cs ! ([0..<length ?cs] ! i)) period (?bs ! i)" using i(1) p by simp
  qed (simp add: len)
  then have "\<exists>target'. unpack_blocks library ?bs (replicate (length ?cs) False)
      (replicate (period_bytes ?fmt) 0) g = (g, target', None)
    \<and> length target' = length (replicate (period_bytes ?fmt) (0 :: u8))
    \<and> (\<forall>k < ?units.
         unit_at (af_sample_bytes ?fmt) (replicate (period_bytes ?fmt) 0) k = unit_at (af_sample_bytes ?fmt) period k
         \<or> (\<exists>i \<in> set [0..<length ?cs]. \<exists>f < af_period_frames ?fmt. \<exists>c \<in> set (bc_channels (?cs ! i)).
              k = f * af_channels ?fmt + nat c) \<longrightarrow>
         unit_at (af_sample_bytes ?fmt) target' k = unit_at (af_sample_bytes ?fmt) period k)"
    by (rule unpack_blocks_pcm [OF assms(1) refl]) (simp_all add: bytes)
  then obtain target' where u: "unpack_blocks library ?bs (replicate (length ?cs) False)
      (replicate (period_bytes ?fmt) 0) g = (g, target', None)" "length target' = period_bytes ?fmt"
    "\<And>k i f c. k < ?units \<Longrightarrow> i < length ?cs \<Longrightarrow> f < af_period_frames ?fmt \<Longrightarrow>
        c \<in> set (bc_channels (?cs ! i)) \<Longrightarrow> k = f * af_channels ?fmt + nat c \<Longrightarrow>
      unit_at (af_sample_bytes ?fmt) target' k = unit_at (af_sample_bytes ?fmt) period k"
    unfolding length_replicate set_upt by (elim exE conjE) (erule (1) that, fastforce)
  have "target' = period"
  proof (rule units_eqI [of _ ?units "af_sample_bytes ?fmt"])
    fix k assume k: "k < ?units"
    have pos: "0 < af_channels ?fmt" using r(4,8) by simp
    have "k mod af_channels ?fmt < af_channels ?fmt" using pos by simp
    then obtain i s where slot_is: "i < length ?cs" "s < 8" "bc_channels (?cs ! i) ! s = int (k mod af_channels ?fmt)"
      using r(6) by blast
    have "length (bc_channels (?cs ! i)) = 8" using r(5) slot_is(1) by simp
    then have "int (k mod af_channels ?fmt) \<in> set (bc_channels (?cs ! i))" using slot_is(2,3) by (metis nth_mem)
    moreover have "k div af_channels ?fmt < af_period_frames ?fmt"
      using k by (simp add: less_mult_imp_div_less)
    moreover have "k = (k div af_channels ?fmt) * af_channels ?fmt + nat (int (k mod af_channels ?fmt))" by simp
    ultimately show "unit_at (af_sample_bytes ?fmt) target' k = unit_at (af_sample_bytes ?fmt) period k"
      using u(3) [OF k slot_is(1)] by blast
  qed (use u(2) assms(5) bytes in simp_all)
  then show ?thesis using u(1) silent len assms(3) by (simp add: unpack_frame_def)
qed

subsection \<open>What every call keeps\<close>

text \<open>
  Whatever the frame or the codecs do, packing and unpacking leave the configuration, the format, the
  link id and the size of every buffer as they are.
\<close>

definition framer_keeps :: "('e, 'd) framer \<Rightarrow> ('e, 'd) framer \<Rightarrow> bool" where
  "framer_keeps f g \<longleftrightarrow> fr_config g = fr_config f \<and> fr_format g = fr_format f \<and> fr_link_id g = fr_link_id f
     \<and> map length (fr_tx_block_pcm g) = map length (fr_tx_block_pcm f)"

lemma framer_keeps_refl [simp]: "framer_keeps f f"
  by (simp add: framer_keeps_def)

lemma framer_keeps_trans: "framer_keeps f g \<Longrightarrow> framer_keeps g h \<Longrightarrow> framer_keeps f h"
  by (simp add: framer_keeps_def)

lemma framer_keeps_fields [simp]:
  "framer_keeps f (g\<lparr>fr_codecs := cs\<rparr>) = framer_keeps f g"
  "framer_keeps f (g\<lparr>fr_codec_pcm := pcm\<rparr>) = framer_keeps f g"
  by (simp_all add: framer_keeps_def)

lemma framer_keeps_ready:
  assumes "framer_ready f" "framer_keeps f g" shows "framer_ready g"
proof -
  have "\<forall>n \<in> set (map length (fr_tx_block_pcm f)). n = af_period_frames (fr_format f) * 8 * af_sample_bytes (fr_format f)"
    using assms(1) by (simp add: framer_ready_def)
  then have "\<forall>n \<in> set (map length (fr_tx_block_pcm g)). n = af_period_frames (fr_format f) * 8 * af_sample_bytes (fr_format f)"
    using assms(2) by (simp add: framer_keeps_def)
  moreover have "length (fr_tx_block_pcm g) = length (fr_tx_block_pcm f)"
    using assms(2) unfolding framer_keeps_def by (metis length_map)
  ultimately show ?thesis using assms by (simp add: framer_ready_def framer_keeps_def)
qed

lemma codec_for_block_keeps:
  "codec_for_block library index wanted f = (g, r) \<Longrightarrow> framer_keeps f g"
  by (auto simp: codec_for_block_def Let_def split: if_splits option.splits prod.splits)

lemma block_pcm_keeps: "block_pcm library block f = (g, r) \<Longrightarrow> framer_keeps f g"
  using codec_for_block_keeps [of library "unat (b_index block)" True f]
  by (auto simp: block_pcm_def Let_def split: if_splits prod.splits sum.splits option.splits)

lemma scatter_slots_length:
  assumes "scatter_slots format block pcm frame_index slots period = (period', r)"
    and "frame_index < af_period_frames format" "af_channels format \<le> 64"
    and "length period = af_period_frames format * af_channels format * af_sample_bytes format"
  shows "length period' = length period"
  using assms(1,4)
proof (induction slots arbitrary: period)
  case (Cons slot slots)
  obtain position c where slot: "slot = (position, c)" by (cases slot)
  let ?C = "af_channels format" and ?u = "af_sample_bytes format"
  let ?from = "(frame_index * unat (b_channels block) + position) * ?u"
  let ?to = "(frame_index * ?C + nat c) * ?u"
  show ?case
  proof (cases "c < 0 \<or> c \<ge> to_int32 (int ?C) \<or> ?from + ?u > length pcm")
    case True
    then show ?thesis using Cons.prems slot by (auto simp: Let_def split: if_splits)
  next
    case False
    then have c: "0 \<le> c" "c < int ?C" "?from + ?u \<le> length pcm"
      using channel_cast_small [OF assms(3)] by auto
    have "frame_index * ?C + nat c < af_period_frames format * ?C"
      using slot_in_buffer [OF assms(2), of ?C] c(1,2) by simp
    then have fits: "?to + ?u \<le> length period"
      using slot_in_buffer [of "frame_index * ?C + nat c" "af_period_frames format * ?C" ?u] Cons.prems(2)
      by simp
    have "length (chunk ?from ?u pcm) = ?u" using c(3) by (simp add: chunk_def)
    then have len: "length (overwrite ?to (chunk ?from ?u pcm) period) = length period"
      using fits by (simp add: length_overwrite)
    have "scatter_slots format block pcm frame_index slots (overwrite ?to (chunk ?from ?u pcm) period)
        = (period', r)"
      using Cons.prems(1) slot False by (simp add: Let_def)
    then show ?thesis using Cons.IH Cons.prems(2) len by simp
  qed
qed simp

lemma scatter_frames_length:
  assumes "scatter_frames format block destination pcm frames period = (period', r)"
    and "\<forall>i \<in> set frames. i < af_period_frames format" "af_channels format \<le> 64"
    and "length period = af_period_frames format * af_channels format * af_sample_bytes format"
  shows "length period' = length period"
  using assms(1,2,4)
proof (induction frames arbitrary: period)
  case (Cons i frames)
  obtain p1 r1 where s: "scatter_slots format block pcm i
      (List.enumerate 0 (bc_channels destination)) period = (p1, r1)"
    by (cases "scatter_slots format block pcm i (List.enumerate 0 (bc_channels destination)) period")
  have "length p1 = length period"
    using scatter_slots_length [OF s _ assms(3)] Cons.prems(2,3) by simp
  then show ?case using Cons s by (cases r1) auto
qed simp

lemma unpack_blocks_keeps:
  assumes "unpack_blocks library blocks filled period f = (g, period', r)" "framer_ready f"
    and "length period = period_bytes (fr_format f)"
  shows "framer_keeps f g \<and> length period' = length period"
  using assms
proof (induction blocks arbitrary: filled period f)
  case (Cons b blocks)
  obtain f1 r1 where b: "block_pcm library b f = (f1, r1)" by (cases "block_pcm library b f")
  have k: "framer_keeps f f1" by (rule block_pcm_keeps [OF b])
  have ready: "framer_ready f1" by (rule framer_keeps_ready [OF Cons.prems(2) k])
  have fmt: "fr_format f1 = fr_format f" "fr_config f1 = fr_config f" using k by (simp_all add: framer_keeps_def)
  show ?case
  proof (cases "unat (b_index b) \<ge> length (cf_blocks (fr_config f)) \<or> filled ! unat (b_index b) \<or> isl r1")
    case True
    then show ?thesis using Cons.prems b k by (auto simp: Let_def split: if_splits sum.splits)
  next
    case False
    then obtain pcm where pcm: "r1 = Inr pcm" by (cases r1) auto
    obtain p1 r2 where s: "scatter_frames (fr_format f1) b (cf_blocks (fr_config f1) ! unat (b_index b)) pcm
        [0..<af_period_frames (fr_format f1)] period = (p1, r2)"
      by (cases "scatter_frames (fr_format f1) b (cf_blocks (fr_config f1) ! unat (b_index b)) pcm
        [0..<af_period_frames (fr_format f1)] period")
    have len: "length p1 = length period"
      using scatter_frames_length [OF s _ readyD(2) [OF ready]] Cons.prems(3) fmt
      by (simp add: period_bytes_def period_samples_def)
    show ?thesis
    proof (cases r2)
      case None
      then have "unpack_blocks library blocks (filled[unat (b_index b) := True]) p1 f1 = (g, period', r)"
        using Cons.prems(1) False b pcm s by (simp add: Let_def)
      then have "framer_keeps f1 g \<and> length period' = length p1"
        using Cons.IH [OF _ ready] len Cons.prems(3) fmt by simp
      then show ?thesis using framer_keeps_trans [OF k] len by simp
    next
      case (Some err)
      then show ?thesis using Cons.prems(1) False b pcm s k len by (auto simp: Let_def)
    qed
  qed
qed simp

lemma unpack_frame_keeps:
  assumes "unpack_frame library frame (Some period) f = (g, period', r)" "framer_ready f"
    and "length period = period_bytes (fr_format f)"
  shows "framer_keeps f g" and "\<exists>x. period' = Some x \<and> length x = period_bytes (fr_format f)"
proof -
  let ?silent = "overwrite 0 (replicate (period_bytes (fr_format f)) 0) period"
  have len: "length ?silent = period_bytes (fr_format f)" using assms(3) by (simp add: length_overwrite)
  obtain f1 p1 r1 where u: "unpack_blocks library (f_blocks frame)
      (replicate (length (cf_blocks (fr_config f))) False) ?silent f = (f1, p1, r1)"
    by (cases "unpack_blocks library (f_blocks frame)
      (replicate (length (cf_blocks (fr_config f))) False) ?silent f")
  note k = unpack_blocks_keeps [OF u assms(2) len]
  show "framer_keeps f g" "\<exists>x. period' = Some x \<and> length x = period_bytes (fr_format f)"
    using assms(1,3) u k len by (auto simp: unpack_frame_def Let_def split: if_splits)
qed

lemma gather_slots_length:
  assumes "gather_slots format block period frame_index slots pcm = (pcm', r)"
    and "frame_index < af_period_frames format" "af_channels format \<le> 64" "length (bc_channels block) = 8"
    and "length period = af_period_frames format * af_channels format * af_sample_bytes format"
    and "\<forall>(position, c) \<in> set slots. position < 8"
    and "length pcm = af_period_frames format * 8 * af_sample_bytes format"
  shows "length pcm' = length pcm"
  using assms(1,6,7)
proof (induction slots arbitrary: pcm)
  case (Cons slot slots)
  obtain position c where slot: "slot = (position, c)" by (cases slot)
  let ?C = "af_channels format" and ?u = "af_sample_bytes format"
  let ?from = "(frame_index * ?C + nat c) * ?u" and ?to = "(frame_index * 8 + position) * ?u"
  show ?case
  proof (cases "c < 0 \<or> c \<ge> to_int32 (int ?C)")
    case True
    then show ?thesis using Cons.prems slot by auto
  next
    case False
    then have c: "0 \<le> c" "c < int ?C" using channel_cast_small [OF assms(3)] by auto
    have "frame_index * ?C + nat c < af_period_frames format * ?C"
      using slot_in_buffer [OF assms(2), of ?C] c by simp
    then have from_: "?from + ?u \<le> length period"
      using slot_in_buffer [of "frame_index * ?C + nat c" "af_period_frames format * ?C" ?u] assms(5) by simp
    have "frame_index * 8 + position < af_period_frames format * 8"
      using slot_in_buffer [OF assms(2), of 8] Cons.prems(2) slot by simp
    then have "?to + ?u \<le> length pcm"
      using slot_in_buffer [of "frame_index * 8 + position" "af_period_frames format * 8" ?u] Cons.prems(3) by simp
    moreover have "length (chunk ?from ?u period) = ?u" using from_ by (simp add: chunk_def)
    ultimately have len: "length (overwrite ?to (chunk ?from ?u period) pcm) = length pcm"
      by (simp add: length_overwrite)
    have "gather_slots format block period frame_index slots (overwrite ?to (chunk ?from ?u period) pcm) = (pcm', r)"
      using Cons.prems(1) slot False assms(4) by (simp add: Let_def)
    then show ?thesis using Cons.IH Cons.prems(2,3) len by simp
  qed
qed simp

lemma gather_frames_length:
  assumes "gather_frames format block period frames pcm = (pcm', r)"
    and "\<forall>i \<in> set frames. i < af_period_frames format" "af_channels format \<le> 64" "length (bc_channels block) = 8"
    and "length period = af_period_frames format * af_channels format * af_sample_bytes format"
    and "length pcm = af_period_frames format * 8 * af_sample_bytes format"
  shows "length pcm' = length pcm"
  using assms(1,2,6)
proof (induction frames arbitrary: pcm)
  case (Cons i frames)
  obtain p1 r1 where s: "gather_slots format block period i (List.enumerate 0 (bc_channels block)) pcm = (p1, r1)"
    by (cases "gather_slots format block period i (List.enumerate 0 (bc_channels block)) pcm")
  have "\<forall>(position, c) \<in> set (List.enumerate 0 (bc_channels block)). position < 8"
    using assms(4) by (auto simp: in_set_enumerate_eq)
  then have "length p1 = length pcm"
    using gather_slots_length [OF s _ assms(3-5)] Cons.prems(2,3) by simp
  then show ?case using Cons s by (cases r1) auto
qed simp

lemma pack_blocks_keeps:
  assumes "pack_blocks period payload position blocks f = (g, r)" "framer_ready f"
    and "length period = period_bytes (fr_format f)"
    and "position + length blocks \<le> length (fr_tx_block_pcm f)"
  shows "framer_keeps f g"
  using assms
proof (induction blocks arbitrary: position f g r)
  case (Cons block blocks)
  show ?case
  proof (cases "length (bc_channels block) = unat k_block_channels")
    case False
    then show ?thesis using Cons.prems(1) by simp
  next
    case True
    then have eight: "length (bc_channels block) = 8" by (simp add: k_block_channels_def)
    obtain pcm failed where g1: "gather_frames (fr_format f) block period [0..<af_period_frames (fr_format f)]
        (fr_tx_block_pcm f ! position) = (pcm, failed)"
      by (cases "gather_frames (fr_format f) block period [0..<af_period_frames (fr_format f)]
        (fr_tx_block_pcm f ! position)")
    have at: "position < length (fr_tx_block_pcm f)" using Cons.prems(4) by simp
    then have "length (fr_tx_block_pcm f ! position)
        = af_period_frames (fr_format f) * 8 * af_sample_bytes (fr_format f)"
      using Cons.prems(2) by (simp add: framer_ready_def)
    then have len: "length pcm = length (fr_tx_block_pcm f ! position)"
      using gather_frames_length [OF g1 _ readyD(2) [OF Cons.prems(2)] eight] Cons.prems(3)
      by (simp add: period_bytes_def period_samples_def)
    define f1 where "f1 = f\<lparr>fr_tx_block_pcm := (fr_tx_block_pcm f)[position := pcm]\<rparr>"
    have "map length ((fr_tx_block_pcm f)[position := pcm]) = map length (fr_tx_block_pcm f)"
      using at len by (simp add: map_update list_update_same_conv)
    then have k: "framer_keeps f f1" by (simp add: framer_keeps_def f1_def)
    note ready = framer_keeps_ready [OF Cons.prems(2) k]
    have same: "fr_format f1 = fr_format f" "length (fr_tx_block_pcm f1) = length (fr_tx_block_pcm f)"
      by (simp_all add: f1_def)
    show ?thesis
    proof (cases failed)
      case (Some err)
      then show ?thesis using Cons.prems(1) True g1 k by (auto simp: f1_def Let_def)
    next
      case None
      obtain f2 r2 where rest: "pack_blocks period payload (position + 1) blocks f1 = (f2, r2)"
        by (cases "pack_blocks period payload (position + 1) blocks f1")
      have "framer_keeps f1 f2"
        by (rule Cons.IH [OF rest ready]) (use Cons.prems(3,4) same in simp_all)
      then have "framer_keeps f f2" by (rule framer_keeps_trans [OF k])
      moreover have "g = f2"
        using Cons.prems(1) True g1 None rest
        by (auto simp: f1_def Let_def split: sum.splits prod.splits)
      ultimately show ?thesis by simp
    qed
  qed
qed simp

lemma resolve_encoders_keeps:
  "resolve_encoders library positions f = (g, r) \<Longrightarrow> framer_keeps f g"
proof (induction positions arbitrary: f g r)
  case (Cons position positions)
  let ?index = "size_of_int (bc_index (cf_blocks (fr_config f) ! position))"
  obtain f1 r1 where c: "codec_for_block library ?index True f = (f1, r1)"
    by (cases "codec_for_block library ?index True f")
  obtain f2 r2 where rest: "resolve_encoders library positions f1 = (f2, r2)"
    by (cases "resolve_encoders library positions f1")
  show ?case
    using Cons.prems c rest codec_for_block_keeps [OF c] framer_keeps_trans Cons.IH [OF rest]
    by (auto split: sum.splits)
qed simp

lemma run_encoders_keeps:
  "run_encoders library jobs blocks f = (g, blocks', errors) \<Longrightarrow> framer_keeps f g"
proof (induction jobs arbitrary: blocks f g blocks' errors)
  case (Cons job jobs)
  obtain position codec where job: "job = (position, codec)" by (cases job)
  obtain c x where enc: "opus_encode library (Some (fr_tx_block_pcm f ! position))
      (af_period_frames (fr_format f)) (the (fr_codecs f ! codec)) = (c, x)"
    by (cases "opus_encode library (Some (fr_tx_block_pcm f ! position))
      (af_period_frames (fr_format f)) (the (fr_codecs f ! codec))")
  have "framer_keeps (f\<lparr>fr_codecs := (fr_codecs f)[codec := Some c]\<rparr>) g"
    using Cons.prems job enc by (auto simp: Let_def split: prod.splits dest: Cons.IH)
  then show ?case by (simp add: framer_keeps_def)
qed simp

lemma pack_period_keeps:
  assumes "pack_period library (Some period) position f = (g, r)" "framer_ready f"
    and "length period = period_bytes (fr_format f)"
  shows "framer_keeps f g"
proof -
  let ?payload = "if af_sample_bytes (fr_format f) = 2 then pcm_l16 else pcm_l24"
  obtain f1 r1 where b: "pack_blocks period ?payload 0 (cf_blocks (fr_config f)) f = (f1, r1)"
    by (cases "pack_blocks period ?payload 0 (cf_blocks (fr_config f)) f")
  have k: "framer_keeps f f1"
    using pack_blocks_keeps [OF b assms(2,3)] assms(2) by (simp add: framer_ready_def)
  show ?thesis
  proof (cases r1)
    case (Inl err)
    then show ?thesis using assms(1) b k by (simp add: pack_period_def Let_def)
  next
    case (Inr bo)
    obtain blocks opus_blocks where bo: "bo = (blocks, opus_blocks)" by (cases bo)
    obtain f2 r2 where e: "resolve_encoders library opus_blocks f1 = (f2, r2)"
      by (cases "resolve_encoders library opus_blocks f1")
    have k2: "framer_keeps f f2" by (rule framer_keeps_trans [OF k resolve_encoders_keeps [OF e]])
    show ?thesis
    proof (cases r2)
      case (Inl err)
      then show ?thesis using assms(1) b Inr bo e k2 by (simp add: pack_period_def Let_def)
    next
      case (Inr codecs)
      obtain f3 blocks3 errors where run: "run_encoders library (zip opus_blocks codecs) blocks f2 = (f3, blocks3, errors)"
        by (cases "run_encoders library (zip opus_blocks codecs) blocks f2")
      have "framer_keeps f f3" by (rule framer_keeps_trans [OF k2 run_encoders_keeps [OF run]])
      moreover have "g = f3"
        using assms(1) b \<open>r1 = Inr bo\<close> bo e Inr run
        by (auto simp: pack_period_def Let_def split: list.splits)
      ultimately show ?thesis by simp
    qed
  qed
qed


definition example_framer :: "(unit, unit) framer" where
  "example_framer = \<lparr>fr_config = muted_config, fr_format = audio_format_from (cf_audio muted_config),
     fr_codecs = [], fr_tx_block_pcm = replicate 2 (replicate 1152 0), fr_codec_pcm = [],
     fr_link_id = 7\<rparr>"

lemmas example_framer_defs = example_framer_def muted_config_def example_config_def default_defs
  fill_default_blocks_def audio_format_from_def period_bytes_def period_samples_def
  conventional_block_def default_block_def upto_example

lemma example_framer_ready: "framer_ready example_framer"
  unfolding framer_ready_def
  by (simp add: example_framer_def muted_config_valid)
    (simp add: example_framer_defs)

lemma example_framer_pcm: "pcm_only (fr_config example_framer)" "in_order (fr_config example_framer)"
  by (simp_all add: pcm_only_def in_order_def example_framer_defs to_lower_def lower_char_def less_Suc_eq
      numeral_2_eq_2)


text \<open>
  The order of the list matters, although the validation accepts any: packing takes a block by its
  place in the list and unpacking by its index on the wire. With the two blocks of a sixteen
  channel device listed in the other order, a period comes back with its halves exchanged. One
  sample frame of 16 bit shows it.
\<close>

definition swapped_config :: config where
  "swapped_config = muted_config\<lparr>cf_blocks := [conventional_block 1, conventional_block 0]\<rparr>"

definition swapped_framer :: "(unit, unit) framer" where
  "swapped_framer = \<lparr>fr_config = swapped_config,
     fr_format = \<lparr>af_sample_rate = 48000, af_channels = 16, af_period_frames = 1, af_sample_bytes = 2\<rparr>,
     fr_codecs = [], fr_tx_block_pcm = replicate 2 (replicate 16 0), fr_codec_pcm = [], fr_link_id = 7\<rparr>"

lemma swapped_blocks_exchange:
  "validate swapped_config = None"
  "case pack_period None (Some (replicate 16 1 @ replicate 16 2)) 0 swapped_framer of (_, Inr frame) \<Rightarrow>
     snd (unpack_frame None frame (Some (replicate 32 0)) swapped_framer)
       = (Some (replicate 16 2 @ replicate 16 1), None)"
  subgoal
    by (simp add: validate_None swapped_config_def muted_config_def example_config_def default_defs
      fill_default_blocks_def conventional_block_def default_block_def upto_example
      validate_audio_def validate_link_def validate_daemon_def validate_blocks_def
      validate_egress_def validate_http_def check_block_tail_def to_lower_def lower_char_def
      split_example_peer Let_def)
  by code_simp

end
