(* ===== verification/Device.thy ===== *)
theory Device
  imports Audio HalDevice
begin

text \<open>
  The device the engine is paced by: the interface of src/src/audio/backend.hpp, the backend that is
  always there, src/src/audio/null_backend.hpp and null_backend.cpp, and the one that stands for a
  backend this build does not have, src/src/audio/backend.cpp.

  \<open>audio_backend\<close> is the class \<^verbatim>\<open>AudioBackend\<close>: one function per virtual member the engine calls, over
  the state of whichever backend it is. The memory a read fills goes in and comes out. Time is a
  count of the steady clock's ticks, and waiting is the time at which the call goes on.

  The locale \<open>audio_device\<close> is what the engine relies on; the null backend and the virtual device of
  \<open>HalDevice\<close> are shown to provide it, the second for 24-bit formats only.
\<close>

subsection \<open>The interface\<close>

record ('b, 'x) audio_backend =
  be_open :: "int \<Rightarrow> audio_format \<Rightarrow> 'b \<Rightarrow> 'b \<times> 'x option"
  be_close :: "'b \<Rightarrow> 'b"
  be_read :: "int \<Rightarrow> bytes \<Rightarrow> nat \<Rightarrow> 'b \<Rightarrow> 'b \<times> bytes \<times> 'x option"
  be_write :: "int \<Rightarrow> bytes \<Rightarrow> nat \<Rightarrow> 'b \<Rightarrow> 'b \<times> 'x option"

locale audio_device =
  fixes device :: "('b, 'x) audio_backend"
    and runs :: "audio_format \<Rightarrow> 'b \<Rightarrow> bool"
  assumes read_runs: "runs format s \<Longrightarrow> be_read device now memory frames s = (s', memory', r) \<Longrightarrow> runs format s'"
    and read_length: "runs format s \<Longrightarrow> be_read device now memory frames s = (s', memory', r) \<Longrightarrow>
      length memory = frames_to_bytes format frames \<Longrightarrow> length memory' = length memory"
    and write_runs: "runs format s \<Longrightarrow> be_write device now source frames s = (s', r) \<Longrightarrow>
      length source = frames_to_bytes format frames \<Longrightarrow> runs format s'"

subsection \<open>NullBackend\<close>

record null_device =
  nd_open :: bool
  nd_format :: audio_format
  nd_loopback :: bytes
  nd_pending :: nat
  nd_period :: int
  nd_next_read :: int
  nd_next_write :: int
  nd_overruns :: nat
  nd_underruns :: nat

definition null_init :: null_device where
  "null_init = \<lparr>nd_open = False, nd_format = default_format, nd_loopback = [], nd_pending = 0,
     nd_period = 0, nd_next_read = 0, nd_next_write = 0, nd_overruns = 0, nd_underruns = 0\<rparr>"

datatype null_error =
    NullSampleRate | NullChannels | NullSampleBytes nat | NullPeriod
  | NullNotOpen | NullNothingToWrite | NullNoBuffer

definition null_pace :: "int \<Rightarrow> int \<Rightarrow> int \<Rightarrow> int \<times> int" where
  "null_pace period now deadline =
     (if deadline > now then (deadline, deadline + period) else (now, now + period))"

definition null_open :: "int \<Rightarrow> audio_format \<Rightarrow> null_device \<Rightarrow> null_device \<times> null_error option" where
  "null_open now format d =
     (if af_sample_rate format = 0 then (d, Some NullSampleRate)
      else if af_channels format = 0 then (d, Some NullChannels)
      else if af_sample_bytes format \<noteq> 2 \<and> af_sample_bytes format \<noteq> 3
        then (d, Some (NullSampleBytes (af_sample_bytes format)))
      else if af_period_frames format = 0 then (d, Some NullPeriod)
      else (d\<lparr>nd_format := format, nd_loopback := replicate (period_bytes format) 0,
              nd_overruns := 0, nd_underruns := 0,
              nd_period := \<lfloor>real (af_period_frames format) / real (af_sample_rate format) * 1000000000\<rfloor>,
              nd_next_read := now, nd_next_write := now, nd_open := True\<rparr>, None))"

definition null_close :: "null_device \<Rightarrow> null_device" where
  "null_close d = d\<lparr>nd_open := False, nd_pending := 0, nd_loopback := []\<rparr>"

definition null_write ::
  "int \<Rightarrow> bytes option \<Rightarrow> nat \<Rightarrow> null_device \<Rightarrow> null_device \<times> (null_error + int)" where
  "null_write now source frames d =
     (if \<not> nd_open d then (d, Inl NullNotOpen)
      else case source of
        None \<Rightarrow> (d, Inl NullNothingToWrite)
      | Some audio \<Rightarrow>
          let (go, deadline) = null_pace (nd_period d) now (nd_next_write d);
              d1 = d\<lparr>nd_next_write := deadline\<rparr>;
              size = frames_to_bytes (nd_format d1) frames;
              room = length (nd_loopback d1)
          in if size > room
             then (d1\<lparr>nd_underruns := nd_underruns d1 + 1,
                      nd_loopback := overwrite 0 (take room audio) (nd_loopback d1),
                      nd_pending := room\<rparr>, Inr go)
             else (d1\<lparr>nd_loopback := overwrite 0 (take size audio) (nd_loopback d1),
                      nd_pending := size\<rparr>, Inr go))"

definition null_read ::
  "int \<Rightarrow> bytes option \<Rightarrow> nat \<Rightarrow> null_device \<Rightarrow> null_device \<times> bytes option \<times> (null_error + int)" where
  "null_read now destination frames d =
     (if \<not> nd_open d then (d, destination, Inl NullNotOpen)
      else case destination of
        None \<Rightarrow> (d, None, Inl NullNoBuffer)
      | Some memory \<Rightarrow>
          let (go, deadline) = null_pace (nd_period d) now (nd_next_read d);
              d1 = d\<lparr>nd_next_read := deadline\<rparr>;
              size = frames_to_bytes (nd_format d1) frames;
              silent = overwrite 0 (replicate size 0) memory;
              d2 = (if nd_pending d1 < size then d1\<lparr>nd_overruns := nd_overruns d1 + 1\<rparr> else d1);
              available = min (nd_pending d2) size
          in if available > 0
             then (d2\<lparr>nd_loopback := replicate (length (nd_loopback d2)) 0, nd_pending := 0\<rparr>,
                   Some (overwrite 0 (take available (nd_loopback d2)) silent), Inr go)
             else (d2, Some silent, Inr go))"

definition null_pending_bytes :: "null_device \<Rightarrow> nat" where
  "null_pending_bytes d = nd_pending d"

definition null_backend :: "(null_device, null_error) audio_backend" where
  "null_backend = \<lparr>be_open = null_open, be_close = null_close,
     be_read = (\<lambda>now memory frames d. case null_read now (Some memory) frames d of
        (d', memory', Inl e) \<Rightarrow> (d', the memory', Some e)
      | (d', memory', Inr _) \<Rightarrow> (d', the memory', None)),
     be_write = (\<lambda>now source frames d. case null_write now (Some source) frames d of
        (d', Inl e) \<Rightarrow> (d', Some e)
      | (d', Inr _) \<Rightarrow> (d', None))\<rparr>"

subsection \<open>UnavailableBackend\<close>

definition unavailable_backend :: "(unavailable_reason, unavailable_reason) audio_backend" where
  "unavailable_backend = \<lparr>be_open = (\<lambda>now format reason. (reason, Some reason)),
     be_close = (\<lambda>reason. reason),
     be_read = (\<lambda>now memory frames reason. (reason, memory, Some reason)),
     be_write = (\<lambda>now source frames reason. (reason, Some reason))\<rparr>"

subsection \<open>HalBackend as a backend\<close>

definition hal_backend ::
  "'w shm_api \<Rightarrow> (nat \<Rightarrow> 'w \<Rightarrow> region) \<Rightarrow> (hal_device \<times> 'w, hal_error) audio_backend" where
  "hal_backend api memory_at = \<lparr>
     be_open = (\<lambda>now format (h, w). case hal_open api memory_at format h w of (h', w', e) \<Rightarrow> ((h', w'), e)),
     be_close = (\<lambda>(h, w). hal_close api h w),
     be_read = (\<lambda>now memory frames (h, w). case hal_read now frames h of
        (h', Inl e) \<Rightarrow> ((h', w), memory, Some e)
      | (h', Inr (audio, _)) \<Rightarrow> ((h', w), overwrite 0 audio memory, None)),
     be_write = (\<lambda>now source frames (h, w). case hal_write now source frames h of
        (h', Inl e) \<Rightarrow> ((h', w), Some e)
      | (h', Inr _) \<Rightarrow> ((h', w), None))\<rparr>"

subsection \<open>What the engine relies on\<close>

definition null_runs :: "audio_format \<Rightarrow> null_device \<Rightarrow> bool" where
  "null_runs format d \<longleftrightarrow> nd_open d \<and> nd_format d = format \<and> length (nd_loopback d) = period_bytes format"

lemma null_open_runs: "null_open now format d = (d', None) \<Longrightarrow> null_runs format d'"
  by (auto simp: null_open_def null_runs_def split: if_splits)

lemma null_read_runs:
  assumes "null_runs format d" "null_read now (Some memory) frames d = (d', memory', r)"
  shows "null_runs format d'" and "memory' \<noteq> None"
    and "length memory = frames_to_bytes format frames \<Longrightarrow> length (the memory') = length memory"
  using assms
  by (auto simp: null_read_def null_runs_def Let_def length_overwrite
      split: prod.splits if_splits)

lemma null_write_runs:
  assumes "null_runs format d" "null_write now (Some source) frames d = (d', r)"
  shows "null_runs format d'"
  using assms
  by (auto simp: null_write_def null_runs_def Let_def length_overwrite split: prod.splits if_splits)

interpretation null: audio_device null_backend null_runs
proof
  fix format now s memory frames s' memory' r
  assume "null_runs format s" "be_read null_backend now memory frames s = (s', memory', r)"
  then show "null_runs format s'"
    using null_read_runs(1) by (fastforce simp: null_backend_def split: prod.splits sum.splits)
next
  fix format s now memory frames s' memory' r
  assume "null_runs format s" "be_read null_backend now memory frames s = (s', memory', r)"
    "length memory = frames_to_bytes format frames"
  then show "length memory' = length memory"
    using null_read_runs(3) by (fastforce simp: null_backend_def split: prod.splits sum.splits)
next
  fix format s now source frames s' r
  assume "null_runs format s" "be_write null_backend now source frames s = (s', r)"
  then show "null_runs format s'"
    using null_write_runs by (fastforce simp: null_backend_def split: prod.splits sum.splits)
qed

definition hal_runs :: "audio_format \<Rightarrow> hal_device \<times> 'w \<Rightarrow> bool" where
  "hal_runs format hw \<longleftrightarrow> af_sample_bytes format = 3 \<and> hd_format (fst hw) = format
     \<and> (\<forall>audio. hd_audio (fst hw) = Some audio \<longrightarrow>
          shared_ok (sa_from_host audio) \<and> sr_channels (sa_from_host audio) = af_channels format
          \<and> shared_ok (sa_to_host audio) \<and> sr_channels (sa_to_host audio) = af_channels format)"

lemma shared_write_ok:
  assumes "shared_ok ring" "length source = frames * sr_channels ring"
    and "shared_write ring (Some source) frames = (ring', n)"
  shows "shared_ok ring' \<and> sr_channels ring' = sr_channels ring"
proof -
  let ?c = "sr_capacity_frames ring"
  have "length (ring_put (sr_channels ring) ?c (slot ?c (ss_write_index (sr_state ring))) (min frames ?c)
      (drop ((frames - ?c) * sr_channels ring) source) (sr_data ring)) = ?c * sr_channels ring"
    by (rule ring_put_fits(1))
      (use assms shared_okD [OF assms(1)] in \<open>auto simp: slot_less min_def diff_mult_distrib\<close>)
  then show ?thesis
    using assms by (auto simp: shared_write_def shared_ok_def min_def Let_def split: if_splits)
qed

lemma hal_read_runs:
  assumes "hal_runs format (h, w)" "hal_read now frames h = (h', r)"
  shows "hal_runs format (h', w)"
    and "r = Inr (audio, go) \<Longrightarrow> length audio = frames_to_bytes format frames"
proof -
  obtain ring' got samples where rd: "shared_read (sa_from_host (the (hd_audio h))) frames = (ring', got, samples)"
    by (cases "shared_read (sa_from_host (the (hd_audio h))) frames")
  show "hal_runs format (h', w)"
    using assms rd shared_read_refines(2,9) [OF _ rd]
    by (auto simp: hal_runs_def hal_read_def Let_def split: if_splits option.splits prod.splits bool.splits)
  assume "r = Inr (audio, go)"
  then show "length audio = frames_to_bytes format frames"
    using assms rd shared_read_refines(1,4) [OF _ rd]
    by (auto simp: hal_runs_def hal_read_def Let_def length_float_bytes frames_to_bytes_def
        add_mult_distrib [symmetric] split: if_splits option.splits prod.splits bool.splits)
qed

lemma hal_write_runs:
  assumes "hal_runs format (h, w)" "hal_write now source frames h = (h', r)"
    and "length source = frames_to_bytes format frames"
  shows "hal_runs format (h', w)"
proof -
  let ?scratch = "s24_3le_to_float (take (frames * af_channels (hd_format h) * 3) source)"
  obtain ring' n where wr: "shared_write (sa_to_host (the (hd_audio h))) (Some ?scratch) frames = (ring', n)"
    by (cases "shared_write (sa_to_host (the (hd_audio h))) (Some ?scratch) frames")
  have len: "length ?scratch = frames * af_channels format"
    using assms(1,3) by (simp add: length_s24_3le_to_float hal_runs_def frames_to_bytes_def)
  show ?thesis
    using assms(1,2) wr shared_write_ok [OF _ _ wr] len
    by (auto simp: hal_runs_def hal_write_def Let_def split: if_splits option.splits prod.splits bool.splits)
qed

interpretation hal: audio_device "hal_backend api memory_at" hal_runs
proof
  fix format s now memory frames s' memory' r
  assume a: "hal_runs format s" "be_read (hal_backend api memory_at) now memory frames s = (s', memory', r)"
  obtain h w where s: "s = (h, w)" by (cases s)
  obtain h' x where rd: "hal_read now frames h = (h', x)" by (cases "hal_read now frames h")
  show "hal_runs format s'"
    using hal_read_runs(1) [OF a(1) [unfolded s] rd] a(2) s rd
    by (auto simp: hal_backend_def split: sum.splits)
  show "length memory = frames_to_bytes format frames \<Longrightarrow> length memory' = length memory"
    using hal_read_runs(2) [OF a(1) [unfolded s] rd] a(2) s rd
    by (auto simp: hal_backend_def length_overwrite split: sum.splits)
next
  fix format s now source frames s' r
  assume a: "hal_runs format s" "be_write (hal_backend api memory_at) now source frames s = (s', r)"
    "length source = frames_to_bytes format frames"
  obtain h w where s: "s = (h, w)" by (cases s)
  obtain h' x where wr: "hal_write now source frames h = (h', x)" by (cases "hal_write now source frames h")
  show "hal_runs format s'"
    using hal_write_runs [OF a(1) [unfolded s] wr a(3)] a(2) s wr
    by (auto simp: hal_backend_def split: sum.splits)
qed


text \<open>
  A region left by a process that ran another number of channels is accepted: what a read then copies
  is not bounded by the buffer of this device.
\<close>

lemma attach_takes_other_shape:
  assumes "rg_block memory = \<lparr>sb_magic = k_shared_ring_magic, sb_version = k_shared_ring_version,
      sb_channels = 128, sb_capacity_frames = 2048, sb_to_host = ring_state_reset,
      sb_from_host = ring_state_reset\<rparr>"
  shows "\<exists>audio. shared_audio_attach (Some memory)
      (shared_bytes_for k_hal_capacity_frames k_hal_channels) = Inr audio
    \<and> sr_channels (sa_from_host audio) = 2 * k_hal_channels"
  using assms
  by (simp add: shared_audio_attach_def shared_bind_def shared_bytes_for_def sizes
      k_hal_capacity_frames_def k_hal_channels_def shared_attach_def Let_def)

lemma null_write_period:
  assumes "null_runs format d" "length source = frames_to_bytes format frames"
    and "length source = period_bytes format"
  shows "null_write now (Some source) frames d
    = (d\<lparr>nd_next_write := snd (null_pace (nd_period d) now (nd_next_write d)),
         nd_loopback := source, nd_pending := length source\<rparr>,
       Inr (fst (null_pace (nd_period d) now (nd_next_write d))))"
  using assms by (simp add: null_write_def null_runs_def Let_def overwrite_def case_prod_beta)

lemma null_read_period:
  assumes "null_runs format d" "length memory = frames_to_bytes format frames"
    and "length memory = period_bytes format" "0 < period_bytes format"
    and "nd_pending d = (if full then length memory else 0)"
  shows "null_read now (Some memory) frames d
    = (d\<lparr>nd_next_read := snd (null_pace (nd_period d) now (nd_next_read d)),
         nd_overruns := nd_overruns d + (if full then 0 else 1),
         nd_loopback := (if full then replicate (length memory) 0 else nd_loopback d), nd_pending := 0\<rparr>,
       Some (if full then nd_loopback d else replicate (length memory) 0),
       Inr (fst (null_pace (nd_period d) now (nd_next_read d))))"
  using assms
  by (cases full) (simp_all add: null_read_def null_runs_def Let_def overwrite_def case_prod_beta)

text \<open>
  The null backend loops a period back: a period written is the period the next read gives, byte
  for byte, and the read after it gives silence and counts the starvation once.
\<close>

theorem null_loopback:
  assumes "null_runs format d" "length source = period_bytes format"
    and "length memory = period_bytes format"
    and "frames = af_period_frames format" "0 < period_bytes format"
  shows "\<exists>d1 d2 d3. be_write null_backend t1 source frames d = (d1, None)
    \<and> be_read null_backend t2 memory frames d1 = (d2, source, None)
    \<and> be_read null_backend t3 memory frames d2 = (d3, replicate (period_bytes format) 0, None)
    \<and> nd_overruns d2 = nd_overruns d \<and> nd_overruns d3 = nd_overruns d + 1"
proof -
  have size: "frames_to_bytes format frames = period_bytes format" using assms(4) by (simp add: period_bytes_frames)
  define d1 where "d1 = d\<lparr>nd_next_write := snd (null_pace (nd_period d) t1 (nd_next_write d)),
      nd_loopback := source, nd_pending := length source\<rparr>"
  have w: "be_write null_backend t1 source frames d = (d1, None)"
    using null_write_period [OF assms(1)] assms(2) size by (simp add: null_backend_def d1_def)
  have d1: "null_runs format d1" "nd_overruns d1 = nd_overruns d" "nd_pending d1 = (if True then length memory else 0)"
    "nd_loopback d1 = source"
    using assms(1-3) by (simp_all add: null_runs_def d1_def)
  note r1 = null_read_period [OF d1(1) _ assms(3,5) d1(3), of frames t2]
  define d2 where "d2 = fst (null_read t2 (Some memory) frames d1)"
  have d2: "be_read null_backend t2 memory frames d1 = (d2, source, None)" "nd_overruns d2 = nd_overruns d"
    "null_runs format d2" "nd_pending d2 = (if False then length memory else 0)"
    using r1 assms(3) size d1 by (simp_all add: null_backend_def d2_def null_runs_def)
  then show ?thesis
    using null_read_period [OF d2(3) _ assms(3,5) d2(4), of frames t3] w assms(3) size
    by (simp add: null_backend_def)
qed

definition two_frames :: audio_format where
  "two_frames = \<lparr>af_sample_rate = 48000, af_channels = 1, af_period_frames = 2, af_sample_bytes = 2\<rparr>"

theorem null_loopback_witness:
  "\<exists>d1 d2 d3. be_write null_backend 5 [1, 2, 3, 4] 2 (fst (null_open 0 two_frames null_init)) = (d1, None)
    \<and> be_read null_backend 6 [9, 9, 9, 9] 2 d1 = (d2, [1, 2, 3, 4], None)
    \<and> be_read null_backend 7 [9, 9, 9, 9] 2 d2 = (d3, [0, 0, 0, 0], None)
    \<and> nd_overruns d2 = 0 \<and> nd_overruns d3 = 1"
proof -
  obtain d where d: "null_open 0 two_frames null_init = (d, None)" "nd_overruns d = 0"
    by (simp add: null_open_def two_frames_def)
  have runs: "null_runs two_frames d" by (rule null_open_runs [OF d(1)])
  have size: "period_bytes two_frames = 4" "af_period_frames two_frames = 2"
    by (simp_all add: two_frames_def period_bytes_def period_samples_def)
  have silence: "replicate 4 (0 :: u8) = [0, 0, 0, 0]" by (simp add: eval_nat_numeral)
  have "\<exists>d1 d2 d3. be_write null_backend 5 [1, 2, 3, 4] 2 d = (d1, None)
    \<and> be_read null_backend 6 [9, 9, 9, 9] 2 d1 = (d2, [1, 2, 3, 4], None)
    \<and> be_read null_backend 7 [9, 9, 9, 9] 2 d2 = (d3, replicate (period_bytes two_frames) 0, None)
    \<and> nd_overruns d2 = nd_overruns d \<and> nd_overruns d3 = nd_overruns d + 1"
    by (rule null_loopback [OF runs]) (simp_all add: size)
  then show ?thesis unfolding d fst_conv size silence by (simp only: add_0)
qed

end
