(* ===== verification/Engine.thy ===== *)
theory Engine
  imports Framing Fragment Playout RatioControl Resampler DelayLine TestSignal Link Pcm Device
begin

text \<open>
  The engine, src/src/engine.hpp and src/src/engine.cpp: the device to the wire and back.

  \<open>engine\<close> holds the members of the class, each component as its own theory models it; the members
  the framing uses are a \<open>framer\<close>. What is outside the program is in \<open>platform\<close>: libsrt, libopus,
  libsamplerate, the audio backend the configuration chooses, and the number of cores. The state of
  libsrt is \<open>en_world\<close>.

  A thread's loop is its turns: \<open>step_transmit\<close>, \<open>step_receive\<close>, \<open>supervisor_turn\<close>, \<open>status_turn\<close>; an
  atomic member is a field, and one turn runs at a time. A turn that may not return is an option. Log
  lines, and the buffers that hold nothing between two turns, are left out. \<open>now\<close> is what the clock
  shows during the turn.
\<close>

subsection \<open>State\<close>

record ('e, 'd, 's, 'b, 'x, 'w) platform =
  p_srt :: "'w srt_api"
  p_with_srt :: bool
  p_opus :: "('e, 'd) opus_api option"
  p_samplerate :: "'s samplerate option"
  p_device :: "('b, 'x) audio_backend"
  p_new_backend :: "audio_config \<Rightarrow> 'b"
  p_show_int :: "int \<Rightarrow> string"
  p_cores :: nat
  p_can_start :: "nat \<Rightarrow> bool"

record published_figures =
  pf_delay_ms :: real
  pf_delay_fraction :: real
  pf_egress_delay_ms :: real
  pf_clock_offset_ppm :: real
  pf_clock_ratio :: real
  pf_concealed :: nat

record ('e, 'd, 's, 'b, 'w) engine =
  en_framer :: "('e, 'd) framer"
  en_backend :: "'b option"
  en_link :: "link option"
  en_world :: 'w
  en_reassembler :: reassembler
  en_workers :: nat
  en_playout :: "playout_buffer option"
  en_control :: ratio_control
  en_resampler :: "'s resampler option"
  en_delay_line :: delay_line
  en_test_signal :: test_signal
  en_egress_frames :: u64
  en_target_periods :: nat
  en_prime_deadline_periods :: nat
  en_playing :: bool
  en_priming_periods :: nat
  en_prime_reported :: bool
  en_silence_periods :: nat
  en_sequence :: u64
  en_sample_position :: u64
  en_frames_sent :: nat
  en_frames_received :: nat
  en_frames_refused :: nat
  en_published :: published_figures
  en_reset_requested :: bool
  en_startup_periods :: nat
  en_startup_trim_periods :: nat
  en_startup_trim_reported :: bool
  en_receive_turns :: nat
  en_requested_egress_delay_ms :: real
  en_egress_delay_pending :: bool
  en_test_signal_pending :: bool
  en_link_stats :: "link_stats option"
  en_tx_period :: bytes
  en_rx_period :: bytes
  en_stop_requested :: bool
  en_running :: bool

datatype 'x engine_error =
    BlocksDoNotCoverDevice nat int | NoRoomForPlayout int int | Framing framing_error | NoWorkers
  | Device 'x | Wire wire_error | Transport transport_error | ClockNotBuilt
  | ResamplerWillNotOpen resampler_error | DelayWillNotOpen delay_error | EgressDelay delay_error
  | TestWillNotOpen test_error | DelayFailed delay_error
  | EgressDelayRange real float_value | NoTestChannel

subsection \<open>Constants and durations\<close>

definition k_receive_poll_ms :: int where "k_receive_poll_ms = 0"
definition k_send_poll_ms :: int where "k_send_poll_ms = 0"
definition k_retry_delay_ms :: nat where "k_retry_delay_ms = 10"
definition k_status_slice_ms :: nat where "k_status_slice_ms = 100"
definition k_link_watch_ms :: nat where "k_link_watch_ms = 200"
definition k_link_retry_min_ms :: nat where "k_link_retry_min_ms = 250"
definition k_link_retry_max_ms :: nat where "k_link_retry_max_ms = 4000"
definition k_max_messages_per_period :: nat where "k_max_messages_per_period = 24"
definition k_max_frames_per_period :: nat where "k_max_frames_per_period = 8"
definition k_max_egress_delay_ms :: real where "k_max_egress_delay_ms = 5000"

definition period_ms :: "audio_format \<Rightarrow> real" where
  "period_ms format =
     (if af_sample_rate format = 0 then 0
      else real (af_period_frames format) * 1000 / real (af_sample_rate format))"

definition periods_for_ms :: "int \<Rightarrow> audio_format \<Rightarrow> nat" where
  "periods_for_ms ms format =
     (if ms \<le> 0 \<or> af_sample_rate format = 0 \<or> af_period_frames format = 0 then 0
      else nat \<lfloor>of_int ms * real (af_sample_rate format) / (1000 * real (af_period_frames format)) + 1 / 2\<rfloor>)"

abbreviation en_config :: "('e, 'd, 's, 'b, 'w) engine \<Rightarrow> config" where
  "en_config e \<equiv> fr_config (en_framer e)"

abbreviation en_format :: "('e, 'd, 's, 'b, 'w) engine \<Rightarrow> audio_format" where
  "en_format e \<equiv> fr_format (en_framer e)"

subsection \<open>prepare\<close>

text \<open>The loop that opens a codec for every block that carries Opus, and counts them.\<close>

fun prepare_codecs ::
  "('e, 'd) opus_api option \<Rightarrow> nat list \<Rightarrow> nat \<Rightarrow> ('e, 'd) framer \<Rightarrow> ('e, 'd) framer \<times> (framing_error + nat)" where
  "prepare_codecs library [] encoded f = (f, Inr encoded)"
| "prepare_codecs library (index # rest) encoded f =
     (if to_lower (bc_codec (cf_blocks (fr_config f) ! index)) \<noteq> ''opus''
        then prepare_codecs library rest encoded f
      else case codec_for_block library index True f of
        (f1, Inl e) \<Rightarrow> (f1, Inl e)
      | (f1, Inr _) \<Rightarrow> prepare_codecs library rest (encoded + 1) f1)"

definition encoder_workers :: "nat \<Rightarrow> nat \<Rightarrow> nat" where
  "encoder_workers cores encoded_blocks =
     (if encoded_blocks > 1
      then let workers = (if cores > 1 then cores - 1 else 0) in
           if workers > encoded_blocks then encoded_blocks else workers
      else 0)"

definition prepare ::
  "('e, 'd, 's, 'b, 'x, 'w) platform \<Rightarrow> config \<Rightarrow> ('e, 'd, 's, 'b, 'w) engine
     \<Rightarrow> ('e, 'd, 's, 'b, 'w) engine \<times> 'x engine_error option" where
  "prepare p config e =
     (let e1 = e\<lparr>en_framer := (en_framer e)\<lparr>fr_config := config\<rparr>\<rparr>;
          blocks = length (cf_blocks config) in
      if blocks * unat k_block_channels \<noteq> size_of_int (ac_channels (cf_audio config))
        then (e1, Some (BlocksDoNotCoverDevice blocks (ac_channels (cf_audio config))))
      else
        let format = audio_format_from (cf_audio config);
            target = periods_for_ms (lc_latency_ms (cf_link config)) format;
            alarm = periods_for_ms (lc_alarm_delay_ms (cf_link config)) format;
            capacity = 2 * alarm + 1;
            e2 = e1\<lparr>en_framer := (en_framer e1)\<lparr>fr_format := format\<rparr>,
                    en_backend := Some (p_new_backend p (cf_audio config)),
                    en_link := Some link_init, en_target_periods := target,
                    en_world := (case en_link e1 of None \<Rightarrow> en_world e1
                      | Some l \<Rightarrow> snd (link_close (p_srt p) l (en_world e1)))\<rparr>
        in if target = 0 \<or> capacity \<le> alarm + target
           then (e2, Some (NoRoomForPlayout (lc_latency_ms (cf_link config))
                             (lc_alarm_delay_ms (cf_link config))))
        else
          let block_bytes = unat k_block_channels * af_period_frames format * af_sample_bytes format;
              f = (en_framer e2)\<lparr>fr_codecs := replicate blocks None,
                     fr_codec_pcm := replicate block_bytes 0,
                     fr_tx_block_pcm := replicate blocks (replicate block_bytes 0)\<rparr>;
              e3 = e2\<lparr>en_tx_period := replicate (period_bytes format) 0,
                      en_rx_period := replicate (period_bytes format) 0\<rparr>
          in case prepare_codecs (p_opus p) [0..<blocks] 0 f of
               (f1, Inl err) \<Rightarrow> (e3\<lparr>en_framer := f1\<rparr>, Some (Framing err))
             | (f1, Inr encoded) \<Rightarrow>
                 let workers = encoder_workers (p_cores p) encoded;
                     e4 = e3\<lparr>en_framer := f1\<rparr>
                 in if workers \<le> 1 then (e4\<lparr>en_workers := 0\<rparr>, None)
                    else if p_can_start p workers then (e4\<lparr>en_workers := workers\<rparr>, None)
                    else (e4\<lparr>en_workers := 0\<rparr>, Some NoWorkers))"

subsection \<open>The transmit direction\<close>

text \<open>The loop over \<^verbatim>\<open>next_fragment\<close> and \<^verbatim>\<open>send_message\<close>: the messages of the frame until one is refused.\<close>

fun send_all ::
  "'w srt_api \<Rightarrow> bool \<Rightarrow> bytes list \<Rightarrow> link \<Rightarrow> 'w \<Rightarrow> link \<times> 'w \<times> transport_error option" where
  "send_all api with_srt [] l w = (l, w, None)"
| "send_all api with_srt (message # rest) l w =
     (case send_message api with_srt l w (Some message) of
        (l1, w1, Some e) \<Rightarrow> (l1, w1, Some e)
      | (l1, w1, None) \<Rightarrow> send_all api with_srt rest l1 w1)"

definition step_transmit ::
  "('e, 'd, 's, 'b, 'x, 'w) platform \<Rightarrow> int \<Rightarrow> ('e, 'd, 's, 'b, 'w) engine
     \<Rightarrow> ('e, 'd, 's, 'b, 'w) engine \<times> 'x engine_error option" where
  "step_transmit p now e =
     (case be_read (p_device p) now (en_tx_period e) (af_period_frames (en_format e)) (the (en_backend e)) of
        (backend, period, Some err) \<Rightarrow>
          (e\<lparr>en_backend := Some backend, en_tx_period := period\<rparr>, Some (Device err))
      | (backend, period, None) \<Rightarrow>
          let levelled = the (apply_block_levels (Some period) (en_format e) (cf_blocks (en_config e)));
              e1 = e\<lparr>en_backend := Some backend, en_tx_period := levelled\<rparr>
          in case pack_period (p_opus p) (Some levelled) (en_sample_position e1) (en_framer e1) of
               (f, Inl err) \<Rightarrow> (e1\<lparr>en_framer := f\<rparr>, Some (Framing err))
             | (f, Inr packed) \<Rightarrow>
                 let e2 = e1\<lparr>en_framer := f\<rparr>;
                     frame = packed\<lparr>f_sequence := en_sequence e2\<rparr>
                 in case encode frame of
                      Inl err \<Rightarrow> (e2, Some (Wire err))
                    | Inr data \<Rightarrow>
                        (case send_all (p_srt p) (p_with_srt p) (fragments data (ucast (f_sequence frame)))
                                (the (en_link e2)) (en_world e2) of
                           (l, w, Some err) \<Rightarrow>
                             (e2\<lparr>en_link := Some l, en_world := w\<rparr>, Some (Transport err))
                         | (l, w, None) \<Rightarrow>
                             (e2\<lparr>en_link := Some l, en_world := w,
                                 en_sequence := en_sequence e2 + 1,
                                 en_sample_position := en_sample_position e2
                                   + of_nat (af_period_frames (en_format e2)),
                                 en_frames_sent := en_frames_sent e2 + 1\<rparr>, None)))"

subsection \<open>The receive direction: into the buffer\<close>

definition playout_capacity :: "('e, 'd, 's, 'b, 'w) engine \<Rightarrow> nat" where
  "playout_capacity e = 2 * periods_for_ms (lc_alarm_delay_ms (cf_link (en_config e))) (en_format e) + 1"

definition reset_playout :: "('e, 'd, 's, 'b, 'w) engine \<Rightarrow> ('e, 'd, 's, 'b, 'w) engine" where
  "reset_playout e =
     e\<lparr>en_playout := Some (playout_init (playout_capacity e) (en_format e)),
       en_playing := False, en_priming_periods := 0, en_prime_reported := False,
       en_startup_periods := 0, en_startup_trim_periods := periods_for_ms 5000 (en_format e),
       en_published := (en_published e)\<lparr>pf_delay_ms := 0, pf_delay_fraction := 0,
         pf_clock_offset_ppm := 0, pf_clock_ratio := 1\<rparr>\<rparr>"

text \<open>
  The inner loop: messages until a frame is complete, the link is quiet or the cap is reached. The
  result says whether a frame is complete, or how the link failed.
\<close>

fun drain_messages ::
  "('e, 'd, 's, 'b, 'x, 'w) platform \<Rightarrow> nat \<Rightarrow> ('e, 'd, 's, 'b, 'w) engine
     \<Rightarrow> ('e, 'd, 's, 'b, 'w) engine \<times> (transport_error + bool)" where
  "drain_messages p 0 e = (e, Inr False)"
| "drain_messages p (Suc turns) e =
     (case receive_message (p_srt p) (p_with_srt p) (the (en_link e)) (en_world e) of
        (l, w, TimedOut) \<Rightarrow> (e\<lparr>en_link := Some l, en_world := w\<rparr>, Inr False)
      | (l, w, Refused err) \<Rightarrow> (e\<lparr>en_link := Some l, en_world := w\<rparr>, Inl err)
      | (l, w, Received message) \<Rightarrow>
          let e1 = e\<lparr>en_link := Some l, en_world := w\<rparr>;
              (r, failed) = feed (en_reassembler e1) (Some message);
              e2 = e1\<lparr>en_reassembler := r,
                      en_frames_refused := en_frames_refused e1 + (if failed = None then 0 else 1)\<rparr>
          in if frame_ready (en_reassembler e2) then (e2, Inr True) else drain_messages p turns e2)"

text \<open>A complete frame: decoded, unpacked, and held at the sender's position; or refused and counted.\<close>

definition accept_frame ::
  "('e, 'd, 's, 'b, 'x, 'w) platform \<Rightarrow> bytes \<Rightarrow> ('e, 'd, 's, 'b, 'w) engine \<Rightarrow> ('e, 'd, 's, 'b, 'w) engine" where
  "accept_frame p data e =
     (case decode (Some data) of
        Inl _ \<Rightarrow> e\<lparr>en_frames_refused := en_frames_refused e + 1\<rparr>
      | Inr frame \<Rightarrow>
          (case unpack_frame (p_opus p) frame (Some (en_rx_period e)) (en_framer e) of
             (f, period, failed) \<Rightarrow>
               let e1 = e\<lparr>en_framer := f, en_rx_period := the period\<rparr> in
               if failed \<noteq> None then e1\<lparr>en_frames_refused := en_frames_refused e1 + 1\<rparr>
               else case push (the (en_playout e1)) (unat (f_sample_position frame))
                           (Some (take (period_bytes (en_format e1)) (en_rx_period e1))) of
                 (b, status) \<Rightarrow>
                   let e2 = e1\<lparr>en_playout := Some b\<rparr> in
                   if status = stored \<or> status = overrun
                   then e2\<lparr>en_frames_received := en_frames_received e2 + 1\<rparr>
                   else e2\<lparr>en_frames_refused := en_frames_refused e2 + 1\<rparr>))"

fun receive_frames ::
  "('e, 'd, 's, 'b, 'x, 'w) platform \<Rightarrow> nat \<Rightarrow> ('e, 'd, 's, 'b, 'w) engine
     \<Rightarrow> ('e, 'd, 's, 'b, 'w) engine \<times> transport_error option" where
  "receive_frames p 0 e = (e, None)"
| "receive_frames p (Suc turns) e =
     (case drain_messages p k_max_messages_per_period e of
        (e1, Inl err) \<Rightarrow> (e1, Some err)
      | (e1, Inr have_frame) \<Rightarrow>
          if \<not> have_frame then (e1, None)
          else case take_frame (en_reassembler e1) of
            (r, Inl _) \<Rightarrow> (e1\<lparr>en_reassembler := r\<rparr>, None)
          | (r, Inr data) \<Rightarrow>
              if data = [] then (e1\<lparr>en_reassembler := r\<rparr>, None)
              else receive_frames p turns (accept_frame p data (e1\<lparr>en_reassembler := r\<rparr>)))"

definition receive_into_buffer ::
  "('e, 'd, 's, 'b, 'x, 'w) platform \<Rightarrow> ('e, 'd, 's, 'b, 'w) engine
     \<Rightarrow> ('e, 'd, 's, 'b, 'w) engine \<times> transport_error option" where
  "receive_into_buffer p e = receive_frames p k_max_frames_per_period e"

subsection \<open>The receive direction: out to the device\<close>

definition apply_requests :: "('e, 'd, 's, 'b, 'w) engine \<Rightarrow> ('e, 'd, 's, 'b, 'w) engine" where
  "apply_requests e =
     (let e1 = e\<lparr>en_egress_delay_pending := False\<rparr>;
          e2 = (if en_egress_delay_pending e then
                  case set_offset_ms (Real (en_requested_egress_delay_ms e1)) (en_delay_line e1) of
                    (l, Some _) \<Rightarrow> e1\<lparr>en_delay_line := l\<rparr>
                  | (l, None) \<Rightarrow> e1\<lparr>en_delay_line := l,
                      en_published := (en_published e1)\<lparr>pf_egress_delay_ms := delay_offset_ms l\<rparr>\<rparr>
                else e1);
          e3 = e2\<lparr>en_test_signal_pending := False\<rparr>
      in if en_test_signal_pending e2
         then e3\<lparr>en_test_signal := fst (test_trigger (en_egress_frames e3) (en_test_signal e3))\<rparr>
         else e3)"

definition write_period_to_device ::
  "('e, 'd, 's, 'b, 'x, 'w) platform \<Rightarrow> int \<Rightarrow> ('e, 'd, 's, 'b, 'w) engine
     \<Rightarrow> ('e, 'd, 's, 'b, 'w) engine \<times> 'x engine_error option" where
  "write_period_to_device p now e =
     (let e1 = apply_requests e;
          frames = af_period_frames (en_format e1);
          levelled = apply_block_levels (Some (en_rx_period e1)) (en_format e1) (cf_blocks (en_config e1));
          (signal, mixed) = test_mix levelled frames (en_egress_frames e1) (en_test_signal e1);
          e2 = e1\<lparr>en_test_signal := signal, en_rx_period := the mixed\<rparr>
      in case delay_process (Some (en_rx_period e2)) frames (en_delay_line e2) of
           (l, Inl err) \<Rightarrow> (e2\<lparr>en_delay_line := l\<rparr>, Some (DelayFailed err))
         | (l, Inr delayed) \<Rightarrow>
             let e3 = e2\<lparr>en_delay_line := l, en_rx_period := overwrite 0 delayed (en_rx_period e2),
                         en_egress_frames := en_egress_frames e2 + of_nat frames\<rparr>
             in case be_write (p_device p) now (en_rx_period e3) frames (the (en_backend e3)) of
                  (backend, failed) \<Rightarrow>
                    (e3\<lparr>en_backend := Some backend\<rparr>, map_option Device failed))"

text \<open>Before playout starts: whether this turn plays, the level reached or the deadline passed.\<close>

definition prime_playout ::
  "('e, 'd, 's, 'b, 'w) engine \<Rightarrow> ('e, 'd, 's, 'b, 'w) engine \<times> bool" where
  "prime_playout e =
     (if en_playing e then (e, True)
      else
        let e1 = e\<lparr>en_priming_periods := en_priming_periods e + 1\<rparr>;
            reached = held_frames (the (en_playout e1))
                        \<ge> en_target_periods e1 * af_period_frames (en_format e1);
            is_late = en_priming_periods e1 \<ge> en_prime_deadline_periods e1
        in if \<not> reached \<and> \<not> is_late
           then (e1\<lparr>en_rx_period := replicate (length (en_rx_period e1)) 0,
                    en_silence_periods := en_silence_periods e1 + 1\<rparr>, False)
           else (e1\<lparr>en_playing := True,
                    en_prime_reported := en_prime_reported e1 \<or> \<not> reached\<rparr>, True))"

text \<open>A period through the resampler, or silence, counted.\<close>

definition pull_period ::
  "('e, 'd, 's, 'b, 'x, 'w) platform \<Rightarrow> ('e, 'd, 's, 'b, 'w) engine
     \<Rightarrow> ('e, 'd, 's, 'b, 'w) engine option" where
  "pull_period p e =
     (let r0 = set_ratio (Real (ratio (en_control e))) (en_resampler e) in
      map_option (\<lambda>(r, b, out, result).
          let e1 = e\<lparr>en_resampler := r, en_playout := b, en_rx_period := the out\<rparr>;
              played = (case result of Pulled _ \<Rightarrow> True | _ \<Rightarrow> False);
              short = (short_pulls r \<noteq> short_pulls r0)
          in if \<not> played \<or> short
             then e1\<lparr>en_silence_periods := en_silence_periods e1 + 1,
                     en_rx_period := replicate (length (en_rx_period e1)) 0\<rparr>
             else e1)
        (resampler_pull (p_samplerate p) r0 (en_playout e) (Some (en_rx_period e))
           (af_period_frames (en_format e))))"

text \<open>The backlog of a link that came up after playout started, discarded forward to the target.\<close>

definition trim_startup :: "('e, 'd, 's, 'b, 'w) engine \<Rightarrow> ('e, 'd, 's, 'b, 'w) engine" where
  "trim_startup e =
     (let target_ms = real (en_target_periods e) * period_ms (en_format e);
          b = the (en_playout e);
          e1 = (if en_playing e \<and> en_startup_periods e < en_startup_trim_periods e
                   \<and> level_ms b > 2 * target_ms
                then case discard_to_level_ms b target_ms of
                  (b1, dropped) \<Rightarrow> e\<lparr>en_playout := Some b1,
                    en_startup_trim_reported := en_startup_trim_reported e \<or> dropped > 0\<rparr>
                else e)
      in if en_playing e1 then e1\<lparr>en_startup_periods := en_startup_periods e1 + 1\<rparr> else e1)"

definition steer_and_publish :: "('e, 'd, 's, 'b, 'w) engine \<Rightarrow> ('e, 'd, 's, 'b, 'w) engine" where
  "steer_and_publish e =
     (let b = the (en_playout e);
          c = update (en_control e) (Real (level_ms b)) (Real (period_ms (en_format e)))
      in e\<lparr>en_control := c,
           en_published := (en_published e)\<lparr>pf_delay_ms := level_ms b,
             pf_delay_fraction := level_fraction b, pf_clock_offset_ppm := offset_ppm c,
             pf_clock_ratio := ratio c, pf_concealed := pb_concealed b\<rparr>\<rparr>)"

definition play_one_period ::
  "('e, 'd, 's, 'b, 'x, 'w) platform \<Rightarrow> int \<Rightarrow> ('e, 'd, 's, 'b, 'w) engine
     \<Rightarrow> (('e, 'd, 's, 'b, 'w) engine \<times> 'x engine_error option) option" where
  "play_one_period p now e =
     (case prime_playout e of
        (e1, False) \<Rightarrow> Some (write_period_to_device p now e1)
      | (e1, True) \<Rightarrow>
          map_option (\<lambda>e2. write_period_to_device p now (steer_and_publish (trim_startup e2)))
            (pull_period p e1))"

definition step_receive ::
  "('e, 'd, 's, 'b, 'x, 'w) platform \<Rightarrow> int \<Rightarrow> ('e, 'd, 's, 'b, 'w) engine
     \<Rightarrow> (('e, 'd, 's, 'b, 'w) engine \<times> 'x engine_error option) option" where
  "step_receive p now e =
     (let e1 = e\<lparr>en_receive_turns := en_receive_turns e + 1, en_reset_requested := False\<rparr>;
          e2 = (if en_reset_requested e then reset_playout e1 else e1)
      in if en_playout e2 = None then Some (e2, Some ClockNotBuilt)
         else case receive_into_buffer p e2 of
           (e3, Some err) \<Rightarrow> Some (e3, Some (Transport err))
         | (e3, None) \<Rightarrow> play_one_period p now e3)"

subsection \<open>open and close\<close>

text \<open>The members \<^verbatim>\<open>open\<close> sets when everything has opened.\<close>

definition fresh_run :: "('e, 'd, 's, 'b, 'w) engine \<Rightarrow> ('e, 'd, 's, 'b, 'w) engine" where
  "fresh_run e =
     e\<lparr>en_playing := False, en_priming_periods := 0, en_prime_reported := False,
       en_silence_periods := 0, en_egress_frames := 0,
       en_published := (en_published e)\<lparr>pf_delay_ms := 0, pf_delay_fraction := 0,
         pf_clock_offset_ppm := 0, pf_clock_ratio := 1\<rparr>,
       en_requested_egress_delay_ms := ec_delay_ms (cf_egress (en_config e)),
       en_egress_delay_pending := False, en_test_signal_pending := False,
       en_link_stats := None,
       en_prime_deadline_periods := periods_for_ms (lc_alarm_delay_ms (cf_link (en_config e))) (en_format e)\<rparr>"

text \<open>Closing the link and the device again, when a later step of \<^verbatim>\<open>open\<close> refuses.\<close>

definition undo_open ::
  "('e, 'd, 's, 'b, 'x, 'w) platform \<Rightarrow> ('e, 'd, 's, 'b, 'w) engine \<Rightarrow> ('e, 'd, 's, 'b, 'w) engine" where
  "undo_open p e =
     (case link_close (p_srt p) (the (en_link e)) (en_world e) of
        (l, w) \<Rightarrow> e\<lparr>en_link := Some l, en_world := w,
                    en_backend := Some (be_close (p_device p) (the (en_backend e)))\<rparr>)"

text \<open>What is built from the format once the device is open: clock, delay line, test signal.\<close>

definition open_stages ::
  "('e, 'd, 's, 'b, 'x, 'w) platform \<Rightarrow> ('e, 'd, 's, 'b, 'w) engine
     \<Rightarrow> ('e, 'd, 's, 'b, 'w) engine \<times> 'x engine_error option" where
  "open_stages p e =
     (let format = en_format e;
          e1 = e\<lparr>en_playout := Some (playout_init (playout_capacity e) format),
                 en_control := control_init
                   (default_control\<lparr>cc_target_ms := real (en_target_periods e) * period_ms format\<rparr>)\<rparr>
      in case resampler_open (p_samplerate p) \<lparr>rc_converter = sinc_medium,
             rc_channels = af_channels format, rc_rate = 48000,
             rc_period_frames = af_period_frames format\<rparr> of
           (r, Some err) \<Rightarrow> (undo_open p (e1\<lparr>en_resampler := r\<rparr>), Some (ResamplerWillNotOpen err))
         | (r, None) \<Rightarrow>
             let e2 = e1\<lparr>en_resampler := set_ratio (Real 1) r\<rparr> in
             case delay_open (default_delay\<lparr>dc_channels := af_channels format,
                    dc_sample_rate := af_sample_rate format, dc_period_frames := af_period_frames format,
                    dc_sample_bytes := af_sample_bytes format,
                    dc_capacity_ms := k_max_egress_delay_ms\<rparr>) (en_delay_line e2) of
               (l, Some err) \<Rightarrow>
                 (undo_open p (e2\<lparr>en_delay_line := l, en_resampler := resampler_close (en_resampler e2)\<rparr>),
                  Some (DelayWillNotOpen err))
             | (l, None) \<Rightarrow>
                 case set_offset_ms (Real (ec_delay_ms (cf_egress (en_config e2)))) l of
                   (l1, Some err) \<Rightarrow>
                     (undo_open p (e2\<lparr>en_delay_line := delay_close l1,
                        en_resampler := resampler_close (en_resampler e2)\<rparr>), Some (EgressDelay err))
                 | (l1, None) \<Rightarrow>
                     let e3 = e2\<lparr>en_delay_line := l1,
                           en_published := (en_published e2)\<lparr>pf_egress_delay_ms := delay_offset_ms l1\<rparr>\<rparr> in
                     case test_open (default_test\<lparr>tc_channels := af_channels format,
                            tc_sample_rate := af_sample_rate format,
                            tc_period_frames := af_period_frames format,
                            tc_sample_bytes := af_sample_bytes format,
                            tc_channel := ec_test_signal_channel (cf_egress (en_config e3))\<rparr>)
                          (en_test_signal e3) of
                       (t, Some err) \<Rightarrow>
                         (undo_open p (e3\<lparr>en_test_signal := t, en_delay_line := delay_close (en_delay_line e3),
                            en_resampler := resampler_close (en_resampler e3)\<rparr>), Some (TestWillNotOpen err))
                     | (t, None) \<Rightarrow> (fresh_run (e3\<lparr>en_test_signal := t\<rparr>), None))"

text \<open>The options every connection gets, the first one included.\<close>

definition bound_link ::
  "('e, 'd, 's, 'b, 'x, 'w) platform \<Rightarrow> link \<Rightarrow> 'w \<Rightarrow> link \<times> 'w" where
  "bound_link p l w =
     (let (l1, w1) = set_receive_timeout_ms (p_srt p) k_receive_poll_ms l w;
          (l2, w2) = set_send_timeout_ms (p_srt p) k_send_poll_ms l1 w1
      in set_nonblocking (p_srt p) l2 w2)"

definition engine_open ::
  "('e, 'd, 's, 'b, 'x, 'w) platform \<Rightarrow> int \<Rightarrow> ('e, 'd, 's, 'b, 'w) engine
     \<Rightarrow> (('e, 'd, 's, 'b, 'w) engine \<times> 'x engine_error option) option" where
  "engine_open p now e =
     map_option (\<lambda>(l, w, refused).
        let e1 = e\<lparr>en_stop_requested := False, en_link := Some l, en_world := w\<rparr> in
        if refused \<noteq> None \<and> \<not> p_with_srt p then (e1, Some (Transport (the refused)))
        else
          let e2 = (if refused \<noteq> None then e1
                    else case bound_link p l w of (l1, w1) \<Rightarrow> e1\<lparr>en_link := Some l1, en_world := w1\<rparr>)
          in case be_open (p_device p) now (en_format e2) (the (en_backend e2)) of
               (backend, Some err) \<Rightarrow>
                 (case link_close (p_srt p) (the (en_link e2)) (en_world e2) of
                    (l2, w2) \<Rightarrow> (e2\<lparr>en_backend := Some backend, en_link := Some l2, en_world := w2\<rparr>,
                                 Some (Device err)))
             | (backend, None) \<Rightarrow> open_stages p (e2\<lparr>en_backend := Some backend\<rparr>))
       (link_open (p_srt p) (p_with_srt p) (p_show_int p) (real_of_int now) (en_config e)
          (set_abort_flag True (the (en_link e))) (en_world e))"

definition engine_close ::
  "('e, 'd, 's, 'b, 'x, 'w) platform \<Rightarrow> ('e, 'd, 's, 'b, 'w) engine \<Rightarrow> ('e, 'd, 's, 'b, 'w) engine" where
  "engine_close p e =
     (let e1 = e\<lparr>en_workers := 0, en_test_signal := test_close (en_test_signal e),
                 en_delay_line := delay_close (en_delay_line e),
                 en_resampler := resampler_close (en_resampler e)\<rparr>;
          e2 = (case en_link e1 of None \<Rightarrow> e1
                | Some l \<Rightarrow> (case link_close (p_srt p) l (en_world e1) of
                    (l1, w1) \<Rightarrow> e1\<lparr>en_link := Some l1, en_world := w1\<rparr>))
      in e2\<lparr>en_backend := map_option (be_close (p_device p)) (en_backend e2)\<rparr>)"

subsection \<open>The control surface\<close>

definition set_egress_delay_ms ::
  "float_value \<Rightarrow> ('e, 'd, 's, 'b, 'w) engine \<Rightarrow> ('e, 'd, 's, 'b, 'w) engine \<times> 'x engine_error option" where
  "set_egress_delay_ms offset_ms e =
     (case offset_ms of
        Real ms \<Rightarrow>
          if \<not> ms \<ge> 0 \<or> ms > k_max_egress_delay_ms
            then (e, Some (EgressDelayRange k_max_egress_delay_ms offset_ms))
          else (e\<lparr>en_requested_egress_delay_ms := ms, en_egress_delay_pending := True,
                  en_published := (en_published e)\<lparr>pf_egress_delay_ms := ms\<rparr>\<rparr>, None)
      | _ \<Rightarrow> (e, Some (EgressDelayRange k_max_egress_delay_ms offset_ms)))"

definition trigger_test_signal ::
  "('e, 'd, 's, 'b, 'w) engine \<Rightarrow> ('e, 'd, 's, 'b, 'w) engine \<times> 'x engine_error option" where
  "trigger_test_signal e =
     (if \<not> test_enabled (en_test_signal e) then (e, Some NoTestChannel)
      else (e\<lparr>en_test_signal_pending := True\<rparr>, None))"

text \<open>The loop stops at the first block that carries Opus.\<close>

definition codec_delay_ms :: "('e, 'd, 's, 'b, 'w) engine \<Rightarrow> real" where
  "codec_delay_ms e =
     (case filter (\<lambda>index. to_lower (bc_codec (cf_blocks (en_config e) ! index)) = ''opus'')
             [0..<length (cf_blocks (en_config e))] of
        [] \<Rightarrow> 0
      | index # _ \<Rightarrow>
          let codecs = fr_codecs (en_framer e);
              lookahead = (if index < length codecs \<and> codecs ! index \<noteq> None
                           then ob_lookahead_ms (the (codecs ! index)) else 13 / 2)
          in period_ms (en_format e) + lookahead)"

definition av_delay_ms :: "('e, 'd, 's, 'b, 'w) engine \<Rightarrow> real" where
  "av_delay_ms e = of_int (lc_latency_ms (cf_link (en_config e))) + pf_delay_ms (en_published e)
     + pf_egress_delay_ms (en_published e) + codec_delay_ms e"

record status_report =
  es_running :: bool
  es_link_open :: bool
  es_frames_sent :: nat
  es_frames_received :: nat
  es_frames_refused :: nat
  es_silence_periods :: nat
  es_frames_concealed :: nat
  es_delay_ms :: real
  es_delay_fraction :: real
  es_egress_delay_ms :: real
  es_av_delay_ms :: real
  es_clock_offset_ppm :: real
  es_clock_ratio :: real
  es_test_signal_channel :: int
  es_link_stats :: "link_stats option"

definition engine_status :: "('e, 'd, 's, 'b, 'w) engine \<Rightarrow> status_report" where
  "engine_status e =
     \<lparr>es_running = en_running e,
      es_link_open = (case en_link e of None \<Rightarrow> False | Some l \<Rightarrow> link_is_open l),
      es_frames_sent = en_frames_sent e, es_frames_received = en_frames_received e,
      es_frames_refused = en_frames_refused e, es_silence_periods = en_silence_periods e,
      es_frames_concealed = pf_concealed (en_published e),
      es_delay_ms = pf_delay_ms (en_published e), es_delay_fraction = pf_delay_fraction (en_published e),
      es_egress_delay_ms = pf_egress_delay_ms (en_published e), es_av_delay_ms = av_delay_ms e,
      es_clock_offset_ppm = pf_clock_offset_ppm (en_published e),
      es_clock_ratio = pf_clock_ratio (en_published e),
      es_test_signal_channel = tc_channel (ts_config (en_test_signal e)),
      es_link_stats = en_link_stats e\<rparr>"

definition engine_stop :: "('e, 'd, 's, 'b, 'w) engine \<Rightarrow> ('e, 'd, 's, 'b, 'w) engine" where
  "engine_stop e = e\<lparr>en_stop_requested := True\<rparr>"

subsection \<open>The supervisor and the status thread\<close>

definition reopen_link ::
  "('e, 'd, 's, 'b, 'x, 'w) platform \<Rightarrow> int \<Rightarrow> ('e, 'd, 's, 'b, 'w) engine
     \<Rightarrow> (('e, 'd, 's, 'b, 'w) engine \<times> transport_error option) option" where
  "reopen_link p now e =
     map_option (\<lambda>(l, w, refused).
        case refused of
          Some err \<Rightarrow> (e\<lparr>en_link := Some l, en_world := w\<rparr>, Some err)
        | None \<Rightarrow> (case bound_link p l w of
            (l1, w1) \<Rightarrow> (e\<lparr>en_link := Some l1, en_world := w1, en_reset_requested := True\<rparr>, None)))
       (link_open (p_srt p) (p_with_srt p) (p_show_int p) (real_of_int now) (en_config e)
          (the (en_link e)) (en_world e))"

text \<open>
  One turn of the supervisor's loop, with the wait it ends in. The result carries the backoff of the
  next turn. A wait is slices of \<open>k_status_slice_ms\<close>; a stop requested during it cuts it short.
\<close>

datatype supervisor_wait = Watching nat | LinkUp | Retrying nat | SupervisorStopped

definition supervisor_turn ::
  "('e, 'd, 's, 'b, 'x, 'w) platform \<Rightarrow> int \<Rightarrow> nat \<Rightarrow> ('e, 'd, 's, 'b, 'w) engine
     \<Rightarrow> (('e, 'd, 's, 'b, 'w) engine \<times> nat \<times> supervisor_wait) option" where
  "supervisor_turn p now backoff_ms e =
     (if en_stop_requested e then Some (e, backoff_ms, SupervisorStopped)
      else if link_is_open (the (en_link e)) then Some (e, k_link_retry_min_ms, Watching k_link_watch_ms)
      else map_option (\<lambda>(e1, refused).
          if refused = None then (e1, k_link_retry_min_ms, LinkUp)
          else if en_stop_requested e1 then (e1, backoff_ms, SupervisorStopped)
          else (e1, min (backoff_ms * 2) k_link_retry_max_ms,
                Retrying (((backoff_ms + k_status_slice_ms - 1) div k_status_slice_ms) * k_status_slice_ms)))
        (reopen_link p now e))"

definition status_turn ::
  "('e, 'd, 's, 'b, 'x, 'w) platform \<Rightarrow> bool \<Rightarrow> ('e, 'd, 's, 'b, 'w) engine
     \<Rightarrow> ('e, 'd, 's, 'b, 'w) engine \<times> bool" where
  "status_turn p reported_reason e =
     (case read_stats (p_srt p) (p_with_srt p) (the (en_link e)) (en_world e) of
        (w, Inr stats) \<Rightarrow> (e\<lparr>en_world := w, en_link_stats := Some stats\<rparr>, False)
      | (w, Inl _) \<Rightarrow>
          if \<not> reported_reason then (e\<lparr>en_world := w, en_link_stats := None\<rparr>, True)
          else (e\<lparr>en_world := w\<rparr>, reported_reason))"

subsection \<open>The two directions' threads\<close>

text \<open>
  One turn of a direction's loop. A turn that failed is counted and followed by a wait; the count only
  decides which failures are logged.
\<close>

datatype loop_wait = NextTurn | RetryAfter nat | LoopStopped

definition transmit_turn ::
  "('e, 'd, 's, 'b, 'x, 'w) platform \<Rightarrow> int \<Rightarrow> nat \<Rightarrow> ('e, 'd, 's, 'b, 'w) engine
     \<Rightarrow> ('e, 'd, 's, 'b, 'w) engine \<times> nat \<times> loop_wait" where
  "transmit_turn p now failures e =
     (if en_stop_requested e then (e, failures, LoopStopped)
      else case step_transmit p now e of
        (e1, None) \<Rightarrow> (e1, 0, NextTurn)
      | (e1, Some _) \<Rightarrow> (e1, failures + 1, RetryAfter k_retry_delay_ms))"

definition receive_turn ::
  "('e, 'd, 's, 'b, 'x, 'w) platform \<Rightarrow> int \<Rightarrow> nat \<Rightarrow> ('e, 'd, 's, 'b, 'w) engine
     \<Rightarrow> (('e, 'd, 's, 'b, 'w) engine \<times> nat \<times> loop_wait) option" where
  "receive_turn p now failures e =
     (if en_stop_requested e then Some (e, failures, LoopStopped)
      else map_option (\<lambda>(e1, failed).
          if failed = None then (e1, 0, NextTurn)
          else (e1, failures + 1, RetryAfter k_retry_delay_ms))
        (step_receive p now e))"

text \<open>The directions \<^verbatim>\<open>run\<close> starts a thread for.\<close>

definition runs_transmit :: "config \<Rightarrow> bool" where
  "runs_transmit config \<longleftrightarrow> to_lower (lc_role (cf_link config)) = ''tx''
     \<or> to_lower (lc_role (cf_link config)) = ''duplex''"

definition runs_receive :: "config \<Rightarrow> bool" where
  "runs_receive config \<longleftrightarrow> to_lower (lc_role (cf_link config)) = ''rx''
     \<or> to_lower (lc_role (cf_link config)) = ''duplex''"

subsection \<open>A new engine\<close>

definition engine_init :: "'w \<Rightarrow> ('e, 'd, 's, 'b, 'w) engine" where
  "engine_init w =
     \<lparr>en_framer = \<lparr>fr_config = default_config, fr_format = default_format, fr_codecs = [],
        fr_tx_block_pcm = [], fr_codec_pcm = [], fr_link_id = 0\<rparr>,
      en_backend = None, en_link = None, en_world = w, en_reassembler = reassembler_init,
      en_workers = 0, en_playout = None, en_control = control_init default_control,
      en_resampler = None, en_delay_line = delay_init, en_test_signal = test_init,
      en_egress_frames = 0, en_target_periods = 0, en_prime_deadline_periods = 0,
      en_playing = False, en_priming_periods = 0, en_prime_reported = False, en_silence_periods = 0,
      en_sequence = 0, en_sample_position = 0, en_frames_sent = 0, en_frames_received = 0,
      en_frames_refused = 0,
      en_published = \<lparr>pf_delay_ms = 0, pf_delay_fraction = 0, pf_egress_delay_ms = 0,
        pf_clock_offset_ppm = 0, pf_clock_ratio = 1, pf_concealed = 0\<rparr>,
      en_reset_requested = False, en_startup_periods = 0, en_startup_trim_periods = 0,
      en_startup_trim_reported = False, en_receive_turns = 0, en_requested_egress_delay_ms = 0,
      en_egress_delay_pending = False, en_test_signal_pending = False, en_link_stats = None,
      en_tx_period = [], en_rx_period = [], en_stop_requested = False, en_running = False\<rparr>"

end
