(* ===== verification/EngineInv.thy ===== *)
theory EngineInv
  imports Engine
begin

text \<open>
  What every turn of the engine keeps.

  \<open>engine_ok\<close> is the well-formedness of a prepared and open engine: the framer is ready, every buffer
  has the size of a period, the device runs, the playout buffer feeds the resampler, the control is
  within its limit, and the delay line and the test signal have the shape of the format.
  \<open>receives\<close> says what the receive direction holds: the reassembler is assembling frames the peer
  sent, and every period in the playout buffer is the peer's period of that position.

  The locale \<open>driven_engine\<close> is an engine over a device that keeps the contract of \<open>Device\<close>.
\<close>

subsection \<open>Components\<close>

lemma word_between:
  fixes x y z :: "'a::len word"
  assumes "x \<le> y" "y < x + z"
  shows "y - x < z"
proof -
  have le: "unat x \<le> unat y" using assms(1) by (simp add: word_le_nat_alt)
  have "unat (x + z) \<le> unat x + unat z" by (simp add: unat_word_ariths)
  then have "unat y - unat x < unat z" using assms(2) le by (simp add: word_less_nat_alt)
  then show ?thesis using le by (simp add: word_less_nat_alt unat_sub [OF assms(1)])
qed

lemma mix_length:
  assumes "queue_ok config queue" "tc_sample_bytes config \<in> {2, 3}" "frames < 2 ^ 64"
    and "length period = frames * tc_channels config * tc_sample_bytes config"
    and "mix_queue config frames first_frame queue period = (period', kept, fired)"
  shows "length period' = length period"
  using assms(1,4,5)
proof (induction queue arbitrary: period kept fired)
  case (Cons p queue)
  let ?w = "tc_sample_bytes config"
  have queue: "queue_ok config queue" "nat (pi_channel p) < tc_channels config"
    using Cons.prems(1) by (auto simp: queue_ok_def)
  show ?case
  proof (cases "in_period frames first_frame p")
    case True
    let ?k = "impulse_sample config first_frame p"
    let ?b = "overwrite (?k * ?w) (mark_bytes ?w (full_scale ?w)) period"
    have "pi_frame p - first_frame < of_nat frames"
      by (rule word_between) (use True in \<open>simp_all add: in_period_def\<close>)
    then have "unat (pi_frame p - first_frame) < frames"
      using assms(3) by (simp add: word_less_nat_alt unat_of_nat take_bit_nat_eq_self)
    then have k: "?k < frames * tc_channels config"
      using slot_in_buffer [of "unat (pi_frame p - first_frame)" frames "tc_channels config"] queue(2)
      by (simp add: impulse_sample_def)
    note put = mark_put [OF assms(2) k Cons.prems(2)]
    obtain fired1 where m: "mix_queue config frames first_frame queue ?b = (period', kept, fired1)"
      using Cons.prems(3) True
      by (auto simp: impulse_sample_def add_mult_distrib mult.assoc Let_def split: prod.splits)
    show ?thesis using Cons.IH [OF queue(1) put(1) m] put(1) Cons.prems(2) by simp
  next
    case False
    obtain kept1 where m: "mix_queue config frames first_frame queue period = (period', kept1, fired)"
      using Cons.prems(3) False by (auto split: prod.splits)
    show ?thesis by (rule Cons.IH [OF queue(1) Cons.prems(2) m])
  qed
qed simp

lemma spec_frames_length:
  assumes "dl_sample_bytes l \<in> {2, 3}" "length h = w * frame_bytes l" "p + n \<le> w"
  shows "length (snd (spec_frames h p n l)) = n * frame_bytes l"
  using assms
proof (induction n arbitrary: p l)
  case (Suc n)
  obtain l1 out where f: "spec_frame h p l = (l1, out)" by (cases "spec_frame h p l")
  have same: "frame_bytes l1 = frame_bytes l" "dl_sample_bytes l1 = dl_sample_bytes l"
    using f by (auto simp: spec_frame_def Let_def split: if_splits)
  have "length (blend (dl_sample_bytes l) x a b) = dl_sample_bytes l" for x a b
    using Suc.prems(1) by (auto simp: blend_def encode_sample_def Let_def)
  then have "length (blend_frame l a b) = frame_bytes l" for a b
    by (simp add: blend_frame_def length_concat comp_def sum_list_triv frame_bytes_def)
  moreover have "length (tap (frame_bytes l) h p d) = frame_bytes l" for d
    using length_tap [OF Suc.prems(2)] Suc.prems(3) by simp
  ultimately have out: "length out = frame_bytes l"
    using f by (auto simp: spec_frame_def frame_bytes_def Let_def split: if_splits)
  have "length (snd (spec_frames h (p + 1) n l1)) = n * frame_bytes l1"
    by (rule Suc.IH) (use Suc.prems same in simp_all)
  then show ?case using f same out by (auto split: prod.splits)
qed simp

lemma delay_process_ok:
  assumes ok: "delay_ok l" and mem: "remembers l h"
    and n: "0 < n" "n \<le> dc_period_frames (dl_config l)" and input: "length input = n * frame_bytes l"
  obtains l' out where "delay_process (Some input) n l = (l', Inr out)" "delay_ok l'"
    "\<exists>h'. remembers l' h'" "length out = length input"
    "frame_bytes l' = frame_bytes l" "dl_config l' = dl_config l"
proof -
  obtain l' out where p: "delay_process (Some input) n l = (l', Inr out)" "delay_ok l'"
    "remembers l' (h @ input)" "delay_spec (h @ input) n (l\<lparr>dl_ring := dl_ring l'\<rparr>) = (l', out)"
    "frame_bytes l' = frame_bytes l" "dl_config l' = dl_config l"
    using process_spec [OF assms] by blast
  define m where "m = fade_begin ((l\<lparr>dl_ring := dl_ring l'\<rparr>)\<lparr>dl_written_frames := dl_written_frames l + n,
      dl_pushed_frames := dl_pushed_frames l + n\<rparr>)"
  have m: "dl_sample_bytes m \<in> {2, 3}" "frame_bytes m = frame_bytes l"
    using ok by (auto simp: m_def fade_begin_def frame_bytes_def delay_ok_def)
  have "out = snd (spec_frames (h @ input) (dl_written_frames l) n m)"
    using p(4) by (simp add: delay_spec_def m_def)
  moreover have "length (h @ input) = (dl_written_frames l + n) * frame_bytes m"
    using mem input m(2) by (simp add: remembers_def add_mult_distrib)
  ultimately have "length out = length input"
    using spec_frames_length [OF m(1), of "h @ input" "dl_written_frames l + n" "dl_written_frames l" n] m(2) input
    by simp
  then show ?thesis using p that by blast
qed

lemma levels_length:
  assumes "validate c = None" "format = audio_format_from (cf_audio c)" "length period = period_bytes format"
  shows "\<exists>x. apply_block_levels (Some period) format (cf_blocks c) = Some x \<and> length x = period_bytes format"
proof -
  have w: "af_sample_bytes format \<in> {2, 3}" "0 < af_period_frames format" "0 < af_channels format"
    using validated_format [OF assms(1)] assms(2) by simp_all
  show ?thesis
    using level_blocks_sample [OF w(1,2), of 0] w(3) assms(3) validated_blocks(5) [OF assms(1)]
    by (simp add: apply_block_levels_def)
qed

lemma push_fields:
  "pb_period_frames (fst (push b p x)) = pb_period_frames b"
  "pb_period_bytes (fst (push b p x)) = pb_period_bytes b"
  by (simp_all add: push_def make_room_def store_period_def advance_contiguous_def Let_def)

lemma discard_fields:
  "pb_period_frames (fst (discard_to_level_ms b ms)) = pb_period_frames b"
  "pb_period_bytes (fst (discard_to_level_ms b ms)) = pb_period_bytes b"
  by (simp_all add: discard_to_level_ms_def advance_contiguous_def Let_def)

lemma takes_contents:
  assumes "pb_inv b" "takes n b = (b', outs)" "contents b' q = Some x"
  shows "contents b q = Some x"
  using assms
proof (induction n arbitrary: b outs)
  case (Suc n)
  obtain b1 out where t: "take_period b = (b1, out)" by (cases "take_period b")
  obtain outs1 where r: "takes n b1 = (b', outs1)" using Suc.prems(2) t by (auto split: prod.splits)
  have inv: "pb_inv b1" using playout.take_inv [OF Suc.prems(1)] t by simp
  have "contents b1 q = Some x" by (rule Suc.IH [OF inv r Suc.prems(3)])
  then show ?case using playout.take_contents [OF Suc.prems(1)] t by simp
qed simp

subsection \<open>The invariant\<close>

definition buffers_ok :: "('e, 'd, 's, 'b, 'w) engine \<Rightarrow> bool" where
  "buffers_ok e \<longleftrightarrow> length (en_tx_period e) = period_bytes (en_format e)
     \<and> length (en_rx_period e) = period_bytes (en_format e)"

definition clock_ok ::
  "('e, 'd, 's, 'b, 'x, 'w) platform \<Rightarrow> ('e, 'd, 's, 'b, 'w) engine \<Rightarrow> bool" where
  "clock_ok p e \<longleftrightarrow> (\<exists>src. p_samplerate p = Some src \<and> keeps_to_request src (af_channels (en_format e)))
     \<and> (\<exists>b r. en_playout e = Some b \<and> en_resampler e = Some r \<and> resampler_ok r \<and> feeds b r
          \<and> rc_channels (rs_config r) = af_channels (en_format e)
          \<and> rc_period_frames (rs_config r) = af_period_frames (en_format e))
     \<and> steerable (rc_config (en_control e)) \<and> within_limit (en_control e)"

definition egress_ok :: "('e, 'd, 's, 'b, 'w) engine \<Rightarrow> bool" where
  "egress_ok e \<longleftrightarrow>
     (let l = en_delay_line e; t = en_test_signal e in
      delay_ok l \<and> (\<exists>h. remembers l h)
      \<and> frame_bytes l = af_channels (en_format e) * af_sample_bytes (en_format e)
      \<and> dc_period_frames (dl_config l) = af_period_frames (en_format e)
      \<and> test_ok t \<and> ts_open t \<and> tc_channels (ts_config t) = af_channels (en_format e)
      \<and> tc_sample_bytes (ts_config t) = af_sample_bytes (en_format e))"

definition engine_ok ::
  "('e, 'd, 's, 'b, 'x, 'w) platform \<Rightarrow> (audio_format \<Rightarrow> 'b \<Rightarrow> bool) \<Rightarrow> ('e, 'd, 's, 'b, 'w) engine \<Rightarrow> bool" where
  "engine_ok p runs e \<longleftrightarrow> framer_ready (en_framer e) \<and> ints_fit (en_config e)
     \<and> af_sample_bytes (en_format e) = 3 \<and> en_link e \<noteq> None
     \<and> (\<exists>b. en_backend e = Some b \<and> runs (en_format e) b)
     \<and> buffers_ok e \<and> clock_ok p e \<and> egress_ok e"

text \<open>
  The peer: what arrives on the link is a fragment of a frame that was sent, or no fragment at all, and
  a frame that decodes and has our link id carries the period \<open>audio\<close> gives for its position. Frames of
  other links, and frames that do not decode, may be among those sent. \<open>sent\<close> has one frame for each
  32-bit sequence number, so it speaks of a run of at most as many frames.
\<close>

definition carries_audio :: "(nat \<Rightarrow> bytes) \<Rightarrow> ('e, 'd) framer \<Rightarrow> frame \<Rightarrow> bool" where
  "carries_audio audio f frame \<longleftrightarrow>
     (let q = unat (f_sample_position frame) in
      q \<le> last_position
      \<and> length (audio q) = period_bytes (fr_format f)
      \<and> list_all2 (\<lambda>c b. packed_block (fr_format f) c (audio q) b) (cf_blocks (fr_config f)) (f_blocks frame))"

definition peer_contract ::
  "('e, 'd, 's, 'b, 'x, 'w) platform \<Rightarrow> (u32 \<Rightarrow> bytes option) \<Rightarrow> (nat \<Rightarrow> bytes) \<Rightarrow> ('e, 'd) framer \<Rightarrow> bool" where
  "peer_contract p sent audio f \<longleftrightarrow> in_order (fr_config f)
     \<and> (\<forall>s n w w' m. srt_recvmsg (p_srt p) s n w = (w', Inr m) \<longrightarrow> from_link sent m)
     \<and> (\<forall>seq data frame. sent seq = Some data \<longrightarrow> decode (Some data) = Inr frame \<longrightarrow>
          f_link_id frame = fr_link_id f \<longrightarrow> carries_audio audio f frame)"

definition receives ::
  "('e, 'd, 's, 'b, 'x, 'w) platform \<Rightarrow> (u32 \<Rightarrow> bytes option) \<Rightarrow> (nat \<Rightarrow> bytes)
     \<Rightarrow> ('e, 'd, 's, 'b, 'w) engine \<Rightarrow> bool" where
  "receives p sent audio e \<longleftrightarrow> peer_contract p sent audio (en_framer e)
     \<and> rs_inv sent UNIV (en_reassembler e)
     \<and> (\<forall>m \<in> set (l_queue (the (en_link e))). from_link sent m)
     \<and> (\<forall>q x. contents (the (en_playout e)) q = Some x \<longrightarrow> x = audio q)"

lemma peer_contract_keeps:
  "framer_keeps f g \<Longrightarrow> peer_contract p sent audio g = peer_contract p sent audio f"
  by (simp add: peer_contract_def carries_audio_def framer_keeps_def)

lemma engine_okD:
  assumes "engine_ok p runs e"
  shows "framer_ready (en_framer e)" and "af_sample_bytes (en_format e) = 3"
    and "en_format e = audio_format_from (cf_audio (en_config e))" and "validate (en_config e) = None"
    and "length (en_tx_period e) = period_bytes (en_format e)"
    and "length (en_rx_period e) = period_bytes (en_format e)"
    and "0 < af_period_frames (en_format e)" "af_period_frames (en_format e) \<le> 2880"
    and "0 < period_bytes (en_format e)"
proof -
  show ready: "framer_ready (en_framer e)" and "af_sample_bytes (en_format e) = 3"
    "length (en_tx_period e) = period_bytes (en_format e)" "length (en_rx_period e) = period_bytes (en_format e)"
    using assms by (simp_all add: engine_ok_def buffers_ok_def)
  show v: "validate (en_config e) = None"
    and fmt: "en_format e = audio_format_from (cf_audio (en_config e))"
    using ready by (simp_all add: framer_ready_def)
  show "0 < af_period_frames (en_format e)" "af_period_frames (en_format e) \<le> 2880"
    "0 < period_bytes (en_format e)"
    using validated_format [OF v] fmt by simp_all
qed

text \<open>A playout buffer of the engine's geometry.\<close>

lemma periods_for_ms_le:
  assumes "0 < af_period_frames format" "af_sample_rate format = 48000"
  shows "periods_for_ms ms format \<le> 48 * nat ms + 1"
proof (cases "ms \<le> 0")
  case False
  have "of_int ms * 48000 / (1000 * real (af_period_frames format)) \<le> of_int ms * 48000 / (1000 * 1)"
    using assms(1) False by (intro divide_left_mono mult_left_mono) auto
  then have "\<lfloor>of_int ms * 48000 / (1000 * real (af_period_frames format)) + 1 / 2\<rfloor> \<le> 48 * ms + 1"
    by linarith
  then show ?thesis using assms False by (simp add: periods_for_ms_def)
qed (simp add: periods_for_ms_def)

lemma fresh_playout:
  assumes "validate c = None" "ints_fit c" "format = audio_format_from (cf_audio c)"
  defines "n \<equiv> 2 * periods_for_ms (lc_alarm_delay_ms (cf_link c)) format + 1"
  shows "pb_inv (playout_init n format)" and "contents (playout_init n format) q = None"
proof -
  note v = validated_format [OF assms(1), folded assms(3)]
  have "lc_alarm_delay_ms (cf_link c) < 2147483648" using assms(2) by (simp add: ints_fit_def fits_def)
  then have "periods_for_ms (lc_alarm_delay_ms (cf_link c)) format \<le> 48 * 2147483648 + 1"
    using periods_for_ms_le [OF v(5,1), of "lc_alarm_delay_ms (cf_link c)"] by linarith
  then have "n \<le> 2 * (48 * 2147483648 + 1) + 1" by (simp add: n_def)
  then have "n * af_period_frames format \<le> (2 * (48 * 2147483648 + 1) + 1) * 2880"
    using v(6) by (rule mult_le_mono)
  then have fits: "n * af_period_frames format \<le> 2305843009213693952" by simp
  have "0 < n" by (simp add: n_def)
  note i = playout_init_inv [OF this v(5,8) fits]
  show "pb_inv (playout_init n format)" "contents (playout_init n format) q = None"
    using i by (simp_all add: contents_def)
qed

subsection \<open>Playing a period\<close>

text \<open>
  What playing leaves of the receive direction: the framer, the link and the reassembler as they are,
  and no audio in the buffer that was not there.
\<close>

definition plays_on :: "('e, 'd, 's, 'b, 'w) engine \<Rightarrow> ('e, 'd, 's, 'b, 'w) engine \<Rightarrow> bool" where
  "plays_on e e' \<longleftrightarrow> en_framer e' = en_framer e \<and> en_link e' = en_link e \<and> en_world e' = en_world e
     \<and> en_reassembler e' = en_reassembler e
     \<and> (\<forall>q x. contents (the (en_playout e')) q = Some x \<longrightarrow> contents (the (en_playout e)) q = Some x)"

lemma plays_on_refl [simp]: "plays_on e e"
  by (simp add: plays_on_def)

lemma plays_on_trans: "plays_on e1 e2 \<Longrightarrow> plays_on e2 e3 \<Longrightarrow> plays_on e1 e3"
  by (simp add: plays_on_def)

lemma receives_plays_on: "receives p sent audio e \<Longrightarrow> plays_on e e' \<Longrightarrow> receives p sent audio e'"
  by (auto simp: receives_def plays_on_def)

lemma trigger_keeps:
  assumes "test_ok t" shows "test_ok (fst (test_trigger f t))"
    and "ts_open (fst (test_trigger f t)) = ts_open t" "ts_config (fst (test_trigger f t)) = ts_config t"
  using trigger_ok [OF assms, of f "tc_channel (ts_config t)"] assms
  by (simp_all add: test_trigger_def trigger_on_def)

lemma apply_requests_keeps:
  assumes "engine_ok p runs e"
  shows "engine_ok p runs (apply_requests e)" and "plays_on e (apply_requests e)"
    and "en_rx_period (apply_requests e) = en_rx_period e"
proof -
  have eg: "egress_ok e" using assms by (simp add: engine_ok_def)
  obtain h where h: "delay_ok (en_delay_line e)" "remembers (en_delay_line e) h"
    using eg by (auto simp: egress_ok_def Let_def)
  obtain l r where s: "set_offset_ms (Real (en_requested_egress_delay_ms e)) (en_delay_line e) = (l, r)"
    by (cases "set_offset_ms (Real (en_requested_egress_delay_ms e)) (en_delay_line e)")
  note keeps = set_offset_keeps [OF s h]
  have t: "test_ok (en_test_signal e)" using eg by (simp add: egress_ok_def Let_def)
  define line where "line = (if en_egress_delay_pending e then l else en_delay_line e)"
  define signal where "signal = (if en_test_signal_pending e
      then fst (test_trigger (en_egress_frames e) (en_test_signal e)) else en_test_signal e)"
  define shown where "shown = (if en_egress_delay_pending e \<and> r = None
      then (en_published e)\<lparr>pf_egress_delay_ms := delay_offset_ms l\<rparr> else en_published e)"
  have eq: "apply_requests e = e\<lparr>en_egress_delay_pending := False, en_test_signal_pending := False,
      en_delay_line := line, en_test_signal := signal, en_published := shown\<rparr>"
    using s by (cases r) (simp_all add: apply_requests_def line_def signal_def shown_def Let_def)
  have line: "delay_ok line" "\<exists>h. remembers line h" "frame_bytes line = frame_bytes (en_delay_line e)"
    "dl_config line = dl_config (en_delay_line e)"
    using keeps h by (auto simp: line_def)
  have signal: "test_ok signal" "ts_open signal = ts_open (en_test_signal e)"
    "ts_config signal = ts_config (en_test_signal e)"
    using trigger_keeps [OF t] t by (simp_all add: signal_def)
  show "plays_on e (apply_requests e)" "en_rx_period (apply_requests e) = en_rx_period e"
    by (simp_all add: eq plays_on_def)
  have "egress_ok (apply_requests e)" using eg line signal by (simp add: eq egress_ok_def Let_def)
  then show "engine_ok p runs (apply_requests e)"
    using assms by (simp add: eq engine_ok_def buffers_ok_def clock_ok_def)
qed

locale driven_engine = audio_device "p_device p" runs
  for p :: "('e, 'd, 's, 'b, 'x, 'w) platform" and runs :: "audio_format \<Rightarrow> 'b \<Rightarrow> bool"
begin

lemma write_period_keeps:
  assumes "engine_ok p runs e" and "write_period_to_device p now e = (e', r)"
  shows "engine_ok p runs e' \<and> plays_on e e'"
proof -
  define e1 where "e1 = apply_requests e"
  have ok: "engine_ok p runs e1" "plays_on e e1"
    using apply_requests_keeps [OF assms(1)] by (simp_all add: e1_def)
  note k = engine_okD [OF ok(1)]
  let ?frames = "af_period_frames (en_format e1)"
  have eg: "egress_ok e1" using ok(1) by (simp add: engine_ok_def)
  obtain x where x: "apply_block_levels (Some (en_rx_period e1)) (en_format e1) (cf_blocks (en_config e1)) = Some x"
    "length x = period_bytes (en_format e1)"
    using levels_length [OF k(4,3,6)] by blast
  let ?t = "en_test_signal e1"
  obtain y kept fired where m: "mix_queue (ts_config ?t) ?frames (en_egress_frames e1) (ts_queue ?t) x = (y, kept, fired)"
    by (cases "mix_queue (ts_config ?t) ?frames (en_egress_frames e1) (ts_queue ?t) x")
  define signal where "signal = fst (test_mix (Some x) ?frames (en_egress_frames e1) ?t)"
  have t: "test_ok ?t" "ts_open ?t" "tc_channels (ts_config ?t) = af_channels (en_format e1)"
    "tc_sample_bytes (ts_config ?t) = af_sample_bytes (en_format e1)"
    using eg by (simp_all add: egress_ok_def Let_def)
  have mix: "test_mix (Some x) ?frames (en_egress_frames e1) ?t = (signal, Some y)"
    "ts_open signal" "ts_config signal = ts_config ?t"
    using m t(2) k(7) by (simp_all add: test_mix_def signal_def)
  have signal: "test_ok signal" using mix_ok [OF t(1)] by (simp add: signal_def)
  have y: "length y = period_bytes (en_format e1)"
    using mix_length [OF _ _ _ _ m] t x(2) k(8)
    by (auto simp: test_ok_def period_bytes_def period_samples_def)
  obtain h where h: "delay_ok (en_delay_line e1)" "remembers (en_delay_line e1) h"
    using eg by (auto simp: egress_ok_def Let_def)
  have shape: "frame_bytes (en_delay_line e1) = af_channels (en_format e1) * af_sample_bytes (en_format e1)"
    "dc_period_frames (dl_config (en_delay_line e1)) = ?frames"
    using eg by (simp_all add: egress_ok_def Let_def)
  have yl: "length y = ?frames * frame_bytes (en_delay_line e1)"
    using y shape(1) by (simp add: period_bytes_def period_samples_def mult.assoc)
  obtain l out where d: "delay_process (Some y) ?frames (en_delay_line e1) = (l, Inr out)" "delay_ok l"
    "\<exists>h'. remembers l h'" "length out = length y" "frame_bytes l = frame_bytes (en_delay_line e1)"
    "dl_config l = dl_config (en_delay_line e1)"
    using delay_process_ok [OF h k(7) _ yl] shape(2) by auto
  have z: "overwrite 0 out y = out" using d(4) by (rule overwrite_all)
  define e3 where "e3 = e1\<lparr>en_test_signal := signal, en_rx_period := out, en_delay_line := l,
      en_egress_frames := en_egress_frames e1 + of_nat ?frames\<rparr>"
  obtain b where b: "en_backend e1 = Some b" "runs (en_format e1) b"
    using ok(1) by (auto simp: engine_ok_def)
  obtain b' failed where w: "be_write (p_device p) now out ?frames b = (b', failed)"
    by (cases "be_write (p_device p) now out ?frames b")
  have size: "length out = frames_to_bytes (en_format e1) ?frames"
    using d(4) y by (simp add: period_bytes_frames)
  have run: "runs (en_format e1) b'" by (rule write_runs [OF b(2) w size])
  have e': "e' = e3\<lparr>en_backend := Some b'\<rparr>"
    using assms(2) x(1) mix(1) d(1) z b(1) w
    by (simp add: write_period_to_device_def Let_def flip: e1_def) (auto simp: e3_def)
  have "egress_ok e'"
    using signal mix(2,3) t(3,4) d shape by (simp add: e' e3_def egress_ok_def Let_def)
  then have "engine_ok p runs e'"
    using ok(1) run size
    by (simp add: e' e3_def engine_ok_def buffers_ok_def clock_ok_def period_bytes_frames)
  moreover have "plays_on e1 e'" by (simp add: e' e3_def plays_on_def)
  ultimately show ?thesis using plays_on_trans [OF ok(2)] by blast
qed

lemma prime_keeps:
  assumes "engine_ok p runs e" "prime_playout e = (e', go)"
  shows "engine_ok p runs e' \<and> plays_on e e'"
  using assms
  by (auto simp: prime_playout_def plays_on_def engine_ok_def buffers_ok_def clock_ok_def egress_ok_def
      Let_def split: if_splits)

lemma clock_stage:
  assumes "engine_ok p runs e"
    and "en_framer e' = en_framer e" "en_link e' = en_link e" "en_backend e' = en_backend e"
    and "en_tx_period e' = en_tx_period e" "length (en_rx_period e') = length (en_rx_period e)"
    and "en_delay_line e' = en_delay_line e" "en_test_signal e' = en_test_signal e"
    and "en_playout e' = Some b" "en_resampler e' = Some r" "resampler_ok r" "feeds b r"
    and "rc_channels (rs_config r) = af_channels (en_format e)"
    and "rc_period_frames (rs_config r) = af_period_frames (en_format e)"
    and "steerable (rc_config (en_control e'))" "within_limit (en_control e')"
  shows "engine_ok p runs e'"
  using assms by (simp add: engine_ok_def buffers_ok_def egress_ok_def clock_ok_def Let_def)

lemma clock_okE:
  assumes "engine_ok p runs e"
  obtains src b r where "p_samplerate p = Some src" "keeps_to_request src (af_channels (en_format e))"
    "en_playout e = Some b" "en_resampler e = Some r" "resampler_ok r" "feeds b r" "pb_inv b"
    "rc_channels (rs_config r) = af_channels (en_format e)"
    "rc_period_frames (rs_config r) = af_period_frames (en_format e)"
    "steerable (rc_config (en_control e))" "within_limit (en_control e)"
  using assms by (auto simp: engine_ok_def clock_ok_def feeds_def)

lemma set_ratio_keeps:
  assumes "resampler_ok r" "feeds b r"
  obtains r0 where "set_ratio x (Some r) = Some r0" "resampler_ok r0" "feeds b r0" "rs_config r0 = rs_config r"
proof -
  have keeps: "resampler_ok (r\<lparr>rs_ratio := y\<rparr>)" "feeds b (r\<lparr>rs_ratio := y\<rparr>)" for y
    using assms by (simp_all add: resampler_ok_def feeds_def Let_def)
  have "set_ratio x (Some r) = Some r \<or> (\<exists>y. set_ratio x (Some r) = Some (r\<lparr>rs_ratio := y\<rparr>))"
    by (cases x) (auto simp: set_ratio_def)
  then show ?thesis
  proof
    assume "set_ratio x (Some r) = Some r"
    then show ?thesis using that assms by blast
  next
    assume "\<exists>y. set_ratio x (Some r) = Some (r\<lparr>rs_ratio := y\<rparr>)"
    then obtain y where "set_ratio x (Some r) = Some (r\<lparr>rs_ratio := y\<rparr>)" ..
    then show ?thesis using that keeps by simp
  qed
qed

lemma pull_keeps:
  assumes "engine_ok p runs e"
  shows "\<exists>e'. pull_period p e = Some e' \<and> engine_ok p runs e' \<and> plays_on e e'"
proof -
  note k = engine_okD [OF assms]
  obtain src b r where c: "p_samplerate p = Some src" "keeps_to_request src (af_channels (en_format e))"
    "en_playout e = Some b" "en_resampler e = Some r" "resampler_ok r" "feeds b r"
    "pb_inv b" "rc_channels (rs_config r) = af_channels (en_format e)"
    "rc_period_frames (rs_config r) = af_period_frames (en_format e)"
    "steerable (rc_config (en_control e))" "within_limit (en_control e)"
    using clock_okE [OF assms] .
  obtain r0 where r0: "set_ratio (Real (ratio (en_control e))) (Some r) = Some r0" "resampler_ok r0"
    "feeds b r0" "rs_config r0 = rs_config r"
    using set_ratio_keeps [OF c(5,6)] .
  have size: "length (en_rx_period e) = af_period_frames (en_format e) * rc_channels (rs_config r0) * 3"
    using k(2,6) c(8) r0(4) by (simp add: period_bytes_def period_samples_def)
  obtain r1 b1 out result where pull: "resampler_pull (Some src) (Some r0) (Some b) (Some (en_rx_period e))
      (af_period_frames (en_format e)) = Some (Some r1, Some b1, Some out, result)"
    "length out = length (en_rx_period e)"
    "r1 = r0 \<and> take_period b = (b1, None) \<or> (\<exists>outs. moved outs (primed_at r0 (pb_head b)) b r1 b1)"
    using pull_props [OF r0(2,3) _ k(7) _ size] c(2,8,9) r0(4) by force
  note inv = c(7)
  have moved: "resampler_ok r1 \<and> feeds b1 r1 \<and> rs_config r1 = rs_config r0
      \<and> (\<forall>q x. contents b1 q = Some x \<longrightarrow> contents b q = Some x)"
    using pull(3)
  proof
    assume dry: "r1 = r0 \<and> take_period b = (b1, None)"
    then have t: "take_period b = (b1, None)" by simp
    have "feeds b1 r0" using take_none [OF inv t] r0(3) by (simp add: feeds_def)
    moreover have "contents b q = Some x" if "contents b1 q = Some x" for q x
      using playout.take_contents [OF inv, of q x] t that by simp
    ultimately show ?thesis using dry r0(2) by simp
  next
    assume "\<exists>outs. moved outs (primed_at r0 (pb_head b)) b r1 b1"
    then obtain outs where m: "moved outs (primed_at r0 (pb_head b)) b r1 b1" by blast
    then have "takes (length outs) b = (b1, outs)" "rs_config r1 = rs_config r0"
      by (simp_all add: moved_def primed_at_def Let_def)
    then show ?thesis using moved_ok [OF m] takes_contents [OF inv] by blast
  qed
  obtain e' where e': "pull_period p e = Some e'" "plays_on e e'"
    "en_playout e' = Some b1" "en_resampler e' = Some r1" "en_backend e' = en_backend e"
    "en_tx_period e' = en_tx_period e" "length (en_rx_period e') = length (en_rx_period e)"
    "en_delay_line e' = en_delay_line e" "en_test_signal e' = en_test_signal e" "en_control e' = en_control e"
    using pull(1,2) c(1,3,4) r0(1) moved by (auto simp: pull_period_def plays_on_def Let_def)
  have "engine_ok p runs e'"
    by (rule clock_stage [OF assms, of e' b1 r1]) (use e' c moved r0(4) in \<open>simp_all add: plays_on_def\<close>)
  then show ?thesis using e'(1,2) by blast
qed

lemma trim_keeps:
  assumes "engine_ok p runs e"
  shows "engine_ok p runs (trim_startup e) \<and> plays_on e (trim_startup e)"
proof -
  obtain b r where c: "en_playout e = Some b" "en_resampler e = Some r" "resampler_ok r" "feeds b r" "pb_inv b"
    "rc_channels (rs_config r) = af_channels (en_format e)"
    "rc_period_frames (rs_config r) = af_period_frames (en_format e)"
    "steerable (rc_config (en_control e))" "within_limit (en_control e)"
    using clock_okE [OF assms] by blast
  let ?b = "fst (discard_to_level_ms b (real (en_target_periods e) * period_ms (en_format e)))"
  have d: "feeds ?b r" "\<And>q x. contents ?b q = Some x \<Longrightarrow> contents b q = Some x"
    using c(4) playout.adjust_inv [OF c(5)] playout.adjust_contents [OF c(5)]
    by (auto simp: feeds_def discard_fields)
  obtain b' where b': "en_playout (trim_startup e) = Some b'" "b' = b \<or> b' = ?b"
  proof -
    obtain b1 n where "discard_to_level_ms b (real (en_target_periods e) * period_ms (en_format e)) = (b1, n)"
      by (cases "discard_to_level_ms b (real (en_target_periods e) * period_ms (en_format e))")
    then have "en_playout (trim_startup e) = Some b \<or> en_playout (trim_startup e) = Some ?b"
      using c(1) by (simp add: trim_startup_def Let_def)
    then show ?thesis using that by blast
  qed
  have same: "en_framer (trim_startup e) = en_framer e" "en_link (trim_startup e) = en_link e"
    "en_backend (trim_startup e) = en_backend e" "en_tx_period (trim_startup e) = en_tx_period e"
    "en_rx_period (trim_startup e) = en_rx_period e" "en_delay_line (trim_startup e) = en_delay_line e"
    "en_test_signal (trim_startup e) = en_test_signal e" "en_resampler (trim_startup e) = en_resampler e"
    "en_control (trim_startup e) = en_control e" "en_world (trim_startup e) = en_world e"
    "en_reassembler (trim_startup e) = en_reassembler e"
    by (simp_all add: trim_startup_def Let_def split: prod.split)
  have f: "feeds b' r" "\<And>q x. contents b' q = Some x \<Longrightarrow> contents b q = Some x" using b'(2) d c(4) by auto
  have "engine_ok p runs (trim_startup e)"
    by (rule clock_stage [OF assms, of _ b' r]) (use b'(1) c f same in simp_all)
  moreover have "plays_on e (trim_startup e)" using same b'(1) c(1) f(2) by (simp add: plays_on_def)
  ultimately show ?thesis ..
qed

lemma steer_keeps:
  assumes "engine_ok p runs e"
  shows "engine_ok p runs (steer_and_publish e) \<and> plays_on e (steer_and_publish e)"
proof -
  obtain b r where c: "en_playout e = Some b" "en_resampler e = Some r" "resampler_ok r" "feeds b r"
    "rc_channels (rs_config r) = af_channels (en_format e)"
    "rc_period_frames (rs_config r) = af_period_frames (en_format e)"
    "steerable (rc_config (en_control e))" "within_limit (en_control e)"
    using clock_okE [OF assms] by blast
  have same: "plays_on e (steer_and_publish e)" "en_playout (steer_and_publish e) = Some b"
    "en_control (steer_and_publish e) = update (en_control e) (Real (level_ms b)) (Real (period_ms (en_format e)))"
    using c(1) by (simp_all add: steer_and_publish_def plays_on_def Let_def)
  have "steerable (rc_config (en_control (steer_and_publish e)))" "within_limit (en_control (steer_and_publish e))"
    unfolding same(3) using update_within [OF c(7,8)] c(7)
    by (simp_all add: update_config del: update.simps)
  then have "engine_ok p runs (steer_and_publish e)"
    by (intro clock_stage [OF assms, of _ b r]) (use c same in \<open>simp_all add: steer_and_publish_def Let_def\<close>)
  then show ?thesis using same(1) ..
qed

text \<open>One period out: it returns, whatever the buffer holds.\<close>

lemma play_returns:
  assumes "engine_ok p runs e"
  shows "\<exists>e' r. play_one_period p now e = Some (e', r) \<and> engine_ok p runs e' \<and> plays_on e e'"
proof -
  obtain e1 go where g: "prime_playout e = (e1, go)" by (cases "prime_playout e")
  note k1 = prime_keeps [OF assms g]
  show ?thesis
  proof (cases go)
    case False
    obtain e' r where w: "write_period_to_device p now e1 = (e', r)"
      by (cases "write_period_to_device p now e1")
    show ?thesis
      using g False w write_period_keeps [OF _ w] k1 plays_on_trans by (auto simp: play_one_period_def)
  next
    case True
    obtain e2 where e2: "pull_period p e1 = Some e2" "engine_ok p runs e2" "plays_on e1 e2"
      using pull_keeps k1 by blast
    define e3 where "e3 = steer_and_publish (trim_startup e2)"
    have e3: "engine_ok p runs e3" "plays_on e2 e3"
      using trim_keeps [OF e2(2)] steer_keeps plays_on_trans by (auto simp: e3_def)
    obtain e' r where w: "write_period_to_device p now e3 = (e', r)"
      by (cases "write_period_to_device p now e3")
    have "play_one_period p now e = Some (e', r)"
      using g True e2(1) w by (simp add: play_one_period_def e3_def)
    moreover have "engine_ok p runs e'" "plays_on e3 e'" using write_period_keeps [OF e3(1) w] by simp_all
    ultimately show ?thesis using k1 e2(3) e3(2) plays_on_trans by blast
  qed
qed

subsection \<open>Receiving\<close>

text \<open>Messages in: only the link, the reassembler and the count of what was refused change.\<close>

lemma receive_message_from:
  assumes "receives p sent audio e" "receive_message (p_srt p) (p_with_srt p) (the (en_link e)) (en_world e) = (l, w, r)"
  shows "\<forall>m \<in> set (l_queue l). from_link sent m" and "r = Received m \<Longrightarrow> from_link sent m"
  using assms
  by (auto simp: receives_def peer_contract_def receive_message_def mark_down_def
      split: if_splits list.splits option.splits prod.splits sum.splits)

lemma receive_message_mode: "receive_message api with_srt l w = (l', w', r) \<Longrightarrow> l_mode l' = l_mode l"
  by (auto simp: receive_message_def mark_down_def split: if_splits list.splits option.splits prod.splits sum.splits)

lemma drain_keeps:
  assumes "engine_ok p runs e" "drain_messages p n e = (e', r)"
  shows "engine_ok p runs e' \<and> en_framer e' = en_framer e \<and> en_playout e' = en_playout e
    \<and> l_mode (the (en_link e')) = l_mode (the (en_link e))
    \<and> (receives p sent audio e \<longrightarrow> receives p sent audio e')"
  using assms
proof (induction n arbitrary: e)
  case (Suc n)
  obtain l w x where m: "receive_message (p_srt p) (p_with_srt p) (the (en_link e)) (en_world e) = (l, w, x)"
    by (cases "receive_message (p_srt p) (p_with_srt p) (the (en_link e)) (en_world e)")
  define e1 where "e1 = e\<lparr>en_link := Some l, en_world := w\<rparr>"
  have ok1: "engine_ok p runs e1"
    using Suc.prems(1) by (simp add: e1_def engine_ok_def buffers_ok_def clock_ok_def egress_ok_def Let_def)
  have rx1: "receives p sent audio e1" if "receives p sent audio e"
    using that receive_message_from(1) [OF that m] by (simp add: e1_def receives_def)
  have same1: "en_framer e1 = en_framer e" "en_playout e1 = en_playout e"
    "l_mode (the (en_link e1)) = l_mode (the (en_link e))"
    using receive_message_mode [OF m] by (simp_all add: e1_def)
  show ?case
  proof (cases x)
    case (Received msg)
    obtain ra failed where f: "feed (en_reassembler e) (Some msg) = (ra, failed)"
      by (cases "feed (en_reassembler e) (Some msg)")
    define e2 where "e2 = e1\<lparr>en_reassembler := ra,
        en_frames_refused := en_frames_refused e1 + (if failed = None then 0 else 1)\<rparr>"
    have ok2: "engine_ok p runs e2"
      using ok1 by (simp add: e2_def engine_ok_def buffers_ok_def clock_ok_def egress_ok_def Let_def)
    have rx2: "receives p sent audio e2" if rx: "receives p sent audio e"
    proof -
      have "from_link sent msg" using receive_message_from(2) [OF rx m] Received by simp
      then have "rs_inv sent (insert msg UNIV) ra"
        using rs_inv_feed [of sent UNIV "en_reassembler e" msg] rx f by (simp add: receives_def)
      then show ?thesis using rx1 [OF rx] by (simp add: e2_def receives_def)
    qed
    have step: "drain_messages p (Suc n) e
        = (if frame_ready (en_reassembler e2) then (e2, Inr True) else drain_messages p n e2)"
      using m Received f by (simp add: e1_def e2_def Let_def)
    show ?thesis
    proof (cases "frame_ready (en_reassembler e2)")
      case True
      then show ?thesis using Suc.prems(2) step ok2 rx2 same1 by (auto simp: e2_def)
    next
      case False
      then have "drain_messages p n e2 = (e', r)" using Suc.prems(2) step by simp
      then show ?thesis using Suc.IH [OF ok2] rx2 same1 by (simp add: e2_def)
    qed
  qed (use Suc.prems(2) m ok1 rx1 same1 in \<open>auto simp: e1_def\<close>)
qed simp

text \<open>A frame the peer sent is decoded, unpacked whole and offered to the buffer at its position.\<close>

lemma accept_packed:
  assumes "engine_ok p runs e" "decode (Some data) = Inr frame" "in_order (en_config e)"
    and "f_link_id frame = fr_link_id (en_framer e)" "length period = period_bytes (en_format e)"
    and "list_all2 (\<lambda>c b. packed_block (en_format e) c period b) (cf_blocks (en_config e)) (f_blocks frame)"
    and "push (the (en_playout e)) (unat (f_sample_position frame)) (Some period) = (b', status)"
  shows "accept_frame p data e =
      (let e1 = e\<lparr>en_rx_period := period, en_playout := Some b'\<rparr> in
       if status = stored \<or> status = overrun then e1\<lparr>en_frames_received := en_frames_received e1 + 1\<rparr>
       else e1\<lparr>en_frames_refused := en_frames_refused e1 + 1\<rparr>)"
    and "unat (f_sample_position frame) \<le> last_position \<Longrightarrow> engine_ok p runs (accept_frame p data e)"
proof -
  note k = engine_okD [OF assms(1)]
  have u: "unpack_frame (p_opus p) frame (Some (en_rx_period e)) (en_framer e) = (en_framer e, Some period, None)"
    by (rule unpack_packed [OF k(1) assms(3) assms(4) [symmetric] assms(6,5) k(6)])
  obtain src b r where cl: "en_playout e = Some b" "en_resampler e = Some r" "resampler_ok r" "feeds b r" "pb_inv b"
    "rc_channels (rs_config r) = af_channels (en_format e)"
    "rc_period_frames (rs_config r) = af_period_frames (en_format e)"
    "steerable (rc_config (en_control e))" "within_limit (en_control e)"
    using clock_okE [OF assms(1)] by metis
  show acc: "accept_frame p data e =
      (let e1 = e\<lparr>en_rx_period := period, en_playout := Some b'\<rparr> in
       if status = stored \<or> status = overrun then e1\<lparr>en_frames_received := en_frames_received e1 + 1\<rparr>
       else e1\<lparr>en_frames_refused := en_frames_refused e1 + 1\<rparr>)"
    using assms(2,5,7) u cl(1) by (simp add: accept_frame_def Let_def)
  assume small: "unat (f_sample_position frame) \<le> last_position"
  have b': "pb_inv b'"
    using playout.put_inv [OF cl(5) small, of period] assms(7) cl(1) by (metis fst_conv option.sel)
  have "feeds b' r"
    using cl(1,4) b' assms(7) push_fields [of b "unat (f_sample_position frame)" "Some period"]
    by (simp add: feeds_def)
  then show "engine_ok p runs (accept_frame p data e)"
    by (intro clock_stage [OF assms(1), of _ b' r]) (use cl acc k(6) assms(5) in \<open>simp_all add: Let_def\<close>)
qed

lemma accept_keeps:
  assumes "engine_ok p runs e"
    and "sent seq = Some data" "receives p sent audio e"
  shows "engine_ok p runs (accept_frame p data e) \<and> receives p sent audio (accept_frame p data e)
    \<and> en_framer (accept_frame p data e) = en_framer e \<and> en_link (accept_frame p data e) = en_link e"
proof (cases "\<exists>frame. decode (Some data) = Inr frame \<and> f_link_id frame = fr_link_id (en_framer e)")
  case False
  have "accept_frame p data e = e\<lparr>en_frames_refused := en_frames_refused e + 1\<rparr>"
    using False by (auto simp: accept_frame_def unpack_frame_def Let_def split: sum.split)
  then show ?thesis
    using assms(1,3)
    by (simp add: engine_ok_def buffers_ok_def clock_ok_def egress_ok_def receives_def Let_def)
next
  case True
  obtain frame where fr: "decode (Some data) = Inr frame" "carries_audio audio (en_framer e) frame"
    "f_link_id frame = fr_link_id (en_framer e)"
    using True assms(2,3) unfolding receives_def peer_contract_def by blast
  define q where "q = unat (f_sample_position frame)"
  have c: "q \<le> last_position" "length (audio q) = period_bytes (en_format e)"
    "list_all2 (\<lambda>c b. packed_block (en_format e) c (audio q) b) (cf_blocks (en_config e)) (f_blocks frame)"
    using fr(2) by (simp_all add: carries_audio_def q_def Let_def)
  have order: "in_order (en_config e)" using assms(3) by (simp add: receives_def peer_contract_def)
  obtain b where b: "en_playout e = Some b" "pb_inv b" using clock_okE [OF assms(1)] by metis
  obtain b' status where push: "push b q (Some (audio q)) = (b', status)" by (cases "push b q (Some (audio q))")
  have b': "\<And>s x. contents b' s = Some x \<Longrightarrow> contents b s = Some x \<or> s = q \<and> x = audio q"
    using playout.put_contents [OF b(2) c(1)] push by (metis fst_conv)
  note acc = accept_packed [OF assms(1) fr(1) order fr(3) c(2,3), of b' status]
  have same: "en_framer (accept_frame p data e) = en_framer e" "en_link (accept_frame p data e) = en_link e"
    "en_playout (accept_frame p data e) = Some b'" "en_reassembler (accept_frame p data e) = en_reassembler e"
    using acc(1) push b(1) by (simp_all add: q_def Let_def)
  then have "receives p sent audio (accept_frame p data e)"
    using assms(3) b(1) b' unfolding receives_def by simp blast
  then show ?thesis using acc(2) same push b(1) c(1) by (simp add: q_def)
qed

lemma take_sent:
  assumes "receives p sent audio e" "take_frame (en_reassembler e) = (ra, Inr data)"
  shows "\<exists>seq. sent seq = Some data" and "rs_inv sent UNIV ra"
proof -
  have inv: "rs_inv sent UNIV (en_reassembler e)" using assms(1) by (simp add: receives_def)
  show "rs_inv sent UNIV ra" using rs_inv_take [OF inv] assms(2) by simp
  show "\<exists>seq. sent seq = Some data"
    using inv take_frame_Inr [OF assms(2)] by (auto simp: rs_inv_def complete_def)
qed

lemma receive_frames_keeps:
  assumes "engine_ok p runs e" "receives p sent audio e" "receive_frames p n e = (e', r)"
  shows "engine_ok p runs e' \<and> receives p sent audio e' \<and> en_framer e' = en_framer e
    \<and> l_mode (the (en_link e')) = l_mode (the (en_link e))"
  using assms
proof (induction n arbitrary: e)
  case (Suc n)
  obtain e1 x where d: "drain_messages p k_max_messages_per_period e = (e1, x)"
    by (cases "drain_messages p k_max_messages_per_period e")
  have k1: "engine_ok p runs e1" "receives p sent audio e1" "en_framer e1 = en_framer e"
    "l_mode (the (en_link e1)) = l_mode (the (en_link e))"
    using drain_keeps [OF Suc.prems(1) d, of sent audio] Suc.prems(2) by blast+
  show ?case
  proof (cases "x = Inr True")
    case False
    then show ?thesis using Suc.prems(3) d k1 by (cases x) auto
  next
    case True
    obtain ra y where t: "take_frame (en_reassembler e1) = (ra, y)" by (cases "take_frame (en_reassembler e1)")
    define e2 where "e2 = e1\<lparr>en_reassembler := ra\<rparr>"
    have ok2: "engine_ok p runs e2"
      using k1(1) by (simp add: e2_def engine_ok_def buffers_ok_def clock_ok_def egress_ok_def Let_def)
    have inv2: "rs_inv sent UNIV ra" using rs_inv_take [of sent UNIV "en_reassembler e1"] k1(2) t by (simp add: receives_def)
    then have rx2: "receives p sent audio e2" using k1(2) by (simp add: e2_def receives_def)
    have same2: "en_framer e2 = en_framer e" "l_mode (the (en_link e2)) = l_mode (the (en_link e))"
      using k1(3,4) by (simp_all add: e2_def)
    show ?thesis
    proof (cases "\<exists>data. y = Inr data \<and> data \<noteq> []")
      case False
      then show ?thesis using Suc.prems(3) d True t ok2 rx2 same2 by (cases y) (auto simp: e2_def)
    next
      case more: True
      then obtain data where data: "y = Inr data" "data \<noteq> []" by blast
      obtain seq where "sent seq = Some data" using take_sent(1) [OF k1(2)] t data(1) by blast
      note acc = accept_keeps [OF ok2 this rx2]
      have "receive_frames p n (accept_frame p data e2) = (e', r)"
        using Suc.prems(3) d True t data by (simp add: e2_def)
      then show ?thesis using Suc.IH acc same2 by metis
    qed
  qed
qed simp

lemma reset_keeps:
  assumes "engine_ok p runs e"
  shows "engine_ok p runs (reset_playout e)" and "en_framer (reset_playout e) = en_framer e"
    and "receives p sent audio e \<Longrightarrow> receives p sent audio (reset_playout e)"
    and "en_link (reset_playout e) = en_link e"
proof -
  note k = engine_okD [OF assms]
  have fit: "ints_fit (en_config e)" using assms by (simp add: engine_ok_def)
  obtain src b r where c: "en_resampler e = Some r" "resampler_ok r" "feeds b r"
    "rc_channels (rs_config r) = af_channels (en_format e)"
    "rc_period_frames (rs_config r) = af_period_frames (en_format e)"
    "steerable (rc_config (en_control e))" "within_limit (en_control e)"
    using clock_okE [OF assms] by metis
  let ?b = "playout_init (playout_capacity e) (en_format e)"
  have b: "pb_inv ?b" "\<And>q. contents ?b q = None"
    using fresh_playout [OF k(4) fit k(3)] by (simp_all add: playout_capacity_def)
  have "feeds ?b r"
    using b(1) c(4,5) k(2) by (simp add: feeds_def playout_init_def period_bytes_def period_samples_def)
  then show "engine_ok p runs (reset_playout e)"
    by (intro clock_stage [OF assms, of _ ?b r]) (use c in \<open>simp_all add: reset_playout_def\<close>)
  show "en_framer (reset_playout e) = en_framer e" "en_link (reset_playout e) = en_link e"
    by (simp_all add: reset_playout_def)
  show "receives p sent audio e \<Longrightarrow> receives p sent audio (reset_playout e)"
    using b(2) by (simp add: receives_def reset_playout_def)
qed

text \<open>A whole turn of the receive loop.\<close>

lemma step_receive_keeps:
  assumes "engine_ok p runs e" "receives p sent audio e"
  shows "\<exists>e' r. step_receive p now e = Some (e', r) \<and> engine_ok p runs e' \<and> receives p sent audio e'
    \<and> en_framer e' = en_framer e \<and> l_mode (the (en_link e')) = l_mode (the (en_link e))"
proof -
  define e1 where "e1 = e\<lparr>en_receive_turns := en_receive_turns e + 1, en_reset_requested := False\<rparr>"
  have k1: "engine_ok p runs e1" "receives p sent audio e1"
    using assms by (simp_all add: e1_def engine_ok_def buffers_ok_def clock_ok_def egress_ok_def receives_def Let_def)
  define e2 where "e2 = (if en_reset_requested e then reset_playout e1 else e1)"
  have k2: "engine_ok p runs e2" "receives p sent audio e2" "en_framer e2 = en_framer e" "en_link e2 = en_link e"
    using k1 reset_keeps(1,2,4) [OF k1(1)] reset_keeps(3) [OF k1]
    by (cases "en_reset_requested e"; simp add: e2_def; simp add: e1_def)+
  obtain b where built: "en_playout e2 = Some b" using clock_okE [OF k2(1)] by metis
  obtain e3 failed where r: "receive_into_buffer p e2 = (e3, failed)" by (cases "receive_into_buffer p e2")
  have k3: "engine_ok p runs e3 \<and> receives p sent audio e3 \<and> en_framer e3 = en_framer e2
    \<and> l_mode (the (en_link e3)) = l_mode (the (en_link e2))"
    by (rule receive_frames_keeps [OF k2(1,2) r [unfolded receive_into_buffer_def]])
  have step: "step_receive p now e = (case failed of Some err \<Rightarrow> Some (e3, Some (Transport err))
      | None \<Rightarrow> play_one_period p now e3)"
    unfolding step_receive_def Let_def e1_def [symmetric] e2_def [symmetric]
    using built r by (simp split: option.split)
  show ?thesis
  proof (cases failed)
    case (Some err)
    then show ?thesis using step k3 k2(3,4) by auto
  next
    case None
    obtain e' x where p: "play_one_period p now e3 = Some (e', x)" "engine_ok p runs e'" "plays_on e3 e'"
      using play_returns k3 by blast
    moreover have "receives p sent audio e'" using k3 p(3) receives_plays_on by blast
    moreover have "en_framer e' = en_framer e \<and> l_mode (the (en_link e')) = l_mode (the (en_link e))"
      using p(3) k3 k2(3,4) by (simp add: plays_on_def)
    ultimately show ?thesis using step None by simp
  qed
qed

end

end
