(* ===== verification/EngineRun.thy ===== *)
theory EngineRun
  imports EngineInv
begin

text \<open>
  A running engine: \<^verbatim>\<open>prepare\<close>, \<^verbatim>\<open>open\<close>, and then any interleaving of the turns of its threads and of
  the calls of the control surface.

  \<open>engine_step\<close> is one such turn or call, so what the threads do is a path of it. The invariant of
  \<open>EngineInv\<close> holds after \<^verbatim>\<open>open\<close> and every step keeps it, which gives what holds at every moment of
  a run: the buffers have their size, the correction is within its limit, a receive turn comes back,
  and, if the peer keeps to its contract, every period held is the peer's audio of its position.
\<close>

subsection \<open>Steps\<close>

inductive engine_step ::
  "('e, 'd, 's, 'b, 'x, 'w) platform \<Rightarrow> ('e, 'd, 's, 'b, 'w) engine \<Rightarrow> ('e, 'd, 's, 'b, 'w) engine \<Rightarrow> bool"
  for p where
  step_transmit: "runs_transmit (en_config e) \<Longrightarrow> transmit_turn p now failures e = (e', failures', wait)
      \<Longrightarrow> engine_step p e e'"
| step_receive: "runs_receive (en_config e) \<Longrightarrow> receive_turn p now failures e = Some (e', failures', wait)
      \<Longrightarrow> engine_step p e e'"
| step_supervise: "supervisor_turn p now backoff e = Some (e', backoff', waits) \<Longrightarrow> engine_step p e e'"
| step_report: "status_turn p reported e = (e', reported') \<Longrightarrow> engine_step p e e'"
| step_delay: "set_egress_delay_ms offset e = (e', failed :: 'x engine_error option) \<Longrightarrow> engine_step p e e'"
| step_mark: "trigger_test_signal e = (e', failed :: 'x engine_error option) \<Longrightarrow> engine_step p e e'"
| step_stop: "engine_step p e (engine_stop e)"

inductive_cases engine_stepE: "engine_step p e e'"

definition engine_reaches ::
  "('e, 'd, 's, 'b, 'x, 'w) platform \<Rightarrow> ('e, 'd, 's, 'b, 'w) engine \<Rightarrow> ('e, 'd, 's, 'b, 'w) engine \<Rightarrow> bool" where
  "engine_reaches p = (engine_step p)\<^sup>*\<^sup>*"

subsection \<open>The link\<close>

lemma mark_down_fields:
  "mark_down api l w = (l', w') \<Longrightarrow> l_mode l' = l_mode l \<and> l_queue l' = l_queue l"
  by (auto simp: mark_down_def split: option.splits prod.splits if_splits)

lemma send_message_link:
  assumes "send_message api with_srt l w m = (l', w', r)"
  shows "l_mode l' = l_mode l \<and> (l_mode l \<noteq> ''loopback'' \<longrightarrow> l_queue l' = l_queue l)"
  using assms mark_down_fields [of api l]
  by (auto simp: send_message_def split: option.splits prod.splits if_splits sum.splits)

lemma send_all_link:
  assumes "send_all api with_srt ms l w = (l', w', r)"
  shows "l_mode l' = l_mode l \<and> (l_mode l \<noteq> ''loopback'' \<longrightarrow> l_queue l' = l_queue l)"
  using assms
proof (induction ms arbitrary: l w)
  case (Cons m ms)
  obtain l1 w1 r1 where s: "send_message api with_srt l w (Some m) = (l1, w1, r1)"
    by (cases "send_message api with_srt l w (Some m)")
  show ?case
    using Cons.prems Cons.IH send_message_link [OF s] s by (cases r1) auto
qed simp

lemma bound_link_fields:
  "bound_link p l w = (l', w') \<Longrightarrow> l_mode l' = l_mode l \<and> l_queue l' = l_queue l"
  by (auto simp: bound_link_def set_receive_timeout_ms_def set_send_timeout_ms_def set_nonblocking_def
      split: option.splits prod.splits)

lemma link_open_link:
  assumes "link_open api with_srt show_int now config l w = Some (l', w', r)"
    and "to_lower (lc_mode (cf_link config)) \<noteq> ''loopback''" "l_mode l \<noteq> ''loopback''"
  shows "l_mode l' \<noteq> ''loopback'' \<and> l_queue l' = l_queue l"
  using assms
  by (auto simp: link_open_def Let_def dest!: mark_down_fields split: prod.splits if_splits option.splits sum.splits)

subsection \<open>What every step keeps\<close>

text \<open>
  The invariant of a run: the engine is well formed, what it receives is the peer's, and the link is
  not the in-process loopback, in which an engine is its own peer.
\<close>

definition no_loopback :: "('e, 'd, 's, 'b, 'w) engine \<Rightarrow> bool" where
  "no_loopback e \<longleftrightarrow> to_lower (lc_mode (cf_link (en_config e))) \<noteq> ''loopback''
     \<and> l_mode (the (en_link e)) \<noteq> ''loopback''"

lemma engine_ok_framer:
  assumes "engine_ok p runs e" "framer_keeps (en_framer e) (en_framer e')"
    and "en_link e' \<noteq> None" "en_backend e' = Some b" "runs (en_format e) b"
    and "length (en_tx_period e') = length (en_tx_period e)" "en_rx_period e' = en_rx_period e"
    and "en_playout e' = en_playout e" "en_resampler e' = en_resampler e" "en_control e' = en_control e"
    and "en_delay_line e' = en_delay_line e" "en_test_signal e' = en_test_signal e"
  shows "engine_ok p runs e'"
proof -
  have "framer_ready (en_framer e')"
    using framer_keeps_ready [OF _ assms(2)] assms(1) by (simp add: engine_ok_def)
  then show ?thesis
    using assms by (simp add: engine_ok_def buffers_ok_def clock_ok_def egress_ok_def framer_keeps_def Let_def)
qed

text \<open>What a transmit turn leaves alone.\<close>

definition transmits_on :: "('e, 'd, 's, 'b, 'w) engine \<Rightarrow> ('e, 'd, 's, 'b, 'w) engine \<Rightarrow> bool" where
  "transmits_on e e' \<longleftrightarrow> framer_keeps (en_framer e) (en_framer e') \<and> en_playout e' = en_playout e
     \<and> en_reassembler e' = en_reassembler e
     \<and> l_mode (the (en_link e')) = l_mode (the (en_link e))
     \<and> (l_mode (the (en_link e)) \<noteq> ''loopback'' \<longrightarrow> l_queue (the (en_link e')) = l_queue (the (en_link e)))"

context driven_engine
begin

lemma step_transmit_keeps:
  assumes ok: "engine_ok p runs e" and step: "step_transmit p now e = (e', r)"
  shows "engine_ok p runs e' \<and> transmits_on e e'"
proof -
  note k = engine_okD [OF ok]
  let ?frames = "af_period_frames (en_format e)"
  obtain b l where b: "en_backend e = Some b" "runs (en_format e) b" and l: "en_link e = Some l"
    using ok by (auto simp: engine_ok_def)
  obtain b' period x where rd: "be_read (p_device p) now (en_tx_period e) ?frames b = (b', period, x)"
    by (cases "be_read (p_device p) now (en_tx_period e) ?frames b")
  have b': "runs (en_format e) b'" by (rule read_runs [OF b(2) rd])
  have len: "length period = length (en_tx_period e)"
    by (rule read_length [OF b(2) rd]) (use k(5) in \<open>simp add: period_bytes_frames\<close>)
  show ?thesis
  proof (cases x)
    case (Some err)
    then have "e' = e\<lparr>en_backend := Some b', en_tx_period := period\<rparr>"
      using step rd b(1) by (simp add: step_transmit_def)
    then show ?thesis using engine_ok_framer [OF ok, of e' b'] b' len l by (simp add: transmits_on_def)
  next
    case None
    have pl: "length period = period_bytes (en_format e)" using len k(5) by simp
    obtain y where y: "apply_block_levels (Some period) (en_format e) (cf_blocks (en_config e)) = Some y"
      "length y = period_bytes (en_format e)"
      using levels_length [OF k(4,3) pl] by blast
    define e1 where "e1 = e\<lparr>en_backend := Some b', en_tx_period := y\<rparr>"
    obtain f q where pk: "pack_period (p_opus p) (Some y) (en_sample_position e) (en_framer e) = (f, q)"
      by (cases "pack_period (p_opus p) (Some y) (en_sample_position e) (en_framer e)")
    have keeps: "framer_keeps (en_framer e) f" by (rule pack_period_keeps [OF pk k(1) y(2)])
    define e2 where "e2 = e1\<lparr>en_framer := f\<rparr>"
    have ok2: "engine_ok p runs e2" "transmits_on e e2"
      using engine_ok_framer [OF ok, of e2 b'] keeps b' y(2) k(5) l
      by (simp_all add: e1_def e2_def transmits_on_def)
    have r: "step_transmit p now e = (case q of Inl err \<Rightarrow> (e2, Some (Framing err))
      | Inr packed \<Rightarrow> (case encode (packed\<lparr>f_sequence := en_sequence e\<rparr>) of
          Inl err \<Rightarrow> (e2, Some (Wire err))
        | Inr data \<Rightarrow> (case send_all (p_srt p) (p_with_srt p) (fragments data (ucast (en_sequence e))) l (en_world e) of
            (l1, w, Some err) \<Rightarrow> (e2\<lparr>en_link := Some l1, en_world := w\<rparr>, Some (Transport err))
          | (l1, w, None) \<Rightarrow> (e2\<lparr>en_link := Some l1, en_world := w, en_sequence := en_sequence e + 1,
              en_sample_position := en_sample_position e + of_nat (af_period_frames (fr_format f)),
              en_frames_sent := en_frames_sent e + 1\<rparr>, None))))"
      using rd b(1) None y(1) pk l by (simp add: step_transmit_def Let_def e2_def e1_def split: sum.split)
    show ?thesis
    proof (cases "\<exists>packed data. q = Inr packed \<and> encode (packed\<lparr>f_sequence := en_sequence e\<rparr>) = Inr data")
      case False
      then have "e' = e2" using step r by (auto split: sum.splits)
      then show ?thesis using ok2 by simp
    next
      case True
      then obtain packed data where q: "q = Inr packed" "encode (packed\<lparr>f_sequence := en_sequence e\<rparr>) = Inr data"
        by blast
      obtain l1 w z where s: "send_all (p_srt p) (p_with_srt p) (fragments data (ucast (en_sequence e))) l (en_world e)
          = (l1, w, z)"
        by (cases "send_all (p_srt p) (p_with_srt p) (fragments data (ucast (en_sequence e))) l (en_world e)")
      have e': "en_link e' = Some l1" "en_framer e' = f" "en_backend e' = Some b'" "en_tx_period e' = y"
        "en_rx_period e' = en_rx_period e" "en_playout e' = en_playout e" "en_resampler e' = en_resampler e"
        "en_control e' = en_control e" "en_delay_line e' = en_delay_line e"
        "en_test_signal e' = en_test_signal e" "en_reassembler e' = en_reassembler e"
        using step r q s by (cases z; auto simp: e1_def e2_def)+
      then show ?thesis
        using engine_ok_framer [OF ok, of e' b'] keeps b' y(2) k(5) l send_all_link [OF s]
        by (simp add: transmits_on_def)
    qed
  qed
qed

text \<open>The invariant, with the peer's contract where there is one.\<close>

lemma transmits_on_receives:
  assumes "transmits_on e e'" "no_loopback e"
  shows "no_loopback e'" and "receives p sent audio e \<Longrightarrow> receives p sent audio e'"
  using assms peer_contract_keeps [of "en_framer e" "en_framer e'"]
  by (auto simp: transmits_on_def no_loopback_def receives_def framer_keeps_def)

end

text \<open>The steps that leave the audio alone.\<close>

lemma other_fields_keep:
  assumes "engine_ok p runs e" "receives p sent audio e"
    and "en_framer e' = en_framer e" "en_link e' = Some l" "l_queue l = l_queue (the (en_link e))"
    and "en_backend e' = en_backend e" "en_tx_period e' = en_tx_period e" "en_rx_period e' = en_rx_period e"
    and "en_playout e' = en_playout e" "en_resampler e' = en_resampler e" "en_control e' = en_control e"
    and "en_delay_line e' = en_delay_line e" "en_test_signal e' = en_test_signal e"
    and "en_reassembler e' = en_reassembler e"
  shows "engine_ok p runs e'" "receives p sent audio e'"
  using assms by (auto simp: engine_ok_def buffers_ok_def clock_ok_def egress_ok_def receives_def Let_def)

lemma reopen_keeps:
  assumes "reopen_link p now e = Some (e', r)" "no_loopback e"
    and "engine_ok p runs e" "receives p sent audio e"
  shows "engine_ok p runs e'" "receives p sent audio e'" "no_loopback e'"
proof -
  obtain l w x where o: "link_open (p_srt p) (p_with_srt p) (p_show_int p) (real_of_int now) (en_config e)
      (the (en_link e)) (en_world e) = Some (l, w, x)"
    using assms(1) by (auto simp: reopen_link_def)
  have lk: "l_mode l \<noteq> ''loopback''" "l_queue l = l_queue (the (en_link e))"
    using link_open_link [OF o] assms(2) by (simp_all add: no_loopback_def)
  obtain l1 w1 where bd: "bound_link p l w = (l1, w1)" by (cases "bound_link p l w")
  have lk1: "l_mode l1 \<noteq> ''loopback''" "l_queue l1 = l_queue (the (en_link e))"
    using bound_link_fields [OF bd] lk by simp_all
  define m where "m = (if x = None then l1 else l)"
  have e': "en_framer e' = en_framer e" "en_link e' = Some m" "en_backend e' = en_backend e"
    "en_tx_period e' = en_tx_period e" "en_rx_period e' = en_rx_period e" "en_playout e' = en_playout e"
    "en_resampler e' = en_resampler e" "en_control e' = en_control e"
    "en_delay_line e' = en_delay_line e" "en_test_signal e' = en_test_signal e"
    "en_reassembler e' = en_reassembler e"
    using assms(1) o bd by (auto simp: reopen_link_def m_def split: option.splits)
  have m: "l_mode m \<noteq> ''loopback''" "l_queue m = l_queue (the (en_link e))" using lk lk1 by (simp_all add: m_def)
  show "engine_ok p runs e'" "receives p sent audio e'"
    using other_fields_keep [OF assms(3,4), of e' m] e' m by simp_all
  show "no_loopback e'" using assms(2) e' m by (simp add: no_loopback_def)
qed

lemma supervisor_keeps:
  assumes "supervisor_turn p now backoff e = Some (e', backoff', waits)" "no_loopback e"
    and "engine_ok p runs e" "receives p sent audio e"
  shows "engine_ok p runs e' \<and> receives p sent audio e' \<and> no_loopback e'"
proof (cases "en_stop_requested e \<or> link_is_open (the (en_link e))")
  case True
  then have "e' = e" using assms(1) by (simp add: supervisor_turn_def split: if_splits)
  then show ?thesis using assms by simp
next
  case False
  then obtain r where "reopen_link p now e = Some (e', r)"
    using assms(1) by (auto simp: supervisor_turn_def split: if_splits)
  then show ?thesis using reopen_keeps [OF _ assms(2-4)] by blast
qed

lemma status_keeps:
  assumes "status_turn p reported e = (e', reported')" "engine_ok p runs e" "receives p sent audio e"
    "no_loopback e"
  shows "engine_ok p runs e' \<and> receives p sent audio e' \<and> no_loopback e'"
proof -
  obtain l where l: "en_link e = Some l" using assms(2) by (auto simp: engine_ok_def)
  have e': "en_framer e' = en_framer e" "en_link e' = en_link e" "en_backend e' = en_backend e"
    "en_tx_period e' = en_tx_period e" "en_rx_period e' = en_rx_period e" "en_playout e' = en_playout e"
    "en_resampler e' = en_resampler e" "en_control e' = en_control e"
    "en_delay_line e' = en_delay_line e" "en_test_signal e' = en_test_signal e"
    "en_reassembler e' = en_reassembler e"
    using assms(1) by (auto simp: status_turn_def split: prod.splits sum.splits if_splits)
  then show ?thesis
    using other_fields_keep [OF assms(2,3), of e' l] l assms(4) by (simp add: no_loopback_def)
qed

lemma control_calls_keep:
  assumes "engine_ok p runs e" "receives p sent audio e" "no_loopback e"
    and "set_egress_delay_ms offset e = (e', r) \<or> trigger_test_signal e = (e', r) \<or> e' = engine_stop e"
  shows "engine_ok p runs e' \<and> receives p sent audio e' \<and> no_loopback e'"
proof -
  obtain l where l: "en_link e = Some l" using assms(1) by (auto simp: engine_ok_def)
  have e': "en_framer e' = en_framer e" "en_link e' = en_link e" "en_backend e' = en_backend e"
    "en_tx_period e' = en_tx_period e" "en_rx_period e' = en_rx_period e" "en_playout e' = en_playout e"
    "en_resampler e' = en_resampler e" "en_control e' = en_control e"
    "en_delay_line e' = en_delay_line e" "en_test_signal e' = en_test_signal e"
    "en_reassembler e' = en_reassembler e"
    using assms(4)
    by (auto simp: set_egress_delay_ms_def trigger_test_signal_def engine_stop_def
        split: float_value.splits if_splits)
  then show ?thesis
    using other_fields_keep [OF assms(1,2), of e' l] l assms(3) by (simp add: no_loopback_def)
qed

context driven_engine
begin

definition running :: "(u32 \<Rightarrow> bytes option) \<Rightarrow> (nat \<Rightarrow> bytes) \<Rightarrow> ('e, 'd, 's, 'b, 'w) engine \<Rightarrow> bool" where
  "running sent audio e \<longleftrightarrow> engine_ok p runs e \<and> receives p sent audio e \<and> no_loopback e"

lemma step_running:
  assumes "engine_step p e e'" "running sent audio e"
  shows "running sent audio e'"
proof -
  have k: "engine_ok p runs e" "receives p sent audio e" "no_loopback e"
    using assms(2) by (simp_all add: running_def)
  show ?thesis
    using assms(1)
  proof (cases rule: engine_step.cases)
    case (step_transmit now failures failures' wait)
    show ?thesis
    proof (cases "en_stop_requested e")
      case False
      then obtain r where "step_transmit p now e = (e', r)"
        using step_transmit(2) by (auto simp: transmit_turn_def split: prod.splits option.splits)
      then have "engine_ok p runs e' \<and> transmits_on e e'" by (rule step_transmit_keeps [OF k(1)])
      then show ?thesis using transmits_on_receives [of e e'] k by (simp add: running_def)
    next
      case True
      then have "e' = e" using step_transmit(2) by (simp add: transmit_turn_def)
      then show ?thesis using assms(2) by simp
    qed
  next
    case (step_receive now failures failures' wait)
    show ?thesis
    proof (cases "en_stop_requested e")
      case False
      then obtain r where r: "step_receive p now e = Some (e', r)"
        using step_receive(2) by (auto simp: receive_turn_def split: if_splits)
      have "engine_ok p runs e' \<and> receives p sent audio e' \<and> en_framer e' = en_framer e
        \<and> l_mode (the (en_link e')) = l_mode (the (en_link e))"
        using step_receive_keeps [OF k(1,2), of now] r by auto
      then show ?thesis using k(3) by (simp add: running_def no_loopback_def)
    next
      case True
      then have "e' = e" using step_receive(2) by (simp add: receive_turn_def)
      then show ?thesis using assms(2) by simp
    qed
  next
    case (step_supervise now backoff backoff' waits)
    then show ?thesis using supervisor_keeps [OF _ k(3,1,2)] by (simp add: running_def)
  next
    case (step_report reported reported')
    then show ?thesis using status_keeps [OF _ k] by (simp add: running_def)
  next
    case (step_delay offset failed)
    then show ?thesis using control_calls_keep [OF k disjI1] by (simp add: running_def)
  next
    case (step_mark failed)
    then show ?thesis using control_calls_keep [OF k disjI2 [OF disjI1]] by (simp add: running_def)
  next
    case step_stop
    then show ?thesis using control_calls_keep [OF k disjI2 [OF disjI2]] by (simp add: running_def)
  qed
qed

end

subsection \<open>prepare and open\<close>

lemma prepare_codecs_keeps: "prepare_codecs library is n f = (g, r) \<Longrightarrow> framer_keeps f g"
proof (induction library "is" n f rule: prepare_codecs.induct)
  case (2 library index rest encoded f)
  obtain f1 x where c: "codec_for_block library index True f = (f1, x)"
    by (cases "codec_for_block library index True f")
  show ?case
    using 2 c codec_for_block_keeps [OF c]
    by (cases x) (auto split: if_splits intro: framer_keeps_trans)
qed simp

definition prepared :: "('e, 'd, 's, 'b, 'w) engine \<Rightarrow> bool" where
  "prepared e \<longleftrightarrow> framer_ready (en_framer e) \<and> ints_fit (en_config e) \<and> en_backend e \<noteq> None
     \<and> en_link e = Some link_init \<and> buffers_ok e"

lemma prepare_prepared:
  assumes "prepare p config e = (e', None)" "validate config = None" "ints_fit config"
  shows "prepared e'" and "en_config e' = config" and "en_reassembler e' = en_reassembler e"
    and "fr_link_id (en_framer e') = fr_link_id (en_framer e)"
proof -
  let ?format = "audio_format_from (cf_audio config)" and ?blocks = "length (cf_blocks config)"
  let ?bytes = "unat k_block_channels * af_period_frames ?format * af_sample_bytes ?format"
  define f where "f = (en_framer e)\<lparr>fr_config := config, fr_format := ?format,
      fr_codecs := replicate ?blocks None, fr_codec_pcm := replicate ?bytes 0,
      fr_tx_block_pcm := replicate ?blocks (replicate ?bytes 0)\<rparr>"
  obtain f1 r where c: "prepare_codecs (p_opus p) [0..<?blocks] 0 f = (f1, r)"
    by (cases "prepare_codecs (p_opus p) [0..<?blocks] 0 f")
  have keeps: "framer_keeps f f1" by (rule prepare_codecs_keeps [OF c])
  have "unat k_block_channels = 8" by (simp add: k_block_channels_def)
  then have ready: "framer_ready f"
    using assms(2) by (simp add: f_def framer_ready_def)
  have e': "en_framer e' = f1" "en_backend e' = Some (p_new_backend p (cf_audio config))"
    "en_link e' = Some link_init" "en_reassembler e' = en_reassembler e"
    "en_tx_period e' = replicate (period_bytes ?format) 0" "en_rx_period e' = replicate (period_bytes ?format) 0"
    using assms(1) c by (auto simp: prepare_def f_def Let_def split: if_splits sum.splits)
  have f1: "fr_config f1 = config" "fr_format f1 = ?format" "fr_link_id f1 = fr_link_id (en_framer e)"
    using keeps by (simp_all add: framer_keeps_def f_def)
  show "en_config e' = config" "en_reassembler e' = en_reassembler e"
    "fr_link_id (en_framer e') = fr_link_id (en_framer e)"
    using e' f1 by simp_all
  show "prepared e'"
    using e' f1 framer_keeps_ready [OF ready keeps] assms(3) by (simp add: prepared_def buffers_ok_def)
qed

lemma resampler_open_ok:
  assumes "resampler_open library config = (r, None)"
  shows "\<exists>s. r = Some s \<and> resampler_ok s \<and> rs_config s = config"
  using assms
  by (auto simp: resampler_open_def resampler_ok_def Let_def split: option.splits if_splits sum.splits)

text \<open>
  The device, for \<^verbatim>\<open>open\<close>: opened for a format, it runs for that format. Opening the null backend
  gives that; opening the Core Audio region does not, as \<open>attach_takes_other_shape\<close> shows.
\<close>

locale opening_engine = driven_engine p runs
  for p :: "('e, 'd, 's, 'b, 'x, 'w) platform" and runs :: "audio_format \<Rightarrow> 'b \<Rightarrow> bool" +
  assumes open_runs: "be_open (p_device p) now format b = (b', None) \<Longrightarrow> runs format b'"
begin

lemma open_stages_ok:
  assumes stages: "open_stages p e = (e', None)"
    and "framer_ready (en_framer e)" "ints_fit (en_config e)" "buffers_ok e"
    and "af_sample_bytes (en_format e) = 3" "en_link e = Some l"
    and "en_backend e = Some b" "runs (en_format e) b"
    and "p_samplerate p = Some src" "keeps_to_request src (af_channels (en_format e))"
  shows "engine_ok p runs e' \<and> en_framer e' = en_framer e \<and> en_link e' = en_link e
    \<and> en_reassembler e' = en_reassembler e \<and> (\<forall>q. contents (the (en_playout e')) q = None)"
proof -
  let ?format = "en_format e"
  have v: "validate (en_config e) = None" and fmt: "?format = audio_format_from (cf_audio (en_config e))"
    using assms(2) by (simp_all add: framer_ready_def)
  note vf = validated_format [OF v, folded fmt]
  let ?b = "playout_init (playout_capacity e) ?format"
  have pb: "pb_inv ?b" "\<And>q. contents ?b q = None"
    using fresh_playout [OF v assms(3) fmt] by (simp_all add: playout_capacity_def)
  let ?control = "control_init (default_control\<lparr>cc_target_ms := real (en_target_periods e) * period_ms ?format\<rparr>)"
  have steer: "steerable (default_control\<lparr>cc_target_ms := real (en_target_periods e) * period_ms ?format\<rparr>)"
    using default_steerable by (simp add: steerable_def)
  have control: "steerable (rc_config ?control)" "within_limit ?control"
    using steer control_init_within [OF steer] by (simp_all add: control_init_def)
  let ?rc = "\<lparr>rc_converter = sinc_medium, rc_channels = af_channels ?format, rc_rate = 48000,
      rc_period_frames = af_period_frames ?format\<rparr>"
  let ?dc = "default_delay\<lparr>dc_channels := af_channels ?format, dc_sample_rate := af_sample_rate ?format,
      dc_period_frames := af_period_frames ?format, dc_sample_bytes := af_sample_bytes ?format,
      dc_capacity_ms := k_max_egress_delay_ms\<rparr>"
  let ?tc = "default_test\<lparr>tc_channels := af_channels ?format, tc_sample_rate := af_sample_rate ?format,
      tc_period_frames := af_period_frames ?format, tc_sample_bytes := af_sample_bytes ?format,
      tc_channel := ec_test_signal_channel (cf_egress (en_config e))\<rparr>"
  obtain r rx where ro: "resampler_open (p_samplerate p) ?rc = (r, rx)" by (cases "resampler_open (p_samplerate p) ?rc")
  obtain d dx where dl: "delay_open ?dc (en_delay_line e) = (d, dx)" by (cases "delay_open ?dc (en_delay_line e)")
  obtain d1 ox where off: "set_offset_ms (Real (ec_delay_ms (cf_egress (en_config e)))) d = (d1, ox)"
    by (cases "set_offset_ms (Real (ec_delay_ms (cf_egress (en_config e)))) d")
  obtain t tx where ts: "test_open ?tc (en_test_signal e) = (t, tx)" by (cases "test_open ?tc (en_test_signal e)")
  have none: "rx = None" "dx = None" "ox = None" "tx = None"
    using stages ro dl off ts
    by (auto simp: open_stages_def Let_def split: option.splits)
  have e': "en_framer e' = en_framer e" "en_link e' = en_link e" "en_reassembler e' = en_reassembler e"
    "en_backend e' = en_backend e" "en_tx_period e' = en_tx_period e" "en_rx_period e' = en_rx_period e"
    "en_playout e' = Some ?b" "en_control e' = ?control" "en_resampler e' = set_ratio (Real 1) r"
    "en_delay_line e' = d1" "en_test_signal e' = t"
    using stages ro dl off ts none by (auto simp: open_stages_def fresh_run_def Let_def)
  obtain s where s: "r = Some s" "resampler_ok s" "rs_config s = ?rc"
    using resampler_open_ok ro none(1) by blast
  have "feeds ?b s"
    using pb(1) s(3) assms(5) by (simp add: feeds_def playout_init_def period_bytes_def period_samples_def)
  then obtain s0 where s0: "set_ratio (Real 1) r = Some s0" "resampler_ok s0" "feeds ?b s0" "rs_config s0 = ?rc"
    using set_ratio_keeps [OF s(2), of ?b "Real 1"] s(1,3) by metis
  have d: "delay_ok d" "remembers d []" "frame_bytes d = af_channels ?format * af_sample_bytes ?format"
    "dl_config d = ?dc"
    using open_ok [OF dl [unfolded none]] by simp_all
  note d1 = set_offset_keeps [OF off d(1,2)]
  have t: "test_ok t" "ts_open t" "ts_config t = ?tc"
    using test_open_ok [OF ts [unfolded none]] ts none vf(4)
    by (auto simp: test_open_def split: if_splits)
  have "clock_ok p e'"
    using assms(9,10) e' s0 control by (simp add: clock_ok_def)
  moreover have "egress_ok e'" using e' d d1 t by (auto simp: egress_ok_def Let_def)
  ultimately have "engine_ok p runs e'"
    using assms(2-8) e' by (simp add: engine_ok_def buffers_ok_def)
  then show ?thesis using e' pb(2) by simp
qed

lemma engine_open_running:
  assumes opened: "engine_open p now e = Some (e', None)" and "prepared e"
    and "af_sample_bytes (en_format e) = 3"
    and "p_samplerate p = Some src" "keeps_to_request src (af_channels (en_format e))"
    and "to_lower (lc_mode (cf_link (en_config e))) \<noteq> ''loopback''"
    and "en_reassembler e = reassembler_init"
  shows "en_framer e' = en_framer e"
    and "peer_contract p sent audio (en_framer e') \<Longrightarrow> running sent audio e'"
proof -
  obtain b where b: "en_backend e = Some b" using assms(2) by (auto simp: prepared_def)
  have li: "en_link e = Some link_init" using assms(2) by (simp add: prepared_def)
  obtain l w x where o: "link_open (p_srt p) (p_with_srt p) (p_show_int p) (real_of_int now) (en_config e)
      (set_abort_flag True link_init) (en_world e) = Some (l, w, x)"
    using opened li by (auto simp: engine_open_def)
  have lk: "l_mode l \<noteq> ''loopback''" "l_queue l = []"
    using link_open_link [OF o assms(6)] by (simp_all add: set_abort_flag_def link_init_def)
  obtain l1 w1 where bd: "bound_link p l w = (l1, w1)" by (cases "bound_link p l w")
  define m where "m = (if x = None then l1 else l)"
  have m: "l_mode m \<noteq> ''loopback''" "l_queue m = []" using bound_link_fields [OF bd] lk by (simp_all add: m_def)
  obtain b' y where dev: "be_open (p_device p) now (en_format e) b = (b', y)"
    by (cases "be_open (p_device p) now (en_format e) b")
  define e2 where "e2 = e\<lparr>en_stop_requested := False, en_link := Some m,
      en_world := (if x = None then w1 else w), en_backend := Some b'\<rparr>"
  have y: "y = None" and stages: "open_stages p e2 = (e', None)"
    using opened li o bd b dev
    by (auto simp: engine_open_def e2_def m_def Let_def split: if_splits option.splits prod.splits)
  have "runs (en_format e) b'" using open_runs dev y by simp
  then have k: "engine_ok p runs e'" "en_framer e' = en_framer e" "en_link e' = Some m"
    "en_reassembler e' = reassembler_init" "\<And>q. contents (the (en_playout e')) q = None"
    using open_stages_ok [OF stages, of m b' src] assms(2-5,7)
    by (simp_all add: e2_def prepared_def buffers_ok_def)
  then show "en_framer e' = en_framer e" by simp
  assume "peer_contract p sent audio (en_framer e')"
  then have "receives p sent audio e'"
    using k m rs_inv_init [of sent UNIV] by (simp add: receives_def)
  then show "running sent audio e'" using k m assms(6) by (simp add: running_def no_loopback_def)
qed

lemma reaches_running:
  assumes "engine_reaches p e e'" "running sent audio e"
  shows "running sent audio e'"
  using assms unfolding engine_reaches_def by (induction rule: rtranclp_induct) (auto intro: step_running)

end

text \<open>An engine over the null backend opens into the contract; one over the Core Audio region keeps it.\<close>

interpretation null_engine: opening_engine "p\<lparr>p_device := null_backend\<rparr>" null_runs for p
proof (unfold_locales, goal_cases)
  case (1 format s now memory frames s' memory' r)
  then show ?case using null.read_runs by simp
next
  case (2 format s now memory frames s' memory' r)
  then show ?case using null.read_length by simp
next
  case (3 format s now source frames s' r)
  then show ?case using null.write_runs by simp
next
  case (4 now format b b')
  then show ?case using null_open_runs by (simp add: null_backend_def)
qed

interpretation hal_engine: driven_engine "p\<lparr>p_device := hal_backend api memory_at\<rparr>" hal_runs
  for p api memory_at
proof (unfold_locales, goal_cases)
  case (1 format s now memory frames s' memory' r)
  then show ?case using hal.read_runs by simp
next
  case (2 format s now memory frames s' memory' r)
  then show ?case using hal.read_length by simp
next
  case (3 format s now source frames s' r)
  then show ?case using hal.write_runs by simp
qed

subsection \<open>Properties\<close>

text \<open>An engine that a validated 24-bit configuration prepared and that then opened.\<close>

definition opened ::
  "('e, 'd, 's, 'b, 'x, 'w) platform \<Rightarrow> config \<Rightarrow> 'w \<Rightarrow> ('e, 'd, 's, 'b, 'w) engine \<Rightarrow> bool" where
  "opened p config w e \<longleftrightarrow> validate config = None \<and> ints_fit config
     \<and> ac_format (cf_audio config) \<noteq> ''s16_le''
     \<and> to_lower (lc_mode (cf_link config)) \<noteq> ''loopback''
     \<and> (\<exists>e0 now. prepare p config (engine_init w) = (e0, None) \<and> engine_open p now e0 = Some (e, None))"

context opening_engine
begin

lemma opened_running:
  assumes "opened p config w e"
    and "p_samplerate p = Some src" "keeps_to_request src (af_channels (audio_format_from (cf_audio config)))"
    and "peer_contract p sent audio (en_framer e)"
  shows "running sent audio e"
proof -
  obtain e0 now where o: "validate config = None" "ints_fit config" "ac_format (cf_audio config) \<noteq> ''s16_le''"
    "to_lower (lc_mode (cf_link config)) \<noteq> ''loopback''"
    "prepare p config (engine_init w) = (e0, None)" "engine_open p now e0 = Some (e, None)"
    using assms(1) by (auto simp: opened_def)
  note k = prepare_prepared [OF o(5,1,2)]
  have fmt: "en_format e0 = audio_format_from (cf_audio config)"
    using k(1,2) by (simp add: prepared_def framer_ready_def)
  have three: "af_sample_bytes (en_format e0) = 3" using o(3) by (simp add: fmt audio_format_from_def)
  show ?thesis
    by (rule engine_open_running(2) [OF o(6) k(1) three assms(2) _ _ _ assms(4)])
      (use assms(3) k o fmt in \<open>simp_all add: engine_init_def\<close>)
qed

end

text \<open>
  A platform the witnesses use: a connection that opens and gives the messages of a list, one per call,
  and then is quiet; a converter that copies; the null backend.
\<close>

definition relay_api :: "bytes list \<Rightarrow> nat srt_api" where
  "relay_api ms = \<lparr>srt_create = (\<lambda>w. (w, Some 1)), srt_close = (\<lambda>s w. w),
     srt_setsockopt = (\<lambda>s option w. (w, True)), srt_bind = (\<lambda>s port w. (w, True)),
     srt_listen = (\<lambda>s w. (w, True)), srt_accept = (\<lambda>s w. (w, Inl EASYNCRCV)),
     srt_connect = (\<lambda>s host port w. (w, True)), srt_sendmsg = (\<lambda>s data w. (w, Inr (length data))),
     srt_recvmsg = (\<lambda>s n w. if w < length ms then (w + 1, Inr (ms ! w)) else (w, Inl ETIMEOUT)),
     srt_bstats = (\<lambda>s w. (w, None)), inet_pton = (\<lambda>host. True), sleep_20ms = (\<lambda>w. w),
     abort_flag = (\<lambda>w. False)\<rparr>"

definition demo_platform :: "bytes list \<Rightarrow> (unit, unit, unit, null_device, null_error, nat) platform" where
  "demo_platform ms = \<lparr>p_srt = relay_api ms, p_with_srt = True, p_opus = None,
     p_samplerate = Some (unity 16), p_device = null_backend, p_new_backend = (\<lambda>_. null_init),
     p_show_int = (\<lambda>_. []), p_cores = 4, p_can_start = (\<lambda>_. True)\<rparr>"

lemma demo_opening: "opening_engine (demo_platform ms) null_runs"
  using null_engine.opening_engine_axioms [of "demo_platform ms"] by (simp add: demo_platform_def)

lemma demo_format: "audio_format_from (cf_audio muted_config)
    = \<lparr>af_sample_rate = 48000, af_channels = 16, af_period_frames = 48, af_sample_bytes = 3\<rparr>"
  by (simp add: example_framer_defs)

lemma demo_config:
  "length (cf_blocks muted_config) = 2" "ac_channels (cf_audio muted_config) = 16"
  "lc_latency_ms (cf_link muted_config) = 120" "lc_alarm_delay_ms (cf_link muted_config) = 500"
  "to_lower (bc_codec (cf_blocks muted_config ! 0)) \<noteq> ''opus''"
  "to_lower (bc_codec (cf_blocks muted_config ! Suc 0)) \<noteq> ''opus''"
  "lc_mode (cf_link muted_config) = ''rendezvous''" "lc_peer (cf_link muted_config) = ''10.0.0.7:9000''"
  "ec_delay_ms (cf_egress muted_config) = 0" "ec_test_signal_channel (cf_egress muted_config) = -1"
  "ac_format (cf_audio muted_config) = ''s24_3le''" "ints_fit muted_config"
  by (simp_all add: example_framer_defs to_lower_def lower_char_def ints_fit_def fits_def)

lemma demo_prepared: "\<exists>e0. prepare (demo_platform ms) muted_config (engine_init w) = (e0, None)"
  by (simp add: prepare_def Let_def demo_config demo_format k_block_channels_def size_of_int_def
      periods_for_ms_def prepare_codecs.simps upt_rec encoder_workers_def)

lemma demo_link_opens:
  "\<exists>l. link_open (relay_api ms) True show_int now muted_config (set_abort_flag True link_init) 0
     = Some (l, 0, None)
   \<and> l_mode l = ''rendezvous'' \<and> l_opened l \<and> l_socket l = Some 1 \<and> l_queue l = []"
  by (simp add: link_open_def demo_config to_lower_def lower_char_def mark_down_def set_abort_flag_def
      link_init_def establish_def relay_api_def link_options_def connect_peer_def split_example_peer Let_def)

lemma demo_stages:
  assumes "en_config e = muted_config" "en_format e = audio_format_from (cf_audio muted_config)"
  shows "\<exists>e'. open_stages (demo_platform ms) e = (e', None)"
proof -
  obtain r where r: "resampler_open (Some (unity 16)) \<lparr>rc_converter = sinc_medium, rc_channels = 16,
      rc_rate = 48000, rc_period_frames = 48\<rparr> = (r, None)"
    by (simp add: resampler_open_def unity_def Let_def)
  let ?dc = "default_delay\<lparr>dc_channels := 16, dc_sample_rate := 48000, dc_period_frames := 48,
      dc_sample_bytes := 3, dc_capacity_ms := k_max_egress_delay_ms\<rparr>"
  obtain d where d: "delay_open ?dc (en_delay_line e) = (d, None)"
    by (simp add: delay_open_def default_delay_def k_max_egress_delay_ms_def Let_def)
  then have "dl_config d = ?dc" by (rule open_ok)
  then have "\<exists>d1. set_offset_ms (Real 0) d = (d1, None)"
    using d by (auto simp: set_offset_ms_def delay_open_def Let_def delay_capacity_ms_def k_max_egress_delay_ms_def default_delay_def
        frames_for_ms_def delay_is_open_def split: if_splits)
  then obtain d1 where d1: "set_offset_ms (Real 0) d = (d1, None)" by blast
  obtain t where t: "test_open (default_test\<lparr>tc_channels := 16, tc_sample_rate := 48000, tc_period_frames := 48,
      tc_sample_bytes := 3, tc_channel := -1\<rparr>) (en_test_signal e) = (t, None)"
    using channel_cast [of 16] by (simp add: test_open_def default_test_def)
  show ?thesis
    using r d d1 t by (simp add: open_stages_def assms demo_format demo_config demo_platform_def Let_def)
qed

lemma demo_opened: "\<exists>e. opened (demo_platform ms) muted_config 0 e"
proof -
  obtain e0 where p: "prepare (demo_platform ms) muted_config (engine_init 0) = (e0, None)"
    using demo_prepared by blast
  note k = prepare_prepared [OF p muted_config_valid demo_config(12)]
  have b: "en_backend e0 = Some null_init" "en_link e0 = Some link_init" "en_world e0 = 0"
    using p by (auto simp: prepare_def engine_init_def demo_platform_def Let_def split: if_splits sum.splits prod.splits)
  have fmt: "en_format e0 = audio_format_from (cf_audio muted_config)"
    using k(1,2) by (simp add: prepared_def framer_ready_def)
  obtain l where l: "link_open (relay_api ms) True (\<lambda>_. []) 0 muted_config (set_abort_flag True link_init) 0
      = Some (l, 0, None)"
    using demo_link_opens by blast
  obtain l1 w1 where bd: "bound_link (demo_platform ms) l 0 = (l1, w1)" by (cases "bound_link (demo_platform ms) l 0")
  obtain d where d: "null_open 0 (en_format e0) null_init = (d, None)"
    by (simp add: fmt demo_format null_open_def Let_def)
  let ?e2 = "e0\<lparr>en_stop_requested := False, en_link := Some l1, en_world := w1, en_backend := Some d\<rparr>"
  obtain e where "open_stages (demo_platform ms) ?e2 = (e, None)"
    using demo_stages [of ?e2] k(2) fmt by auto
  then have "engine_open (demo_platform ms) 0 e0 = Some (e, None)"
    using l bd d b k(2)
    by (simp add: engine_open_def Let_def demo_platform_def null_backend_def)
  then show ?thesis
    using p demo_config to_lower_def muted_config_valid by (auto simp: opened_def lower_char_def)
qed

lemma demo_facts:
  assumes "opened (demo_platform ms) muted_config 0 e"
  shows "en_config e = muted_config" and "en_format e = audio_format_from (cf_audio muted_config)"
    and "fr_link_id (en_framer e) = 0" and "en_reassembler e = reassembler_init"
    and "en_sample_position e = 0" and "en_sequence e = 0" and "en_playing e = False"
    and "en_reset_requested e = False" and "en_target_periods e = 120"
    and "en_prime_deadline_periods e = 500" and "en_priming_periods e = 0"
    and "en_playout e = Some (playout_init 1001 (en_format e))" and "en_world e = 0"
    and "\<exists>l. en_link e = Some l \<and> l_mode l = ''rendezvous'' \<and> l_opened l \<and> l_socket l = Some 1 \<and> l_queue l = []"
    and "en_stop_requested e = False"
proof -
  obtain e0 now where o: "prepare (demo_platform ms) muted_config (engine_init 0) = (e0, None)"
    "engine_open (demo_platform ms) now e0 = Some (e, None)"
    using assms by (auto simp: opened_def)
  have f: "fr_config (en_framer e0) = muted_config" "fr_format (en_framer e0) = audio_format_from (cf_audio muted_config)"
    "fr_link_id (en_framer e0) = 0"
    using prepare_prepared(1,2,4) [OF o(1) muted_config_valid demo_config(12)]
    by (simp_all add: prepared_def framer_ready_def engine_init_def)
  have e0: "en_reassembler e0 = reassembler_init" "en_sample_position e0 = 0" "en_sequence e0 = 0"
    "en_reset_requested e0 = False" "en_target_periods e0 = 120" "en_world e0 = 0" "en_link e0 = Some link_init"
    using o(1) demo_config demo_format
    by (auto simp: prepare_def engine_init_def periods_for_ms_def Let_def split: if_splits sum.splits prod.splits)
  obtain l where l: "link_open (relay_api ms) True (\<lambda>_. []) (real_of_int now) muted_config
      (set_abort_flag True link_init) 0 = Some (l, 0, None)"
    "l_mode l = ''rendezvous''" "l_opened l" "l_socket l = Some 1" "l_queue l = []"
    using demo_link_opens [of ms "\<lambda>_. []" "real_of_int now"] by blast
  have bd: "bound_link (demo_platform ms) l 0 = (l\<lparr>l_receive_timeout_ms := k_receive_poll_ms\<rparr>, 0)"
    using l(4) by (simp add: bound_link_def set_receive_timeout_ms_def set_send_timeout_ms_def
        set_nonblocking_def demo_platform_def relay_api_def)
  obtain b where "open_stages (demo_platform ms)
      (e0\<lparr>en_stop_requested := False, en_link := Some (l\<lparr>l_receive_timeout_ms := k_receive_poll_ms\<rparr>),
          en_world := 0, en_backend := Some b\<rparr>) = (e, None)"
    using o(2) l(1) bd e0(6,7) f(1)
    by (auto simp: engine_open_def demo_platform_def Let_def split: if_splits option.splits prod.splits)
  then have "en_framer e = en_framer e0" "en_reassembler e = en_reassembler e0"
    "en_sample_position e = en_sample_position e0" "en_sequence e = en_sequence e0" "\<not> en_playing e"
    "en_reset_requested e = en_reset_requested e0" "en_target_periods e = en_target_periods e0"
    "en_priming_periods e = 0" "en_world e = 0" "\<not> en_stop_requested e"
    "en_link e = Some (l\<lparr>l_receive_timeout_ms := k_receive_poll_ms\<rparr>)"
    "en_prime_deadline_periods e = periods_for_ms (lc_alarm_delay_ms (cf_link (en_config e0))) (en_format e0)"
    "en_playout e = Some (playout_init (playout_capacity e0) (en_format e0))"
    by (auto simp: open_stages_def fresh_run_def playout_capacity_def Let_def split: prod.splits option.splits)
  then show "en_config e = muted_config" "en_format e = audio_format_from (cf_audio muted_config)"
    "fr_link_id (en_framer e) = 0" "en_reassembler e = reassembler_init"
    "en_sample_position e = 0" "en_sequence e = 0" "en_playing e = False"
    "en_reset_requested e = False" "en_target_periods e = 120"
    "en_prime_deadline_periods e = 500" "en_priming_periods e = 0"
    "en_playout e = Some (playout_init 1001 (en_format e))" "en_world e = 0"
    "\<exists>l. en_link e = Some l \<and> l_mode l = ''rendezvous'' \<and> l_opened l \<and> l_socket l = Some 1 \<and> l_queue l = []"
    "en_stop_requested e = False"
    using e0 f l demo_config(4) by (simp_all add: periods_for_ms_def demo_format playout_capacity_def)
qed

lemma demo_peer:
  assumes "opened (demo_platform []) muted_config 0 e"
  shows "peer_contract (demo_platform []) (\<lambda>_. None) audio (en_framer e)"
  using demo_facts(1) [OF assms] example_framer_pcm(2)
  by (simp add: peer_contract_def demo_platform_def relay_api_def example_framer_def)

lemma run_facts:
  assumes "opening_engine p runs" and "opened p config w e0" and "engine_reaches p e0 e"
    and "p_samplerate p = Some src" "keeps_to_request src (af_channels (audio_format_from (cf_audio config)))"
    and "peer_contract p sent audio (en_framer e0)"
  shows "engine_ok p runs e" and "receives p sent audio e"
    and "\<exists>e' r. step_receive p now e = Some (e', r)"
proof -
  have driven: "driven_engine p runs" by (rule opening_engine.axioms(1) [OF assms(1)])
  have "driven_engine.running p runs sent audio e"
    using opening_engine.reaches_running [OF assms(1,3) opening_engine.opened_running [OF assms(1,2,4,5,6)]] .
  then show "engine_ok p runs e" "receives p sent audio e"
    by (simp_all add: driven_engine.running_def [OF driven])
  then show "\<exists>e' r. step_receive p now e = Some (e', r)"
    using driven_engine.step_receive_keeps [OF driven] by blast
qed


lemma demo_samplerate: "p_samplerate (demo_platform ms) = Some (unity 16)"
  "keeps_to_request (unity 16) (af_channels (audio_format_from (cf_audio muted_config)))"
  using unity_keeps [of 16] by (simp_all add: demo_platform_def demo_format)

lemma demo_stop: "engine_reaches (demo_platform ms) e (engine_stop e)"
  unfolding engine_reaches_def by (rule r_into_rtranclp) (rule step_stop)


end
