(* ===== verification/EngineDelivery.thy ===== *)
theory EngineDelivery
  imports EngineRun
begin

text \<open>
  A period from one end to the other.

  A transmit turn makes one frame of the device's period and hands its fragments to the link; when
  a link gives those fragments, in order, to an engine, its receive turn puts exactly that period in
  the playout buffer at the sender's position. \<open>delivers\<close> says that a link does; the in-process
  loopback does, and so does a connection on which nothing was lost.
\<close>

subsection \<open>A frame arrives\<close>

text \<open>What feeding the next fragment of a frame leaves: the first starts it, the others continue it.\<close>

definition partway :: "reassembler \<Rightarrow> bytes \<Rightarrow> u32 \<Rightarrow> nat \<Rightarrow> reassembler" where
  "partway r data seq k = (if k = 0 then r else after_fragments r data seq k)"

lemma feed_partway:
  assumes k: "k < fragment_count (length data)"
    and free: "\<not> (r_assembling r \<and> r_frame_sequence r = seq)"
  shows "feed (partway r data seq k) (Some (fragment_at data seq k)) = (partway r data seq (Suc k), None)"
proof -
  have n: "fragment_count (length data) \<noteq> 0" using k by simp
  have "fst (feed (partway r data seq k) (Some (fragment_at data seq k))) = partway r data seq (Suc k)"
    using feed_first [OF _ free, of data] feed_next [OF k, of r seq] k by (auto simp: partway_def)
  moreover have "snd (feed (partway r data seq k) (Some (fragment_at data seq k))) = None"
  proof (cases "k = 0")
    case True
    then show ?thesis
      using read_fragment_at [OF n k, of seq] free by (auto simp: partway_def feed_def Let_def resync_def)
  next
    case False
    then show ?thesis
      using k read_fragment_at [OF n k, of seq]
      by (simp add: partway_def feed_def Let_def resync_def after_fragments_def)
  qed
  ultimately show ?thesis by (metis prod.collapse)
qed

lemma partway_ready:
  "0 < k \<Longrightarrow> k \<le> fragment_count (length data) \<Longrightarrow>
     frame_ready (partway r data seq k) = (k = fragment_count (length data))"
  by (simp add: partway_def frame_ready_def after_fragments_def)

fun delivers ::
  "'w srt_api \<Rightarrow> bool \<Rightarrow> bytes list \<Rightarrow> link \<Rightarrow> 'w \<Rightarrow> link \<Rightarrow> 'w \<Rightarrow> bool" where
  "delivers api with_srt [] l w l' w' \<longleftrightarrow> l' = l \<and> w' = w"
| "delivers api with_srt (m # ms) l w l' w' \<longleftrightarrow>
     (case receive_message api with_srt l w of
        (l1, w1, Received m1) \<Rightarrow> m1 = m \<and> delivers api with_srt ms l1 w1 l' w'
      | _ \<Rightarrow> False)"

lemma loopback_delivers:
  "l_mode l = ''loopback'' \<Longrightarrow> l_queue l = ms @ rest \<Longrightarrow>
     delivers api with_srt ms l w (l\<lparr>l_queue := rest\<rparr>) w"
proof (induction ms arbitrary: l)
  case (Cons m ms)
  have "delivers api with_srt ms (l\<lparr>l_queue := ms @ rest\<rparr>) w (l\<lparr>l_queue := rest\<rparr>) w"
    using Cons.IH [of "l\<lparr>l_queue := ms @ rest\<rparr>"] Cons.prems(1) by simp
  then show ?case using Cons.prems by (simp add: receive_message_def)
qed simp

lemma drain_partway:
  assumes free: "\<not> (r_assembling r \<and> r_frame_sequence r = seq)"
  shows "k < fragment_count (length data) \<Longrightarrow> fragment_count (length data) \<le> k + budget \<Longrightarrow>
    en_link e = Some l \<Longrightarrow> en_reassembler e = partway r data seq k \<Longrightarrow>
    delivers (p_srt p) (p_with_srt p) (map (fragment_at data seq) [k..<fragment_count (length data)])
      l (en_world e) l' w' \<Longrightarrow>
    drain_messages p budget e = (e\<lparr>en_link := Some l', en_world := w',
      en_reassembler := partway r data seq (fragment_count (length data))\<rparr>, Inr True)"
proof (induction budget arbitrary: k e l)
  case (Suc budget)
  let ?n = "fragment_count (length data)"
  have ms: "map (fragment_at data seq) [k..<?n] = fragment_at data seq k # map (fragment_at data seq) [Suc k..<?n]"
    using Suc.prems(1) by (simp add: upt_conv_Cons)
  obtain l1 w1 where m: "receive_message (p_srt p) (p_with_srt p) l (en_world e)
      = (l1, w1, Received (fragment_at data seq k))"
    "delivers (p_srt p) (p_with_srt p) (map (fragment_at data seq) [Suc k..<?n]) l1 w1 l' w'"
    using Suc.prems(5) unfolding ms by (auto split: prod.splits receive_result.splits)
  define e2 where "e2 = e\<lparr>en_link := Some l1, en_world := w1, en_reassembler := partway r data seq (Suc k)\<rparr>"
  have step: "drain_messages p (Suc budget) e = (if Suc k = ?n then (e2, Inr True) else drain_messages p budget e2)"
    using m(1) Suc.prems(1,3,4) feed_partway [OF Suc.prems(1) free] partway_ready [of "Suc k" data r seq]
    by (simp add: e2_def Let_def)
  show ?case
  proof (cases "Suc k = ?n")
    case True
    then show ?thesis using step m(2) by (simp add: e2_def)
  next
    case False
    then have "drain_messages p budget e2 = (e2\<lparr>en_link := Some l', en_world := w',
        en_reassembler := partway r data seq ?n\<rparr>, Inr True)"
      by (intro Suc.IH [of "Suc k" e2 l1]) (use Suc.prems m(2) in \<open>simp_all add: e2_def\<close>)
    then show ?thesis using step False by (simp add: e2_def)
  qed
qed simp

lemma drain_delivers:
  assumes "\<not> (r_assembling (en_reassembler e) \<and> r_frame_sequence (en_reassembler e) = seq)"
    and "fragment_count (length data) \<noteq> 0" "fragment_count (length data) \<le> budget" "en_link e = Some l"
    and "delivers (p_srt p) (p_with_srt p) (fragments data seq) l (en_world e) l' w'"
  shows "drain_messages p budget e = (e\<lparr>en_link := Some l', en_world := w',
      en_reassembler := after_fragments (en_reassembler e) data seq (fragment_count (length data))\<rparr>, Inr True)"
  using drain_partway [OF assms(1), of 0 data budget e l p l' w'] assms(2-5)
  by (simp add: partway_def fragments_eq)

text \<open>A link that is quiet ends the turn.\<close>

lemma receive_quiet:
  assumes "receive_message (p_srt p) (p_with_srt p) (the (en_link e)) (en_world e) = (l, w, TimedOut)"
  shows "receive_frames p (Suc n) e = (e\<lparr>en_link := Some l, en_world := w\<rparr>, None)"
  using assms by (simp add: k_max_messages_per_period_def numeral_eq_Suc)

lemma receive_one_frame:
  assumes free: "\<not> (r_assembling (en_reassembler e) \<and> r_frame_sequence (en_reassembler e) = seq)"
    and n: "fragment_count (length data) \<noteq> 0" "fragment_count (length data) \<le> 24" and "en_link e = Some l"
    and "delivers (p_srt p) (p_with_srt p) (fragments data seq) l (en_world e) l' w'"
  shows "\<exists>ra. \<not> r_assembling ra \<and> \<not> r_ready ra \<and> receive_frames p (Suc turns) e
      = receive_frames p turns (accept_frame p data
          (e\<lparr>en_link := Some l', en_world := w', en_reassembler := ra\<rparr>))"
proof -
  let ?a = "after_fragments (en_reassembler e) data seq (fragment_count (length data))"
  have d: "drain_messages p k_max_messages_per_period e
      = (e\<lparr>en_link := Some l', en_world := w', en_reassembler := ?a\<rparr>, Inr True)"
    by (rule drain_delivers [OF free n(1) _ assms(4,5)]) (use n(2) in \<open>simp add: k_max_messages_per_period_def\<close>)
  have buffer: "r_buffer ?a = data" using feed_all_fragments(2) [OF n(1) free] .
  have "data \<noteq> []" using n(1) by (auto simp: fragment_count_def)
  moreover have "r_ready ?a" by (simp add: after_fragments_def)
  ultimately have t: "\<exists>ra. take_frame ?a = (ra, Inr data) \<and> \<not> r_assembling ra \<and> \<not> r_ready ra"
    using buffer by (simp add: take_frame_def frame_ready_def)
  then obtain ra where "take_frame ?a = (ra, Inr data)" "\<not> r_assembling ra" "\<not> r_ready ra" by blast
  then show ?thesis using d \<open>data \<noteq> []\<close> by auto
qed

subsection \<open>A frame leaves\<close>

lemma loopback_sends:
  assumes "l_mode l = ''loopback''" "\<forall>m \<in> set ms. m \<noteq> [] \<and> length m \<le> k_max_message_bytes"
    and "length (l_queue l) + length ms \<le> k_loopback_max_messages"
  shows "send_all api with_srt ms l w = (l\<lparr>l_queue := l_queue l @ ms\<rparr>, w, None)"
  using assms
proof (induction ms arbitrary: l)
  case (Cons m ms)
  have "send_all api with_srt ms (l\<lparr>l_queue := l_queue l @ [m]\<rparr>) w
      = (l\<lparr>l_queue := (l_queue l @ [m]) @ ms\<rparr>, w, None)"
    using Cons.IH [of "l\<lparr>l_queue := l_queue l @ [m]\<rparr>"] Cons.prems by simp
  then show ?case using Cons.prems by (simp add: send_message_def)
qed simp

lemma fragment_sizes:
  "m \<in> set (fragments data seq) \<Longrightarrow> m \<noteq> [] \<and> length m \<le> k_max_message_bytes"
proof (cases "fragment_count (length data) = 0")
  case False
  assume "m \<in> set (fragments data seq)"
  then obtain i where "m = fragment_at data seq i" by (auto simp: fragments_eq [OF False])
  then show ?thesis by simp (simp add: fragment_at_def k_max_message_bytes_def)
qed (simp add: fragments_none)

text \<open>A PCM configuration has periods of a millisecond, so a frame is eight messages at most.\<close>

lemma pcm_period:
  assumes "framer_ready f" "pcm_only (fr_config f)"
  shows "af_period_frames (fr_format f) = 48"
proof -
  have "validate_audio (cf_audio (fr_config f)) (cf_blocks (fr_config f)) = None"
    using assms(1) by (simp add: framer_ready_def validate_None)
  moreover have "\<not> list_ex (\<lambda>block. to_lower (bc_codec block) = ''opus'') (cf_blocks (fr_config f))"
    using assms(2) by (auto simp: pcm_only_def list_ex_iff)
  ultimately have "ac_period_frames (cf_audio (fr_config f)) = 48"
    by (auto simp: validate_audio_def Let_def split: if_splits)
  then show ?thesis using assms(1) by (simp add: framer_ready_def audio_format_from_def)
qed

lemma packed_size:
  assumes "framer_ready f" "pcm_only (fr_config f)" "encode frame = Inr data"
    and "list_all2 (\<lambda>c b. packed_block (fr_format f) c period b) (cf_blocks (fr_config f)) (f_blocks frame)"
  shows "fragment_count (length data) \<noteq> 0" "fragment_count (length data) \<le> 8"
proof -
  note r = readyD [OF assms(1)]
  have len: "length (f_blocks frame) = length (cf_blocks (fr_config f))" using assms(4) by (simp add: list_all2_lengthD)
  have "length (b_data b) \<le> 1152" if b: "b \<in> set (f_blocks frame)" for b
  proof -
    obtain i where i: "i < length (f_blocks frame)" "b = f_blocks frame ! i" using b by (metis in_set_conv_nth)
    have "packed_block (fr_format f) (cf_blocks (fr_config f) ! i) period b"
      using list_all2_nthD2 [OF assms(4) i(1)] i(2) by simp
    then have "length (b_data b) = 48 * 8 * af_sample_bytes (fr_format f)"
      using pcm_period [OF assms(1,2)] by (simp add: packed_block_def)
    then show ?thesis using r(3) by auto
  qed
  then have "sum_list (map (\<lambda>b. k_block_header_bytes + length (b_data b)) (f_blocks frame))
      \<le> sum_list (map (\<lambda>b. k_block_header_bytes + 1152) (f_blocks frame))"
    by (intro sum_list_mono) simp
  also have "\<dots> = length (f_blocks frame) * 1160"
    by (simp add: sum_list_triv k_block_header_bytes_def)
  also have "\<dots> \<le> 8 * 1160" using len r(7) by simp
  finally have "length data \<le> 9320"
    using length_encode [OF assms(3)] by (simp add: encoded_size_def k_frame_header_bytes_def k_checksum_bytes_def)
  moreover have some: "1 \<le> length data"
    using length_encode [OF assms(3)] by (simp add: encoded_size_def k_frame_header_bytes_def)
  ultimately have "(length data + 1307) div 1308 \<le> (9320 + 1307) div 1308"
      "1308 div 1308 \<le> (length data + 1307) div 1308"
    by (intro div_le_mono; simp)+
  then show "fragment_count (length data) \<noteq> 0" "fragment_count (length data) \<le> 8"
    using some by (auto simp: fragment_count_def Let_def)
qed

context driven_engine
begin

lemma transmit_pcm:
  assumes ok: "engine_ok p runs e" and pcm: "pcm_only (en_config e)"
    and b: "en_backend e = Some b" and l: "en_link e = Some l"
    and rd: "be_read (p_device p) now (en_tx_period e) (af_period_frames (en_format e)) b = (b', period, None)"
  obtains levelled frame data pcms where
    "apply_block_levels (Some period) (en_format e) (cf_blocks (en_config e)) = Some levelled"
    "length levelled = period_bytes (en_format e)"
    "decode (Some data) = Inr frame" "f_sample_position frame = en_sample_position e"
    "f_link_id frame = fr_link_id (en_framer e)"
    "list_all2 (\<lambda>c b. packed_block (en_format e) c levelled b) (cf_blocks (en_config e)) (f_blocks frame)"
    "fragment_count (length data) \<noteq> 0" "fragment_count (length data) \<le> 8"
    "\<And>l' w'. send_all (p_srt p) (p_with_srt p) (fragments data (ucast (en_sequence e))) l (en_world e)
        = (l', w', None) \<Longrightarrow>
      step_transmit p now e = (e\<lparr>en_backend := Some b', en_tx_period := levelled,
        en_framer := (en_framer e)\<lparr>fr_tx_block_pcm := pcms\<rparr>, en_link := Some l', en_world := w',
        en_sequence := en_sequence e + 1,
        en_sample_position := en_sample_position e + of_nat (af_period_frames (en_format e)),
        en_frames_sent := en_frames_sent e + 1\<rparr>, None)"
proof -
  note k = engine_okD [OF ok]
  have run: "runs (en_format e) b" using ok b by (auto simp: engine_ok_def)
  have pl: "length period = period_bytes (en_format e)"
    using read_length [OF run rd] k(5) by (simp add: period_bytes_frames)
  obtain y where y: "apply_block_levels (Some period) (en_format e) (cf_blocks (en_config e)) = Some y"
    "length y = period_bytes (en_format e)"
    using levels_length [OF k(4,3) pl] by blast
  obtain pcms packed where pk: "pack_period (p_opus p) (Some y) (en_sample_position e) (en_framer e)
      = ((en_framer e)\<lparr>fr_tx_block_pcm := pcms\<rparr>, Inr packed)"
    "f_link_id packed = fr_link_id (en_framer e)" "f_sample_position packed = en_sample_position e"
    "list_all2 (\<lambda>c b. packed_block (en_format e) c y b) (cf_blocks (en_config e)) (f_blocks packed)"
    using pack_period_pcm [OF k(1) pcm y(2)] by blast
  define frame where "frame = packed\<lparr>f_sequence := en_sequence e\<rparr>"
  have fr: "f_link_id frame = fr_link_id (en_framer e)" "f_sample_position frame = en_sample_position e"
    "f_sequence frame = en_sequence e"
    "list_all2 (\<lambda>c b. packed_block (en_format e) c y b) (cf_blocks (en_config e)) (f_blocks frame)"
    using pk by (simp_all add: frame_def)
  obtain data where data: "encode frame = Inr data" using encode_InrI [OF packed_wf [OF k(1) fr(4)]] by blast
  note n = packed_size [OF k(1) pcm data fr(4)]
  have step: "step_transmit p now e = (e\<lparr>en_backend := Some b', en_tx_period := y,
        en_framer := (en_framer e)\<lparr>fr_tx_block_pcm := pcms\<rparr>, en_link := Some l', en_world := w',
        en_sequence := en_sequence e + 1,
        en_sample_position := en_sample_position e + of_nat (af_period_frames (en_format e)),
        en_frames_sent := en_frames_sent e + 1\<rparr>, None)"
    if "send_all (p_srt p) (p_with_srt p) (fragments data (ucast (en_sequence e))) l (en_world e) = (l', w', None)"
    for l' w'
    using rd b l y(1) pk(1) data that fr(3) by (simp add: step_transmit_def Let_def flip: frame_def)
  show ?thesis
    by (rule that [OF y decode_encode_aux [OF data] fr(2,1,4) n step])
qed

text \<open>A turn in which the link gives one frame and is quiet then.\<close>

lemma receive_packed:
  assumes ok: "engine_ok p runs e" and order: "in_order (en_config e)"
    and free: "\<not> (r_assembling (en_reassembler e) \<and> r_frame_sequence (en_reassembler e) = seq)"
    and l: "en_link e = Some l"
    and frame: "decode (Some data) = Inr frame" "f_link_id frame = fr_link_id (en_framer e)"
    and packed: "list_all2 (\<lambda>c b. packed_block (en_format e) c period b) (cf_blocks (en_config e)) (f_blocks frame)"
    and len: "length period = period_bytes (en_format e)"
    and n: "fragment_count (length data) \<noteq> 0" "fragment_count (length data) \<le> 24"
    and arrives: "delivers (p_srt p) (p_with_srt p) (fragments data seq) l (en_world e) l' w'"
    and quiet: "receive_message (p_srt p) (p_with_srt p) l' w' = (l'', w'', TimedOut)"
    and pushed: "push (the (en_playout e)) (unat (f_sample_position frame)) (Some period) = (b', status)"
  shows "\<exists>ra. \<not> r_assembling ra \<and> receive_into_buffer p e =
      ((let e1 = e\<lparr>en_rx_period := period, en_playout := Some b', en_link := Some l'', en_world := w'',
              en_reassembler := ra\<rparr> in
        if status = stored \<or> status = overrun then e1\<lparr>en_frames_received := en_frames_received e + 1\<rparr>
        else e1\<lparr>en_frames_refused := en_frames_refused e + 1\<rparr>), None)"
proof -
  obtain ra where ra: "\<not> r_assembling ra" "receive_frames p (Suc 7) e
      = receive_frames p 7 (accept_frame p data (e\<lparr>en_link := Some l', en_world := w', en_reassembler := ra\<rparr>))"
    using receive_one_frame [OF free n l arrives] by blast
  let ?e1 = "e\<lparr>en_link := Some l', en_world := w', en_reassembler := ra\<rparr>"
  have ok1: "engine_ok p runs ?e1"
    using ok by (simp add: engine_ok_def buffers_ok_def clock_ok_def egress_ok_def Let_def)
  have acc: "accept_frame p data ?e1 =
      (let e1 = ?e1\<lparr>en_rx_period := period, en_playout := Some b'\<rparr> in
       if status = stored \<or> status = overrun then e1\<lparr>en_frames_received := en_frames_received e1 + 1\<rparr>
       else e1\<lparr>en_frames_refused := en_frames_refused e1 + 1\<rparr>)"
    by (rule accept_packed(1) [OF ok1 frame(1)]) (use order frame(2) packed len pushed in simp_all)
  have link: "en_link (accept_frame p data ?e1) = Some l'" "en_world (accept_frame p data ?e1) = w'"
    by (simp_all add: acc Let_def)
  have "receive_into_buffer p e = receive_frames p (Suc 6) (accept_frame p data ?e1)"
    using ra(2) by (simp add: receive_into_buffer_def k_max_frames_per_period_def numeral_eq_Suc del: receive_frames.simps)
  also have "\<dots> = ((accept_frame p data ?e1)\<lparr>en_link := Some l'', en_world := w''\<rparr>, None)"
    by (rule receive_quiet) (use quiet link in simp)
  finally show ?thesis using ra(1) by (auto simp: acc Let_def)
qed

text \<open>A period around the in-process loopback.\<close>

lemma loop_period:
  assumes ready: "engine_ok p runs e" "pcm_only (en_config e)" "in_order (en_config e)"
    "l_mode (the (en_link e)) = ''loopback''" "l_queue (the (en_link e)) = []"
    "\<not> r_assembling (en_reassembler e)"
    and rd: "be_read (p_device p) now (en_tx_period e) (af_period_frames (en_format e)) (the (en_backend e))
      = (b', period, None)"
  obtains levelled e1 e2 pb status where
    "apply_block_levels (Some period) (en_format e) (cf_blocks (en_config e)) = Some levelled"
    "step_transmit p now e = (e1, None)" "receive_into_buffer p e1 = (e2, None)"
    "push (the (en_playout e)) (unat (en_sample_position e)) (Some levelled) = (pb, status)"
    "en_playout e2 = Some pb" "en_frames_sent e2 = en_frames_sent e + 1"
    "en_sample_position e2 = en_sample_position e + of_nat (af_period_frames (en_format e))"
    "en_frames_received e2 + en_frames_refused e2 = en_frames_received e + en_frames_refused e + 1"
    "status = stored \<or> status = overrun \<longrightarrow> en_frames_received e2 = en_frames_received e + 1"
    "length levelled = period_bytes (en_format e)" "l_queue (the (en_link e2)) = []"
    "\<not> r_assembling (en_reassembler e2)"
proof -
  obtain b l where b: "en_backend e = Some b" and l: "en_link e = Some l"
    using ready(1) by (auto simp: engine_ok_def)
  have rd': "be_read (p_device p) now (en_tx_period e) (af_period_frames (en_format e)) b = (b', period, None)"
    using rd b by simp
  obtain y frame data pcms where t:
    "apply_block_levels (Some period) (en_format e) (cf_blocks (en_config e)) = Some y"
    "length y = period_bytes (en_format e)"
    "decode (Some data) = Inr frame" "f_sample_position frame = en_sample_position e"
    "f_link_id frame = fr_link_id (en_framer e)"
    "list_all2 (\<lambda>c b. packed_block (en_format e) c y b) (cf_blocks (en_config e)) (f_blocks frame)"
    "fragment_count (length data) \<noteq> 0" "fragment_count (length data) \<le> 8"
    "\<And>l' w'. send_all (p_srt p) (p_with_srt p) (fragments data (ucast (en_sequence e))) l (en_world e)
        = (l', w', None) \<Longrightarrow>
      step_transmit p now e = (e\<lparr>en_backend := Some b', en_tx_period := y,
        en_framer := (en_framer e)\<lparr>fr_tx_block_pcm := pcms\<rparr>, en_link := Some l', en_world := w',
        en_sequence := en_sequence e + 1,
        en_sample_position := en_sample_position e + of_nat (af_period_frames (en_format e)),
        en_frames_sent := en_frames_sent e + 1\<rparr>, None)"
    using transmit_pcm [OF ready(1,2) b l rd'] by metis
  let ?ms = "fragments data (ucast (en_sequence e))"
  define e1 where "e1 = e\<lparr>en_backend := Some b', en_tx_period := y,
        en_framer := (en_framer e)\<lparr>fr_tx_block_pcm := pcms\<rparr>, en_link := Some (l\<lparr>l_queue := ?ms\<rparr>),
        en_sequence := en_sequence e + 1,
        en_sample_position := en_sample_position e + of_nat (af_period_frames (en_format e)),
        en_frames_sent := en_frames_sent e + 1\<rparr>"
  have "length ?ms \<le> 8" using t(7,8) by (simp add: fragments_eq)
  then have "send_all (p_srt p) (p_with_srt p) ?ms l (en_world e) = (l\<lparr>l_queue := ?ms\<rparr>, en_world e, None)"
    using loopback_sends [of l ?ms "p_srt p" "p_with_srt p" "en_world e"] ready(4,5) l fragment_sizes
    by (simp add: k_loopback_max_messages_def)
  from t(9) [OF this] have step: "step_transmit p now e = (e1, None)" by (simp add: e1_def)
  have ok1: "engine_ok p runs e1" using step_transmit_keeps [OF ready(1) step] by simp
  obtain pb status where push: "push (the (en_playout e)) (unat (en_sample_position e)) (Some y) = (pb, status)"
    by (cases "push (the (en_playout e)) (unat (en_sample_position e)) (Some y)")
  have arrives: "delivers (p_srt p) (p_with_srt p) ?ms (l\<lparr>l_queue := ?ms\<rparr>) (en_world e)
      (l\<lparr>l_queue := []\<rparr>) (en_world e)"
    using loopback_delivers [of "l\<lparr>l_queue := ?ms\<rparr>" ?ms "[]"] ready(4) l by simp
  have quiet: "receive_message (p_srt p) (p_with_srt p) (l\<lparr>l_queue := []\<rparr>) (en_world e)
      = (l\<lparr>l_queue := []\<rparr>, en_world e, TimedOut)"
    using ready(4) l by (simp add: receive_message_def)
  have "\<exists>ra. \<not> r_assembling ra \<and> receive_into_buffer p e1 =
      ((let e2 = e1\<lparr>en_rx_period := y, en_playout := Some pb, en_link := Some (l\<lparr>l_queue := []\<rparr>),
              en_world := en_world e, en_reassembler := ra\<rparr> in
        if status = stored \<or> status = overrun then e2\<lparr>en_frames_received := en_frames_received e1 + 1\<rparr>
        else e2\<lparr>en_frames_refused := en_frames_refused e1 + 1\<rparr>), None)"
    by (rule receive_packed [OF ok1 _ _ _ t(3) _ _ _ t(7) _ _ quiet])
      (use ready t arrives push in \<open>simp_all add: e1_def\<close>)
  then obtain ra where ra: "\<not> r_assembling ra" "receive_into_buffer p e1 =
      ((let e2 = e1\<lparr>en_rx_period := y, en_playout := Some pb, en_link := Some (l\<lparr>l_queue := []\<rparr>),
              en_world := en_world e, en_reassembler := ra\<rparr> in
        if status = stored \<or> status = overrun then e2\<lparr>en_frames_received := en_frames_received e1 + 1\<rparr>
        else e2\<lparr>en_frames_refused := en_frames_refused e1 + 1\<rparr>), None)" by blast
  show ?thesis
    by (rule that [OF t(1) step ra(2) push]) (use ra(1) t(2) l in \<open>simp_all add: e1_def Let_def\<close>)
qed

end

lemma push_holds:
  assumes "pb_inv b" "pb_period_frames b dvd p" "p \<le> last_position" "length data = pb_period_bytes b"
    and "push b p (Some data) = (b', status)" "status = stored \<or> status = overrun"
  shows "contents b' p = Some data"
proof -
  have "(abs_window b', status) = push_spec (capacity_frames b) (pb_period_frames b) (abs_window b) p data"
    using push_refines_aux [OF assms(1-4)] assms(5) by simp
  then show ?thesis using assms(6)
    by (auto simp: push_spec_def abs_window_def Let_def split: option.splits prod.splits if_splits)
qed

subsection \<open>Properties\<close>

text \<open>
  C1. What an engine is about to play is what its peer sent. At every moment of a run, whatever was
  lost, repeated or reordered on the way, and whatever frames of other links and frames that do not
  decode arrived among them, a period that the playout buffer holds for a position is the peer's
  audio of that position.
\<close>

theorem held_audio_is_the_peers:
  assumes "opening_engine p runs" and "opened p config w e0" and "engine_reaches p e0 e"
    and "p_samplerate p = Some src" "keeps_to_request src (af_channels (audio_format_from (cf_audio config)))"
    and "peer_contract p sent audio (en_framer e0)"
    and "contents (the (en_playout e)) position = Some period"
  shows "period = audio position"
  using run_facts(2) [OF assms(1-6)] assms(7) by (simp add: receives_def)

text \<open>The witness: a peer's frame on the connection, received in the first turn of an opened engine.\<close>

lemma relay_delivers:
  assumes "l_mode l \<noteq> ''loopback''" "l_opened l" "l_socket l = Some s"
  shows "delivers (relay_api (pre @ ms)) True ms l (length pre) l (length (pre @ ms))"
proof (induction ms arbitrary: pre)
  case (Cons m ms)
  have "delivers (relay_api (pre @ m # ms)) True ms l (Suc (length pre)) l (length (pre @ m # ms))"
    using Cons.IH [of "pre @ [m]"] by simp
  then show ?case using assms by (simp add: receive_message_def relay_api_def)
qed simp

lemma relay_quiet:
  assumes "l_mode l \<noteq> ''loopback''" "l_opened l" "l_socket l = Some s"
  shows "receive_message (relay_api ms) True l (length ms) = (l, length ms, TimedOut)"
  using assms by (simp add: receive_message_def relay_api_def)

lemma write_period_playout:
  "write_period_to_device p now e = (e', r) \<Longrightarrow> en_playout e' = en_playout e"
  by (auto simp: write_period_to_device_def apply_requests_def Let_def split: prod.splits sum.splits if_splits option.splits)

lemma play_while_priming:
  assumes "\<not> en_playing e" "held_frames (the (en_playout e)) < en_target_periods e * af_period_frames (en_format e)"
    and "Suc (en_priming_periods e) < en_prime_deadline_periods e"
  shows "\<exists>e' r. play_one_period p now e = Some (e', r) \<and> en_playout e' = en_playout e"
proof -
  obtain e1 where e1: "prime_playout e = (e1, False)" "en_playout e1 = en_playout e"
    using assms by (simp add: prime_playout_def Let_def)
  obtain e' r where w: "write_period_to_device p now e1 = (e', r)" by (cases "write_period_to_device p now e1")
  then show ?thesis using e1 write_period_playout [OF w] by (simp add: play_one_period_def)
qed

lemma advance_two:
  assumes "contiguous < add64 (pb_head b) (capacity_frames b)" "pb_positions b ! slot_of b contiguous = contiguous"
    and "pb_positions b ! slot_of b (add64 contiguous (pb_period_frames b)) \<noteq> add64 contiguous (pb_period_frames b)"
  shows "advance_from b (Suc (Suc n)) contiguous = add64 contiguous (pb_period_frames b)"
  using assms by simp

lemma first_push:
  fixes format :: audio_format
  assumes "0 < af_period_frames format" "af_period_frames format \<le> 2880" "0 < period_bytes format"
    and "length data = period_bytes format"
  shows "\<exists>b. push (playout_init 1001 format) 0 (Some data) = (b, stored)
    \<and> held_frames b = af_period_frames format"
proof -
  let ?n = "af_period_frames format"
  define b0 where "b0 = (playout_init 1001 format)\<lparr>pb_head := 0, pb_contiguous_end := 0, pb_primed := True\<rparr>"
  define b1 where "b1 = b0\<lparr>pb_audio := overwrite 0 data (pb_audio b0), pb_positions := (pb_positions b0)[0 := 0]\<rparr>"
  have small: "add64 0 (1001 * ?n) = 1001 * ?n" "add64 0 ?n = ?n" "?n \<noteq> k_empty"
    using assms(2) by (simp_all add: add64_small k_empty_def)
  have b0: "pb_head b0 = 0" "pb_contiguous_end b0 = 0" "capacity_frames b0 = 1001 * ?n"
    "pb_positions b0 ! 0 = k_empty" "slot_of b0 0 = 0" "pb_pushed b0 = 0" "pb_period_bytes b0 = period_bytes format"
    "pb_period_frames b0 = ?n"
    by (simp_all add: b0_def playout_init_def capacity_frames_def slot_of_def)
  have b1: "pb_head b1 = 0" "pb_contiguous_end b1 = 0" "capacity_frames b1 = 1001 * ?n" "pb_period_frames b1 = ?n"
    "pb_positions b1 ! 0 = 0" "pb_positions b1 ! 1 = k_empty" "slot_of b1 0 = 0" "slot_of b1 ?n = 1" "pb_pushed b1 = 0"
    using assms(1) by (simp_all add: b1_def b0_def playout_init_def capacity_frames_def slot_of_def)
  have same: "pb_slots b0 = pb_slots b1" by (simp add: b1_def)
  have "pb_slots b1 = Suc (Suc 999)" by (simp add: b1_def b0_def playout_init_def)
  moreover have "advance_from b1 (Suc (Suc 999)) 0 = add64 0 (pb_period_frames b1)"
    by (rule advance_two) (use b1 small assms(1) in \<open>simp_all add: k_empty_def\<close>)
  ultimately have advance: "advance_from b1 (pb_slots b1) 0 = ?n" using b1(4) small(2) by (simp only:)
  have store: "store_period b0 0 data = b1\<lparr>pb_contiguous_end := ?n, pb_pushed := ?n\<rparr>"
    using b0 b1 advance same by (simp add: store_period_def advance_contiguous_def Let_def flip: b1_def)
  have "make_room b0 0 = (b0, stored)"
    using assms(1) b0 small by (simp add: make_room_def Let_def)
  then have "push (playout_init 1001 format) 0 (Some data) = (b1\<lparr>pb_contiguous_end := ?n, pb_pushed := ?n\<rparr>, stored)"
    using assms(1,3,4) store b0(4,5) by (simp add: push_def k_empty_def Let_def flip: b0_def) (simp add: playout_init_def)
  then show ?thesis using assms(2) b1(1) by (simp add: held_frames_def sub64_small)
qed

theorem held_audio_is_the_peers_witness:
  "\<exists>data e0 e. opened (demo_platform (fragments data 0)) muted_config 0 e0
     \<and> engine_reaches (demo_platform (fragments data 0)) e0 e
     \<and> (\<exists>period. contents (the (en_playout e)) 0 = Some period \<and> period = replicate 2304 9)"
proof -
  let ?f = "example_framer\<lparr>fr_link_id := 0\<rparr>" and ?x = "replicate 2304 9 :: bytes"
  have f: "framer_ready ?f" using example_framer_ready by (simp add: framer_ready_def)
  have fmt: "fr_format ?f = audio_format_from (cf_audio muted_config)" "fr_config ?f = muted_config"
    by (simp_all add: example_framer_def)
  have len: "length ?x = period_bytes (fr_format ?f)"
    by (simp add: fmt demo_format period_bytes_def period_samples_def)
  obtain pcms frame where fr: "pack_period (None :: (unit, unit) opus_api option) (Some ?x) 0 ?f
      = (?f\<lparr>fr_tx_block_pcm := pcms\<rparr>, Inr frame)" "f_link_id frame = 0" "f_sample_position frame = 0"
    "list_all2 (\<lambda>c b. packed_block (fr_format ?f) c ?x b) (cf_blocks (fr_config ?f)) (f_blocks frame)"
    using pack_period_pcm [OF f _ len, of "None :: (unit, unit) opus_api option" 0] example_framer_pcm(1) by auto
  obtain data where data: "encode frame = Inr data" using encode_InrI [OF packed_wf [OF f fr(4)]] by blast
  note dec = decode_encode_aux [OF data]
  have n: "fragment_count (length data) \<noteq> 0" "fragment_count (length data) \<le> 8"
    using packed_size [OF f _ data fr(4)] example_framer_pcm(1) by simp_all
  let ?ms = "fragments data 0"
  let ?p = "demo_platform ?ms"
  obtain e0 where o: "opened ?p muted_config 0 e0" using demo_opened by blast
  note d = demo_facts [OF o]
  have order: "in_order (en_config e0)" using d(1) example_framer_pcm(2) by (simp add: example_framer_def)
  have packed: "list_all2 (\<lambda>c b. packed_block (en_format e0) c ?x b) (cf_blocks (en_config e0)) (f_blocks frame)"
    using fr(4) d(1,2) by (simp add: fmt)
  have len0: "length ?x = period_bytes (en_format e0)" using len d(2) by (simp add: fmt)
  have peer: "peer_contract ?p [0 \<mapsto> data] (\<lambda>_. ?x) (en_framer e0)"
    unfolding peer_contract_def
  proof (intro conjI allI impI order)
    show "from_link [0 \<mapsto> data] m" if "srt_recvmsg (p_srt ?p) s n w = (w', Inr m)" for s n w w' m
      using that by (auto simp: demo_platform_def relay_api_def from_link_def split: if_splits)
    show "carries_audio (\<lambda>_. ?x) (en_framer e0) g"
      if "[0 \<mapsto> data] seq = Some data'" "decode (Some data') = Inr g" for seq data' g
      using that dec packed len0 fr(3) by (auto simp: carries_audio_def Let_def split: if_splits)
  qed
  have ok0: "engine_ok ?p null_runs e0"
    using run_facts(1) [OF demo_opening o _ demo_samplerate peer] by (simp add: engine_reaches_def)
  have driven: "driven_engine ?p null_runs" by (rule opening_engine.axioms(1) [OF demo_opening])
  obtain l where l: "en_link e0 = Some l" "l_mode l = ''rendezvous''" "l_opened l" "l_socket l = Some 1"
    using d(14) by blast
  define e1 where "e1 = e0\<lparr>en_receive_turns := en_receive_turns e0 + 1, en_reset_requested := False\<rparr>"
  have ok1: "engine_ok ?p null_runs e1"
    using ok0 by (simp add: e1_def engine_ok_def buffers_ok_def clock_ok_def egress_ok_def Let_def)
  have fits: "0 < af_period_frames (en_format e0)" "af_period_frames (en_format e0) \<le> 2880" "0 < period_bytes (en_format e0)"
    using engine_okD(7-9) [OF ok0] .
  obtain b where b: "push (playout_init 1001 (en_format e0)) 0 (Some ?x) = (b, stored)"
    "held_frames b = af_period_frames (en_format e0)"
    using first_push [OF fits len0] by blast
  have "\<exists>ra. \<not> r_assembling ra \<and> receive_into_buffer ?p e1 =
      ((let e2 = e1\<lparr>en_rx_period := ?x, en_playout := Some b, en_link := Some l, en_world := length ?ms,
              en_reassembler := ra\<rparr> in
        if stored = stored \<or> stored = overrun then e2\<lparr>en_frames_received := en_frames_received e1 + 1\<rparr>
        else e2\<lparr>en_frames_refused := en_frames_refused e1 + 1\<rparr>), None)"
    by (rule driven_engine.receive_packed [OF driven ok1 _ _ _ dec _ _ _ n(1), where l = l and l' = l and w' = "length ?ms"])
      (use d l n order fr packed len0 b relay_delivers [of l 1 "[]" ?ms] relay_quiet [of l 1 ?ms]
        in \<open>simp_all add: e1_def demo_platform_def reassembler_init_def\<close>)
  then obtain e3 where e3: "receive_into_buffer ?p e1 = (e3, None)" "en_playout e3 = Some b"
    "en_framer e3 = en_framer e0" "en_playing e3 = False" "en_target_periods e3 = 120"
    "en_prime_deadline_periods e3 = 500" "en_priming_periods e3 = 0"
    using d by (auto simp: e1_def Let_def)
  obtain e r where e: "play_one_period ?p 0 e3 = Some (e, r)" "en_playout e = Some b"
    using play_while_priming [of e3 ?p 0] e3 b(2) fits(1) by auto
  have "step_receive ?p 0 e0 = Some (e, r)"
    using e3(1) e(1) d(8,12) by (simp add: step_receive_def Let_def e1_def)
  then have "\<exists>failures' wait. receive_turn ?p 0 0 e0 = Some (e, failures', wait)"
    using d(15) by (cases r) (simp_all add: receive_turn_def)
  then obtain failures' wait where turn: "receive_turn ?p 0 0 e0 = Some (e, failures', wait)" by blast
  have "runs_receive (en_config e0)"
    by (simp add: d(1) runs_receive_def example_framer_defs to_lower_def lower_char_def)
  then have "engine_step ?p e0 e" using turn by (rule step_receive)
  then have reach: "engine_reaches ?p e0 e" by (simp add: engine_reaches_def)
  have "pb_inv (playout_init 1001 (en_format e0))"
    using driven_engine.clock_okE [OF driven ok0] d(12) by (metis option.sel)
  then have held: "contents (the (en_playout e)) 0 = Some ?x"
    using push_holds [OF _ _ _ _ b(1)] len0 e(2) by (simp add: playout_init_def last_position_def)
  show ?thesis
    using held_audio_is_the_peers [OF demo_opening o reach demo_samplerate peer held] o reach held by blast
qed



end
