(* ===== verification/EngineTurns.thy ===== *)
theory EngineTurns
  imports EngineDelivery
begin

text \<open>
  What the single turns of the engine promise: a period that could not be sent keeps its place, playout
  starts in time, the supervisor backs off, and two ways in which a configuration the validation
  accepts does not carry audio.
\<close>

subsection \<open>Transmitting\<close>

text \<open>
  C5. A period that could not be sent keeps its place. Whatever refuses it, device, framing, wire
  format or link, the sequence number, the sample position and the count of frames sent are what they
  were, so the next period takes that place and the receiver sees no hole that was never audio. A
  period that was sent advances each of them by exactly one frame. Neither touches the receive side.
\<close>

theorem refused_period_keeps_its_place:
  "case step_transmit p now e of (e', failed) \<Rightarrow>
     (if failed = None
      then en_sequence e' = en_sequence e + 1
        \<and> en_sample_position e' = en_sample_position e + of_nat (af_period_frames (en_format e'))
        \<and> en_frames_sent e' = en_frames_sent e + 1
      else en_sequence e' = en_sequence e \<and> en_sample_position e' = en_sample_position e
        \<and> en_frames_sent e' = en_frames_sent e)
     \<and> en_playout e' = en_playout e \<and> en_reassembler e' = en_reassembler e
     \<and> en_rx_period e' = en_rx_period e \<and> en_resampler e' = en_resampler e
     \<and> en_delay_line e' = en_delay_line e \<and> en_frames_received e' = en_frames_received e"
  by (auto simp: step_transmit_def Let_def split: prod.split option.split sum.split)

text \<open>
  A frame that needs more than 255 fragments has none: nothing is handed to the link, and the frame is
  counted as sent. A validated configuration makes such frames: one block in Opus asks for an Opus
  period, and beside it seven blocks of PCM of 60 ms are 483840 bytes.
\<close>

lemma oversized_frame_counts_as_sent:
  assumes "be_read (p_device p) now (en_tx_period e) (af_period_frames (en_format e)) (the (en_backend e))
      = (b', period, None)"
    and "apply_block_levels (Some period) (en_format e) (cf_blocks (en_config e)) = Some y"
    and "pack_period (p_opus p) (Some y) (en_sample_position e) (en_framer e) = (f, Inr packed)"
    and "encode (packed\<lparr>f_sequence := en_sequence e\<rparr>) = Inr data" "255 * 1308 < length data"
  shows "\<exists>e'. step_transmit p now e = (e', None) \<and> en_frames_sent e' = en_frames_sent e + 1
    \<and> en_link e' = Some (the (en_link e)) \<and> en_world e' = en_world e"
proof -
  have "\<not> (length data + 1307) div 1308 \<le> 255"
    using div_le_mono [of "256 * 1308" "length data + 1307" 1308] assms(5) by simp
  then have "fragment_count (length data) = 0" by (simp add: fragment_count_def Let_def)
  then show ?thesis using assms(1-4) by (simp add: step_transmit_def Let_def fragments_none)
qed

definition mixed_config :: config where
  "mixed_config = example_config\<lparr>
     cf_audio := (cf_audio example_config)\<lparr>ac_channels := 64, ac_period_frames := 2880\<rparr>,
     cf_link := (cf_link example_config)\<lparr>lc_blocks := 8\<rparr>,
     cf_blocks := (conventional_block 0)\<lparr>bc_codec := ''opus''\<rparr> # map conventional_block [1..7]\<rparr>"

lemma mixed_config_valid: "validate mixed_config = None"
  by (simp add: validate_None mixed_config_def example_config_def default_defs
      fill_default_blocks_def conventional_block_def default_block_def upto_example upto.simps
      validate_audio_def validate_link_def validate_daemon_def validate_blocks_def
      validate_egress_def validate_http_def check_block_tail_def to_lower_def lower_char_def
      split_example_peer Let_def)

subsection \<open>Playout starts\<close>

text \<open>The turns of the receive thread from the buffer to the device.\<close>

fun play_turns ::
  "('e, 'd, 's, 'b, 'x, 'w) platform \<Rightarrow> int list \<Rightarrow> ('e, 'd, 's, 'b, 'w) engine
     \<Rightarrow> ('e, 'd, 's, 'b, 'w) engine option" where
  "play_turns p [] e = Some e"
| "play_turns p (now # nows) e =
     (case play_one_period p now e of None \<Rightarrow> None | Some (e1, _) \<Rightarrow> play_turns p nows e1)"

lemma write_period_playing:
  "write_period_to_device p now e = (e', r) \<Longrightarrow> en_playing e' = en_playing e
     \<and> en_priming_periods e' = en_priming_periods e
     \<and> en_prime_deadline_periods e' = en_prime_deadline_periods e"
  by (auto simp: write_period_to_device_def apply_requests_def Let_def
      split: prod.splits sum.splits if_splits option.splits)

lemma pull_playing:
  "pull_period p e = Some e' \<Longrightarrow> en_playing e' = en_playing e
     \<and> en_priming_periods e' = en_priming_periods e
     \<and> en_prime_deadline_periods e' = en_prime_deadline_periods e"
  by (clarsimp simp: pull_period_def Let_def)

lemma trim_steer_playing:
  "en_playing (steer_and_publish (trim_startup e)) = en_playing e"
  "en_priming_periods (steer_and_publish (trim_startup e)) = en_priming_periods e"
  "en_prime_deadline_periods (steer_and_publish (trim_startup e)) = en_prime_deadline_periods e"
  by (simp_all add: steer_and_publish_def trim_startup_def Let_def split: prod.split)

text \<open>A turn plays, or is one more of priming before the deadline.\<close>

lemma play_progress:
  assumes "play_one_period p now e = Some (e', r)"
  shows "en_prime_deadline_periods e' = en_prime_deadline_periods e
    \<and> (en_playing e' \<or> \<not> en_playing e \<and> en_priming_periods e' = en_priming_periods e + 1
         \<and> en_priming_periods e + 1 < en_prime_deadline_periods e)"
proof -
  obtain e1 go where prime: "prime_playout e = (e1, go)" by (cases "prime_playout e")
  have e1: "en_prime_deadline_periods e1 = en_prime_deadline_periods e" "go \<longrightarrow> en_playing e1"
    "\<not> go \<longrightarrow> \<not> en_playing e \<and> en_priming_periods e1 = en_priming_periods e + 1
      \<and> en_priming_periods e + 1 < en_prime_deadline_periods e"
    using prime by (auto simp: prime_playout_def Let_def split: if_splits)
  show ?thesis
  proof (cases go)
    case True
    then obtain e2 where e2: "pull_period p e1 = Some e2"
      "write_period_to_device p now (steer_and_publish (trim_startup e2)) = (e', r)"
      using assms prime by (auto simp: play_one_period_def)
    then show ?thesis
      using write_period_playing [OF e2(2)] pull_playing [OF e2(1)] e1 True by (simp add: trim_steer_playing)
  next
    case False
    then have w: "write_period_to_device p now e1 = (e', r)" using assms prime by (simp add: play_one_period_def)
    then show ?thesis using write_period_playing [OF w] e1 False by simp
  qed
qed

context driven_engine
begin

lemma play_turns_start:
  assumes "engine_ok p runs e"
    and "en_playing e \<or> en_prime_deadline_periods e \<le> en_priming_periods e + length nows"
    and "nows = [] \<longrightarrow> en_playing e"
  shows "\<exists>e'. play_turns p nows e = Some e' \<and> engine_ok p runs e' \<and> en_playing e'"
  using assms
proof (induction nows arbitrary: e)
  case (Cons now nows)
  obtain e1 r where p: "play_one_period p now e = Some (e1, r)" "engine_ok p runs e1"
    using play_returns [OF Cons.prems(1)] by blast
  note k = play_progress [OF p(1)]
  have "\<exists>e'. play_turns p nows e1 = Some e' \<and> engine_ok p runs e' \<and> en_playing e'"
    by (rule Cons.IH [OF p(2)]) (use k Cons.prems(2) in auto)
  then show ?case using p(1) by simp
qed simp

end

text \<open>
  C6. A receiver is not silent for ever. On a well-formed engine every turn of the receive thread
  returns, and after as many turns as the alarm delay has periods playout has started, whether or not
  the buffer ever reached its level; once started it goes on.
\<close>

theorem playout_starts:
  assumes "driven_engine p runs" and "engine_ok p runs e"
    and "en_prime_deadline_periods e \<le> en_priming_periods e + length nows" "nows \<noteq> []"
  shows "\<exists>e'. play_turns p nows e = Some e' \<and> engine_ok p runs e' \<and> en_playing e'"
  using driven_engine.play_turns_start [OF assms(1,2)] assms(3,4) by blast

theorem playout_starts_witness:
  "\<exists>e e'. opened (demo_platform []) muted_config 0 e
     \<and> play_turns (demo_platform []) (replicate 500 0) e = Some e' \<and> en_playing e'"
proof -
  obtain e where o: "opened (demo_platform []) muted_config 0 e" using demo_opened by blast
  have ok: "engine_ok (demo_platform []) null_runs e"
    using run_facts(1) [OF demo_opening o _ demo_samplerate demo_peer [OF o]] by (simp add: engine_reaches_def)
  have "driven_engine (demo_platform []) null_runs" by (rule opening_engine.axioms(1) [OF demo_opening])
  from playout_starts [OF this ok, of "replicate 500 0"] demo_facts(10,11) [OF o] o
  show ?thesis by auto
qed

subsection \<open>The supervisor\<close>

text \<open>The turns of the supervisor, with the wait each one ends in.\<close>

fun supervisor_run ::
  "('e, 'd, 's, 'b, 'x, 'w) platform \<Rightarrow> int list \<Rightarrow> nat \<Rightarrow> ('e, 'd, 's, 'b, 'w) engine
     \<Rightarrow> (('e, 'd, 's, 'b, 'w) engine \<times> supervisor_wait list) option" where
  "supervisor_run p [] backoff e = Some (e, [])"
| "supervisor_run p (now # nows) backoff e =
     (case supervisor_turn p now backoff e of
        None \<Rightarrow> None
      | Some (e1, backoff1, waits) \<Rightarrow>
          map_option (\<lambda>(e2, rest). (e2, waits # rest)) (supervisor_run p nows backoff1 e1))"

definition retry_wait :: "nat \<Rightarrow> nat" where
  "retry_wait i = (min (250 * 2 ^ i) 4000 + 99) div 100 * 100"

lemma supervisor_run_backs_off:
  assumes "supervisor_run p nows (min (250 * 2 ^ j) 4000) e = Some (e', waits)"
    and "\<forall>x \<in> set waits. \<exists>n. x = Retrying n"
  shows "waits = map (\<lambda>i. Retrying (retry_wait (j + i))) [0..<length nows]"
  using assms
proof (induction nows arbitrary: j e waits)
  case (Cons now nows)
  let ?b = "min (250 * 2 ^ j) 4000 :: nat"
  obtain e1 b1 x rest where t: "supervisor_turn p now ?b e = Some (e1, b1, x)"
    "supervisor_run p nows b1 e1 = Some (e', rest)" "waits = x # rest"
    using Cons.prems(1) by (auto split: option.splits)
  obtain n where n: "x = Retrying n" using Cons.prems(2) t(3) by auto
  have "x = Retrying (retry_wait j) \<and> b1 = min (?b * 2) 4000"
    using t(1) n by (auto simp: supervisor_turn_def retry_wait_def k_link_retry_max_ms_def k_status_slice_ms_def
        split: if_splits)
  moreover have "min (?b * 2) 4000 = min (250 * 2 ^ Suc j) (4000 :: nat)" by simp
  ultimately have "supervisor_run p nows (min (250 * 2 ^ Suc j) 4000) e1 = Some (e', rest)"
    "x = Retrying (retry_wait j)"
    using t(2) by simp_all
  moreover have "rest = map (\<lambda>i. Retrying (retry_wait (Suc j + i))) [0..<length nows]"
    by (rule Cons.IH) (use calculation Cons.prems(2) t(3) in auto)
  moreover have "[0..<length (now # nows)] = 0 # map Suc [0..<length nows]"
    by (simp add: map_Suc_upt upt_conv_Cons del: upt_Suc)
  ultimately show ?case using t(3) by (simp del: upt_Suc)
qed simp

text \<open>
  C7. The supervisor backs off. While a link that went down will not open again, the waits between the
  attempts are a quarter of a second doubled each time and four seconds at most, each rounded up to
  the slices of a tenth of a second in which a stop is noticed: 300, 500, 1000, 2000, 4000, 4000, ...
\<close>

theorem supervisor_backs_off:
  assumes "supervisor_run p nows k_link_retry_min_ms e = Some (e', waits)"
    and "\<forall>x \<in> set waits. \<exists>n. x = Retrying n"
  shows "waits = map (\<lambda>i. Retrying ((min (250 * 2 ^ i) 4000 + 99) div 100 * 100)) [0..<length nows]"
  using supervisor_run_backs_off [of p nows 0 e e' waits] assms
  by (simp add: k_link_retry_min_ms_def retry_wait_def)

definition down_engine :: "(unit, unit, unit, null_device, nat) engine" where
  "down_engine = (engine_init 0)\<lparr>en_link := Some link_init\<rparr>"

lemma down_turn:
  "supervisor_turn ((demo_platform [])\<lparr>p_with_srt := False\<rparr>) 0 backoff down_engine
     = Some (down_engine, min (backoff * 2) 4000, Retrying ((backoff + 99) div 100 * 100))"
  by (simp add: supervisor_turn_def reopen_link_def link_open_def down_engine_def engine_init_def
      default_defs link_init_def link_is_open_def mark_down_def to_lower_def lower_char_def demo_platform_def
      k_link_retry_max_ms_def k_status_slice_ms_def Let_def)

theorem supervisor_backs_off_witness:
  "\<exists>e'. supervisor_run ((demo_platform [])\<lparr>p_with_srt := False\<rparr>) [0, 0, 0, 0, 0, 0] 250 down_engine
     = Some (e', map Retrying [300, 500, 1000, 2000, 4000, 4000])"
proof -
  let ?p = "(demo_platform [])\<lparr>p_with_srt := False\<rparr>" and ?nows = "[0, 0, 0, 0, 0, 0] :: int list"
  have "\<exists>waits. supervisor_run ?p nows b down_engine = Some (down_engine, waits)
      \<and> (\<forall>x \<in> set waits. \<exists>n. x = Retrying n)" if "set nows \<subseteq> {0}" for nows b
    using that by (induction nows arbitrary: b) (fastforce simp: down_turn)+
  then obtain waits where w: "supervisor_run ?p ?nows k_link_retry_min_ms down_engine = Some (down_engine, waits)"
    "\<forall>x \<in> set waits. \<exists>n. x = Retrying n" by (metis (no_types) empty_subsetI insert_subset list.set order_refl)
  have "[0..<length ?nows] = [0, 1, 2, 3, 4, 5]" by (simp add: upt_rec)
  then have "waits = map Retrying [300, 500, 1000, 2000, 4000, 4000]"
    using supervisor_backs_off [OF w] by simp
  then show ?thesis using w(1) by (auto simp: k_link_retry_min_ms_def)
qed

end
