(* ===== verification/ParallelFor.thy ===== *)
theory ParallelFor
  imports Prelude "HOL-Library.Multiset"
begin

text \<open>
  The pool that runs a period's encodes: src/src/parallel_for.hpp and src/src/parallel_for.cpp.

  \<open>pool\<close> holds the members of the class, and where each thread stands: a \<open>worker\<close> in \<^verbatim>\<open>worker()\<close>, the
  caller in \<^verbatim>\<open>run\<close> or \<^verbatim>\<open>stop\<close>. A step of \<open>pool_step\<close> is what one thread does between two points where
  another can come in: a critical section of the mutex, one \<^verbatim>\<open>fetch_add\<close>, or the comparison with
  \<^verbatim>\<open>count_\<close> and the call of the job that follows it. A worker between the \<^verbatim>\<open>fetch_add\<close> and the comparison
  is \<open>Fetched\<close>; one that has called the job, and may still be in it, is \<open>Ran\<close>. A condition variable is
  the condition it waits for.

  \<open>pl_runs\<close> and \<open>pl_called\<close> are not in the program: the number of calls of \<^verbatim>\<open>run\<close> so far, and the jobs
  called, each with the number of its run. The two unsigned counters that go down are integers, so that
  going below zero shows.
\<close>

subsection \<open>State\<close>

datatype worker =
    Waiting nat | Pulling nat | Fetched nat nat | Ran nat nat | Leaving nat | Exited | Crashed

datatype caller = Outside | CallerPulling | CallerFetched nat | CallerRan nat | CallerWaiting | Joining

record pool =
  pl_workers :: "worker list"
  pl_caller :: caller
  pl_job :: "nat option"
  pl_count :: nat
  pl_remaining :: int
  pl_active :: int
  pl_generation :: nat
  pl_next :: nat
  pl_stopping :: bool
  pl_runs :: nat
  pl_called :: "(nat \<times> nat) list"

definition pool_init :: pool where
  "pool_init = \<lparr>pl_workers = [], pl_caller = Outside, pl_job = None, pl_count = 0, pl_remaining = 0,
     pl_active = 0, pl_generation = 0, pl_next = 0, pl_stopping = False, pl_runs = 0, pl_called = []\<rparr>"

subsection \<open>start, stop and run\<close>

text \<open>Starting the threads of a pool that has none; \<open>0\<close> is the generation a worker begins with.\<close>

definition pool_start :: "nat \<Rightarrow> pool \<Rightarrow> pool" where
  "pool_start workers p = (if workers \<le> 1 then p else p\<lparr>pl_workers := replicate workers (Waiting 0)\<rparr>)"

text \<open>What \<^verbatim>\<open>run\<close> does before its loop: the jobs in line, or the job for everybody.\<close>

definition run_begins :: "nat \<Rightarrow> pool \<Rightarrow> pool" where
  "run_begins jobs p =
     (if jobs = 0 \<or> pl_workers p = [] \<or> jobs = 1
      then p\<lparr>pl_called := pl_called p @ map (Pair (pl_runs p)) [0..<jobs], pl_runs := pl_runs p + 1\<rparr>
      else p\<lparr>pl_job := Some (pl_runs p), pl_count := jobs, pl_next := 0, pl_remaining := int jobs,
             pl_generation := pl_generation p + 1, pl_runs := pl_runs p + 1, pl_caller := CallerPulling\<rparr>)"

text \<open>The comparison after a \<^verbatim>\<open>fetch_add\<close>, and the call of the job. Without a job the call crashes.\<close>

definition worker_compares :: "nat \<Rightarrow> nat \<Rightarrow> pool \<Rightarrow> worker \<times> pool" where
  "worker_compares seen index p =
     (if index \<ge> pl_count p then (Leaving seen, p)
      else case pl_job p of
        None \<Rightarrow> (Crashed, p)
      | Some r \<Rightarrow> (Ran seen index, p\<lparr>pl_called := pl_called p @ [(r, index)]\<rparr>))"

text \<open>One step of a worker, from where it stands.\<close>

definition worker_step :: "worker \<Rightarrow> pool \<Rightarrow> (worker \<times> pool) option" where
  "worker_step w p =
     (case w of
        Waiting seen \<Rightarrow>
          if pl_stopping p then Some (Exited, p)
          else if pl_generation p \<noteq> seen
            then Some (Pulling (pl_generation p), p\<lparr>pl_active := pl_active p + 1\<rparr>)
          else None
      | Pulling seen \<Rightarrow> Some (Fetched seen (pl_next p), p\<lparr>pl_next := pl_next p + 1\<rparr>)
      | Fetched seen index \<Rightarrow> Some (worker_compares seen index p)
      | Ran seen index \<Rightarrow> Some (Pulling seen, p\<lparr>pl_remaining := pl_remaining p - 1\<rparr>)
      | Leaving seen \<Rightarrow> Some (Waiting seen, p\<lparr>pl_active := pl_active p - 1\<rparr>)
      | Exited \<Rightarrow> None
      | Crashed \<Rightarrow> None)"

definition caller_step :: "pool \<Rightarrow> pool option" where
  "caller_step p =
     (case pl_caller p of
        CallerPulling \<Rightarrow> Some (p\<lparr>pl_caller := CallerFetched (pl_next p), pl_next := pl_next p + 1\<rparr>)
      | CallerFetched index \<Rightarrow>
          if index \<ge> pl_count p then Some (p\<lparr>pl_caller := CallerWaiting\<rparr>)
          else Some (p\<lparr>pl_called := pl_called p @ [(pl_runs p - 1, index)], pl_caller := CallerRan index\<rparr>)
      | CallerRan index \<Rightarrow> Some (p\<lparr>pl_remaining := pl_remaining p - 1, pl_caller := CallerPulling\<rparr>)
      | CallerWaiting \<Rightarrow>
          if pl_remaining p = 0 \<and> pl_active p = 0 then Some (p\<lparr>pl_job := None, pl_caller := Outside\<rparr>)
          else None
      | Joining \<Rightarrow>
          if \<forall>w \<in> set (pl_workers p). w = Exited
          then Some (p\<lparr>pl_workers := [], pl_stopping := False, pl_caller := Outside\<rparr>) else None
      | Outside \<Rightarrow> None)"

text \<open>
  The steps of a pool whose client calls \<^verbatim>\<open>run\<close> with the counts of \<open>counts\<close>, starts it when it has no
  threads, and stops it outside of a run.
\<close>

inductive pool_step :: "nat set \<Rightarrow> pool \<Rightarrow> pool \<Rightarrow> bool" for counts where
  client_runs: "pl_caller p = Outside \<Longrightarrow> jobs \<in> counts \<Longrightarrow> pool_step counts p (run_begins jobs p)"
| client_starts: "pl_caller p = Outside \<Longrightarrow> pl_workers p = [] \<Longrightarrow> pool_step counts p (pool_start workers p)"
| client_stops: "pl_caller p = Outside \<Longrightarrow> pl_workers p \<noteq> []
    \<Longrightarrow> pool_step counts p (p\<lparr>pl_stopping := True, pl_caller := Joining\<rparr>)"
| caller_moves: "caller_step p = Some p' \<Longrightarrow> pool_step counts p p'"
| worker_moves: "pl_workers p = ws @ w # vs \<Longrightarrow> worker_step w p = Some (w', p')
    \<Longrightarrow> pool_step counts p (p'\<lparr>pl_workers := ws @ w' # vs\<rparr>)"

inductive_cases pool_stepE: "pool_step counts p p'"

definition pool_reaches :: "nat set \<Rightarrow> pool \<Rightarrow> pool \<Rightarrow> bool" where
  "pool_reaches counts = (pool_step counts)\<^sup>*\<^sup>*"

subsection \<open>The invariant of a client that always asks for the same count\<close>

text \<open>The jobs a thread has fetched and not called yet, and the one it has called and not signed off.\<close>

definition worker_todo :: "nat \<Rightarrow> worker \<Rightarrow> nat multiset" where
  "worker_todo c w = (case w of Fetched seen k \<Rightarrow> if k < c then {#k#} else {#} | _ \<Rightarrow> {#})"

definition worker_busy :: "worker \<Rightarrow> nat multiset" where
  "worker_busy w = (case w of Ran seen k \<Rightarrow> {#k#} | _ \<Rightarrow> {#})"

definition worker_in :: "worker \<Rightarrow> int" where
  "worker_in w = (case w of Pulling _ \<Rightarrow> 1 | Fetched _ _ \<Rightarrow> 1 | Ran _ _ \<Rightarrow> 1 | Leaving _ \<Rightarrow> 1 | _ \<Rightarrow> 0)"

definition caller_todo :: "nat \<Rightarrow> caller \<Rightarrow> nat multiset" where
  "caller_todo c w = (case w of CallerFetched k \<Rightarrow> if k < c then {#k#} else {#} | _ \<Rightarrow> {#})"

definition caller_busy :: "caller \<Rightarrow> nat multiset" where
  "caller_busy w = (case w of CallerRan k \<Rightarrow> {#k#} | _ \<Rightarrow> {#})"

lemmas thread_defs = worker_todo_def worker_busy_def worker_in_def caller_todo_def caller_busy_def

definition pool_todo :: "pool \<Rightarrow> nat multiset" where
  "pool_todo p = caller_todo (pl_count p) (pl_caller p) + sum_list (map (worker_todo (pl_count p)) (pl_workers p))"

definition pool_busy :: "pool \<Rightarrow> nat multiset" where
  "pool_busy p = caller_busy (pl_caller p) + sum_list (map worker_busy (pl_workers p))"

definition in_run :: "pool \<Rightarrow> bool" where
  "in_run p \<longleftrightarrow> pl_caller p \<noteq> Outside \<and> pl_caller p \<noteq> Joining"

text \<open>The indices called in run \<open>r\<close>.\<close>

definition calls_of :: "nat \<Rightarrow> pool \<Rightarrow> nat multiset" where
  "calls_of r p = image_mset snd (filter_mset (\<lambda>x. fst x = r) (mset (pl_called p)))"

definition indices :: "nat \<Rightarrow> nat multiset" where
  "indices n = mset [0..<n]"

lemma indices_simps [simp]: "indices 0 = {#}" "indices (Suc n) = add_mset n (indices n)"
  by (simp_all add: indices_def del: mset_upt)

lemma sum_replicate_empty [simp]: "sum_list (replicate k {#}) = {#}"
  by (induction k) simp_all

definition asleep :: "worker \<Rightarrow> bool" where
  "asleep w \<longleftrightarrow> w = Waiting 0 \<or> w = Exited"

text \<open>
  While a run is on, the calls made and the jobs fetched but not called are together the indices given
  out so far, each once, and \<^verbatim>\<open>remaining_\<close> counts what is not given out or not signed off. Outside of a
  run nobody holds a job of any run, and the next index is past every count there was.
\<close>

definition pool_inv :: "nat \<Rightarrow> pool \<Rightarrow> bool" where
  "pool_inv n p \<longleftrightarrow>
     (if in_run p
      then pl_job p = Some (pl_runs p - 1) \<and> 0 < pl_runs p \<and> pl_count p = n
        \<and> calls_of (pl_runs p - 1) p + pool_todo p = indices (min (pl_next p) n)
        \<and> pl_remaining p = int (n - min (pl_next p) n) + int (size (pool_todo p)) + int (size (pool_busy p))
      else pl_job p = None \<and> pool_todo p = {#} \<and> pool_busy p = {#} \<and> pl_count p \<le> pl_next p)
     \<and> pl_active p = sum_list (map worker_in (pl_workers p))
     \<and> Crashed \<notin> set (pl_workers p)
     \<and> (pl_count p = n \<or> pl_count p = 0 \<and> pl_generation p = 0 \<and> list_all asleep (pl_workers p))
     \<and> (\<forall>r < pl_runs p. in_run p \<and> Suc r = pl_runs p \<or> calls_of r p = indices n)
     \<and> (\<forall>x \<in> set (pl_called p). fst x < pl_runs p)
     \<and> (pl_caller p = CallerWaiting \<longrightarrow> pl_count p \<le> pl_next p)
     \<and> (\<forall>k. pl_caller p = CallerFetched k \<longrightarrow> k < pl_next p)
     \<and> (\<forall>w \<in> set (pl_workers p). \<forall>seen k. w = Fetched seen k \<longrightarrow> k < pl_next p \<or> pl_count p \<le> k)
     \<and> (pl_stopping p \<longleftrightarrow> pl_caller p = Joining)"

lemma calls_of_append [simp]:
  "calls_of r (p\<lparr>pl_called := pl_called p @ xs\<rparr>) = calls_of r p + image_mset snd (filter_mset (\<lambda>x. fst x = r) (mset xs))"
  by (simp add: calls_of_def)

lemma pool_inv_init: "pool_inv n pool_init"
  by (simp add: pool_inv_def pool_init_def in_run_def pool_todo_def pool_busy_def calls_of_def thread_defs)

lemma start_inv: "pool_inv n p \<Longrightarrow> pl_workers p = [] \<Longrightarrow> pl_caller p = Outside \<Longrightarrow> pool_inv n (pool_start k p)"
  by (auto simp: pool_inv_def pool_start_def in_run_def pool_todo_def pool_busy_def calls_of_def thread_defs
      asleep_def list_all_iff sum_list_replicate)

lemma stop_inv:
  "pool_inv n p \<Longrightarrow> pl_caller p = Outside \<Longrightarrow> pool_inv n (p\<lparr>pl_stopping := True, pl_caller := Joining\<rparr>)"
  by (auto simp: pool_inv_def in_run_def pool_todo_def pool_busy_def calls_of_def thread_defs)

lemma sum_empty: "sum_list (map f ws) = {#} \<longleftrightarrow> (\<forall>w \<in> set ws. f w = {#})" for f :: "'a \<Rightarrow> 'b multiset"
  by (induction ws) auto

lemma calls_inline: "calls_of r (p\<lparr>pl_called := pl_called p @ map (Pair q) [0..<n], pl_runs := m\<rparr>)
    = calls_of r p + (if q = r then indices n else {#})"
proof -
  have "filter_mset (\<lambda>x. fst x = r) (mset (map (Pair q) [0..<n])) = (if q = r then mset (map (Pair q) [0..<n]) else {#})"
    by (induction n) auto
  then show ?thesis by (simp add: calls_of_def indices_def comp_def flip: mset_map del: mset_upt)
qed

lemma calls_of_new: "\<forall>x \<in> set (pl_called p). fst x < r \<Longrightarrow> calls_of r p = {#}"
  by (auto simp: calls_of_def filter_mset_eq_conv)

lemma pool_run_inv:
  assumes inv: "pool_inv n p" and out: "pl_caller p = Outside"
  shows "pool_inv n (run_begins n p)"
proof (cases "n = 0 \<or> pl_workers p = [] \<or> n = 1")
  case True
  let ?p = "p\<lparr>pl_called := pl_called p @ map (Pair (pl_runs p)) [0..<n], pl_runs := Suc (pl_runs p)\<rparr>"
  have new: "calls_of (pl_runs p) p = {#}" using inv by (intro calls_of_new) (simp add: pool_inv_def)
  have "calls_of r ?p = indices n" if "r < Suc (pl_runs p)" for r
    using that new inv out by (auto simp: calls_inline pool_inv_def in_run_def less_Suc_eq)
  moreover have "run_begins n p = ?p" using True by (simp add: run_begins_def)
  ultimately show ?thesis
    using inv out by (auto simp: pool_inv_def in_run_def pool_todo_def pool_busy_def)
next
  case False
  let ?p = "run_begins n p"
  have p: "?p = p\<lparr>pl_job := Some (pl_runs p), pl_count := n, pl_next := 0, pl_remaining := int n,
      pl_generation := Suc (pl_generation p), pl_runs := Suc (pl_runs p), pl_caller := CallerPulling\<rparr>"
    using False by (simp add: run_begins_def)
  have stale: "worker_todo n w = {#} \<and> worker_busy w = {#} \<and> (\<forall>seen k. w = Fetched seen k \<longrightarrow> n \<le> k)"
    if w: "w \<in> set (pl_workers p)" for w
  proof (cases "pl_count p = n")
    case True
    then have "worker_todo n w = {#}" "worker_busy w = {#}"
      using inv out w by (auto simp: pool_inv_def in_run_def pool_todo_def pool_busy_def sum_empty)
    then show ?thesis by (auto simp: worker_todo_def split: if_splits)
  next
    case False
    then have "asleep w" using inv w by (auto simp: pool_inv_def list_all_iff)
    then show ?thesis by (auto simp: asleep_def thread_defs)
  qed
  have new: "calls_of (pl_runs p) ?p = {#}"
    using calls_of_new [of p "pl_runs p"] inv by (simp add: p calls_of_def pool_inv_def)
  have old: "calls_of r ?p = calls_of r p" for r by (simp add: p calls_of_def)
  have empty: "pool_todo ?p = {#}" "pool_busy ?p = {#}"
    using stale by (simp_all add: p pool_todo_def pool_busy_def sum_empty caller_todo_def caller_busy_def)
  have run: "in_run ?p" by (simp add: p in_run_def)
  have "calls_of r ?p = indices n" if "r < pl_runs p" for r
    using that inv out by (auto simp: old pool_inv_def in_run_def)
  then show ?thesis
    using inv out new stale empty run by (auto simp: pool_inv_def p less_Suc_eq in_run_def)
qed

text \<open>What a thread's step changes of the sums.\<close>

lemma next_index:
  "indices (min (Suc m) n) = indices (min m n) + (if m < n then {#m#} else {#})"
  by (auto simp: min_def not_less le_Suc_eq less_Suc_eq_le)

lemma caller_inv:
  assumes inv: "pool_inv n p" and step: "caller_step p = Some p'"
  shows "pool_inv n p'"
proof (cases "pl_caller p")
  case CallerPulling
  then have p': "p' = p\<lparr>pl_caller := CallerFetched (pl_next p), pl_next := Suc (pl_next p)\<rparr>"
    using step by (simp add: caller_step_def)
  have run: "in_run p" "in_run p'" using CallerPulling by (simp_all add: p' in_run_def)
  have todo: "pool_todo p' = pool_todo p + (if pl_next p < pl_count p then {#pl_next p#} else {#})"
    "pool_busy p' = pool_busy p" "calls_of r p' = calls_of r p" for r
    using CallerPulling by (simp_all add: p' pool_todo_def pool_busy_def calls_of_def caller_todo_def caller_busy_def)
  show ?thesis
    using inv run todo CallerPulling
    by (auto simp: pool_inv_def next_index p' less_Suc_eq)
next
  case (CallerFetched k)
  have run: "in_run p" using CallerFetched by (simp add: in_run_def)
  show ?thesis
  proof (cases "k < pl_count p")
    case True
    then have p': "p' = p\<lparr>pl_called := pl_called p @ [(pl_runs p - 1, k)], pl_caller := CallerRan k\<rparr>"
      using step CallerFetched by (simp add: caller_step_def)
    have sums: "pool_todo p = add_mset k (pool_todo p')" "pool_busy p' = add_mset k (pool_busy p)" "in_run p'"
      using CallerFetched True
      by (simp_all add: p' pool_todo_def pool_busy_def caller_todo_def caller_busy_def in_run_def)
    have calls: "calls_of r p' = calls_of r p + (if r = pl_runs p - 1 then {#k#} else {#})" for r
      by (simp add: p' calls_of_def)
    show ?thesis using inv run sums calls CallerFetched by (auto simp: pool_inv_def p')
  next
    case False
    then have p': "p' = p\<lparr>pl_caller := CallerWaiting\<rparr>" using step CallerFetched by (simp add: caller_step_def)
    have "pool_todo p' = pool_todo p" "pool_busy p' = pool_busy p" "in_run p'" "\<And>r. calls_of r p' = calls_of r p"
      using CallerFetched False
      by (simp_all add: p' pool_todo_def pool_busy_def caller_todo_def caller_busy_def in_run_def calls_of_def)
    then show ?thesis using inv run False CallerFetched by (auto simp: pool_inv_def p')
  qed
next
  case (CallerRan k)
  then have p': "p' = p\<lparr>pl_remaining := pl_remaining p - 1, pl_caller := CallerPulling\<rparr>"
    using step by (simp add: caller_step_def)
  have "in_run p" "in_run p'" "pool_todo p' = pool_todo p" "pool_busy p = add_mset k (pool_busy p')"
    "\<And>r. calls_of r p' = calls_of r p"
    using CallerRan by (simp_all add: p' in_run_def pool_todo_def pool_busy_def caller_todo_def caller_busy_def calls_of_def)
  then show ?thesis using inv CallerRan by (auto simp: pool_inv_def p')
next
  case CallerWaiting
  then have p': "p' = p\<lparr>pl_job := None, pl_caller := Outside\<rparr>" "pl_remaining p = 0" "pl_active p = 0"
    using step by (auto simp: caller_step_def split: if_splits)
  have run: "in_run p" "\<not> in_run p'" using CallerWaiting p'(1) by (simp_all add: in_run_def)
  have "int (n - min (pl_next p) n) + int (size (pool_todo p)) + int (size (pool_busy p)) = 0"
    using inv run(1) p'(2) by (simp add: pool_inv_def)
  then have "n - min (pl_next p) n = 0 \<and> size (pool_todo p) = 0 \<and> size (pool_busy p) = 0"
    by (simp only: of_nat_add [symmetric] of_nat_eq_0_iff add_is_0)
  then have none: "pool_todo p = {#}" "pool_busy p = {#}" "n \<le> pl_next p" by auto
  have same: "pool_todo p' = {#}" "pool_busy p' = {#}" "\<And>r. calls_of r p' = calls_of r p"
    using none(1,2) p'(1) CallerWaiting
    by (auto simp: pool_todo_def pool_busy_def caller_todo_def caller_busy_def calls_of_def)
  have "calls_of (pl_runs p - 1) p = indices n"
    using inv run(1) none by (simp add: pool_inv_def min_def split: if_splits)
  moreover have "pl_runs p - 1 = r" if "Suc r = pl_runs p" for r using that by simp
  ultimately have last: "calls_of r p = indices n" if "Suc r = pl_runs p" for r using that by metis
  then show ?thesis
    using inv run none same last CallerWaiting p'(1) by (auto simp: pool_inv_def)
next
  case Joining
  then have p': "p' = p\<lparr>pl_workers := [], pl_stopping := False, pl_caller := Outside\<rparr>"
    and "\<forall>w \<in> set (pl_workers p). w = Exited"
    using step by (auto simp: caller_step_def split: if_splits)
  then have "sum_list (map worker_in (pl_workers p)) = sum_list (map (\<lambda>_. 0) (pl_workers p))"
    by (intro arg_cong [of _ _ sum_list] map_cong) (auto simp: worker_in_def)
  then have "sum_list (map worker_in (pl_workers p)) = 0" by (simp add: sum_list_triv)
  then show ?thesis
    using inv Joining
    by (auto simp: pool_inv_def p' in_run_def pool_todo_def pool_busy_def calls_of_def caller_todo_def caller_busy_def)
next
  case Outside
  then show ?thesis using step by (simp add: caller_step_def)
qed

text \<open>A worker's step: how the sums change with the worker that moved.\<close>

lemma worker_sums:
  assumes "pl_workers p = ws @ w # vs"
  shows "pool_todo p = caller_todo (pl_count p) (pl_caller p) + sum_list (map (worker_todo (pl_count p)) (ws @ vs))
      + worker_todo (pl_count p) w"
    and "pool_busy p = caller_busy (pl_caller p) + sum_list (map worker_busy (ws @ vs)) + worker_busy w"
    and "sum_list (map worker_in (pl_workers p)) = sum_list (map worker_in (ws @ vs)) + worker_in w"
    and "set (pl_workers p) = insert w (set (ws @ vs))"
  using assms by (auto simp: pool_todo_def pool_busy_def ac_simps)

lemma pool_invD:
  assumes "pool_inv n p"
  shows "pl_active p = sum_list (map worker_in (pl_workers p))" and "Crashed \<notin> set (pl_workers p)"
    and "pl_count p = n \<or> pl_count p = 0 \<and> pl_generation p = 0 \<and> list_all asleep (pl_workers p)"
    and "r < pl_runs p \<Longrightarrow> in_run p \<and> Suc r = pl_runs p \<or> calls_of r p = indices n"
    and "\<forall>x \<in> set (pl_called p). fst x < pl_runs p"
    and "pl_caller p = CallerWaiting \<longrightarrow> pl_count p \<le> pl_next p"
    and "\<forall>k. pl_caller p = CallerFetched k \<longrightarrow> k < pl_next p"
    and "Fetched seen k \<in> set (pl_workers p) \<Longrightarrow> k < pl_next p \<or> pl_count p \<le> k"
    and "pl_stopping p \<longleftrightarrow> pl_caller p = Joining"
    and "in_run p \<Longrightarrow> pl_job p = Some (pl_runs p - 1) \<and> 0 < pl_runs p \<and> pl_count p = n"
    and "in_run p \<Longrightarrow> calls_of (pl_runs p - 1) p + pool_todo p = indices (min (pl_next p) n)"
    and "in_run p \<Longrightarrow> pl_remaining p
      = int (n - min (pl_next p) n) + int (size (pool_todo p)) + int (size (pool_busy p))"
    and "\<not> in_run p \<Longrightarrow> pl_job p = None \<and> pool_todo p = {#} \<and> pool_busy p = {#} \<and> pl_count p \<le> pl_next p"
  using assms unfolding pool_inv_def by (simp_all split: if_splits)

lemma worker_stage:
  assumes inv: "pool_inv n p" and ws: "pl_workers p = ws @ w # vs" "pl_workers q = ws @ w' # vs"
    and same: "pl_caller q = pl_caller p" "pl_job q = pl_job p" "pl_count q = pl_count p"
      "pl_generation q = pl_generation p" "pl_stopping q = pl_stopping p" "pl_runs q = pl_runs p"
    and w': "w' \<noteq> Crashed" "pl_count p = n \<or> asleep w'"
    and active: "pl_active q = pl_active p + worker_in w' - worker_in w"
    and nxt: "pl_next p \<le> pl_next q" "\<forall>seen k. w' = Fetched seen k \<longrightarrow> k < pl_next q \<or> pl_count p \<le> k"
    and called: "pl_called q = pl_called p @ map (Pair (pl_runs p - 1)) cs" "cs \<noteq> [] \<longrightarrow> in_run p"
    and run: "in_run p \<Longrightarrow> mset cs + worker_todo n w' + indices (min (pl_next p) n)
        = worker_todo n w + indices (min (pl_next q) n)"
      "in_run p \<Longrightarrow> pl_remaining q = pl_remaining p
        + int (n - min (pl_next q) n) - int (n - min (pl_next p) n)
        + int (size (worker_todo n w')) - int (size (worker_todo n w))
        + int (size (worker_busy w')) - int (size (worker_busy w))"
    and out: "\<not> in_run p \<Longrightarrow> worker_todo (pl_count p) w' = {#} \<and> worker_busy w' = {#}"
  shows "pool_inv n q"
proof -
  note i = pool_invD [OF inv]
  note old = worker_sums [OF ws(1)] and new = worker_sums [OF ws(2)]
  define R where "R = caller_todo (pl_count p) (pl_caller p) + sum_list (map (worker_todo (pl_count p)) (ws @ vs))"
  define B where "B = caller_busy (pl_caller p) + sum_list (map worker_busy (ws @ vs))"
  have todo: "pool_todo p = R + worker_todo (pl_count p) w" "pool_todo q = R + worker_todo (pl_count p) w'"
    using old(1) new(1) same(1,3) by (simp_all add: R_def)
  have busy: "pool_busy p = B + worker_busy w" "pool_busy q = B + worker_busy w'"
    using old(2) new(2) same(1) by (simp_all add: B_def)
  have ir: "in_run q = in_run p" using same(1) by (simp add: in_run_def)
  have new_calls: "calls_of r q = calls_of r p + (if r = pl_runs p - 1 then mset cs else {#})" for r
  proof -
    have "filter_mset (\<lambda>x. fst x = r) (mset (map (Pair (pl_runs p - 1)) cs))
        = (if r = pl_runs p - 1 then mset (map (Pair r) cs) else {#})"
      by (induction cs) auto
    then show ?thesis by (simp add: calls_of_def called(1) comp_def flip: mset_map)
  qed
  have calls: "in_run p \<and> Suc r = pl_runs p \<or> calls_of r q = indices n" if "r < pl_runs p" for r
  proof (cases "cs = []")
    case True
    then show ?thesis using i(4) [OF that] new_calls [of r] by auto
  next
    case False
    then have "in_run p" "0 < pl_runs p" using called(2) i(10) by auto
    then show ?thesis using i(4) [OF that] new_calls [of r] by auto
  qed
  have below: "\<forall>x \<in> set (pl_called q). fst x < pl_runs p"
    using i(5,10) called by (cases "cs = []") auto
  have awake: "pl_count p = n \<or> pl_count p = 0 \<and> pl_generation p = 0 \<and> list_all asleep (pl_workers q)"
    using i(3) w'(2) ws by auto
  have crash: "Crashed \<notin> set (pl_workers q)" using i(2) w'(1) ws by auto
  have fetched: "k < pl_next q \<or> pl_count p \<le> k" if "Fetched seen k \<in> set (pl_workers q)" for seen k
    using i(8) [of seen k] nxt that ws by auto
  have act: "pl_active q = sum_list (map worker_in (pl_workers q))"
    using i(1) active old(3) new(3) by simp
  have first: "if in_run p
      then pl_job p = Some (pl_runs p - 1) \<and> 0 < pl_runs p \<and> pl_count p = n
        \<and> calls_of (pl_runs p - 1) q + pool_todo q = indices (min (pl_next q) n)
        \<and> pl_remaining q = int (n - min (pl_next q) n) + int (size (pool_todo q)) + int (size (pool_busy q))
      else pl_job p = None \<and> pool_todo q = {#} \<and> pool_busy q = {#} \<and> pl_count p \<le> pl_next q"
  proof (cases "in_run p")
    case True
    then have k: "pl_job p = Some (pl_runs p - 1)" "0 < pl_runs p" "pl_count p = n"
      "calls_of (pl_runs p - 1) p + pool_todo p = indices (min (pl_next p) n)"
      "pl_remaining p = int (n - min (pl_next p) n) + int (size (pool_todo p)) + int (size (pool_busy p))"
      using i(10-12) by blast+
    have "calls_of (pl_runs p - 1) q + pool_todo q + worker_todo n w
        = (calls_of (pl_runs p - 1) p + pool_todo p) + (mset cs + worker_todo n w')"
      using new_calls [of "pl_runs p - 1"] todo k(3) by (simp add: ac_simps)
    also have "\<dots> = indices (min (pl_next q) n) + worker_todo n w"
      using k(4) run(1) [OF True] by (simp add: ac_simps)
    finally have "calls_of (pl_runs p - 1) q + pool_todo q = indices (min (pl_next q) n)" by simp
    then show ?thesis using True k run(2) todo busy by simp
  next
    case False
    then show ?thesis using i(13) out todo busy nxt(1) by auto
  qed
  have "pl_caller p = CallerWaiting \<longrightarrow> pl_count p \<le> pl_next q" "\<forall>k. pl_caller p = CallerFetched k \<longrightarrow> k < pl_next q"
    using i(6,7) nxt(1) by auto
  then show ?thesis
    unfolding pool_inv_def ir same using first act crash awake calls below fetched i(9) by blast
qed

lemma worker_inv:
  assumes inv: "pool_inv n p" and ws: "pl_workers p = ws @ w # vs"
    and step: "worker_step w p = Some (w', p1)"
  shows "pool_inv n (p1\<lparr>pl_workers := ws @ w' # vs\<rparr>)"
proof -
  note i = pool_invD [OF inv]
  have member: "w \<in> set (pl_workers p)" using ws by simp
  have awake: "pl_count p = n" if "\<not> asleep w"
    using i(3) ws that by auto
  show ?thesis
  proof (cases w)
    case (Waiting seen)
    show ?thesis
    proof (cases "pl_stopping p")
      case True
      then have "w' = Exited" "p1 = p" "\<not> in_run p"
        using step Waiting i(9) by (simp_all add: worker_step_def in_run_def)
      then show ?thesis
        using Waiting by (intro worker_stage [OF inv ws, where cs = "[]"]) (auto simp: thread_defs asleep_def)
    next
      case False
      then have p1: "w' = Pulling (pl_generation p)" "p1 = p\<lparr>pl_active := pl_active p + 1\<rparr>" "pl_generation p \<noteq> seen"
        using step Waiting by (auto simp: worker_step_def split: if_splits)
      have "pl_count p = n" using i(3) ws Waiting p1(3) by (auto simp: asleep_def)
      then show ?thesis
        using Waiting p1 by (intro worker_stage [OF inv ws, where cs = "[]"]) (auto simp: thread_defs)
    qed
  next
    case (Pulling seen)
    then have p1: "w' = Fetched seen (pl_next p)" "p1 = p\<lparr>pl_next := Suc (pl_next p)\<rparr>"
      using step by (simp_all add: worker_step_def)
    have n: "pl_count p = n" using awake Pulling by (simp add: asleep_def)
    show ?thesis
      using Pulling p1 n i(13)
      by (intro worker_stage [OF inv ws, where cs = "[]"])
        (auto simp: thread_defs next_index asleep_def min_def not_less not_less_eq_eq dest: le_antisym)
  next
    case (Fetched seen k)
    have n: "pl_count p = n" using awake Fetched by (simp add: asleep_def)
    show ?thesis
    proof (cases "k < n")
      case True
      have run: "in_run p"
      proof (rule ccontr)
        assume "\<not> in_run p"
        then have "pool_todo p = {#}" using i(13) by simp
        then show False using member True n Fetched by (auto simp: pool_todo_def sum_empty worker_todo_def)
      qed
      have p1: "w' = Ran seen k" "p1 = p\<lparr>pl_called := pl_called p @ [(pl_runs p - 1, k)]\<rparr>"
        using step Fetched True n i(10) [OF run] by (simp_all add: worker_step_def worker_compares_def)
      then show ?thesis
        using Fetched True n run by (intro worker_stage [OF inv ws, where cs = "[k]"]) (auto simp: thread_defs asleep_def)
    next
      case False
      then have p1: "w' = Leaving seen" "p1 = p"
        using step Fetched n by (simp_all add: worker_step_def worker_compares_def)
      then show ?thesis
        using Fetched False n by (intro worker_stage [OF inv ws, where cs = "[]"]) (auto simp: thread_defs asleep_def)
    qed
  next
    case (Ran seen k)
    then have p1: "w' = Pulling seen" "p1 = p\<lparr>pl_remaining := pl_remaining p - 1\<rparr>"
      using step by (simp_all add: worker_step_def)
    have n: "pl_count p = n" using awake Ran by (simp add: asleep_def)
    show ?thesis
      using Ran p1 n by (intro worker_stage [OF inv ws, where cs = "[]"]) (auto simp: thread_defs asleep_def)
  next
    case (Leaving seen)
    then have p1: "w' = Waiting seen" "p1 = p\<lparr>pl_active := pl_active p - 1\<rparr>"
      using step by (simp_all add: worker_step_def)
    have n: "pl_count p = n" using awake Leaving by (simp add: asleep_def)
    show ?thesis
      using Leaving p1 n by (intro worker_stage [OF inv ws, where cs = "[]"]) (auto simp: thread_defs asleep_def)
  qed (use step in \<open>simp_all add: worker_step_def\<close>)
qed

lemma pool_inv_step: "pool_step {n} p p' \<Longrightarrow> pool_inv n p \<Longrightarrow> pool_inv n p'"
  by (erule pool_step.cases) (auto intro: pool_run_inv start_inv stop_inv caller_inv worker_inv)

lemma pool_inv_reaches: "pool_reaches {n} pool_init p \<Longrightarrow> pool_inv n p"
  unfolding pool_reaches_def
  by (induction rule: rtranclp_induct) (auto intro: pool_inv_init pool_inv_step)

subsection \<open>Playing a schedule\<close>

text \<open>Who goes next. The worker is named by its place.\<close>

datatype turn = ClientRuns nat | ClientStarts nat | CallerTurn | WorkerTurn nat

definition pool_turn :: "turn \<Rightarrow> pool \<Rightarrow> pool option" where
  "pool_turn t p =
     (case t of
        ClientRuns jobs \<Rightarrow> if pl_caller p = Outside then Some (run_begins jobs p) else None
      | ClientStarts workers \<Rightarrow>
          if pl_caller p = Outside \<and> pl_workers p = [] then Some (pool_start workers p) else None
      | CallerTurn \<Rightarrow> caller_step p
      | WorkerTurn i \<Rightarrow>
          if i < length (pl_workers p)
          then map_option (\<lambda>(w, p'). p'\<lparr>pl_workers := (pl_workers p)[i := w]\<rparr>) (worker_step (pl_workers p ! i) p)
          else None)"

primrec pool_play :: "turn list \<Rightarrow> pool \<Rightarrow> pool option" where
  "pool_play [] p = Some p"
| "pool_play (t # ts) p = Option.bind (pool_turn t p) (pool_play ts)"

fun turn_within :: "nat set \<Rightarrow> turn \<Rightarrow> bool" where
  "turn_within counts (ClientRuns jobs) \<longleftrightarrow> jobs \<in> counts"
| "turn_within counts _ \<longleftrightarrow> True"

lemma pool_turn_step: "pool_turn t p = Some p' \<Longrightarrow> turn_within counts t \<Longrightarrow> pool_step counts p p'"
proof (cases t)
  case (WorkerTurn i)
  assume "pool_turn t p = Some p'"
  then obtain w q where w: "i < length (pl_workers p)" "worker_step (pl_workers p ! i) p = Some (w, q)"
    "p' = q\<lparr>pl_workers := (pl_workers p)[i := w]\<rparr>"
    using WorkerTurn by (auto simp: pool_turn_def split: if_splits)
  show ?thesis
    unfolding w(3) upd_conv_take_nth_drop [OF w(1)]
    by (rule worker_moves [OF _ w(2)]) (simp add: w(1) id_take_nth_drop [symmetric])
qed (auto simp: pool_turn_def split: if_splits intro: pool_step.intros)

lemma pool_play_reaches:
  "pool_play ts p = Some q \<Longrightarrow> pool_reaches counts pool_init p \<Longrightarrow> \<forall>t \<in> set ts. turn_within counts t
    \<Longrightarrow> pool_reaches counts pool_init q"
proof (induction ts arbitrary: p)
  case (Cons t ts)
  then obtain p1 where "pool_turn t p = Some p1" "pool_play ts p1 = Some q" by (auto simp: bind_eq_Some_conv)
  then show ?case
    using Cons pool_turn_step [of t p p1 counts] by (auto simp: pool_reaches_def intro: rtranclp.rtrancl_into_rtrancl)
qed simp

lemmas play_simps = pool_turn_def pool_start_def run_begins_def caller_step_def worker_step_def worker_compares_def

subsection \<open>Every job once\<close>

lemma count_calls: "count (calls_of r p) k = count (mset (pl_called p)) (r, k)"
proof -
  have "count (image_mset snd (filter_mset (\<lambda>x. fst x = r) (mset xs))) k = count (mset xs) (r, k)" for xs :: "(nat \<times> nat) list"
    by (induction xs) auto
  then show ?thesis by (simp add: calls_of_def)
qed

lemma count_indices: "count (indices n) k = (if k < n then 1 else 0)"
  by (induction n) auto

lemma pool_inv_calls:
  assumes "pool_inv n p"
  shows "calls_of r p \<subseteq># indices n"
proof -
  note i = pool_invD [OF assms]
  consider "pl_runs p \<le> r" | "r < pl_runs p" "in_run p" "Suc r = pl_runs p" | "calls_of r p = indices n"
    using i(4) [of r] by linarith
  then show ?thesis
  proof cases
    case 1
    then have "calls_of r p = {#}" using i(5) by (intro calls_of_new) auto
    then show ?thesis by simp
  next
    case 2
    then have "r = pl_runs p - 1" by simp
    then have "calls_of r p \<subseteq># indices (min (pl_next p) n)" using i(11) 2 by (metis mset_subset_eq_add_left)
    also have "\<dots> \<subseteq># indices n" by (simp add: subseteq_mset_def count_indices)
    finally show ?thesis .
  qed simp
qed

lemma pool_inv_distinct:
  assumes "pool_inv n p"
  shows "distinct (pl_called p)" and "\<forall>(r, k) \<in> set (pl_called p). r < pl_runs p \<and> k < n"
proof -
  have le: "count (mset (pl_called p)) (r, k) \<le> (if k < n then 1 else 0)" for r k
    using mset_subset_eq_count [OF pool_inv_calls [OF assms, of r], of k] by (simp add: count_calls count_indices)
  have "count (mset (pl_called p)) x = (if x \<in> set (pl_called p) then 1 else 0)" for x
    using le [of "fst x" "snd x"] by (cases x) (auto simp: le_Suc_eq count_mset_0_iff split: if_splits)
  then show "distinct (pl_called p)" by (simp add: distinct_count_atmost_1)
  have "k < n" if "(r, k) \<in> set (pl_called p)" for r k
    using that le [of r k] by (auto simp: count_mset_0_iff split: if_splits)
  then show "\<forall>(r, k) \<in> set (pl_called p). r < pl_runs p \<and> k < n"
    using pool_invD(5) [OF assms] by auto
qed

lemma worker_in_nonneg: "0 \<le> sum_list (map worker_in ws)"
  by (induction ws) (auto simp: worker_in_def split: worker.splits)

text \<open>
  C8. A pool whose client always runs the same number of jobs, whatever the threads' order: no worker
  calls a job that is not there, no job is called twice in a run, the two counters do not go below zero,
  and when \<^verbatim>\<open>run\<close> has returned every run has called each of its jobs once.
\<close>

theorem each_job_once:
  assumes "pool_reaches {n} pool_init p"
  shows "Crashed \<notin> set (pl_workers p) \<and> distinct (pl_called p)
    \<and> (\<forall>(r, k) \<in> set (pl_called p). r < pl_runs p \<and> k < n)
    \<and> 0 \<le> pl_active p \<and> (in_run p \<longrightarrow> 0 \<le> pl_remaining p)
    \<and> (pl_caller p = Outside \<longrightarrow> (\<forall>r < pl_runs p. calls_of r p = mset [0..<n]))"
proof (intro conjI)
  note inv = pool_inv_reaches [OF assms]
  note i = pool_invD [OF inv]
  show "Crashed \<notin> set (pl_workers p)" by (rule i(2))
  show "distinct (pl_called p)" "\<forall>(r, k) \<in> set (pl_called p). r < pl_runs p \<and> k < n"
    by (rule pool_inv_distinct [OF inv])+
  show "0 \<le> pl_active p" using i(1) worker_in_nonneg by simp
  show "in_run p \<longrightarrow> 0 \<le> pl_remaining p" using i(12) by simp
  show "pl_caller p = Outside \<longrightarrow> (\<forall>r < pl_runs p. calls_of r p = mset [0..<n])"
    using i(4) by (auto simp: in_run_def indices_def)
qed

text \<open>Two jobs on two workers, the caller taking one of them: the run has returned.\<close>

definition shared_run :: "turn list" where
  "shared_run = [ClientStarts 2, ClientRuns 2, WorkerTurn 0, CallerTurn, WorkerTurn 0, CallerTurn, WorkerTurn 0,
     CallerTurn, WorkerTurn 0, CallerTurn, WorkerTurn 0, CallerTurn, WorkerTurn 0, WorkerTurn 0, CallerTurn]"

definition shared_end :: pool where
  "shared_end = \<lparr>pl_workers = [Waiting 1, Waiting 0], pl_caller = Outside, pl_job = None, pl_count = 2,
     pl_remaining = 0, pl_active = 0, pl_generation = 1, pl_next = 4, pl_stopping = False, pl_runs = 1,
     pl_called = [(0, 0), (0, 1)]\<rparr>"

lemma shared_play: "pool_play shared_run pool_init = Some shared_end"
  by (simp add: shared_run_def shared_end_def pool_init_def play_simps numeral_2_eq_2)

lemma shared_reached: "pool_reaches {2} pool_init shared_end"
  by (rule pool_play_reaches [OF shared_play]) (simp_all add: pool_reaches_def shared_run_def)

lemma each_job_once_witness: "Outside = pl_caller shared_end \<and> pl_runs shared_end = 1
    \<and> calls_of 0 shared_end = {#0, 1#}"
  using each_job_once [OF shared_reached] by (simp add: shared_end_def numeral_2_eq_2)

subsection \<open>A run ends\<close>

text \<open>A step of a thread of the pool: the caller inside \<^verbatim>\<open>run\<close>, or a worker.\<close>

inductive thread_moves :: "pool \<Rightarrow> pool \<Rightarrow> bool" where
  by_caller: "caller_step p = Some p' \<Longrightarrow> thread_moves p p'"
| by_worker: "pl_workers p = ws @ w # vs \<Longrightarrow> worker_step w p = Some (w', p')
    \<Longrightarrow> thread_moves p (p'\<lparr>pl_workers := ws @ w' # vs\<rparr>)"

inductive_cases thread_movesE: "thread_moves p p'"

text \<open>Under every schedule, \<^verbatim>\<open>run\<close> has returned after at most \<open>m\<close> steps, and no step on the way is stuck.\<close>

primrec run_ends_within :: "nat \<Rightarrow> pool \<Rightarrow> bool" where
  "run_ends_within 0 p \<longleftrightarrow> \<not> in_run p"
| "run_ends_within (Suc m) p \<longleftrightarrow>
     \<not> in_run p \<or> (\<exists>q. thread_moves p q) \<and> (\<forall>q. thread_moves p q \<longrightarrow> run_ends_within m q)"

text \<open>How far a thread is from where it waits; a worker that has not seen the generation has a wake-up ahead.\<close>

definition worker_rank :: "nat \<Rightarrow> nat \<Rightarrow> worker \<Rightarrow> nat" where
  "worker_rank c g w =
     (case w of
        Waiting seen \<Rightarrow> if seen = g then 0 else 5
      | Pulling seen \<Rightarrow> 3 + (if seen = g then 0 else 5)
      | Fetched seen k \<Rightarrow> (if k < c then 5 else 2) + (if seen = g then 0 else 5)
      | Ran seen _ \<Rightarrow> 4 + (if seen = g then 0 else 5)
      | Leaving seen \<Rightarrow> 1 + (if seen = g then 0 else 5)
      | Exited \<Rightarrow> 0
      | Crashed \<Rightarrow> 0)"

definition caller_rank :: "nat \<Rightarrow> caller \<Rightarrow> nat" where
  "caller_rank c w =
     (case w of CallerPulling \<Rightarrow> 3 | CallerFetched k \<Rightarrow> if k < c then 5 else 2 | CallerRan _ \<Rightarrow> 4
      | CallerWaiting \<Rightarrow> 1 | Outside \<Rightarrow> 0 | Joining \<Rightarrow> 0)"

definition pool_work :: "pool \<Rightarrow> nat" where
  "pool_work p = 4 * (pl_count p - pl_next p) + caller_rank (pl_count p) (pl_caller p)
     + sum_list (map (worker_rank (pl_count p) (pl_generation p)) (pl_workers p))"

lemma caller_works: "caller_step p = Some q \<Longrightarrow> in_run p \<Longrightarrow> pool_work q < pool_work p"
  by (auto simp: caller_step_def in_run_def pool_work_def caller_rank_def split: caller.splits if_splits)

lemma worker_works:
  assumes ws: "pl_workers p = ws @ w # vs" and step: "worker_step w p = Some (w', p')"
    and up: "\<not> pl_stopping p" "w' \<noteq> Crashed"
  shows "pool_work (p'\<lparr>pl_workers := ws @ w' # vs\<rparr>) < pool_work p"
proof -
  have "4 * (pl_count p' - pl_next p') + worker_rank (pl_count p') (pl_generation p') w'
      < 4 * (pl_count p - pl_next p) + worker_rank (pl_count p) (pl_generation p) w"
  proof (cases w)
    case (Fetched seen k)
    then have "(w' = Leaving seen \<and> pl_count p \<le> k \<or> w' = Ran seen k \<and> k < pl_count p)
        \<and> pl_count p' = pl_count p \<and> pl_next p' = pl_next p \<and> pl_generation p' = pl_generation p"
      using step up(2) by (auto simp: worker_step_def worker_compares_def split: if_splits option.splits)
    then show ?thesis by (auto simp: worker_rank_def Fetched)
  qed (use step up in \<open>auto simp: worker_step_def worker_rank_def split: if_splits\<close>)
  moreover have "pl_count p' = pl_count p" "pl_generation p' = pl_generation p" "pl_caller p' = pl_caller p"
    using step by (auto simp: worker_step_def worker_compares_def split: worker.splits if_splits option.splits)
  ultimately show ?thesis by (simp add: pool_work_def ws)
qed

lemma in_run_worker: "worker_step w p = Some (w', p') \<Longrightarrow> pl_caller p' = pl_caller p"
  by (auto simp: worker_step_def worker_compares_def split: worker.splits if_splits option.splits)

lemma moves_inv: "thread_moves p q \<Longrightarrow> pool_inv n p \<Longrightarrow> pool_inv n q"
  by (erule thread_movesE) (auto intro: caller_inv worker_inv)

lemma moves_work:
  assumes "thread_moves p q" and inv: "pool_inv n p" and run: "in_run p"
  shows "pool_work q < pool_work p"
proof -
  have "\<not> pl_stopping p" using run pool_invD(9) [OF inv] by (simp add: in_run_def)
  moreover have "Crashed \<notin> set (pl_workers q)" by (rule pool_invD(2) [OF moves_inv [OF assms(1) inv]])
  ultimately show ?thesis
    using assms(1) run by (auto elim!: thread_movesE intro: caller_works worker_works)
qed

text \<open>While the run is on, somebody can go: the caller, or a worker that is in it.\<close>

lemma somebody_moves:
  assumes inv: "pool_inv n p" and run: "in_run p"
  shows "\<exists>q. thread_moves p q"
proof (cases "caller_step p")
  case None
  then have waits: "pl_caller p = CallerWaiting" "pl_remaining p \<noteq> 0 \<or> pl_active p \<noteq> 0"
    using run by (auto simp: caller_step_def in_run_def split: caller.splits if_splits)
  have "\<exists>w \<in> set (pl_workers p). worker_in w \<noteq> 0"
  proof (rule ccontr)
    assume "\<not> ?thesis"
    then have out: "worker_in w = 0" if "w \<in> set (pl_workers p)" for w using that by simp
    then have sums: "map worker_in (pl_workers p) = map (\<lambda>_. 0) (pl_workers p)"
      "worker_todo c w = {#}" "worker_busy w = {#}" if "w \<in> set (pl_workers p)" for c w
      using that by (auto simp: thread_defs split: worker.splits dest!: out)
    have "pl_active p = 0" using pool_invD(1) [OF inv] out by (simp add: sum_list_triv cong: map_cong)
    moreover have "pool_todo p = {#}" "pool_busy p = {#}"
      using sums waits(1) by (auto simp: pool_todo_def pool_busy_def sum_empty caller_todo_def caller_busy_def)
    moreover have "pl_count p \<le> pl_next p" using pool_invD(6) [OF inv] waits(1) by simp
    ultimately show False using waits(2) pool_invD(10,12) [OF inv run] by (simp add: min_def)
  qed
  then obtain ws w vs where w: "pl_workers p = ws @ w # vs" "worker_in w \<noteq> 0" by (auto dest: split_list)
  then have "worker_step w p \<noteq> None" by (cases w) (simp_all add: worker_step_def worker_in_def)
  then obtain w' p' where "worker_step w p = Some (w', p')" by auto
  then show ?thesis using w(1) by (auto intro: by_worker)
qed (auto intro: by_caller)

lemma run_ended: "\<not> in_run p \<Longrightarrow> run_ends_within m p"
  by (cases m) simp_all

lemma run_ends: "pool_inv n p \<Longrightarrow> pool_work p \<le> m \<Longrightarrow> run_ends_within m p"
proof (induction m arbitrary: p)
  case 0
  have False if run: "in_run p"
  proof -
    obtain q where q: "thread_moves p q" using somebody_moves [OF "0.prems"(1) run] ..
    from moves_work [OF q "0.prems"(1) run] show False using "0.prems"(2) by simp
  qed
  then show ?case by auto
next
  case (Suc m)
  show ?case
  proof (cases "in_run p")
    case True
    then have "\<exists>q. thread_moves p q" using somebody_moves Suc.prems(1) by blast
    moreover have "run_ends_within m q" if "thread_moves p q" for q
      using Suc.IH [OF moves_inv [OF that Suc.prems(1)]] moves_work [OF that Suc.prems(1) True] Suc.prems(2) by simp
    ultimately show ?thesis by simp
  qed simp
qed

lemma pool_work_bound: "pool_work p \<le> 4 * pl_count p + 10 * length (pl_workers p) + 5"
proof -
  have "worker_rank c g w \<le> 10" for c g w by (simp add: worker_rank_def split: worker.splits)
  then have "sum_list (map (worker_rank c g) ws) \<le> 10 * length ws" for c g ws
    by (induction ws) (simp_all add: add_mono order.trans [OF add_mono])
  then have "sum_list (map (worker_rank (pl_count p) (pl_generation p)) (pl_workers p)) \<le> 10 * length (pl_workers p)" by blast
  moreover have "caller_rank (pl_count p) (pl_caller p) \<le> 5" by (simp add: caller_rank_def split: caller.splits)
  ultimately show ?thesis unfolding pool_work_def by linarith
qed

text \<open>
  C9. \<^verbatim>\<open>run\<close> returns. Whatever the order of the threads, from any state inside a run there is always one
  that can go, and after at most four steps for each job and ten for each worker the caller is out: no
  wake-up is missed and no worker is waited for in vain. The client asks for the same number of jobs in
  every run, and a job returns.
\<close>

theorem run_returns:
  assumes "pool_reaches {n} pool_init p"
  shows "run_ends_within (4 * n + 10 * length (pl_workers p) + 5) p"
proof (cases "in_run p")
  case True
  note inv = pool_inv_reaches [OF assms]
  then have "pool_work p \<le> 4 * n + 10 * length (pl_workers p) + 5"
    using pool_work_bound [of p] pool_invD(10) [OF inv True] by simp
  then show ?thesis by (rule run_ends [OF inv])
next
  case False
  then show ?thesis by (rule run_ended)
qed

definition shared_middle :: pool where
  "shared_middle = \<lparr>pl_workers = [Ran 1 0, Waiting 0], pl_caller = CallerWaiting, pl_job = Some 0, pl_count = 2,
     pl_remaining = 1, pl_active = 1, pl_generation = 1, pl_next = 3, pl_stopping = False, pl_runs = 1,
     pl_called = [(0, 0), (0, 1)]\<rparr>"

lemma middle_play: "pool_play [ClientStarts 2, ClientRuns 2, WorkerTurn 0, WorkerTurn 0, CallerTurn, WorkerTurn 0,
    CallerTurn, CallerTurn, CallerTurn, CallerTurn] pool_init = Some shared_middle"
  by (simp add: shared_middle_def pool_init_def play_simps numeral_2_eq_2)

lemma middle_reached: "pool_reaches {2} pool_init shared_middle"
  by (rule pool_play_reaches [OF middle_play]) (simp_all add: pool_reaches_def)

lemma run_returns_witness: "run_ends_within 33 shared_middle \<and> in_run shared_middle \<and> caller_step shared_middle = None"
  using run_returns [OF middle_reached] by (simp add: shared_middle_def in_run_def caller_step_def del: run_ends_within.simps)

subsection \<open>Counts that differ\<close>

text \<open>
  A worker that wakes up late, after the caller alone has finished a run, has its index from the end of
  that run. If the next run has begun with a larger count before it compares, the index is a job of that
  run, which the caller comes to as well: job 3 of the second run is called twice, \<^verbatim>\<open>remaining_\<close> goes below
  zero, and the caller waits for ever. The engine always asks for one job per Opus block, and is not
  touched by it.
\<close>

definition late_worker :: "turn list" where
  "late_worker = [ClientStarts 2, ClientRuns 2] @ replicate 9 CallerTurn @ [WorkerTurn 0, WorkerTurn 0,
     ClientRuns 4, WorkerTurn 0] @ replicate 14 CallerTurn @ replicate 4 (WorkerTurn 0) @ replicate 4 (WorkerTurn 1)
     @ replicate 4 (WorkerTurn 0)"

definition hung_pool :: pool where
  "hung_pool = \<lparr>pl_workers = [Waiting 2, Waiting 2], pl_caller = CallerWaiting, pl_job = Some 1, pl_count = 4,
     pl_remaining = -1, pl_active = 0, pl_generation = 2, pl_next = 8, pl_stopping = False, pl_runs = 2,
     pl_called = [(0, 0), (0, 1), (1, 3), (1, 0), (1, 1), (1, 2), (1, 3)]\<rparr>"

lemma late_play: "pool_play late_worker pool_init = Some hung_pool"
  by (simp add: late_worker_def hung_pool_def pool_init_def play_simps eval_nat_numeral)

theorem different_counts_hang:
  "pool_reaches {2, 4} pool_init hung_pool \<and> (\<nexists>q. thread_moves hung_pool q) \<and> in_run hung_pool"
proof -
  have "pool_reaches {2, 4} pool_init hung_pool"
    by (rule pool_play_reaches [OF late_play]) (auto simp: pool_reaches_def late_worker_def)
  moreover have "worker_step w hung_pool = None" if "w \<in> set (pl_workers hung_pool)" for w
    using that by (auto simp: hung_pool_def worker_step_def)
  then have "\<nexists>q. thread_moves hung_pool q"
    by (auto elim!: thread_movesE simp: caller_step_def) (auto simp: hung_pool_def)
  ultimately show ?thesis by (simp add: in_run_def hung_pool_def)
qed

end
