(* ===== verification/LogRing.thy ===== *)
theory LogRing
  imports Prelude
begin

text \<open>
  The log, src/src/log.hpp and src/src/log.cpp: the last lines in memory, and what goes to the console.

  \<open>log_ring\<close> holds the members; \<open>log_write\<close> also gives what it prints, if anything, and whether that goes
  to \<^verbatim>\<open>cerr\<close>. The time stamp is an argument. The level is an enumeration with the order of its values.
\<close>

subsection \<open>Levels\<close>

datatype log_level = LogDebug | LogInfo | LogWarn | LogError

fun level_rank :: "log_level \<Rightarrow> nat" where
  "level_rank LogDebug = 0"
| "level_rank LogInfo = 1"
| "level_rank LogWarn = 2"
| "level_rank LogError = 3"

instantiation log_level :: linorder
begin

definition less_eq_log_level :: "log_level \<Rightarrow> log_level \<Rightarrow> bool" where
  "less_eq_log_level a b \<longleftrightarrow> level_rank a \<le> level_rank b"

definition less_log_level :: "log_level \<Rightarrow> log_level \<Rightarrow> bool" where
  "less_log_level a b \<longleftrightarrow> level_rank a < level_rank b"

instance
proof
  fix a b :: log_level
  show "a \<le> b \<Longrightarrow> b \<le> a \<Longrightarrow> a = b"
    by (cases a; cases b) (simp_all add: less_eq_log_level_def)
qed (auto simp: less_eq_log_level_def less_log_level_def)

end

fun level_name :: "log_level \<Rightarrow> string" where
  "level_name LogDebug = ''debug''"
| "level_name LogInfo = ''info''"
| "level_name LogWarn = ''warn''"
| "level_name LogError = ''error''"

subsection \<open>The ring of lines\<close>

record log_ring =
  lg_level :: log_level
  lg_capacity :: nat
  lg_lines :: "string list"
  lg_next :: nat
  lg_wrapped :: bool

definition log_init :: "nat \<Rightarrow> log_ring" where
  "log_init capacity =
     (let c = (if capacity = 0 then 1 else capacity) in
      \<lparr>lg_level = LogInfo, lg_capacity = c, lg_lines = replicate c [], lg_next = 0, lg_wrapped = False\<rparr>)"

definition set_level :: "log_level \<Rightarrow> log_ring \<Rightarrow> log_ring" where
  "set_level level l = l\<lparr>lg_level := level\<rparr>"

definition log_line :: "string \<Rightarrow> log_level \<Rightarrow> string \<Rightarrow> string" where
  "log_line stamp level message = stamp @ '' '' @ level_name level @ '' '' @ message"

definition log_write ::
  "string \<Rightarrow> log_level \<Rightarrow> string \<Rightarrow> log_ring \<Rightarrow> log_ring \<times> (bool \<times> string) option" where
  "log_write stamp level message l =
     (let line = log_line stamp level message;
          l1 = l\<lparr>lg_lines := (lg_lines l)[lg_next l := line], lg_next := (lg_next l + 1) mod lg_capacity l\<rparr>;
          l2 = (if lg_next l1 = 0 then l1\<lparr>lg_wrapped := True\<rparr> else l1)
      in if level < lg_level l2 then (l2, None) else (l2, Some (LogWarn \<le> level, line)))"

text \<open>The loop walks backwards from the latest line; what it collects is reversed.\<close>

fun tail_loop :: "nat \<Rightarrow> log_ring \<Rightarrow> string list" where
  "tail_loop 0 l = []"
| "tail_loop (Suc i) l =
     tail_loop i l @ [lg_lines l ! ((lg_next l + lg_capacity l - 1 - i) mod lg_capacity l)]"

definition log_tail :: "nat \<Rightarrow> log_ring \<Rightarrow> string list" where
  "log_tail lines l =
     (let held = (if lg_wrapped l then lg_capacity l else lg_next l)
      in rev (tail_loop (min lines held) l))"

subsection \<open>The latest lines\<close>

text \<open>The writes of a program: a time stamp, a level and a message each.\<close>

definition log_run :: "(string \<times> log_level \<times> string) list \<Rightarrow> log_ring \<Rightarrow> log_ring" where
  "log_run ws l = fold (\<lambda>(stamp, level, message) l. fst (log_write stamp level message l)) ws l"

definition lines_of :: "(string \<times> log_level \<times> string) list \<Rightarrow> string list" where
  "lines_of ws = map (\<lambda>(stamp, level, message). log_line stamp level message) ws"

text \<open>A ring that has taken the lines \<open>h\<close>: each of the latest is at its place.\<close>

definition log_holds :: "log_ring \<Rightarrow> string list \<Rightarrow> bool" where
  "log_holds l h \<longleftrightarrow>
     0 < lg_capacity l \<and> length (lg_lines l) = lg_capacity l \<and> lg_next l = length h mod lg_capacity l
     \<and> (lg_wrapped l \<longleftrightarrow> lg_capacity l \<le> length h)
     \<and> (\<forall>k < length h. length h \<le> k + lg_capacity l \<longrightarrow> lg_lines l ! (k mod lg_capacity l) = h ! k)"

lemma log_holds_init: "log_holds (log_init capacity) []"
  by (simp add: log_holds_def log_init_def Let_def)

lemma write_fields:
  "lg_capacity (fst (log_write stamp level message l)) = lg_capacity l"
  "lg_lines (fst (log_write stamp level message l)) = (lg_lines l)[lg_next l := log_line stamp level message]"
  "lg_next (fst (log_write stamp level message l)) = Suc (lg_next l) mod lg_capacity l"
  "lg_wrapped (fst (log_write stamp level message l)) \<longleftrightarrow> lg_wrapped l \<or> Suc (lg_next l) mod lg_capacity l = 0"
  by (simp_all add: log_write_def Let_def)

lemma mod_window:
  assumes "(k :: nat) < n" "n < k + c"
  shows "k mod c \<noteq> n mod c"
proof
  assume "k mod c = n mod c"
  then have "c dvd n - k" using assms(1) by (metis mod_eq_dvd_iff_nat less_imp_le)
  then show False using assms by (auto dest: dvd_imp_le)
qed

lemma log_holds_write:
  assumes "log_holds l h"
  shows "log_holds (fst (log_write stamp level message l)) (h @ [log_line stamp level message])"
proof -
  let ?c = "lg_capacity l"
  note h = assms [unfolded log_holds_def]
  have "(lg_lines l)[length h mod ?c := x] ! (k mod ?c) = (h @ [x]) ! k"
    if "k < Suc (length h)" "Suc (length h) \<le> k + ?c" for x k
    using h that mod_window [of k "length h" ?c] by (auto simp: nth_append less_Suc_eq)
  moreover have "lg_wrapped l \<or> Suc (length h mod ?c) mod ?c = 0 \<longleftrightarrow> ?c \<le> Suc (length h)"
  proof (cases "?c \<le> length h")
    case False
    then show ?thesis using h by (cases "Suc (length h) = ?c") auto
  qed (use h in auto)
  ultimately show ?thesis using h by (simp add: log_holds_def write_fields mod_Suc_eq)
qed

lemma log_holds_run: "log_holds l h \<Longrightarrow> log_holds (log_run ws l) (h @ lines_of ws)"
proof (induction ws arbitrary: l h)
  case (Cons w ws)
  obtain stamp level message where w: "w = (stamp, level, message)" by (cases w)
  show ?case
    using Cons.IH [OF log_holds_write [OF Cons.prems, of stamp level message]]
    by (simp add: log_run_def lines_of_def w)
qed (simp add: log_run_def lines_of_def)

lemma log_run_capacity: "lg_capacity (log_run ws l) = lg_capacity l"
  by (induction ws arbitrary: l) (auto simp: log_run_def write_fields)

lemma tail_loop_holds:
  assumes "log_holds l h"
  shows "m \<le> min (lg_capacity l) (length h) \<Longrightarrow> tail_loop m l = rev (drop (length h - m) h)"
proof (induction m)
  case (Suc m)
  let ?k = "length h - Suc m"
  note h = assms [unfolded log_holds_def]
  have k: "?k < length h" "length h \<le> ?k + lg_capacity l" using Suc.prems by auto
  have "(lg_next l + lg_capacity l - 1 - m) mod lg_capacity l = ?k mod lg_capacity l"
  proof -
    have "lg_next l + lg_capacity l - 1 - m = length h mod lg_capacity l + (lg_capacity l - 1 - m)"
      using h Suc.prems by simp
    also have "\<dots> mod lg_capacity l = (length h + (lg_capacity l - 1 - m)) mod lg_capacity l"
      by (rule mod_add_left_eq)
    also have "length h + (lg_capacity l - 1 - m) = ?k + lg_capacity l" using Suc.prems by simp
    also have "\<dots> mod lg_capacity l = ?k mod lg_capacity l" by (rule mod_add_self2)
    finally show ?thesis .
  qed
  moreover have "drop ?k h = h ! ?k # drop (length h - m) h"
    using Cons_nth_drop_Suc [OF k(1)] Suc.prems by (simp add: Suc_diff_Suc)
  ultimately show ?case using Suc h k by simp
qed simp

text \<open>
  The log keeps the latest lines. After any writes, at whatever levels, the last \<open>n\<close> lines are the
  latest \<open>n\<close> that were written, or as many as the log has room for, oldest first; the level only decides
  what is printed.
\<close>

theorem log_tail_latest:
  "log_tail n (log_run ws (log_init capacity))
     = drop (length ws - min n (max 1 capacity)) (lines_of ws)"
proof -
  let ?l = "log_run ws (log_init capacity)"
  have h: "log_holds ?l (lines_of ws)" using log_holds_run [OF log_holds_init] by simp
  have c: "lg_capacity ?l = max 1 capacity" by (simp add: log_run_capacity log_init_def Let_def)
  have n: "length (lines_of ws) = length ws" by (simp add: lines_of_def)
  have "(if lg_wrapped ?l then lg_capacity ?l else lg_next ?l) = min (lg_capacity ?l) (length ws)"
    using h by (simp add: log_holds_def n min_def)
  then have "log_tail n ?l = rev (tail_loop (min n (min (lg_capacity ?l) (length ws))) ?l)"
    by (simp only: log_tail_def Let_def)
  also have "\<dots> = drop (length ws - min n (min (lg_capacity ?l) (length ws))) (lines_of ws)"
    by (subst tail_loop_holds [OF h]) (auto simp: n)
  also have "length ws - min n (min (lg_capacity ?l) (length ws)) = length ws - min n (lg_capacity ?l)"
    by (simp add: min_def)
  finally show ?thesis unfolding c .
qed

end
