(* ===== verification/Documents.thy ===== *)
theory Documents
  imports Config
begin

text \<open>
  What the program does with JSON documents and with decimal numbers, outside of its configuration.

  A document is a value of \<open>json\<close>; the order of an object's members is not observed. Reading a member
  with a default, as the library's \<^verbatim>\<open>value\<close> does, and setting a member can throw: \<open>json_exception\<close> is
  the exception. \<^verbatim>\<open>json_get\<close> of src/src/aes67/daemon_client.cpp is the reading that never throws.
\<close>

subsection \<open>Decimal numbers\<close>

definition digit_char :: "nat \<Rightarrow> char" where
  "digit_char d = char_of (48 + d)"

fun show_nat :: "nat \<Rightarrow> string" where
  "show_nat n = (if n < 10 then [digit_char n] else show_nat (n div 10) @ [digit_char (n mod 10)])"

declare show_nat.simps [simp del]

text \<open>\<^verbatim>\<open>std::to_string\<close> of a signed number.\<close>

definition show_int :: "int \<Rightarrow> string" where
  "show_int n = (if n < 0 then CHR ''-'' # show_nat (nat (- n)) else show_nat (nat n))"

lemma digit_char_inj: "a < 10 \<Longrightarrow> b < 10 \<Longrightarrow> digit_char a = digit_char b \<longleftrightarrow> a = b"
proof -
  assume "a < 10" "b < 10"
  then have "of_char (digit_char a) = 48 + a" "of_char (digit_char b) = 48 + b"
    by (simp_all add: digit_char_def)
  then show ?thesis by (metis add_left_cancel)
qed

lemma is_digit_char: "d < 10 \<Longrightarrow> is_digit (digit_char d)"
  by (simp add: is_digit_def digit_char_def)

lemma show_nat_digits: "show_nat n \<noteq> [] \<and> list_all is_digit (show_nat n)"
proof (induction n rule: show_nat.induct)
  case (1 n)
  then show ?case by (subst (1 2) show_nat.simps) (simp add: is_digit_char)
qed

lemma foldl_show_nat: "foldl (\<lambda>v c. 10 * v + (of_char c - 48)) 0 (show_nat n) = n"
proof (induction n rule: show_nat.induct)
  case (1 n)
  have char: "of_char (digit_char d) = 48 + d" if "d < 10" for d using that by (simp add: digit_char_def)
  show ?case
  proof (cases "n < 10")
    case True
    then show ?thesis by (subst show_nat.simps) (simp add: char)
  next
    case False
    with 1 show ?thesis by (subst show_nat.simps) (simp add: char)
  qed
qed

lemma show_nat_inj: "show_nat a = show_nat b \<longleftrightarrow> a = b"
  by (metis foldl_show_nat)

lemma show_nat_no_minus: "show_nat n \<noteq> CHR ''-'' # s"
  using show_nat_digits [of n] by (auto simp: is_digit_def)

lemma show_int_inj: "show_int a = show_int b \<longleftrightarrow> a = b"
  by (auto simp: show_int_def show_nat_inj show_nat_no_minus dest: sym)

subsection \<open>Members\<close>

datatype json_exception = TypeError

fun json_contains :: "json \<Rightarrow> string \<Rightarrow> bool" where
  "json_contains (JObject members) key \<longleftrightarrow> map_of members key \<noteq> None"
| "json_contains _ key \<longleftrightarrow> False"

fun json_at :: "json \<Rightarrow> string \<Rightarrow> json" where
  "json_at (JObject members) key = (case map_of members key of None \<Rightarrow> JNull | Some v \<Rightarrow> v)"
| "json_at _ key = JNull"

fun json_is_object :: "json \<Rightarrow> bool" where
  "json_is_object (JObject _) \<longleftrightarrow> True"
| "json_is_object _ \<longleftrightarrow> False"

fun as_string :: "json \<Rightarrow> string option" where
  "as_string (JString s) = Some s"
| "as_string _ = None"

fun as_bool :: "json \<Rightarrow> bool option" where
  "as_bool (JBool b) = Some b"
| "as_bool _ = None"

text \<open>
  \<^verbatim>\<open>document.value(key, fallback)\<close>, for the reading \<open>as\<close> of its type: a member of another type throws,
  and so does a document that is no object.
\<close>

definition json_value :: "(json \<Rightarrow> 'a option) \<Rightarrow> json \<Rightarrow> string \<Rightarrow> 'a \<Rightarrow> json_exception + 'a" where
  "json_value as document key fallback =
     (if \<not> json_is_object document then Inl TypeError
      else if \<not> json_contains document key then Inr fallback
      else case as (json_at document key) of None \<Rightarrow> Inl TypeError | Some v \<Rightarrow> Inr v)"

text \<open>\<^verbatim>\<open>json_get\<close>: absent, or present with the wrong type, gives the default.\<close>

definition json_get :: "(json \<Rightarrow> 'a option) \<Rightarrow> json \<Rightarrow> string \<Rightarrow> 'a \<Rightarrow> 'a" where
  "json_get as document key fallback =
     (if \<not> json_is_object document \<or> \<not> json_contains document key then fallback
      else case as (json_at document key) of None \<Rightarrow> fallback | Some v \<Rightarrow> v)"

lemma json_get_value: "json_value as document key fallback = Inr v \<Longrightarrow> json_get as document key fallback = v"
  by (auto simp: json_value_def json_get_def split: if_splits option.splits)

fun set_member :: "string \<Rightarrow> json \<Rightarrow> json_object \<Rightarrow> json_object" where
  "set_member key v [] = [(key, v)]"
| "set_member key v ((k, x) # rest) = (if k = key then (key, v) # rest else (k, x) # set_member key v rest)"

lemma map_of_set_member: "map_of (set_member key v members) = (map_of members)(key \<mapsto> v)"
  by (induction members) (auto simp: fun_eq_iff)

text \<open>\<^verbatim>\<open>document[key] = v\<close>: a null becomes an object, anything else that is no object throws.\<close>

fun json_put :: "string \<Rightarrow> json \<Rightarrow> json \<Rightarrow> json_exception + json" where
  "json_put key v (JObject members) = Inr (JObject (set_member key v members))"
| "json_put key v JNull = Inr (JObject [(key, v)])"
| "json_put key v _ = Inl TypeError"

text \<open>What a range-based loop goes over: an array's elements, an object's values, nothing of a null.\<close>

fun json_elements :: "json \<Rightarrow> json list" where
  "json_elements (JArray xs) = xs"
| "json_elements (JObject members) = map snd members"
| "json_elements JNull = []"
| "json_elements v = [v]"

text \<open>\<^verbatim>\<open>find\<close> in a text.\<close>

fun text_contains :: "string \<Rightarrow> string \<Rightarrow> bool" where
  "text_contains part [] \<longleftrightarrow> part = []"
| "text_contains part (c # s) \<longleftrightarrow> take (length part) (c # s) = part \<or> text_contains part s"

lemma text_contains_iff: "text_contains part s \<longleftrightarrow> (\<exists>a b. s = a @ part @ b)"
proof (induction s)
  case (Cons c s)
  have "(\<exists>a b. c # s = a @ part @ b) \<longleftrightarrow> (\<exists>b. c # s = part @ b) \<or> (\<exists>a b. s = a @ part @ b)"
    by (metis append_Cons append_Nil list.exhaust list.inject)
  moreover have "(\<exists>b. c # s = part @ b) \<longleftrightarrow> take (length part) (c # s) = part"
    by (metis append_eq_conv_conj append_take_drop_id)
  ultimately show ?case using Cons by simp
qed simp

end
