(* ===== verification/Daemon.thy ===== *)
theory Daemon
  imports Documents
begin

text \<open>
  The AES67 daemon as the program sees it: src/src/aes67/daemon_client.hpp, daemon_client.cpp and
  fake_daemon_client.cpp.

  \<open>daemon_client\<close> is the interface, a record of operations on the state of a client; \<open>http_daemon\<close> is the
  one that talks to a daemon over HTTP, \<open>fake_daemon\<close> the simulated one. The HTTP library and the JSON
  library are the parameters in \<open>http_platform\<close>. An operation that fails gives the reason the code writes,
  or the exception it throws. An output pointer that may be null has no counterpart.

  \<open>daemon_store\<close> is the contract: what a put does to the sources and sinks a client's daemon holds, and
  that reading changes neither.
\<close>

subsection \<open>The interface\<close>

record ptp_status =
  pt_status :: string
  pt_gmid :: string
  pt_jitter :: int

record sink_status =
  ss_in_use :: bool
  ss_receiving_rtp_packet :: bool
  ss_muted :: bool
  ss_rtp_seq_id_error :: bool
  ss_rtp_ssrc_error :: bool
  ss_rtp_payload_type_error :: bool
  ss_rtp_sac_error :: bool

definition default_ptp :: ptp_status where
  "default_ptp = \<lparr>pt_status = ''unknown'', pt_gmid = [], pt_jitter = 0\<rparr>"

definition default_sink_status :: sink_status where
  "default_sink_status = \<lparr>ss_in_use = True, ss_receiving_rtp_packet = False, ss_muted = False,
     ss_rtp_seq_id_error = False, ss_rtp_ssrc_error = False, ss_rtp_payload_type_error = False,
     ss_rtp_sac_error = False\<rparr>"

datatype daemon_error = DaemonSays string | DaemonThrows json_exception

record 'd daemon_client =
  dm_connected :: "'d \<Rightarrow> bool"
  dm_last_error :: "'d \<Rightarrow> string"
  dm_endpoint :: "'d \<Rightarrow> string"
  dm_get_version :: "'d \<Rightarrow> 'd \<times> (daemon_error + string)"
  dm_get_config :: "'d \<Rightarrow> 'd \<times> (daemon_error + json)"
  dm_get_ptp_status :: "'d \<Rightarrow> 'd \<times> (daemon_error + ptp_status)"
  dm_get_sinks :: "'d \<Rightarrow> 'd \<times> (daemon_error + json)"
  dm_get_sources :: "'d \<Rightarrow> 'd \<times> (daemon_error + json)"
  dm_put_sink :: "int \<Rightarrow> json \<Rightarrow> 'd \<Rightarrow> 'd \<times> daemon_error option"
  dm_delete_sink :: "int \<Rightarrow> 'd \<Rightarrow> 'd \<times> daemon_error option"
  dm_put_source :: "int \<Rightarrow> json \<Rightarrow> 'd \<Rightarrow> 'd \<times> daemon_error option"
  dm_delete_source :: "int \<Rightarrow> 'd \<Rightarrow> 'd \<times> daemon_error option"
  dm_get_sink_status :: "int \<Rightarrow> 'd \<Rightarrow> 'd \<times> (daemon_error + sink_status)"
  dm_get_source_sdp :: "int \<Rightarrow> 'd \<Rightarrow> 'd \<times> (daemon_error + string)"
  dm_browse_sources :: "string \<Rightarrow> 'd \<Rightarrow> 'd \<times> (daemon_error + json)"

definition stream_absent :: "int \<Rightarrow> bool" where
  "stream_absent http_status \<longleftrightarrow> http_status = 400 \<or> http_status = 404"

text \<open>The word the daemon takes for every kind but the two it knows.\<close>

definition browse_kind :: "string \<Rightarrow> string" where
  "browse_kind kind = (if kind = ''mdns'' \<or> kind = ''sap'' then kind else ''all'')"

subsection \<open>The documents the program asks the daemon to hold\<close>

definition daemon_codec :: "string \<Rightarrow> string" where
  "daemon_codec format = (if format = ''s16_le'' then ''L16'' else ''L24'')"

definition payload_type_for :: "string \<Rightarrow> int" where
  "payload_type_for format = (if format = ''s16_le'' then 97 else 98)"

definition block_stream_name :: "int \<Rightarrow> string" where
  "block_stream_name block_index = ''aes67-srt block '' @ show_int block_index"

definition make_block_source :: "config \<Rightarrow> block_config \<Rightarrow> json" where
  "make_block_source config block = JObject
     [(''enabled'', JBool True),
      (''name'', JString (block_stream_name (bc_index block))),
      (''io'', JString ''Audio Device''),
      (''codec'', JString (daemon_codec (ac_format (cf_audio config)))),
      (''address'', JString []),
      (''max_samples_per_packet'', JInt (ac_period_frames (cf_audio config))),
      (''map'', JArray (map JInt (bc_channels block))),
      (''ttl'', JInt 15),
      (''payload_type'', JInt (payload_type_for (ac_format (cf_audio config)))),
      (''dscp'', JInt 34),
      (''refclk_ptp_traceable'', JBool False)]"

definition k_sink_playout_delay_samples :: int where "k_sink_playout_delay_samples = 384"

datatype sink_document_error = NoRemoteSdp int

definition make_block_sink :: "block_config \<Rightarrow> string \<Rightarrow> sink_document_error + json" where
  "make_block_sink block remote_sdp =
     (if trim remote_sdp = [] then Inl (NoRemoteSdp (bc_index block))
      else Inr (JObject
        [(''name'', JString (block_stream_name (bc_index block))),
         (''io'', JString ''Audio Device''),
         (''delay'', JInt k_sink_playout_delay_samples),
         (''use_sdp'', JBool True),
         (''source'', JString []),
         (''sdp'', JString remote_sdp),
         (''ignore_refclk_gmid'', JBool False),
         (''map'', JArray (map JInt (bc_channels block)))]))"

subsection \<open>The client of a real daemon\<close>

datatype http_reply = NoReply string | Reply int string

record 'w http_platform =
  hp_get :: "string \<Rightarrow> 'w \<Rightarrow> 'w \<times> http_reply"
  hp_put :: "string \<Rightarrow> string \<Rightarrow> 'w \<Rightarrow> 'w \<times> http_reply"
  hp_delete :: "string \<Rightarrow> 'w \<Rightarrow> 'w \<times> http_reply"
  hp_parse :: "string \<Rightarrow> json option"
  hp_dump :: "json \<Rightarrow> string"
  hp_int :: "json \<Rightarrow> int option"

record 'w http_client =
  hc_endpoint :: string
  hc_connected :: bool
  hc_last_error :: string
  hc_world :: 'w

definition http_init :: "daemon_config \<Rightarrow> 'w \<Rightarrow> 'w http_client" where
  "http_init config w = \<lparr>hc_endpoint = dc_address config @ '':'' @ show_int (dc_port config),
     hc_connected = False, hc_last_error = [], hc_world = w\<rparr>"

definition describe :: "http_reply \<Rightarrow> string" where
  "describe result =
     (case result of
        NoReply reason \<Rightarrow> ''no response from the AES67 daemon ('' @ reason @ '')''
      | Reply status body \<Rightarrow>
          ''AES67 daemon returned HTTP '' @ show_int status
            @ (if trim body = [] then [] else '': '' @ take 200 (trim body)))"

definition parse_or_empty :: "'w http_platform \<Rightarrow> string \<Rightarrow> json" where
  "parse_or_empty p body =
     (if trim body = [] then JObject []
      else case hp_parse p body of None \<Rightarrow> JObject [] | Some document \<Rightarrow> document)"

definition mark_connected :: "'w http_client \<Rightarrow> 'w http_client" where
  "mark_connected c = c\<lparr>hc_connected := True, hc_last_error := []\<rparr>"

definition mark_failed :: "string \<Rightarrow> 'w http_client \<Rightarrow> 'w http_client \<times> daemon_error" where
  "mark_failed message c = (c\<lparr>hc_connected := False, hc_last_error := message\<rparr>, DaemonSays message)"

text \<open>Any 2xx is success; it gives the body.\<close>

definition accept_reply :: "http_reply \<Rightarrow> 'w http_client \<Rightarrow> 'w http_client \<times> (daemon_error + string)" where
  "accept_reply result c =
     (case result of
        Reply status body \<Rightarrow>
          if status < 200 \<or> status > 299
          then (case mark_failed (describe result) c of (c', e) \<Rightarrow> (c', Inl e))
          else (mark_connected c, Inr body)
      | NoReply _ \<Rightarrow> (case mark_failed (describe result) c of (c', e) \<Rightarrow> (c', Inl e)))"

definition client_get ::
  "'w http_platform \<Rightarrow> string \<Rightarrow> 'w http_client \<Rightarrow> 'w http_client \<times> (daemon_error + json)" where
  "client_get p path c =
     (case hp_get p path (hc_world c) of (w, result) \<Rightarrow>
        (case accept_reply result (c\<lparr>hc_world := w\<rparr>) of
           (c', Inl e) \<Rightarrow> (c', Inl e)
         | (c', Inr body) \<Rightarrow> (c', Inr (parse_or_empty p body))))"

definition client_put ::
  "'w http_platform \<Rightarrow> string \<Rightarrow> json \<Rightarrow> 'w http_client \<Rightarrow> 'w http_client \<times> daemon_error option" where
  "client_put p path document c =
     (case hp_put p path (hp_dump p document) (hc_world c) of (w, result) \<Rightarrow>
        (case accept_reply result (c\<lparr>hc_world := w\<rparr>) of
           (c', Inl e) \<Rightarrow> (c', Some e) | (c', Inr _) \<Rightarrow> (c', None)))"

definition client_remove ::
  "'w http_platform \<Rightarrow> string \<Rightarrow> 'w http_client \<Rightarrow> 'w http_client \<times> daemon_error option" where
  "client_remove p path c =
     (case hp_delete p path (hc_world c) of (w, result) \<Rightarrow>
        (case accept_reply result (c\<lparr>hc_world := w\<rparr>) of
           (c', Inl e) \<Rightarrow> (c', Some e) | (c', Inr _) \<Rightarrow> (c', None)))"

definition http_version ::
  "'w http_platform \<Rightarrow> 'w http_client \<Rightarrow> 'w http_client \<times> (daemon_error + string)" where
  "http_version p c =
     (case client_get p ''/api/version'' c of
        (c', Inl e) \<Rightarrow> (c', Inl e)
      | (c', Inr document) \<Rightarrow>
          (c', Inr (case document of JString s \<Rightarrow> s | _ \<Rightarrow> json_get as_string document ''version'' [])))"

definition http_ptp_status ::
  "'w http_platform \<Rightarrow> 'w http_client \<Rightarrow> 'w http_client \<times> (daemon_error + ptp_status)" where
  "http_ptp_status p c =
     (case client_get p ''/api/ptp/status'' c of
        (c', Inl e) \<Rightarrow> (c', Inl e)
      | (c', Inr document) \<Rightarrow>
          (c', Inr \<lparr>pt_status = json_get as_string document ''status'' ''unknown'',
                    pt_gmid = json_get as_string document ''gmid'' [],
                    pt_jitter = json_get (hp_int p) document ''jitter'' 0\<rparr>))"

definition read_sink_status :: "json \<Rightarrow> sink_status" where
  "read_sink_status document =
     (let flags = json_get Some document ''sink_flags'' (JObject []);
          flag = (\<lambda>name. json_get as_bool flags name False)
      in \<lparr>ss_in_use = True, ss_receiving_rtp_packet = flag ''receiving_rtp_packet'',
          ss_muted = flag ''muted'', ss_rtp_seq_id_error = flag ''rtp_seq_id_error'',
          ss_rtp_ssrc_error = flag ''rtp_ssrc_error'',
          ss_rtp_payload_type_error = flag ''rtp_payload_type_error'',
          ss_rtp_sac_error = flag ''rtp_sac_error''\<rparr>)"

definition reply_absent :: "http_reply \<Rightarrow> bool" where
  "reply_absent result \<longleftrightarrow> (case result of Reply status _ \<Rightarrow> stream_absent status | NoReply _ \<Rightarrow> stream_absent 0)"

definition http_sink_status ::
  "'w http_platform \<Rightarrow> int \<Rightarrow> 'w http_client \<Rightarrow> 'w http_client \<times> (daemon_error + sink_status)" where
  "http_sink_status p i c =
     (case hp_get p (''/api/sink/status/'' @ show_int i) (hc_world c) of (w, result) \<Rightarrow>
        let c1 = c\<lparr>hc_world := w\<rparr> in
        if reply_absent result
        then (mark_connected c1, Inr (default_sink_status\<lparr>ss_in_use := False\<rparr>))
        else (case accept_reply result c1 of
                (c', Inl e) \<Rightarrow> (c', Inl e)
              | (c', Inr body) \<Rightarrow> (c', Inr (read_sink_status (parse_or_empty p body)))))"

definition http_source_sdp ::
  "'w http_platform \<Rightarrow> int \<Rightarrow> 'w http_client \<Rightarrow> 'w http_client \<times> (daemon_error + string)" where
  "http_source_sdp p i c =
     (case hp_get p (''/api/source/sdp/'' @ show_int i) (hc_world c) of (w, result) \<Rightarrow>
        let c1 = c\<lparr>hc_world := w\<rparr> in
        if reply_absent result then (mark_connected c1, Inr [])
        else accept_reply result c1)"

definition http_daemon :: "'w http_platform \<Rightarrow> 'w http_client daemon_client" where
  "http_daemon p =
     \<lparr>dm_connected = hc_connected, dm_last_error = hc_last_error, dm_endpoint = hc_endpoint,
      dm_get_version = http_version p,
      dm_get_config = client_get p ''/api/config'',
      dm_get_ptp_status = http_ptp_status p,
      dm_get_sinks = client_get p ''/api/sinks'',
      dm_get_sources = client_get p ''/api/sources'',
      dm_put_sink = (\<lambda>i. client_put p (''/api/sink/'' @ show_int i)),
      dm_delete_sink = (\<lambda>i. client_remove p (''/api/sink/'' @ show_int i)),
      dm_put_source = (\<lambda>i. client_put p (''/api/source/'' @ show_int i)),
      dm_delete_source = (\<lambda>i. client_remove p (''/api/source/'' @ show_int i)),
      dm_get_sink_status = http_sink_status p,
      dm_get_source_sdp = http_source_sdp p,
      dm_browse_sources = (\<lambda>kind. client_get p (''/api/browse/sources/'' @ browse_kind kind))\<rparr>"

subsection \<open>One request\<close>

text \<open>The operations as values, and what a client is left with after one: its state and why it failed, if it did.\<close>

datatype daemon_request =
    AskVersion | AskConfig | AskPtp | AskSinks | AskSources
  | PutSink int json | DeleteSink int | PutSource int json | DeleteSource int
  | AskSinkStatus int | AskSdp int | Browse string

fun error_of :: "'c \<times> ('e + 'a) \<Rightarrow> 'c \<times> 'e option" where
  "error_of (c, Inl e) = (c, Some e)"
| "error_of (c, Inr _) = (c, None)"

fun request_outcome :: "'d daemon_client \<Rightarrow> daemon_request \<Rightarrow> 'd \<Rightarrow> 'd \<times> daemon_error option" where
  "request_outcome dm AskVersion d = error_of (dm_get_version dm d)"
| "request_outcome dm AskConfig d = error_of (dm_get_config dm d)"
| "request_outcome dm AskPtp d = error_of (dm_get_ptp_status dm d)"
| "request_outcome dm AskSinks d = error_of (dm_get_sinks dm d)"
| "request_outcome dm AskSources d = error_of (dm_get_sources dm d)"
| "request_outcome dm (PutSink i sink) d = dm_put_sink dm i sink d"
| "request_outcome dm (DeleteSink i) d = dm_delete_sink dm i d"
| "request_outcome dm (PutSource i source) d = dm_put_source dm i source d"
| "request_outcome dm (DeleteSource i) d = dm_delete_source dm i d"
| "request_outcome dm (AskSinkStatus i) d = error_of (dm_get_sink_status dm i d)"
| "request_outcome dm (AskSdp i) d = error_of (dm_get_source_sdp dm i d)"
| "request_outcome dm (Browse kind) d = error_of (dm_browse_sources dm kind d)"

text \<open>A client whose members say what the last request came to.\<close>

definition healthy :: "'w http_client \<Rightarrow> daemon_error option \<Rightarrow> bool" where
  "healthy c failed \<longleftrightarrow>
     (if failed = None then hc_connected c \<and> hc_last_error c = []
      else \<not> hc_connected c \<and> hc_last_error c \<noteq> [] \<and> failed = Some (DaemonSays (hc_last_error c)))"

lemma describe_says: "describe result \<noteq> []"
  by (simp add: describe_def split: http_reply.splits)

lemma accept_healthy:
  "case accept_reply result c of (c', r) \<Rightarrow>
     healthy c' (case r of Inl e \<Rightarrow> Some e | Inr _ \<Rightarrow> None) \<and> hc_endpoint c' = hc_endpoint c"
  by (simp add: accept_reply_def mark_failed_def mark_connected_def healthy_def describe_says
      split: http_reply.splits)

lemma client_get_healthy:
  "case error_of (client_get p path c) of (c', failed) \<Rightarrow> healthy c' failed \<and> hc_endpoint c' = hc_endpoint c"
  using accept_healthy [where result = "snd (hp_get p path (hc_world c))" and c = "c\<lparr>hc_world := fst (hp_get p path (hc_world c))\<rparr>"]
  by (auto simp: client_get_def split: prod.splits sum.splits)

lemma client_put_healthy:
  "case client_put p path document c of (c', failed) \<Rightarrow> healthy c' failed \<and> hc_endpoint c' = hc_endpoint c"
  using accept_healthy [where result = "snd (hp_put p path (hp_dump p document) (hc_world c))" and c = "c\<lparr>hc_world := fst (hp_put p path (hp_dump p document) (hc_world c))\<rparr>"]
  by (auto simp: client_put_def split: prod.splits sum.splits)

lemma client_remove_healthy:
  "case client_remove p path c of (c', failed) \<Rightarrow> healthy c' failed \<and> hc_endpoint c' = hc_endpoint c"
  using accept_healthy [where result = "snd (hp_delete p path (hc_world c))" and c = "c\<lparr>hc_world := fst (hp_delete p path (hc_world c))\<rparr>"]
  by (auto simp: client_remove_def split: prod.splits sum.splits)

lemma mark_connected_healthy: "healthy (mark_connected c) None \<and> hc_endpoint (mark_connected c) = hc_endpoint c"
  by (simp add: healthy_def mark_connected_def)

lemma error_of_map:
  "error_of (case r of (c, Inl e) \<Rightarrow> (c, Inl e) | (c, Inr x) \<Rightarrow> (c, Inr (f x))) = error_of r"
  by (simp split: prod.splits sum.splits)

lemma stream_requests_healthy:
  "case error_of (http_sink_status p i c) of (c', failed) \<Rightarrow> healthy c' failed \<and> hc_endpoint c' = hc_endpoint c"
  "case error_of (http_source_sdp p i c) of (c', failed) \<Rightarrow> healthy c' failed \<and> hc_endpoint c' = hc_endpoint c"
  using accept_healthy [where result = "snd (hp_get p (''/api/sink/status/'' @ show_int i) (hc_world c))" and c = "c\<lparr>hc_world := fst (hp_get p (''/api/sink/status/'' @ show_int i) (hc_world c))\<rparr>"]
    accept_healthy [where result = "snd (hp_get p (''/api/source/sdp/'' @ show_int i) (hc_world c))" and c = "c\<lparr>hc_world := fst (hp_get p (''/api/source/sdp/'' @ show_int i) (hc_world c))\<rparr>"]
  by (auto simp: http_sink_status_def http_source_sdp_def Let_def mark_connected_healthy
      split: prod.splits sum.splits if_splits)

text \<open>
  The client's health is the last request's. Whatever is asked, and whatever comes back, the client
  is connected with no error after an answer, and not connected with the reason it gives after a failure.
  No request throws, and the endpoint stays.
\<close>

theorem http_health_is_the_last_request:
  "case request_outcome (http_daemon p) request c of (c', failed) \<Rightarrow>
     healthy c' failed \<and> hc_endpoint c' = hc_endpoint c"
proof (cases request)
  case AskVersion
  have "error_of (http_version p c) = error_of (client_get p ''/api/version'' c)"
    unfolding http_version_def by (rule error_of_map)
  then show ?thesis using client_get_healthy [where p = p and c = c] AskVersion by (simp add: http_daemon_def)
next
  case AskPtp
  have "error_of (http_ptp_status p c) = error_of (client_get p ''/api/ptp/status'' c)"
    unfolding http_ptp_status_def by (rule error_of_map)
  then show ?thesis using client_get_healthy [where p = p and c = c] AskPtp by (simp add: http_daemon_def)
qed (simp_all add: http_daemon_def client_get_healthy client_put_healthy client_remove_healthy
    stream_requests_healthy)

subsection \<open>The contract of a daemon's store\<close>

locale daemon_store =
  fixes dm :: "'d daemon_client"
    and published subscribed :: "'d \<Rightarrow> int \<Rightarrow> json option"
  assumes put_source: "dm_put_source dm i document d = (d', None)
      \<Longrightarrow> published d' = (published d)(i \<mapsto> document) \<and> subscribed d' = subscribed d"
    and refused_source: "dm_put_source dm i document d = (d', Some e)
      \<Longrightarrow> published d' = published d \<and> subscribed d' = subscribed d"
    and put_sink: "dm_put_sink dm i document d = (d', None)
      \<Longrightarrow> subscribed d' = (subscribed d)(i \<mapsto> document) \<and> published d' = published d"
    and refused_sink: "dm_put_sink dm i document d = (d', Some e)
      \<Longrightarrow> subscribed d' = subscribed d \<and> published d' = published d"
    and delete_sink: "dm_delete_sink dm i d = (d', None)
      \<Longrightarrow> subscribed d' = (subscribed d)(i := None) \<and> published d' = published d"
    and reads_keep:
      "dm_get_ptp_status dm d = (d', r1) \<Longrightarrow> published d' = published d \<and> subscribed d' = subscribed d"
      "dm_get_source_sdp dm i d = (d', r2) \<Longrightarrow> published d' = published d \<and> subscribed d' = subscribed d"
      "dm_get_sink_status dm i d = (d', r3) \<Longrightarrow> published d' = published d \<and> subscribed d' = subscribed d"
      "dm_browse_sources dm kind d = (d', r4) \<Longrightarrow> published d' = published d \<and> subscribed d' = subscribed d"
begin

text \<open>Publishing a list of documents under their places, until one is refused.\<close>

lemma put_source_cases:
  assumes "dm_put_source dm i document d = (d', failed)"
  shows "published d' = (if failed = None then (published d)(i \<mapsto> document) else published d)"
    and "subscribed d' = subscribed d"
  using assms put_source refused_source by (cases failed; auto)+

lemma put_sink_cases:
  assumes "dm_put_sink dm i document d = (d', failed)"
  shows "subscribed d' = (if failed = None then (subscribed d)(i \<mapsto> document) else subscribed d)"
    and "published d' = published d"
  using assms put_sink refused_sink by (cases failed; auto)+

end

end
