(* ===== verification/FakeDaemon.thy ===== *)
theory FakeDaemon
  imports Daemon
begin

text \<open>
  The simulated daemon: src/src/aes67/fake_daemon_client.hpp and fake_daemon_client.cpp.

  Its two \<^verbatim>\<open>std::map\<close>s are association lists in the order of their keys. It interprets the contract
  \<open>daemon_store\<close>: what is put is what it holds.
\<close>

subsection \<open>A map in the order of its keys\<close>

fun map_put :: "int \<Rightarrow> 'a \<Rightarrow> (int \<times> 'a) list \<Rightarrow> (int \<times> 'a) list" where
  "map_put i v [] = [(i, v)]"
| "map_put i v ((j, x) # rest) =
     (if i < j then (i, v) # (j, x) # rest
      else if i = j then (i, v) # rest
      else (j, x) # map_put i v rest)"

definition map_erase :: "int \<Rightarrow> (int \<times> 'a) list \<Rightarrow> (int \<times> 'a) list" where
  "map_erase i m = filter (\<lambda>(j, _). j \<noteq> i) m"

lemma map_of_put: "map_of (map_put i v m) = (map_of m)(i \<mapsto> v)"
  by (induction m) (auto simp: fun_eq_iff)

lemma map_of_erase: "map_of (map_erase i m) = (map_of m)(i := None)"
  by (induction m) (auto simp: map_erase_def fun_eq_iff)

lemma keys_put: "fst ` set (map_put i v m) = insert i (fst ` set m)"
  by (simp add: map_of_put flip: dom_map_of_conv_image_fst)

lemma sorted_put: "sorted_wrt (<) (map fst m) \<Longrightarrow> sorted_wrt (<) (map fst (map_put i v m))"
proof (induction m)
  case (Cons x m)
  obtain j y where x: "x = (j, y)" by (cases x)
  show ?case
  proof (cases "i < j")
    case True
    then show ?thesis using Cons.prems x by auto
  next
    case False
    then show ?thesis
      using Cons.prems Cons.IH x keys_put [of i v m] by (auto simp: image_iff Ball_def)
  qed
qed simp

lemma sorted_erase: "sorted_wrt (<) (map fst m) \<Longrightarrow> sorted_wrt (<) (map fst (map_erase i m))"
  by (induction m) (auto simp: map_erase_def)

subsection \<open>State\<close>

record fake_daemon =
  fk_config :: daemon_config
  fk_document :: json
  fk_ptp :: ptp_status
  fk_sinks :: "(int \<times> json) list"
  fk_sources :: "(int \<times> json) list"

definition k_gmid :: string where "k_gmid = ''6C-DF-FB-FF-FE-01-92-5C''"
definition k_rtp_mcast_base :: string where "k_rtp_mcast_base = ''239.1.0.1''"
definition k_rtp_port :: int where "k_rtp_port = 5004"

definition fake_init :: "daemon_config \<Rightarrow> fake_daemon" where
  "fake_init config =
     \<lparr>fk_config = config,
      fk_document = JObject
        [(''interface_name'', JString ''eth0''), (''tic_frame_size_at_1fs'', JInt 48),
         (''sample_rate'', JInt 48000), (''max_tic_frame_size'', JInt 1024),
         (''rtp_mcast_base'', JString k_rtp_mcast_base), (''rtp_port'', JInt k_rtp_port),
         (''ptp_domain'', JInt 0), (''sap_interval'', JInt 30),
         (''streamer_enabled'', JBool False), (''auto_sinks_update'', JBool False),
         (''nmos_enabled'', JBool False), (''http_port'', JInt (dc_port config))],
      fk_ptp = \<lparr>pt_status = ''locked'', pt_gmid = k_gmid, pt_jitter = 9\<rparr>,
      fk_sinks = [], fk_sources = []\<rparr>"

subsection \<open>SDP\<close>

definition crlf :: string where "crlf = [CHR 0x0D, CHR 0x0A]"

definition sdp_for :: "string \<Rightarrow> string \<Rightarrow> string \<Rightarrow> int \<Rightarrow> nat \<Rightarrow> string \<Rightarrow> string" where
  "sdp_for name address multicast channels ssrc codec =
     ''v=0'' @ crlf
     @ ''o=- '' @ show_nat ssrc @ '' '' @ show_nat ssrc @ '' IN IP4 '' @ address @ crlf
     @ ''s='' @ name @ crlf
     @ ''c=IN IP4 '' @ multicast @ ''/32'' @ crlf
     @ ''t=0 0'' @ crlf
     @ ''m=audio '' @ show_int k_rtp_port @ '' RTP/AVP 96'' @ crlf
     @ ''i=Channels 1-'' @ show_int channels @ crlf
     @ ''a=recvonly'' @ crlf
     @ ''a=rtpmap:96 '' @ codec @ ''/48000/'' @ show_int channels @ crlf
     @ ''a=ptime:1'' @ crlf
     @ ''a=ts-refclk:ptp=IEEE1588-2008:'' @ k_gmid @ '':0'' @ crlf
     @ ''a=mediaclk:direct=0'' @ crlf"

definition next_multicast :: "int \<Rightarrow> string" where
  "next_multicast i = ''239.1.0.'' @ show_int (i + 1)"

definition source_sdp :: "fake_daemon \<Rightarrow> int \<Rightarrow> json \<Rightarrow> string" where
  "source_sdp d i document =
     (let name = (case as_string (json_at document ''name'') of
                    Some s \<Rightarrow> s | None \<Rightarrow> ''source '' @ show_int i);
          codec = (case as_string (json_at document ''codec'') of Some s \<Rightarrow> s | None \<Rightarrow> ''L24'');
          channels = (case json_at document ''map'' of JArray xs \<Rightarrow> int (length xs) | _ \<Rightarrow> 8);
          ssrc = nat ((0x50000000 + i) mod 2 ^ 32)
      in sdp_for name (dc_address (fk_config d)) (next_multicast i) channels ssrc codec)"

subsection \<open>The operations\<close>

definition set_ptp_status :: "string \<Rightarrow> fake_daemon \<Rightarrow> fake_daemon" where
  "set_ptp_status status d = d\<lparr>fk_ptp := (fk_ptp d)\<lparr>pt_status := status\<rparr>\<rparr>"

definition sink_count :: "fake_daemon \<Rightarrow> nat" where "sink_count d = length (fk_sinks d)"
definition source_count :: "fake_daemon \<Rightarrow> nat" where "source_count d = length (fk_sources d)"

text \<open>The documents of a map with their keys as \<^verbatim>\<open>id\<close>; a document that is no object throws.\<close>

fun with_ids :: "(int \<times> json) list \<Rightarrow> json_exception + json list" where
  "with_ids [] = Inr []"
| "with_ids ((i, document) # rest) =
     sum_bind (json_put ''id'' (JInt i) document) (\<lambda>x. sum_bind (with_ids rest) (\<lambda>xs. Inr (x # xs)))"

definition fake_list :: "string \<Rightarrow> (int \<times> json) list \<Rightarrow> daemon_error + json" where
  "fake_list key m =
     (case with_ids m of
        Inl e \<Rightarrow> Inl (DaemonThrows e)
      | Inr xs \<Rightarrow> Inr (JObject [(key, JArray xs)]))"

definition fake_sink_status :: "int \<Rightarrow> fake_daemon \<Rightarrow> sink_status" where
  "fake_sink_status i d =
     (let used = map_of (fk_sinks d) i \<noteq> None in
      default_sink_status\<lparr>ss_in_use := used, ss_receiving_rtp_packet := used\<rparr>)"

definition fake_source_sdp :: "int \<Rightarrow> fake_daemon \<Rightarrow> string" where
  "fake_source_sdp i d =
     (case map_of (fk_sources d) i of None \<Rightarrow> [] | Some document \<Rightarrow> source_sdp d i document)"

definition announced :: "string \<Rightarrow> string \<Rightarrow> string \<Rightarrow> int \<Rightarrow> nat \<Rightarrow> int \<Rightarrow> json" where
  "announced identity name multicast channels ssrc last_seen = JObject
     [(''source'', JString ''SAP''), (''id'', JString identity), (''name'', JString name),
      (''domain'', JString []), (''address'', JString ''10.10.80.20''),
      (''sdp'', JString (sdp_for name ''10.10.80.20'' multicast channels ssrc ''L24'')),
      (''last_seen'', JInt last_seen), (''announce_period'', JInt 30)]"

definition fake_browse :: "string \<Rightarrow> json" where
  "fake_browse kind = JObject [(''remote_sources'', JArray
     (if browse_kind kind \<noteq> ''mdns''
      then [announced ''aes67-tx-1'' ''AES67-TX-1'' ''233.254.57.0'' 8 0x1000 3,
            announced ''aes67-tx-2-qsys'' ''AES67-TX-2-qsys'' ''239.1.0.99'' 1 0x1001 4]
      else []))]"

definition fake_daemon_client :: "fake_daemon daemon_client" where
  "fake_daemon_client =
     \<lparr>dm_connected = (\<lambda>_. True), dm_last_error = (\<lambda>_. []),
      dm_endpoint = (\<lambda>d. dc_address (fk_config d) @ '':'' @ show_int (dc_port (fk_config d)) @ '' (fake)''),
      dm_get_version = (\<lambda>d. (d, Inr ''fake'')),
      dm_get_config = (\<lambda>d. (d, Inr (fk_document d))),
      dm_get_ptp_status = (\<lambda>d. (d, Inr (fk_ptp d))),
      dm_get_sinks = (\<lambda>d. (d, fake_list ''sinks'' (fk_sinks d))),
      dm_get_sources = (\<lambda>d. (d, fake_list ''sources'' (fk_sources d))),
      dm_put_sink = (\<lambda>i sink d. (d\<lparr>fk_sinks := map_put i sink (fk_sinks d)\<rparr>, None)),
      dm_delete_sink = (\<lambda>i d. (d\<lparr>fk_sinks := map_erase i (fk_sinks d)\<rparr>, None)),
      dm_put_source = (\<lambda>i source d. (d\<lparr>fk_sources := map_put i source (fk_sources d)\<rparr>, None)),
      dm_delete_source = (\<lambda>i d. (d\<lparr>fk_sources := map_erase i (fk_sources d)\<rparr>, None)),
      dm_get_sink_status = (\<lambda>i d. (d, Inr (fake_sink_status i d))),
      dm_get_source_sdp = (\<lambda>i d. (d, Inr (fake_source_sdp i d))),
      dm_browse_sources = (\<lambda>kind d. (d, Inr (fake_browse kind)))\<rparr>"

interpretation fake_store: daemon_store fake_daemon_client "\<lambda>d. map_of (fk_sources d)" "\<lambda>d. map_of (fk_sinks d)"
  by unfold_locales (auto simp: fake_daemon_client_def map_of_put map_of_erase)

subsection \<open>What it lists\<close>

text \<open>The maps stay in order, so a listing is in the order of the ids, each once.\<close>

definition fake_ordered :: "fake_daemon \<Rightarrow> bool" where
  "fake_ordered d \<longleftrightarrow> sorted_wrt (<) (map fst (fk_sinks d)) \<and> sorted_wrt (<) (map fst (fk_sources d))"

lemma fake_ordered_init: "fake_ordered (fake_init config)"
  by (simp add: fake_ordered_def fake_init_def)

lemma fst_error_of: "fst (error_of r) = fst r"
  by (cases r rule: error_of.cases) simp_all

lemma fake_ordered_request:
  "fake_ordered d \<Longrightarrow> fake_ordered (fst (request_outcome fake_daemon_client request d))"
  by (cases request)
    (auto simp: fake_daemon_client_def fake_ordered_def sorted_put sorted_erase fst_error_of)

end
