(* ===== verification/Commissioning.thy ===== *)
theory Commissioning
  imports Daemon FakeDaemon
begin

text \<open>
  What the program tells the daemon at start: src/src/commissioning.hpp and src/src/commissioning.cpp.

  \<open>commission\<close> publishes a source per block and, if asked, subscribes sinks; each refusal of the code is a
  constructor of \<open>commission_error\<close> with the figures it prints, \<open>CommissionThrows\<close> an exception that
  leaves the function. The waits between two readings of a sink's status, and the log lines, are left
  out. The lemmas about \<open>daemon_store\<close> say what the daemon holds afterwards, on success and on failure.
\<close>

subsection \<open>Results\<close>

record commissioning_result =
  cr_sources_published :: nat
  cr_sinks_subscribed :: nat
  cr_sinks_receiving :: nat
  cr_ptp_status :: string
  cr_gmid :: string

definition no_counts :: commissioning_result where
  "no_counts = \<lparr>cr_sources_published = 0, cr_sinks_subscribed = 0, cr_sinks_receiving = 0,
     cr_ptp_status = ''unknown'', cr_gmid = []\<rparr>"

datatype subscription = SubscribeNothing | SubscribeDiscovered | SubscribeSelf

datatype commission_error =
    NoDaemonClient
  | DaemonDidNotAnswer string string
  | CannotPublish int int string
  | SdpUnreadable int string
  | SourceWithoutSdp int
  | NoSinkDocument sink_document_error
  | CannotSubscribe int int string
  | StatusUnreadable int string
  | NoBlocksToSubscribe
  | CannotBrowse string
  | NoRemoteSources
  | AnnouncesNoSdp string
  | NothingCarries string
  | NothingNamed string string
  | CommissionThrows json_exception

definition reason_of :: "string \<Rightarrow> string" where
  "reason_of reason = (if reason = [] then ''no reason given'' else reason)"

text \<open>A daemon's reason becomes part of the message; an exception goes through.\<close>

fun because :: "(string \<Rightarrow> commission_error) \<Rightarrow> daemon_error \<Rightarrow> commission_error" where
  "because message (DaemonSays reason) = message (reason_of reason)"
| "because message (DaemonThrows e) = CommissionThrows e"

subsection \<open>Subscribing one sink\<close>

definition k_receive_poll_attempts :: nat where "k_receive_poll_attempts = 20"

fun poll_sink :: "'d daemon_client \<Rightarrow> int \<Rightarrow> nat \<Rightarrow> 'd \<Rightarrow> 'd \<times> (daemon_error + bool)" where
  "poll_sink dm stream_id 0 d = (d, Inr False)"
| "poll_sink dm stream_id (Suc attempts) d =
     (case dm_get_sink_status dm stream_id d of
        (d1, Inl e) \<Rightarrow> (d1, Inl e)
      | (d1, Inr status) \<Rightarrow>
          if ss_in_use status \<and> ss_receiving_rtp_packet status then (d1, Inr True)
          else if \<not> ss_in_use status then (d1, Inr False)
          else poll_sink dm stream_id attempts d1)"

definition subscribe_sink ::
  "'d daemon_client \<Rightarrow> block_config \<Rightarrow> int \<Rightarrow> string \<Rightarrow> commissioning_result \<Rightarrow> 'd
     \<Rightarrow> 'd \<times> (commission_error + commissioning_result)" where
  "subscribe_sink dm block stream_id sdp counts d =
     (case make_block_sink block sdp of
        Inl e \<Rightarrow> (d, Inl (NoSinkDocument e))
      | Inr sink \<Rightarrow>
          (case dm_put_sink dm stream_id sink d of
             (d1, Some e) \<Rightarrow> (d1, Inl (because (CannotSubscribe stream_id (bc_index block)) e))
           | (d1, None) \<Rightarrow>
               let counts1 = counts\<lparr>cr_sinks_subscribed := cr_sinks_subscribed counts + 1\<rparr> in
               (case poll_sink dm stream_id k_receive_poll_attempts d1 of
                  (d2, Inl e) \<Rightarrow> (d2, Inl (because (StatusUnreadable stream_id) e))
                | (d2, Inr receiving) \<Rightarrow>
                    (d2, Inr (if receiving
                              then counts1\<lparr>cr_sinks_receiving := cr_sinks_receiving counts1 + 1\<rparr>
                              else counts1)))))"

subsection \<open>The SDP of an announcement\<close>

fun find_announcement :: "bool \<Rightarrow> string \<Rightarrow> string \<Rightarrow> json list \<Rightarrow> commission_error + string" where
  "find_announcement automatic name seen [] =
     Inl (if automatic then NothingCarries seen else NothingNamed name seen)"
| "find_announcement automatic name seen (entry # rest) =
     (case json_value as_string entry ''name'' [] of
        Inl e \<Rightarrow> Inl (CommissionThrows e)
      | Inr entry_name \<Rightarrow>
          let seen1 = (if seen = [] then [] else seen @ '', '')
                        @ (if entry_name = [] then ''(unnamed)'' else entry_name) in
          (case json_value as_string entry ''sdp'' [] of
             Inl e \<Rightarrow> Inl (CommissionThrows e)
           | Inr entry_sdp \<Rightarrow>
               if \<not> (if automatic then text_contains ''L24/48000/8'' entry_sdp else entry_name = name)
               then find_announcement automatic name seen1 rest
               else if entry_sdp = [] then Inl (AnnouncesNoSdp entry_name)
               else Inr entry_sdp))"

definition announcement_sdp ::
  "'d daemon_client \<Rightarrow> string \<Rightarrow> 'd \<Rightarrow> 'd \<times> (commission_error + string)" where
  "announcement_sdp dm name d =
     (case dm_browse_sources dm ''all'' d of
        (d1, Inl e) \<Rightarrow> (d1, Inl (because CannotBrowse e))
      | (d1, Inr discovered) \<Rightarrow>
          (case json_at discovered ''remote_sources'' of
             JArray entries \<Rightarrow> (d1, find_announcement (name = ''auto'') name [] entries)
           | _ \<Rightarrow> (d1, Inl NoRemoteSources)))"

subsection \<open>commission\<close>

text \<open>The loop that publishes, over the places of the blocks that are left.\<close>

fun publish_blocks ::
  "'d daemon_client \<Rightarrow> config \<Rightarrow> nat list \<Rightarrow> commissioning_result \<Rightarrow> 'd
     \<Rightarrow> 'd \<times> (commission_error + commissioning_result)" where
  "publish_blocks dm config [] counts d = (d, Inr counts)"
| "publish_blocks dm config (index # rest) counts d =
     (let block = cf_blocks config ! index in
      case dm_put_source dm (int index) (make_block_source config block) d of
        (d1, Some e) \<Rightarrow> (d1, Inl (because (CannotPublish (int index) (bc_index block)) e))
      | (d1, None) \<Rightarrow>
          publish_blocks dm config rest
            (counts\<lparr>cr_sources_published := cr_sources_published counts + 1\<rparr>) d1)"

fun subscribe_selves ::
  "'d daemon_client \<Rightarrow> config \<Rightarrow> nat list \<Rightarrow> commissioning_result \<Rightarrow> 'd
     \<Rightarrow> 'd \<times> (commission_error + commissioning_result)" where
  "subscribe_selves dm config [] counts d = (d, Inr counts)"
| "subscribe_selves dm config (index # rest) counts d =
     (case dm_get_source_sdp dm (int index) d of
        (d1, Inl e) \<Rightarrow> (d1, Inl (because (SdpUnreadable (int index)) e))
      | (d1, Inr sdp) \<Rightarrow>
          if sdp = [] then (d1, Inl (SourceWithoutSdp (int index)))
          else case subscribe_sink dm (cf_blocks config ! index) (int index) sdp counts d1 of
            (d2, Inl e) \<Rightarrow> (d2, Inl e)
          | (d2, Inr counts1) \<Rightarrow> subscribe_selves dm config rest counts1 d2)"

definition subscribe_side ::
  "'d daemon_client \<Rightarrow> config \<Rightarrow> subscription \<Rightarrow> string \<Rightarrow> commissioning_result \<Rightarrow> 'd
     \<Rightarrow> 'd \<times> (commission_error + commissioning_result)" where
  "subscribe_side dm config subscription subscribe_to counts d =
     (case subscription of
        SubscribeSelf \<Rightarrow> subscribe_selves dm config [0..<length (cf_blocks config)] counts d
      | SubscribeDiscovered \<Rightarrow>
          if cf_blocks config = [] then (d, Inl NoBlocksToSubscribe)
          else (case announcement_sdp dm subscribe_to d of
                  (d1, Inl e) \<Rightarrow> (d1, Inl e)
                | (d1, Inr sdp) \<Rightarrow> subscribe_sink dm (hd (cf_blocks config)) 0 sdp counts d1)
      | SubscribeNothing \<Rightarrow> (d, Inr counts))"

definition commission ::
  "'d daemon_client option \<Rightarrow> config \<Rightarrow> subscription \<Rightarrow> string \<Rightarrow> 'd
     \<Rightarrow> 'd \<times> (commission_error + commissioning_result)" where
  "commission daemon config subscription subscribe_to d =
     (case daemon of
        None \<Rightarrow> (d, Inl NoDaemonClient)
      | Some dm \<Rightarrow>
          (case dm_get_ptp_status dm d of
             (d1, Inl e) \<Rightarrow> (d1, Inl (because (DaemonDidNotAnswer (dm_endpoint dm d1)) e))
           | (d1, Inr ptp) \<Rightarrow>
               let counts = no_counts\<lparr>cr_ptp_status := pt_status ptp, cr_gmid := pt_gmid ptp\<rparr> in
               (case publish_blocks dm config [0..<length (cf_blocks config)] counts d1 of
                  (d2, Inl e) \<Rightarrow> (d2, Inl e)
                | (d2, Inr counts1) \<Rightarrow> subscribe_side dm config subscription subscribe_to counts1 d2)))"

subsection \<open>What the daemon holds afterwards\<close>

text \<open>A map with the documents \<open>doc 0 .. doc (k - 1)\<close> put under their places.\<close>

definition holding :: "(nat \<Rightarrow> json) \<Rightarrow> nat \<Rightarrow> (int \<Rightarrow> json option) \<Rightarrow> int \<Rightarrow> json option" where
  "holding doc k m i = (if 0 \<le> i \<and> i < int k then Some (doc (nat i)) else m i)"

lemma holding_0: "holding doc 0 m = m"
  by (auto simp: holding_def fun_eq_iff)

lemma holding_Suc: "(holding doc k m)(int k \<mapsto> doc k) = holding doc (Suc k) m"
  by (auto simp: holding_def fun_eq_iff)

definition source_of :: "config \<Rightarrow> nat \<Rightarrow> json" where
  "source_of config index = make_block_source config (cf_blocks config ! index)"

text \<open>A sink that carries the channels of a block, from whatever SDP.\<close>

definition block_sink :: "block_config \<Rightarrow> json option \<Rightarrow> bool" where
  "block_sink block held \<longleftrightarrow> (\<exists>sdp sink. held = Some sink \<and> make_block_sink block sdp = Inr sink)"

text \<open>The sinks after a subscription, and how many there are of it.\<close>

definition subscribed_as :: "config \<Rightarrow> subscription \<Rightarrow> (int \<Rightarrow> json option) \<Rightarrow> (int \<Rightarrow> json option) \<Rightarrow> nat \<Rightarrow> bool" where
  "subscribed_as config subscription m m' k \<longleftrightarrow>
     (case subscription of
        SubscribeNothing \<Rightarrow> m' = m \<and> k = 0
      | SubscribeDiscovered \<Rightarrow> block_sink (hd (cf_blocks config)) (m' 0) \<and> m'(0 := None) = m(0 := None) \<and> k = 1
      | SubscribeSelf \<Rightarrow> (\<forall>i < length (cf_blocks config). block_sink (cf_blocks config ! i) (m' (int i)))
          \<and> k = length (cf_blocks config))"

context daemon_store
begin

lemma publish_holds:
  assumes "publish_blocks dm config [k..<n] counts d = (d', r)" "k \<le> n"
    and "published d = holding (source_of config) k m"
  shows "subscribed d' = subscribed d \<and>
     (case r of
        Inr counts' \<Rightarrow> published d' = holding (source_of config) n m
          \<and> counts' = counts\<lparr>cr_sources_published := cr_sources_published counts + (n - k)\<rparr>
      | Inl e \<Rightarrow> \<exists>j. k \<le> j \<and> j < n \<and> published d' = holding (source_of config) j m)"
  using assms
proof (induction "n - k" arbitrary: k counts d)
  case (Suc l)
  then have upt: "[k..<n] = k # [Suc k..<n]" by (simp add: upt_conv_Cons)
  obtain d1 failed where put: "dm_put_source dm (int k) (source_of config k) d = (d1, failed)"
    by (cases "dm_put_source dm (int k) (source_of config k) d")
  note held = put_source_cases [OF put]
  show ?case
  proof (cases failed)
    case None
    let ?counts = "counts\<lparr>cr_sources_published := cr_sources_published counts + 1\<rparr>"
    have "publish_blocks dm config [Suc k..<n] ?counts d1 = (d', r)"
      using Suc.prems(1) put None by (simp add: upt source_of_def Let_def)
    moreover have "published d1 = holding (source_of config) (Suc k) m"
      using held(1) None Suc.prems(3) by (simp add: holding_Suc)
    moreover have "l = n - Suc k" "Suc k \<le> n" using Suc.hyps(2) by auto
    ultimately have "subscribed d' = subscribed d1 \<and>
        (case r of
           Inr counts' \<Rightarrow> published d' = holding (source_of config) n m
             \<and> counts' = ?counts\<lparr>cr_sources_published := cr_sources_published ?counts + (n - Suc k)\<rparr>
         | Inl e \<Rightarrow> \<exists>j. Suc k \<le> j \<and> j < n \<and> published d' = holding (source_of config) j m)"
      using Suc.hyps(1) [of "Suc k" ?counts d1] by blast
    moreover have "cr_sources_published counts + 1 + (n - Suc k) = cr_sources_published counts + (n - k)"
      using Suc.hyps(2) by simp
    ultimately show ?thesis using held(2) by (cases r) (auto dest: Suc_leD)
  next
    case (Some e)
    then have "d' = d1" "\<exists>e'. r = Inl e'" using Suc.prems(1) put by (auto simp: upt source_of_def Let_def)
    moreover have "published d1 = published d" using held(1) Some by simp
    ultimately show ?thesis using held(2) Suc.prems(3) Suc.hyps(2) by (auto intro!: exI [of _ k])
  qed
qed auto

lemma poll_keeps:
  "poll_sink dm i n d = (d', r) \<Longrightarrow> published d' = published d \<and> subscribed d' = subscribed d"
proof (induction n arbitrary: d)
  case (Suc n)
  obtain d1 s where s: "dm_get_sink_status dm i d = (d1, s)" by (cases "dm_get_sink_status dm i d")
  then show ?case
    using Suc reads_keep(3) [OF s] by (fastforce split: sum.splits if_splits)
qed simp

lemma subscribe_holds:
  assumes "subscribe_sink dm block i sdp counts d = (d', r)"
  shows "published d' = published d \<and>
    (case r of
       Inr counts' \<Rightarrow> (\<exists>sink. make_block_sink block sdp = Inr sink \<and> subscribed d' = (subscribed d)(i \<mapsto> sink))
         \<and> cr_sinks_subscribed counts' = cr_sinks_subscribed counts + 1
         \<and> cr_sinks_receiving counts' \<le> cr_sinks_receiving counts + 1
         \<and> cr_sources_published counts' = cr_sources_published counts
     | Inl _ \<Rightarrow> True)"
proof (cases "make_block_sink block sdp")
  case (Inr sink)
  obtain d1 failed where put: "dm_put_sink dm i sink d = (d1, failed)" by (cases "dm_put_sink dm i sink d")
  obtain d2 s where poll: "poll_sink dm i k_receive_poll_attempts d1 = (d2, s)"
    by (cases "poll_sink dm i k_receive_poll_attempts d1")
  note held = put_sink_cases [OF put] and kept = poll_keeps [OF poll]
  show ?thesis
    using assms held kept poll put Inr
    by (cases failed; cases s) (auto simp: subscribe_sink_def Let_def)
qed (use assms in \<open>auto simp: subscribe_sink_def\<close>)

lemma selves_hold:
  assumes "subscribe_selves dm config [k..<n] counts d = (d', r)" "k \<le> n"
    and "\<forall>i < k. block_sink (cf_blocks config ! i) (subscribed d (int i))"
    and "cr_sinks_receiving counts \<le> cr_sinks_subscribed counts" "cr_sinks_subscribed counts = k"
  shows "published d' = published d \<and>
     (case r of
        Inr counts' \<Rightarrow> (\<forall>i < n. block_sink (cf_blocks config ! i) (subscribed d' (int i)))
          \<and> cr_sinks_subscribed counts' = n \<and> cr_sinks_receiving counts' \<le> n
          \<and> cr_sources_published counts' = cr_sources_published counts
      | Inl _ \<Rightarrow> True)"
  using assms
proof (induction "n - k" arbitrary: k counts d)
  case (Suc l)
  then have upt: "[k..<n] = k # [Suc k..<n]" by (simp add: upt_conv_Cons)
  obtain d1 s where sdp: "dm_get_source_sdp dm (int k) d = (d1, s)" by (cases "dm_get_source_sdp dm (int k) d")
  note kept = reads_keep(2) [OF sdp]
  show ?case
  proof (cases "\<exists>t. s = Inr t \<and> t \<noteq> []")
    case True
    then obtain t where t: "s = Inr t" "t \<noteq> []" by blast
    obtain d2 r2 where sub: "subscribe_sink dm (cf_blocks config ! k) (int k) t counts d1 = (d2, r2)"
      by (cases "subscribe_sink dm (cf_blocks config ! k) (int k) t counts d1")
    note held = subscribe_holds [OF sub]
    show ?thesis
    proof (cases r2)
      case (Inr counts1)
      then have rest: "subscribe_selves dm config [Suc k..<n] counts1 d2 = (d', r)"
        using Suc.prems(1) sdp t sub by (simp add: upt)
      have "\<forall>i < Suc k. block_sink (cf_blocks config ! i) (subscribed d2 (int i))"
        using held kept Inr Suc.prems(3) by (auto simp: block_sink_def less_Suc_eq)
      moreover have "cr_sinks_receiving counts1 \<le> cr_sinks_subscribed counts1" "cr_sinks_subscribed counts1 = Suc k"
        "cr_sources_published counts1 = cr_sources_published counts" "published d2 = published d"
        using held kept Inr Suc.prems(4,5) by auto
      moreover have "l = n - Suc k" "Suc k \<le> n" using Suc.hyps(2) by auto
      ultimately show ?thesis using Suc.hyps(1) [OF _ rest] by (cases r) auto
    next
      case (Inl e)
      then show ?thesis using Suc.prems(1) sdp t sub held kept by (auto simp: upt)
    qed
  next
    case False
    then show ?thesis using Suc.prems(1) sdp kept by (auto simp: upt split: sum.splits if_splits)
  qed
qed auto

lemma side_holds:
  assumes "subscribe_side dm config subscription subscribe_to counts d = (d', r)"
    and "cr_sinks_subscribed counts = 0" "cr_sinks_receiving counts = 0"
  shows "published d' = published d \<and>
     (case r of
        Inr counts' \<Rightarrow> subscribed_as config subscription (subscribed d) (subscribed d') (cr_sinks_subscribed counts')
          \<and> cr_sinks_receiving counts' \<le> cr_sinks_subscribed counts'
          \<and> cr_sources_published counts' = cr_sources_published counts
      | Inl _ \<Rightarrow> True)
     \<and> (subscription = SubscribeNothing \<longrightarrow> r = Inr counts \<and> d' = d)"
proof (cases subscription)
  case SubscribeSelf
  then show ?thesis
    using selves_hold [of config 0 "length (cf_blocks config)" counts d d' r] assms
    by (auto simp: subscribe_side_def subscribed_as_def split: sum.splits)
next
  case SubscribeDiscovered
  obtain d1 s where sdp: "announcement_sdp dm subscribe_to d = (d1, s)" by (cases "announcement_sdp dm subscribe_to d")
  obtain d0 b where browse: "dm_browse_sources dm ''all'' d = (d0, b)" by (cases "dm_browse_sources dm ''all'' d")
  have "d1 = d0" using sdp browse by (auto simp: announcement_sdp_def split: sum.splits json.splits)
  then have kept: "published d1 = published d \<and> subscribed d1 = subscribed d" using reads_keep(4) [OF browse] by simp
  show ?thesis
  proof (cases "cf_blocks config = [] \<or> (\<exists>e. s = Inl e)")
    case True
    then show ?thesis
      using assms(1) sdp kept SubscribeDiscovered by (auto simp: subscribe_side_def split: if_splits)
  next
    case False
    then obtain t where t: "s = Inr t" by (cases s) auto
    then have sub: "subscribe_sink dm (hd (cf_blocks config)) 0 t counts d1 = (d', r)"
      using assms(1) sdp False SubscribeDiscovered by (simp add: subscribe_side_def)
    show ?thesis
      using subscribe_holds [OF sub] kept assms(2,3) SubscribeDiscovered
      by (auto simp: subscribed_as_def block_sink_def split: sum.splits)
  qed
qed (use assms in \<open>auto simp: subscribe_side_def subscribed_as_def\<close>)

lemma commission_holds:
  assumes "commission (Some dm) config subscription subscribe_to d = (d', r)"
  defines "n \<equiv> length (cf_blocks config)"
  shows "case r of
      Inr counts \<Rightarrow> published d' = holding (source_of config) n (published d)
        \<and> cr_sources_published counts = n
        \<and> subscribed_as config subscription (subscribed d) (subscribed d') (cr_sinks_subscribed counts)
        \<and> cr_sinks_receiving counts \<le> cr_sinks_subscribed counts
    | Inl e \<Rightarrow> \<exists>k \<le> n. published d' = holding (source_of config) k (published d)
        \<and> (k < n \<or> subscription = SubscribeNothing \<longrightarrow> subscribed d' = subscribed d)"
proof -
  obtain d1 p where ptp: "dm_get_ptp_status dm d = (d1, p)" by (cases "dm_get_ptp_status dm d")
  note kept = reads_keep(1) [OF ptp]
  show ?thesis
  proof (cases p)
    case (Inl e)
    then show ?thesis using assms ptp kept by (auto simp: commission_def holding_0 intro!: exI [of _ 0])
  next
    case (Inr status)
    define counts where "counts = no_counts\<lparr>cr_ptp_status := pt_status status, cr_gmid := pt_gmid status\<rparr>"
    obtain d2 r2 where pub: "publish_blocks dm config [0..<n] counts d1 = (d2, r2)"
      by (cases "publish_blocks dm config [0..<n] counts d1")
    note pubs = publish_holds [OF pub, of "published d"]
    show ?thesis
    proof (cases r2)
      case (Inl e)
      then obtain j where "j < n" "published d2 = holding (source_of config) j (published d)" "subscribed d2 = subscribed d"
        using pubs kept by (auto simp: holding_0)
      then show ?thesis
        using assms ptp \<open>p = Inr status\<close> pub Inl
        by (auto simp: commission_def Let_def counts_def intro!: exI [of _ j])
    next
      case (Inr counts1)
      then have side: "subscribe_side dm config subscription subscribe_to counts1 d2 = (d', r)"
        using assms ptp \<open>p = Inr status\<close> pub by (simp add: commission_def Let_def counts_def)
      have "cr_sinks_subscribed counts1 = 0" "cr_sinks_receiving counts1 = 0" "cr_sources_published counts1 = n"
        "published d2 = holding (source_of config) n (published d)" "subscribed d2 = subscribed d"
        using pubs kept Inr by (simp_all add: holding_0 counts_def no_counts_def)
      then show ?thesis
        using side_holds [OF side] by (auto simp: n_def split: sum.splits intro!: exI [of _ n])
    qed
  qed
qed

end


definition one_block :: config where
  "one_block = default_config\<lparr>cf_blocks := [conventional_block 0]\<rparr>"

lemma fake_commission:
  "case commission (Some fake_daemon_client) one_block SubscribeSelf [] (fake_init default_daemon) of
     (d', Inr counts) \<Rightarrow> cr_sinks_receiving counts = 1 | _ \<Rightarrow> False"
  by code_simp


text \<open>
  Commissioning that fails. The daemon then holds a first part of the sources, each under its block's
  place, and no sink was touched before the last source was published; nothing is put that is not asked for.
\<close>

theorem commission_failure:
  assumes "daemon_store dm published subscribed"
    and "commission (Some dm) config subscription subscribe_to d = (d', Inl e)"
  shows "\<exists>k \<le> length (cf_blocks config). published d' = holding (source_of config) k (published d)
    \<and> (k < length (cf_blocks config) \<or> subscription = SubscribeNothing \<longrightarrow> subscribed d' = subscribed d)"
  using daemon_store.commission_holds [OF assms] by simp

lemma fake_refusal:
  "case commission (Some fake_daemon_client) one_block SubscribeDiscovered ''studio'' (fake_init default_daemon) of
     (d', Inl e) \<Rightarrow> True | _ \<Rightarrow> False"
  by code_simp

lemma commission_failure_witness:
  "\<exists>d' e k. commission (Some fake_daemon_client) one_block SubscribeDiscovered ''studio'' (fake_init default_daemon) = (d', Inl e)
     \<and> k \<le> 1 \<and> map_of (fk_sources d') = holding (source_of one_block) k Map.empty"
proof -
  obtain d' e where failed: "commission (Some fake_daemon_client) one_block SubscribeDiscovered ''studio'' (fake_init default_daemon) = (d', Inl e)"
    using fake_refusal by (auto split: prod.splits sum.splits)
  show ?thesis
    using failed commission_failure [OF fake_store.daemon_store_axioms failed]
    by (auto simp: one_block_def fake_init_def)
qed

end
