(* ===== verification/Service.thy ===== *)
theory Service
  imports EngineRun
begin

text \<open>
  The life of the engine inside the process: src/src/service.hpp, src/src/service.cpp, and \<^verbatim>\<open>Engine::run\<close>.

  \<open>service\<close> holds the members; what the two pointers of the constructor point to is in it, so is the
  state of libsrt while there is no engine. \<open>sv_worker\<close> is \<^verbatim>\<open>thread_\<close>: \<open>None\<close> when it is not joinable,
  otherwise where the worker stands in \<^verbatim>\<open>Engine::run\<close>. A request for the control surface is one caller;
  \<open>sv_call\<close> says whether it waits in \<^verbatim>\<open>join\<close>. \<open>service_step\<close> is a step of the caller, of the worker, or
  a turn of the engine's threads, in any order.

  A reload reads whatever the file holds at that moment. Log lines are left out.
\<close>

subsection \<open>State\<close>

datatype worker_stage = WorkerStarts | WorkerOpened | WorkerLoops | WorkerDone

datatype 'x service_error = ConfigRefused config_error | PrepareRefused "'x engine_error" | EngineFailed

datatype service_call = NoCall | StopCall | RestartCall

record ('e, 'd, 's, 'b, 'x, 'w) service =
  sv_config :: config
  sv_path :: string
  sv_engine :: "('e, 'd, 's, 'b, 'w) engine option"
  sv_world :: 'w
  sv_worker :: "worker_stage option"
  sv_running :: bool
  sv_state :: string
  sv_error :: "'x service_error option"
  sv_call :: service_call

definition service_init :: "config \<Rightarrow> string \<Rightarrow> 'w \<Rightarrow> ('e, 'd, 's, 'b, 'x, 'w) service" where
  "service_init config path w = \<lparr>sv_config = config, sv_path = path, sv_engine = None, sv_world = w,
     sv_worker = None, sv_running = False, sv_state = ''stopped'', sv_error = None, sv_call = NoCall\<rparr>"

subsection \<open>What is asked of it\<close>

text \<open>The word for the page: the engine's own flag before the stored word.\<close>

definition service_state :: "('e, 'd, 's, 'b, 'x, 'w) service \<Rightarrow> string" where
  "service_state s =
     (case sv_engine s of
        Some e \<Rightarrow> if en_running e then ''running'' else sv_state s
      | None \<Rightarrow> sv_state s)"

text \<open>Deleting an engine deletes its link, which closes it.\<close>

definition destroy_engine ::
  "('e, 'd, 's, 'b, 'x, 'w) platform \<Rightarrow> ('e, 'd, 's, 'b, 'w) engine \<Rightarrow> 'w" where
  "destroy_engine p e =
     (case en_link e of None \<Rightarrow> en_world e | Some l \<Rightarrow> snd (link_close (p_srt p) l (en_world e)))"

text \<open>The first lock of \<^verbatim>\<open>start\<close>: \<open>None\<close> when there is a thread, and starting again does nothing.\<close>

definition start_check ::
  "('e, 'd, 's, 'b, 'x, 'w) service \<Rightarrow> ('e, 'd, 's, 'b, 'x, 'w) service option" where
  "start_check s =
     (if sv_worker s \<noteq> None then None else Some (s\<lparr>sv_state := ''starting'', sv_error := None\<rparr>))"

definition start_refused ::
  "'x service_error \<Rightarrow> ('e, 'd, 's, 'b, 'x, 'w) service \<Rightarrow> ('e, 'd, 's, 'b, 'x, 'w) service" where
  "start_refused e s = s\<lparr>sv_state := ''failed'', sv_error := Some e\<rparr>"

text \<open>The reload, the snapshot and \<^verbatim>\<open>prepare\<close>.\<close>

definition start_prepare ::
  "('e, 'd, 's, 'b, 'x, 'w) platform \<Rightarrow> (string \<Rightarrow> config_error + config)
     \<Rightarrow> ('e, 'd, 's, 'b, 'x, 'w) service
     \<Rightarrow> ('e, 'd, 's, 'b, 'x, 'w) service \<times> ('x service_error + ('e, 'd, 's, 'b, 'w) engine)" where
  "start_prepare p load s =
     (case (if sv_path s = [] then Inr (sv_config s) else load (sv_path s)) of
        Inl e \<Rightarrow> (start_refused (ConfigRefused e) s, Inl (ConfigRefused e))
      | Inr config \<Rightarrow>
          let s1 = s\<lparr>sv_config := config\<rparr> in
          (case prepare p (sv_config s1) (engine_init (sv_world s1)) of
             (e, Some err) \<Rightarrow>
               (start_refused (PrepareRefused err) (s1\<lparr>sv_world := destroy_engine p e\<rparr>), Inl (PrepareRefused err))
           | (e, None) \<Rightarrow> (s1, Inr e)))"

text \<open>The engine is kept and the worker spawned; assigning to a thread that is joinable ends the program.\<close>

definition start_spawn ::
  "('e, 'd, 's, 'b, 'w) engine \<Rightarrow> ('e, 'd, 's, 'b, 'x, 'w) service
     \<Rightarrow> ('e, 'd, 's, 'b, 'x, 'w) service option" where
  "start_spawn e s =
     (if sv_worker s \<noteq> None then None
      else Some (s\<lparr>sv_engine := Some e, sv_running := True, sv_worker := Some WorkerStarts\<rparr>))"

definition service_start ::
  "('e, 'd, 's, 'b, 'x, 'w) platform \<Rightarrow> (string \<Rightarrow> config_error + config)
     \<Rightarrow> ('e, 'd, 's, 'b, 'x, 'w) service
     \<Rightarrow> (('e, 'd, 's, 'b, 'x, 'w) service \<times> 'x service_error option) option" where
  "service_start p load s =
     (case start_check s of
        None \<Rightarrow> Some (s, None)
      | Some s1 \<Rightarrow>
          (case start_prepare p load s1 of
             (s2, Inl e) \<Rightarrow> Some (s2, Some e)
           | (s2, Inr e) \<Rightarrow> map_option (\<lambda>s3. (s3, None)) (start_spawn e s2)))"

text \<open>\<^verbatim>\<open>stop\<close> up to the \<^verbatim>\<open>join\<close>, and from it.\<close>

definition stop_begins ::
  "service_call \<Rightarrow> ('e, 'd, 's, 'b, 'x, 'w) service \<Rightarrow> ('e, 'd, 's, 'b, 'x, 'w) service" where
  "stop_begins call s =
     (if sv_worker s = None then s
      else s\<lparr>sv_engine := map_option engine_stop (sv_engine s), sv_call := call\<rparr>)"

definition stop_joins ::
  "('e, 'd, 's, 'b, 'x, 'w) platform \<Rightarrow> ('e, 'd, 's, 'b, 'x, 'w) service
     \<Rightarrow> ('e, 'd, 's, 'b, 'x, 'w) service option" where
  "stop_joins p s =
     (if sv_worker s = Some WorkerDone
      then Some (s\<lparr>sv_world := (case sv_engine s of None \<Rightarrow> sv_world s | Some e \<Rightarrow> destroy_engine p e),
                   sv_engine := None, sv_running := False, sv_state := ''stopped'', sv_worker := None,
                   sv_call := NoCall\<rparr>)
      else None)"

subsection \<open>The worker\<close>

text \<open>What \<^verbatim>\<open>Engine::run\<close> does between a successful \<^verbatim>\<open>open\<close> and its threads, and after them.\<close>

definition run_loops :: "('e, 'd, 's, 'b, 'w) engine \<Rightarrow> ('e, 'd, 's, 'b, 'w) engine" where
  "run_loops e = e\<lparr>en_stop_requested := False, en_running := True\<rparr>"

definition run_ends ::
  "('e, 'd, 's, 'b, 'x, 'w) platform \<Rightarrow> ('e, 'd, 's, 'b, 'w) engine \<Rightarrow> ('e, 'd, 's, 'b, 'w) engine" where
  "run_ends p e = engine_close p (e\<lparr>en_running := False\<rparr>)"

definition worker_finish ::
  "int \<Rightarrow> ('e, 'd, 's, 'b, 'x, 'w) service \<Rightarrow> ('e, 'd, 's, 'b, 'x, 'w) service" where
  "worker_finish result s =
     (let s1 = s\<lparr>sv_running := False, sv_state := (if result = 0 then ''stopped'' else ''failed''),
                 sv_worker := Some WorkerDone\<rparr>
      in if result \<noteq> 0 then s1\<lparr>sv_error := Some EngineFailed\<rparr> else s1)"

text \<open>A step of the worker; \<open>None\<close> when it waits, for a caller of the link or for its threads.\<close>

definition service_worker_step ::
  "('e, 'd, 's, 'b, 'x, 'w) platform \<Rightarrow> int \<Rightarrow> ('e, 'd, 's, 'b, 'x, 'w) service
     \<Rightarrow> ('e, 'd, 's, 'b, 'x, 'w) service option" where
  "service_worker_step p now s =
     (case sv_worker s of
        Some WorkerStarts \<Rightarrow>
          (case sv_engine s of
             None \<Rightarrow> Some (worker_finish 1 s)
           | Some e \<Rightarrow> map_option (\<lambda>(e1, failed).
               if failed = None then s\<lparr>sv_engine := Some e1, sv_worker := Some WorkerOpened\<rparr>
               else worker_finish 1 (s\<lparr>sv_engine := Some e1\<rparr>)) (engine_open p now e))
      | Some WorkerOpened \<Rightarrow>
          Some (s\<lparr>sv_engine := map_option run_loops (sv_engine s), sv_worker := Some WorkerLoops\<rparr>)
      | Some WorkerLoops \<Rightarrow>
          if en_stop_requested (the (sv_engine s))
          then Some (worker_finish 0 (s\<lparr>sv_engine := map_option (run_ends p) (sv_engine s)\<rparr>))
          else None
      | Some WorkerDone \<Rightarrow> None
      | None \<Rightarrow> None)"

subsection \<open>Steps\<close>

inductive service_step ::
  "('e, 'd, 's, 'b, 'x, 'w) platform \<Rightarrow> (string \<Rightarrow> json option) \<Rightarrow> (int \<Rightarrow> int) \<Rightarrow> (nat \<Rightarrow> string)
     \<Rightarrow> ('e, 'd, 's, 'b, 'x, 'w) service \<Rightarrow> ('e, 'd, 's, 'b, 'x, 'w) service \<Rightarrow> bool"
  for p json_parse get_int show_position where
  asks_start: "sv_call s = NoCall
      \<Longrightarrow> service_start p (load_config read_file json_parse get_int show_position) s = Some (s', refusal)
      \<Longrightarrow> service_step p json_parse get_int show_position s s'"
| asks_stop: "sv_call s = NoCall \<Longrightarrow> service_step p json_parse get_int show_position s (stop_begins StopCall s)"
| asks_restart: "sv_call s = NoCall \<Longrightarrow> sv_worker s \<noteq> None
      \<Longrightarrow> service_step p json_parse get_int show_position s (stop_begins RestartCall s)"
| stop_returns: "sv_call s = StopCall \<Longrightarrow> stop_joins p s = Some s'
      \<Longrightarrow> service_step p json_parse get_int show_position s s'"
| restart_starts: "sv_call s = RestartCall \<Longrightarrow> stop_joins p s = Some s1
      \<Longrightarrow> service_start p (load_config read_file json_parse get_int show_position) s1 = Some (s', refusal)
      \<Longrightarrow> service_step p json_parse get_int show_position s s'"
| worker_moves: "service_worker_step p now s = Some s' \<Longrightarrow> service_step p json_parse get_int show_position s s'"
| engine_turns: "sv_worker s = Some WorkerLoops \<Longrightarrow> sv_engine s = Some e \<Longrightarrow> engine_step p e e'
      \<Longrightarrow> en_stop_requested e' = en_stop_requested e
      \<Longrightarrow> service_step p json_parse get_int show_position s (s\<lparr>sv_engine := Some e'\<rparr>)"

inductive_cases service_stepE: "service_step p json_parse get_int show_position s s'"

definition service_reaches ::
  "('e, 'd, 's, 'b, 'x, 'w) platform \<Rightarrow> (string \<Rightarrow> json option) \<Rightarrow> (int \<Rightarrow> int) \<Rightarrow> (nat \<Rightarrow> string)
     \<Rightarrow> ('e, 'd, 's, 'b, 'x, 'w) service \<Rightarrow> ('e, 'd, 's, 'b, 'x, 'w) service \<Rightarrow> bool" where
  "service_reaches p json_parse get_int show_position = (service_step p json_parse get_int show_position)\<^sup>*\<^sup>*"

subsection \<open>The invariant\<close>

text \<open>An engine that was prepared from a valid configuration, and one that then opened.\<close>

definition ready_engine :: "('e, 'd, 's, 'b, 'x, 'w) platform \<Rightarrow> config \<Rightarrow> ('e, 'd, 's, 'b, 'w) engine \<Rightarrow> bool" where
  "ready_engine p config e \<longleftrightarrow> validate config = None \<and> (\<exists>w. prepare p config (engine_init w) = (e, None))"

definition open_engine :: "('e, 'd, 's, 'b, 'x, 'w) platform \<Rightarrow> config \<Rightarrow> ('e, 'd, 's, 'b, 'w) engine \<Rightarrow> bool" where
  "open_engine p config e \<longleftrightarrow> (\<exists>e0 now. ready_engine p config e0 \<and> engine_open p now e0 = Some (e, None))"

text \<open>How far the engine is, for where the worker stands; a stop may have been requested at any time.\<close>

definition engine_stands ::
  "('e, 'd, 's, 'b, 'x, 'w) platform \<Rightarrow> config \<Rightarrow> worker_stage \<Rightarrow> ('e, 'd, 's, 'b, 'w) engine \<Rightarrow> bool" where
  "engine_stands p config stage e \<longleftrightarrow>
     (case stage of
        WorkerStarts \<Rightarrow> \<not> en_running e \<and> (\<exists>e0. ready_engine p config e0 \<and> (e = e0 \<or> e = engine_stop e0))
      | WorkerOpened \<Rightarrow> \<not> en_running e \<and> (\<exists>e1. open_engine p config e1 \<and> (e = e1 \<or> e = engine_stop e1))
      | WorkerLoops \<Rightarrow> en_running e \<and> (\<exists>e1. open_engine p config e1 \<and> engine_reaches p (run_loops e1) e)
      | WorkerDone \<Rightarrow> \<not> en_running e)"

definition service_ok :: "('e, 'd, 's, 'b, 'x, 'w) platform \<Rightarrow> ('e, 'd, 's, 'b, 'x, 'w) service \<Rightarrow> bool" where
  "service_ok p s \<longleftrightarrow> validate (sv_config s) = None
     \<and> (case sv_worker s of
          None \<Rightarrow> sv_engine s = None \<and> \<not> sv_running s \<and> sv_call s = NoCall
        | Some stage \<Rightarrow> (\<exists>e. sv_engine s = Some e \<and> engine_stands p (sv_config s) stage e)
            \<and> (sv_running s \<longleftrightarrow> stage \<noteq> WorkerDone))
     \<and> sv_state s \<noteq> ''running''"

subsection \<open>The engine's two flags\<close>

text \<open>Only \<^verbatim>\<open>open\<close>, \<^verbatim>\<open>run\<close> and \<^verbatim>\<open>stop\<close> write them.\<close>

definition flags :: "('e, 'd, 's, 'b, 'w) engine \<Rightarrow> bool \<times> bool" where
  "flags e = (en_running e, en_stop_requested e)"

lemma transmit_flags: "step_transmit p now e = (e', r) \<Longrightarrow> flags e' = flags e"
  by (auto simp: step_transmit_def flags_def Let_def split: prod.splits option.splits sum.splits)

lemma drain_flags: "drain_messages p n e = (e', r) \<Longrightarrow> flags e' = flags e"
proof (induction n arbitrary: e)
  case (Suc n)
  obtain l w m where receive: "receive_message (p_srt p) (p_with_srt p) (the (en_link e)) (en_world e) = (l, w, m)"
    by (cases "receive_message (p_srt p) (p_with_srt p) (the (en_link e)) (en_world e)")
  show ?case
  proof (cases m)
    case (Received message)
    obtain q failed where feed: "feed (en_reassembler e) (Some message) = (q, failed)"
      by (cases "feed (en_reassembler e) (Some message)")
    define e2 where "e2 = e\<lparr>en_link := Some l, en_world := w, en_reassembler := q,
        en_frames_refused := en_frames_refused e + (if failed = None then 0 else 1)\<rparr>"
    have "flags e2 = flags e" by (simp add: e2_def flags_def)
    moreover have "e' = e2 \<or> drain_messages p n e2 = (e', r)"
      using Suc.prems receive Received feed by (auto simp: Let_def e2_def split: if_splits)
    ultimately show ?thesis using Suc.IH [of e2] by auto
  qed (use Suc.prems receive in \<open>auto simp: flags_def\<close>)
qed simp

lemma accept_flags: "flags (accept_frame p data e) = flags e"
  by (auto simp: accept_frame_def flags_def Let_def split: prod.splits option.splits sum.splits)

lemma receive_frames_flags: "receive_frames p n e = (e', r) \<Longrightarrow> flags e' = flags e"
proof (induction n arbitrary: e)
  case (Suc n)
  obtain e1 d where drain: "drain_messages p k_max_messages_per_period e = (e1, d)"
    by (cases "drain_messages p k_max_messages_per_period e")
  obtain q t where taken: "take_frame (en_reassembler e1) = (q, t)" by (cases "take_frame (en_reassembler e1)")
  have "flags (e1\<lparr>en_reassembler := q\<rparr>) = flags e" "flags e1 = flags e"
    using drain_flags [OF drain] by (simp_all add: flags_def)
  moreover have "e' = e1 \<or> e' = e1\<lparr>en_reassembler := q\<rparr>
      \<or> (\<exists>data. receive_frames p n (accept_frame p data (e1\<lparr>en_reassembler := q\<rparr>)) = (e', r))"
    using Suc.prems drain taken by (auto split: sum.splits if_splits)
  ultimately show ?case using Suc.IH by (auto simp: accept_flags)
qed simp

lemma write_period_flags: "write_period_to_device p now e = (e', r) \<Longrightarrow> flags e' = flags e"
  by (auto simp: write_period_to_device_def apply_requests_def flags_def Let_def
      split: prod.splits sum.splits if_splits option.splits)

lemma play_flags:
  assumes "play_one_period p now e = Some (e', r)"
  shows "flags e' = flags e"
proof -
  obtain e1 go where prime: "prime_playout e = (e1, go)" by (cases "prime_playout e")
  then have e1: "flags e1 = flags e" by (auto simp: prime_playout_def flags_def Let_def split: if_splits)
  show ?thesis
  proof (cases go)
    case True
    then obtain e2 where e2: "pull_period p e1 = Some e2"
      "write_period_to_device p now (steer_and_publish (trim_startup e2)) = (e', r)"
      using assms prime by (auto simp: play_one_period_def)
    have "flags e2 = flags e1" using e2(1) by (clarsimp simp: pull_period_def flags_def Let_def)
    moreover have "flags (steer_and_publish (trim_startup e2)) = flags e2"
      by (simp add: steer_and_publish_def trim_startup_def flags_def Let_def split: prod.split)
    ultimately show ?thesis using write_period_flags [OF e2(2)] e1 by simp
  next
    case False
    then have "write_period_to_device p now e1 = (e', r)" using assms prime by (simp add: play_one_period_def)
    then show ?thesis using write_period_flags e1 by metis
  qed
qed

lemma receive_flags:
  assumes "step_receive p now e = Some (e', r)"
  shows "flags e' = flags e"
proof -
  define e2 where "e2 = (if en_reset_requested e
      then reset_playout (e\<lparr>en_receive_turns := en_receive_turns e + 1, en_reset_requested := False\<rparr>)
      else e\<lparr>en_receive_turns := en_receive_turns e + 1, en_reset_requested := False\<rparr>)"
  obtain e3 f where into: "receive_into_buffer p e2 = (e3, f)" by (cases "receive_into_buffer p e2")
  have e2: "flags e2 = flags e" by (simp add: e2_def reset_playout_def flags_def)
  have e3: "flags e3 = flags e2" using into receive_frames_flags by (simp add: receive_into_buffer_def)
  have "step_receive p now e = (if en_playout e2 = None then Some (e2, Some ClockNotBuilt)
      else case receive_into_buffer p e2 of
        (e3, Some err) \<Rightarrow> Some (e3, Some (Transport err)) | (e3, None) \<Rightarrow> play_one_period p now e3)"
    unfolding step_receive_def Let_def e2_def ..
  then have "e' = e2 \<or> e' = e3 \<or> play_one_period p now e3 = Some (e', r)"
    using assms into by (auto split: if_splits option.splits)
  then show ?thesis using play_flags [of p now e3 e' r] e2 e3 by auto
qed

lemma reopen_flags: "reopen_link p now e = Some (e', r) \<Longrightarrow> flags e' = flags e"
proof -
  assume reopened: "reopen_link p now e = Some (e', r)"
  then obtain l w refused where "link_open (p_srt p) (p_with_srt p) (p_show_int p) (real_of_int now) (en_config e)
      (the (en_link e)) (en_world e) = Some (l, w, refused)"
    by (auto simp: reopen_link_def)
  then show ?thesis
    using reopened by (cases refused; cases "bound_link p l w") (auto simp: reopen_link_def flags_def)
qed

lemma turn_flags:
  assumes "engine_step p e e'"
  shows "flags e' = flags e \<or> e' = engine_stop e"
  using assms
proof (cases rule: engine_step.cases)
  case (step_transmit now failures failures' wait)
  then show ?thesis
    using transmit_flags [of p now e] by (auto simp: transmit_turn_def split: if_splits prod.splits option.splits)
next
  case (step_receive now failures failures' wait)
  then show ?thesis
    using receive_flags [of p now e] by (auto simp: receive_turn_def split: if_splits prod.splits)
next
  case (step_supervise now backoff backoff' waits)
  then show ?thesis
    using reopen_flags [of p now e] by (auto simp: supervisor_turn_def split: if_splits prod.splits)
next
  case (step_report reported reported')
  then show ?thesis by (auto simp: status_turn_def flags_def split: prod.splits sum.splits if_splits)
next
  case (step_delay offset failed)
  then show ?thesis by (auto simp: set_egress_delay_ms_def flags_def split: float_value.splits if_splits)
next
  case (step_mark failed)
  then show ?thesis by (auto simp: trigger_test_signal_def flags_def split: if_splits)
qed simp

lemma undo_open_fields:
  "en_running (undo_open p e) = en_running e" "en_stop_requested (undo_open p e) = en_stop_requested e"
  by (simp_all add: undo_open_def split: prod.split)

lemma open_stages_flags: "open_stages p e = (e', r) \<Longrightarrow> flags e' = flags e"
  by (auto simp: open_stages_def fresh_run_def flags_def undo_open_fields Let_def split: prod.splits option.splits)

lemma open_running:
  assumes "engine_open p now e = Some (e', r)"
  shows "en_running e' = en_running e"
proof -
  obtain l w refused where link: "link_open (p_srt p) (p_with_srt p) (p_show_int p) (real_of_int now) (en_config e)
      (set_abort_flag True (the (en_link e))) (en_world e) = Some (l, w, refused)"
    using assms by (auto simp: engine_open_def)
  obtain l1 w1 where bound: "bound_link p l w = (l1, w1)" by (cases "bound_link p l w")
  define e2 where "e2 = (if refused \<noteq> None then e\<lparr>en_stop_requested := False, en_link := Some l, en_world := w\<rparr>
      else e\<lparr>en_stop_requested := False, en_link := Some l1, en_world := w1\<rparr>)"
  have e2: "en_running e2 = en_running e" by (simp add: e2_def)
  obtain b failed where device: "be_open (p_device p) now (en_format e2) (the (en_backend e2)) = (b, failed)"
    by (cases "be_open (p_device p) now (en_format e2) (the (en_backend e2))")
  obtain l2 w2 where closed: "link_close (p_srt p) (the (en_link e2)) (en_world e2) = (l2, w2)"
    by (cases "link_close (p_srt p) (the (en_link e2)) (en_world e2)")
  have "e' = e2 \<or> e' = e2\<lparr>en_backend := Some b, en_link := Some l2, en_world := w2\<rparr>
      \<or> open_stages p (e2\<lparr>en_backend := Some b\<rparr>) = (e', r)"
    using assms link bound device closed
    by (cases "refused = None"; cases failed) (simp_all add: engine_open_def Let_def e2_def split: if_splits)
  then show ?thesis
    using e2 open_stages_flags [of p "e2\<lparr>en_backend := Some b\<rparr>" e' r] by (auto simp: flags_def)
qed

lemma open_after_stop: "engine_open p now (engine_stop e) = engine_open p now e"
  by (simp add: engine_open_def engine_stop_def)

lemma prepare_running: "prepare p config e = (e', r) \<Longrightarrow> en_running e' = en_running e"
  by (auto simp: prepare_def Let_def split: if_splits prod.splits sum.splits)

lemma close_running: "en_running (engine_close p e) = en_running e"
  by (simp add: engine_close_def Let_def split: option.split prod.split)

subsection \<open>Every step keeps the invariant\<close>

lemma load_valid: "load_config read_file json_parse get_int show_position path = Inr c \<Longrightarrow> validate c = None"
  by (auto simp: load_config_def parse_config_def split: option.splits json.splits sum.splits)

lemma prepared_ready:
  "prepare p config (engine_init w) = (e, None) \<Longrightarrow> validate config = None
     \<Longrightarrow> ready_engine p config e \<and> \<not> en_running e"
  using prepare_running [of p config "engine_init w" e None] by (auto simp: ready_engine_def engine_init_def)

lemma start_ok:
  assumes ok: "service_ok p s" and start: "service_start p load s = Some (s', r)"
    and load: "\<And>path c. load path = Inr c \<Longrightarrow> validate c = None"
  shows "service_ok p s'"
proof (cases "sv_worker s")
  case None
  define s1 where "s1 = s\<lparr>sv_state := ''starting'', sv_error := None\<rparr>"
  have check: "start_check s = Some s1" using None by (simp add: start_check_def s1_def)
  have s1: "sv_worker s1 = None" "sv_engine s1 = None" "\<not> sv_running s1" "sv_call s1 = NoCall"
    "validate (sv_config s1) = None" "sv_path s1 = sv_path s" "sv_config s1 = sv_config s"
    using ok None by (simp_all add: service_ok_def s1_def)
  show ?thesis
  proof (cases "if sv_path s1 = [] then Inr (sv_config s1) else load (sv_path s1)")
    case (Inl e)
    then have "s' = start_refused (ConfigRefused e) s1"
      using start check by (simp add: service_start_def start_prepare_def)
    then show ?thesis using s1 by (simp add: service_ok_def start_refused_def)
  next
    case (Inr config)
    then have valid: "validate config = None" using s1(5) load by (auto split: if_splits)
    obtain e failed where prep: "prepare p config (engine_init (sv_world s1)) = (e, failed)"
      by (cases "prepare p config (engine_init (sv_world s1))")
    show ?thesis
    proof (cases failed)
      case None
      then have "s' = s1\<lparr>sv_config := config, sv_engine := Some e, sv_running := True, sv_worker := Some WorkerStarts\<rparr>"
        using start check Inr prep s1(1) by (simp add: service_start_def start_prepare_def start_spawn_def Let_def)
      then show ?thesis
        using prepared_ready [of p config "sv_world s1" e] prep None valid
        by (auto simp: service_ok_def engine_stands_def s1_def)
    next
      case (Some err)
      then have "s' = start_refused (PrepareRefused err) (s1\<lparr>sv_config := config, sv_world := destroy_engine p e\<rparr>)"
        using start check Inr prep by (simp add: service_start_def start_prepare_def Let_def)
      then show ?thesis using s1 valid by (simp add: service_ok_def start_refused_def)
    qed
  qed
next
  case (Some stage)
  then have "s' = s" using start by (simp add: service_start_def start_check_def)
  then show ?thesis using ok by simp
qed

lemma stands_after_stop:
  "engine_stands p config stage e \<Longrightarrow> engine_stands p config stage (engine_stop e)"
proof (cases stage)
  case WorkerLoops
  assume "engine_stands p config stage e"
  then obtain e1 where "en_running e" "open_engine p config e1" "engine_reaches p (run_loops e1) e"
    using WorkerLoops by (auto simp: engine_stands_def)
  moreover have "engine_step p e (engine_stop e)" by (rule step_stop)
  ultimately show ?thesis
    using WorkerLoops
    by (auto simp: engine_stands_def engine_reaches_def engine_stop_def intro: rtranclp.rtrancl_into_rtrancl)
qed (auto simp: engine_stands_def engine_stop_def)

lemma stop_begins_ok: "service_ok p s \<Longrightarrow> service_ok p (stop_begins call s)"
  by (auto simp: service_ok_def stop_begins_def stands_after_stop split: option.splits)

lemma stop_joins_ok: "service_ok p s \<Longrightarrow> stop_joins p s = Some s' \<Longrightarrow> service_ok p s'"
  by (auto simp: service_ok_def stop_joins_def split: if_splits)

lemma worker_ok:
  assumes ok: "service_ok p s" and step: "service_worker_step p now s = Some s'"
  shows "service_ok p s'"
proof -
  obtain stage where stage: "sv_worker s = Some stage" using step by (auto simp: service_worker_step_def split: option.splits)
  then obtain e where e: "sv_engine s = Some e" "engine_stands p (sv_config s) stage e" "validate (sv_config s) = None"
    using ok by (auto simp: service_ok_def)
  have state: "sv_state s \<noteq> ''running''" using ok by (simp add: service_ok_def)
  show ?thesis
  proof (cases stage)
    case WorkerStarts
    then obtain e0 where e0: "ready_engine p (sv_config s) e0" "e = e0 \<or> e = engine_stop e0" "\<not> en_running e"
      using e(2) by (auto simp: engine_stands_def)
    obtain e1 failed where o: "engine_open p now e = Some (e1, failed)"
      using step stage WorkerStarts e(1) by (auto simp: service_worker_step_def)
    then have o0: "engine_open p now e0 = Some (e1, failed)" using e0(2) by (auto simp: open_after_stop)
    have run: "\<not> en_running e1" using open_running [OF o] e0(3) by simp
    show ?thesis
    proof (cases failed)
      case None
      then have "s' = s\<lparr>sv_engine := Some e1, sv_worker := Some WorkerOpened\<rparr>"
        using step stage WorkerStarts e(1) o by (simp add: service_worker_step_def)
      moreover have "open_engine p (sv_config s) e1" using o0 e0(1) None by (auto simp: open_engine_def)
      ultimately show ?thesis
        using ok stage WorkerStarts run e(3) state by (auto simp: service_ok_def engine_stands_def)
    next
      case (Some err)
      then have "s' = worker_finish 1 (s\<lparr>sv_engine := Some e1\<rparr>)"
        using step stage WorkerStarts e(1) o by (simp add: service_worker_step_def)
      then show ?thesis using run e(3) by (simp add: worker_finish_def service_ok_def engine_stands_def Let_def)
    qed
  next
    case WorkerOpened
    then obtain e1 where e1: "open_engine p (sv_config s) e1" "e = e1 \<or> e = engine_stop e1"
      using e(2) by (auto simp: engine_stands_def)
    then have "run_loops e = run_loops e1" by (auto simp: run_loops_def engine_stop_def)
    moreover have "s' = s\<lparr>sv_engine := Some (run_loops e), sv_worker := Some WorkerLoops\<rparr>"
      using step stage WorkerOpened e(1) by (simp add: service_worker_step_def)
    moreover have "engine_reaches p (run_loops e1) (run_loops e1)" by (simp add: engine_reaches_def)
    ultimately show ?thesis
      using ok stage WorkerOpened e(3) state e1(1)
      by (auto simp: service_ok_def engine_stands_def run_loops_def)
  next
    case WorkerLoops
    then have "s' = worker_finish 0 (s\<lparr>sv_engine := Some (run_ends p e)\<rparr>)"
      using step stage e(1) by (auto simp: service_worker_step_def split: if_splits)
    then show ?thesis
      using e(3) by (simp add: worker_finish_def service_ok_def engine_stands_def run_ends_def close_running Let_def)
  next
    case WorkerDone
    then show ?thesis using step stage by (simp add: service_worker_step_def)
  qed
qed

lemma turn_ok:
  assumes ok: "service_ok p s" and at: "sv_worker s = Some WorkerLoops" "sv_engine s = Some e"
    and turn: "engine_step p e e'" and keep: "en_stop_requested e' = en_stop_requested e"
  shows "service_ok p (s\<lparr>sv_engine := Some e'\<rparr>)"
proof -
  obtain e1 where e1: "en_running e" "open_engine p (sv_config s) e1" "engine_reaches p (run_loops e1) e"
    using ok at by (auto simp: service_ok_def engine_stands_def)
  have "en_running e'" using turn_flags [OF turn] e1(1) by (auto simp: flags_def engine_stop_def)
  moreover have "engine_reaches p (run_loops e1) e'"
    using e1(3) turn by (auto simp: engine_reaches_def intro: rtranclp.rtrancl_into_rtrancl)
  ultimately show ?thesis using ok at e1(2) by (auto simp: service_ok_def engine_stands_def)
qed

lemma service_step_ok: "service_step p json_parse get_int show_position s s' \<Longrightarrow> service_ok p s \<Longrightarrow> service_ok p s'"
  by (erule service_stepE)
    (auto intro: start_ok stop_begins_ok stop_joins_ok worker_ok turn_ok load_valid)

lemma service_reaches_ok:
  assumes "service_reaches p json_parse get_int show_position (service_init config path w) s"
    and "validate config = None"
  shows "service_ok p s"
  using assms(1) unfolding service_reaches_def
proof (induction rule: rtranclp_induct)
  case base
  then show ?case using assms(2) by (simp add: service_ok_def service_init_def)
qed (rule service_step_ok)

subsection \<open>Properties\<close>



lemma reaches_stop: "engine_reaches p e e' \<Longrightarrow> en_stop_requested e \<Longrightarrow> en_stop_requested e'"
  unfolding engine_reaches_def
  by (induction rule: rtranclp_induct) (auto dest!: turn_flags simp: flags_def engine_stop_def)

text \<open>
  C18. A stop of a running engine returns. Whatever its threads still do after the request, the worker's
  next step ends \<^verbatim>\<open>run\<close>, and then the join is over: no engine, no thread, stopped.
\<close>

theorem stop_of_a_running_engine_returns:
  assumes "sv_worker s = Some WorkerLoops" and "sv_engine s = Some e"
    and "engine_reaches p (engine_stop e) e'"
  shows "\<exists>s1 s2. service_worker_step p now ((stop_begins call s)\<lparr>sv_engine := Some e'\<rparr>) = Some s1
    \<and> stop_joins p s1 = Some s2 \<and> sv_worker s2 = None \<and> sv_engine s2 = None \<and> \<not> sv_running s2
    \<and> sv_call s2 = NoCall \<and> service_state s2 = ''stopped''"
  using assms reaches_stop [OF assms(3)]
  by (simp add: service_worker_step_def stop_begins_def engine_stop_def worker_finish_def stop_joins_def
      service_state_def Let_def)

theorem stop_of_a_running_engine_returns_witness:
  "\<exists>s e s1 s2. sv_worker s = Some WorkerLoops \<and> sv_engine s = Some e
    \<and> service_worker_step (demo_platform []) 5 ((stop_begins StopCall s)\<lparr>sv_engine := Some (engine_stop e)\<rparr>) = Some s1
    \<and> stop_joins (demo_platform []) s1 = Some s2 \<and> service_state s2 = ''stopped''"
proof -
  obtain e where "opened (demo_platform []) muted_config 0 e" using demo_opened by blast
  let ?s = "(service_init muted_config [] 0 :: (unit, unit, unit, null_device, null_error, nat) service)
      \<lparr>sv_engine := Some (run_loops e), sv_running := True, sv_worker := Some WorkerLoops\<rparr>"
  have at: "sv_worker ?s = Some WorkerLoops" "sv_engine ?s = Some (run_loops e)" by simp_all
  have "engine_reaches (demo_platform []) (engine_stop (run_loops e)) (engine_stop (run_loops e))"
    by (simp add: engine_reaches_def)
  from stop_of_a_running_engine_returns [OF at this, of 5 StopCall] at show ?thesis by blast
qed

subsection \<open>Where a request is lost\<close>

text \<open>
  A stop that is asked for between the end of \<^verbatim>\<open>open\<close> and the first lines of \<^verbatim>\<open>run\<close> is taken back by
  \<^verbatim>\<open>run\<close>, which clears the flag, and the caller waits in \<^verbatim>\<open>join\<close> for ever: nothing but another request
  would raise the flag again, and the one caller is the one that waits.
\<close>

definition stop_lost :: "('e, 'd, 's, 'b, 'x, 'w) service \<Rightarrow> bool" where
  "stop_lost s \<longleftrightarrow> sv_worker s = Some WorkerLoops \<and> sv_call s = StopCall
     \<and> (\<exists>e. sv_engine s = Some e \<and> \<not> en_stop_requested e)"

lemma stop_before_loops_is_lost:
  assumes "sv_worker s = Some WorkerOpened" and "sv_engine s = Some e"
  shows "\<exists>s'. service_worker_step p now (stop_begins StopCall s) = Some s' \<and> stop_lost s'"
  using assms by (simp add: service_worker_step_def stop_begins_def stop_lost_def run_loops_def)

lemma lost_step: "service_step p json_parse get_int show_position s s' \<Longrightarrow> stop_lost s \<Longrightarrow> stop_lost s'"
  by (erule service_stepE) (auto simp: stop_lost_def stop_joins_def service_worker_step_def)

lemma lost_stop_never_returns:
  assumes "service_reaches p json_parse get_int show_position s s'" and "stop_lost s"
  shows "stop_lost s' \<and> stop_joins p s' = None"
proof -
  have "stop_lost s'"
    using assms unfolding service_reaches_def by (induction rule: rtranclp_induct) (auto intro: lost_step)
  then show ?thesis by (simp add: stop_lost_def stop_joins_def)
qed

text \<open>A start after the engine failed by itself answers that it did, and does nothing.\<close>

lemma start_after_failure:
  assumes "sv_worker s = Some stage"
  shows "service_start p load s = Some (s, None)"
  using assms by (simp add: service_start_def start_check_def)

text \<open>Two requests that both pass the check before either has spawned its worker: the second assignment
  to the thread ends the program.\<close>

lemma two_starts_crash:
  assumes "start_check s = Some s1" and "start_check s1 = Some s2" and "start_spawn e s2 = Some s3"
  shows "start_spawn e' s3 = None"
  using assms by (auto simp: start_check_def start_spawn_def split: if_splits)

end
