(* ===== verification/Control.thy ===== *)
theory Control
  imports Service Commissioning LogRing
begin

text \<open>
  The control surface: what src/src/http/api_server.hpp and src/src/http/api_server.cpp keep, and the
  documents they answer a poll with.

  \<open>control\<close> holds the members of \<^verbatim>\<open>ApiServer\<close>. The configuration both it and the service point to is the
  service's, and whether each of those two pointers is there is a flag; the daemon's client is there or
  not. \<open>control_platform\<close> holds what is not the program's: the client the daemon is reached by, the JSON
  library, the file system, \<^verbatim>\<open>popen\<close>, and what a device says of itself; \<open>cp_dump\<close> is the indented text
  of a document with the newline \<^verbatim>\<open>to_json\<close> ends it with. A request is answered by one
  function of the state; the locks that serialise them are left out, and so are log lines.
\<close>

subsection \<open>Replies\<close>

text \<open>A text that another part made is kept as the value it was made from.\<close>

datatype 'x reply_text =
    Says string
  | ConfigRefusal config_error
  | EngineRefusal "'x engine_error"
  | ServiceRefusal "'x service_error"
  | SinkRefusal sink_document_error
  | InternalError

datatype 'x reply = ReplyJson int json | ReplyText int "'x reply_text" | ReplyPage string

fun reply_status :: "'x reply \<Rightarrow> int" where
  "reply_status (ReplyJson status document) = status"
| "reply_status (ReplyText status message) = status"
| "reply_status (ReplyPage page) = 200"

text \<open>An exception that leaves a handler is answered by the exception handler.\<close>

definition thrown :: "'x reply" where
  "thrown = ReplyText 500 InternalError"

fun daemon_refusal :: "daemon_error \<Rightarrow> 'x reply" where
  "daemon_refusal (DaemonSays reason) = ReplyText 502 (Says reason)"
| "daemon_refusal (DaemonThrows e) = thrown"

subsection \<open>State\<close>

record ('b, 'x, 'm, 'f) control_platform =
  cp_daemon :: "'m daemon_client"
  cp_parse :: "string \<Rightarrow> string + json"
  cp_dump :: "json \<Rightarrow> string"
  cp_get_int :: "int \<Rightarrow> int"
  cp_show_position :: "nat \<Rightarrow> string"
  cp_show_error :: "'x service_error \<Rightarrow> string"
  cp_is_open :: "'b \<Rightarrow> bool"
  cp_detail :: "'b \<Rightarrow> string"
  cp_read :: "'f \<Rightarrow> string \<Rightarrow> string option"
  cp_write :: "string \<Rightarrow> string \<Rightarrow> 'f \<Rightarrow> 'f \<times> bool option"
  cp_rename :: "string \<Rightarrow> string \<Rightarrow> 'f \<Rightarrow> 'f \<times> bool"
  cp_remove :: "string \<Rightarrow> 'f \<Rightarrow> 'f"
  cp_run :: "string \<Rightarrow> 'f \<Rightarrow> 'f \<times> (string \<times> int) option"
  cp_version :: string
  cp_build :: string

record ('e, 'd, 's, 'b, 'x, 'w, 'm, 'f) control =
  ct_service :: "('e, 'd, 's, 'b, 'x, 'w) service"
  ct_has_service :: bool
  ct_has_config :: bool
  ct_daemon :: "'m option"
  ct_path :: string
  ct_pending :: "string list"
  ct_files :: 'f

definition surface_init ::
  "('e, 'd, 's, 'b, 'x, 'w) service \<Rightarrow> bool \<Rightarrow> bool \<Rightarrow> 'm option \<Rightarrow> string \<Rightarrow> 'f
     \<Rightarrow> ('e, 'd, 's, 'b, 'x, 'w, 'm, 'f) control" where
  "surface_init service has_service has_config daemon path files =
     \<lparr>ct_service = service, ct_has_service = has_service, ct_has_config = has_config, ct_daemon = daemon,
      ct_path = path, ct_pending = [], ct_files = files\<rparr>"

definition control_engine ::
  "('e, 'd, 's, 'b, 'x, 'w, 'm, 'f) control \<Rightarrow> ('e, 'd, 's, 'b, 'w) engine option" where
  "control_engine c = (if ct_has_service c then sv_engine (ct_service c) else None)"

definition config_snapshot :: "('e, 'd, 's, 'b, 'x, 'w, 'm, 'f) control \<Rightarrow> config" where
  "config_snapshot c = (if ct_has_config c then sv_config (ct_service c) else default_config)"

definition parse_body ::
  "('b, 'x, 'm, 'f) control_platform \<Rightarrow> string \<Rightarrow> string option \<times> json" where
  "parse_body q body =
     (if body = [] then (Some ''empty request body'', JObject [])
      else case cp_parse q body of
             Inl what \<Rightarrow> (Some (''invalid JSON: '' @ what), JObject [])
           | Inr document \<Rightarrow> (None, document))"

subsection \<open>Preflight\<close>

definition no_status :: status_report where
  "no_status =
     \<lparr>es_running = False, es_link_open = False, es_frames_sent = 0, es_frames_received = 0,
      es_frames_refused = 0, es_silence_periods = 0, es_frames_concealed = 0, es_delay_ms = 0,
      es_delay_fraction = 0, es_egress_delay_ms = 0, es_av_delay_ms = 0, es_clock_offset_ppm = 0,
      es_clock_ratio = 1, es_test_signal_channel = -1, es_link_stats = None\<rparr>"

definition control_status :: "('e, 'd, 's, 'b, 'x, 'w, 'm, 'f) control \<Rightarrow> status_report" where
  "control_status c = (case control_engine c of None \<Rightarrow> no_status | Some e \<Rightarrow> engine_status e)"

definition check_json :: "string \<Rightarrow> bool \<Rightarrow> string \<Rightarrow> json" where
  "check_json name ok detail = JObject [(''name'', JString name), (''ok'', JBool ok), (''detail'', JString detail)]"

text \<open>The two checks of the daemon, and whether both are fine; none without a client.\<close>

definition daemon_checks ::
  "('b, 'x, 'm, 'f) control_platform \<Rightarrow> ('e, 'd, 's, 'b, 'x, 'w, 'm, 'f) control
     \<Rightarrow> ('e, 'd, 's, 'b, 'x, 'w, 'm, 'f) control \<times> (json_exception + bool \<times> json list)" where
  "daemon_checks q c =
     (case ct_daemon c of
        None \<Rightarrow> (c, Inr (True, []))
      | Some d \<Rightarrow>
          (case dm_get_ptp_status (cp_daemon q) d of
             (d1, Inl (DaemonThrows e)) \<Rightarrow> (c\<lparr>ct_daemon := Some d1\<rparr>, Inl e)
           | (d1, Inl (DaemonSays reason)) \<Rightarrow>
               (c\<lparr>ct_daemon := Some d1\<rparr>, Inr (False,
                  [check_json ''ptp'' False ''unknown: the daemon is unreachable'',
                   check_json ''daemon'' False reason]))
           | (d1, Inr ptp) \<Rightarrow>
               let locked = (pt_status ptp = ''locked'') in
               (c\<lparr>ct_daemon := Some d1\<rparr>, Inr (locked,
                  [check_json ''ptp'' locked (if locked then ''locked'' else ''not locked: '' @ pt_status ptp),
                   check_json ''daemon'' True (dm_endpoint (cp_daemon q) d1)]))))"

definition build_preflight ::
  "('b, 'x, 'm, 'f) control_platform \<Rightarrow> ('e, 'd, 's, 'b, 'x, 'w, 'm, 'f) control
     \<Rightarrow> ('e, 'd, 's, 'b, 'x, 'w, 'm, 'f) control \<times> (json_exception + json)" where
  "build_preflight q c =
     (let status = control_status c;
          config = config_snapshot c;
          device = (case control_engine c of None \<Rightarrow> None | Some e \<Rightarrow> en_backend e);
          device_open = (case device of None \<Rightarrow> False | Some b \<Rightarrow> cp_is_open q b);
          link_open = es_link_open status
      in case daemon_checks q c of
           (c1, Inl e) \<Rightarrow> (c1, Inl e)
         | (c1, Inr (daemon_fine, checks)) \<Rightarrow>
             (c1, Inr (JObject
                [(''ok'', JBool (device_open \<and> link_open \<and> daemon_fine)),
                 (''delay_ms'', JReal (es_delay_ms status)),
                 (''checks'', JArray (checks
                    @ [check_json ''device'' device_open
                         (case device of None \<Rightarrow> ''no audio backend'' | Some b \<Rightarrow> cp_detail q b),
                       check_json ''link'' link_open
                         (if link_open then lc_mode (cf_link config) @ '' '' @ lc_role (cf_link config)
                          else ''not open'')]))])))"

subsection \<open>Status\<close>

definition link_document :: "link_stats option \<Rightarrow> json" where
  "link_document stats =
     (case stats of
        None \<Rightarrow> JObject [(''available'', JBool False)]
      | Some s \<Rightarrow> JObject
          [(''available'', JBool True), (''rtt_ms'', JReal (ls_rtt_ms s)),
           (''bandwidth_mbps'', JReal (ls_bandwidth_mbps s)),
           (''receive_rate_mbps'', JReal (ls_receive_rate_mbps s)),
           (''receive_buffer_ms'', JInt (ls_receive_buffer_ms s)),
           (''negotiated_latency_ms'', JInt (ls_negotiated_latency_ms s)),
           (''send_buffer_ms'', JInt (ls_send_buffer_ms s)),
           (''packets_received'', JInt (ls_packets_received s)),
           (''packets_lost'', JInt (ls_packets_lost s)),
           (''packets_retransmitted'', JInt (ls_packets_retransmitted s)),
           (''packets_dropped'', JInt (ls_packets_dropped s))])"

definition engine_document ::
  "('b, 'x, 'm, 'f) control_platform \<Rightarrow> ('e, 'd, 's, 'b, 'x, 'w, 'm, 'f) control \<Rightarrow> json" where
  "engine_document q c =
     (let status = control_status c in JObject
        [(''running'', JBool (es_running status)), (''link_open'', JBool (es_link_open status)),
         (''frames_sent'', JInt (int (es_frames_sent status))),
         (''frames_received'', JInt (int (es_frames_received status))),
         (''frames_refused'', JInt (int (es_frames_refused status))),
         (''frames_concealed'', JInt (int (es_frames_concealed status))),
         (''silence_periods'', JInt (int (es_silence_periods status))),
         (''delay_ms'', JReal (es_delay_ms status)), (''delay_fraction'', JReal (es_delay_fraction status)),
         (''egress_delay_ms'', JReal (es_egress_delay_ms status)),
         (''av_delay_ms'', JReal (es_av_delay_ms status)),
         (''clock_offset_ppm'', JReal (es_clock_offset_ppm status)),
         (''clock_ratio'', JReal (es_clock_ratio status)),
         (''test_signal_channel'', JInt (es_test_signal_channel status)),
         (''state'', JString (if ct_has_service c then service_state (ct_service c) else ''stopped'')),
         (''error'', JString (if ct_has_service c
            then (case sv_error (ct_service c) of None \<Rightarrow> [] | Some e \<Rightarrow> cp_show_error q e) else []))])"

definition build_status ::
  "('b, 'x, 'm, 'f) control_platform \<Rightarrow> ('e, 'd, 's, 'b, 'x, 'w, 'm, 'f) control
     \<Rightarrow> ('e, 'd, 's, 'b, 'x, 'w, 'm, 'f) control \<times> (json_exception + json)" where
  "build_status q c =
     (let config = config_snapshot c in
      case build_preflight q c of
        (c1, Inl e) \<Rightarrow> (c1, Inl e)
      | (c1, Inr preflight) \<Rightarrow>
          (c1, Inr (JObject
            [(''name'', JString ''aes67-srt''), (''version'', JString (cp_version q)),
             (''build'', JString (cp_build q)), (''role'', JString (lc_role (cf_link config))),
             (''mode'', JString (lc_mode (cf_link config))), (''peer'', JString (lc_peer (cf_link config))),
             (''blocks'', JInt (int (length (cf_blocks config)))),
             (''channels'', JInt (ac_channels (cf_audio config))),
             (''pending_restart'', JArray (map JString (ct_pending c))),
             (''config_path'', JString (ct_path c)),
             (''preflight'', preflight), (''engine'', engine_document q c),
             (''link'', link_document (es_link_stats (control_status c)))])))"

definition answer_document ::
  "'c \<times> (json_exception + json) \<Rightarrow> 'c \<times> 'x reply" where
  "answer_document r =
     (case r of (c, Inl e) \<Rightarrow> (c, thrown) | (c, Inr document) \<Rightarrow> (c, ReplyJson 200 document))"

definition get_version ::
  "('b, 'x, 'm, 'f) control_platform \<Rightarrow> 'x reply" where
  "get_version q = ReplyJson 200 (JObject
     [(''name'', JString ''aes67-srt''), (''version'', JString (cp_version q)), (''build'', JString (cp_build q))])"

subsection \<open>The log\<close>

text \<open>\<^verbatim>\<open>atoi\<close>: white space, a sign, and the digits there are. A number that is no \<^verbatim>\<open>int\<close> is undefined in C.\<close>

definition atoi :: "string \<Rightarrow> int" where
  "atoi s =
     (let t = dropWhile is_space s;
          digits = (\<lambda>u. int (foldl (\<lambda>v ch. 10 * v + (of_char ch - 48)) 0 (takeWhile is_digit u)))
      in case t of
           [] \<Rightarrow> 0
         | ch # u \<Rightarrow> if ch = CHR ''-'' then - digits u else if ch = CHR ''+'' then digits u else digits t)"

definition log_lines_wanted :: "string option \<Rightarrow> nat" where
  "log_lines_wanted param =
     (case param of
        None \<Rightarrow> 200
      | Some s \<Rightarrow> if atoi s \<le> 0 \<or> atoi s > 500 then 500 else nat (atoi s))"

definition get_log :: "log_ring \<Rightarrow> string option \<Rightarrow> 'x reply" where
  "get_log l param = ReplyJson 200 (JObject [(''lines'', JArray (map JString (log_tail (log_lines_wanted param) l)))])"

lemma log_lines_bounded: "log_lines_wanted param \<le> 500"
  by (auto simp: log_lines_wanted_def split: option.split)

subsection \<open>Properties\<close>

fun check_passes :: "json \<Rightarrow> bool" where
  "check_passes check \<longleftrightarrow> json_at check ''ok'' = JBool True"

lemma passes_check_json: "check_passes (check_json name ok detail) \<longleftrightarrow> ok"
  by (simp add: check_json_def)

lemma daemon_checks_agree:
  "daemon_checks q c = (c1, Inr (fine, checks)) \<Longrightarrow>
     fine = list_all check_passes checks
     \<and> map (\<lambda>k. json_at k ''name'') checks = (if ct_daemon c = None then [] else [JString ''ptp'', JString ''daemon''])"
  by (auto simp: daemon_checks_def check_json_def Let_def split: option.splits prod.splits sum.splits daemon_error.splits)

text \<open>
  C13. The preflight's word is that of its checks: it says ok exactly when each check it lists does. The
  checks are the device and the link, and with a daemon first PTP and the daemon, so a slave that is not
  locked is a failure of the whole; and the device and the link pass only with an engine whose device and
  whose link are open.
\<close>

theorem preflight_is_its_checks:
  assumes "build_preflight q c = (c1, Inr document)"
  shows "\<exists>checks. json_at document ''checks'' = JArray checks
    \<and> json_at document ''ok'' = JBool (list_all check_passes checks)
    \<and> map (\<lambda>k. json_at k ''name'') checks
        = (if ct_daemon c = None then [] else [JString ''ptp'', JString ''daemon'']) @ [JString ''device'', JString ''link'']
    \<and> (list_all check_passes checks \<longrightarrow>
        (\<exists>e b. control_engine c = Some e \<and> en_backend e = Some b \<and> cp_is_open q b \<and> es_link_open (engine_status e)))"
proof -
  obtain c' fine checks where daemon: "daemon_checks q c = (c', Inr (fine, checks))"
    using assms by (auto simp: build_preflight_def Let_def split: prod.splits sum.splits)
  have agree: "fine = list_all check_passes checks"
    "map (\<lambda>k. json_at k ''name'') checks = (if ct_daemon c = None then [] else [JString ''ptp'', JString ''daemon''])"
    using daemon_checks_agree [OF daemon] by auto
  define device where "device = (case control_engine c of None \<Rightarrow> None | Some e \<Rightarrow> en_backend e)"
  define device_open where "device_open = (case device of None \<Rightarrow> False | Some b \<Rightarrow> cp_is_open q b)"
  define link_open where "link_open = es_link_open (control_status c)"
  define last_two where "last_two =
    [check_json ''device'' device_open (case device of None \<Rightarrow> ''no audio backend'' | Some b \<Rightarrow> cp_detail q b),
     check_json ''link'' link_open (if link_open
        then lc_mode (cf_link (config_snapshot c)) @ '' '' @ lc_role (cf_link (config_snapshot c)) else ''not open'')]"
  have document: "document = JObject [(''ok'', JBool (device_open \<and> link_open \<and> fine)),
      (''delay_ms'', JReal (es_delay_ms (control_status c))), (''checks'', JArray (checks @ last_two))]"
    using assms daemon
    by (simp add: build_preflight_def Let_def flip: device_def device_open_def link_open_def last_two_def)
  have two: "list_all check_passes last_two \<longleftrightarrow> device_open \<and> link_open"
    "map (\<lambda>k. json_at k ''name'') last_two = [JString ''device'', JString ''link'']"
    by (simp_all add: last_two_def check_json_def)
  have opened: "\<exists>e b. control_engine c = Some e \<and> en_backend e = Some b \<and> cp_is_open q b \<and> es_link_open (engine_status e)"
    if "device_open" "link_open"
    using that by (auto simp: device_open_def device_def link_open_def control_status_def no_status_def split: option.splits)
  show ?thesis
    by (intro exI [of _ "checks @ last_two"]) (use document two agree opened in auto)
qed

text \<open>An appliance on the simulated daemon, and a body that asks for its own source.\<close>

definition bench_platform :: "(null_device, null_error, fake_daemon, unit) control_platform" where
  "bench_platform =
     \<lparr>cp_daemon = fake_daemon_client,
      cp_parse = (\<lambda>s. if s = ''self'' then Inr (JObject [(''block'', JInt 0), (''source'', JString ''self'')]) else Inl []),
      cp_dump = (\<lambda>_. []), cp_get_int = id, cp_show_position = (\<lambda>_. []), cp_show_error = (\<lambda>_. []),
      cp_is_open = (\<lambda>_. False), cp_detail = (\<lambda>_. []), cp_read = (\<lambda>_ _. None),
      cp_write = (\<lambda>_ _ f. (f, None)), cp_rename = (\<lambda>_ _ f. (f, False)), cp_remove = (\<lambda>_ f. f),
      cp_run = (\<lambda>_ f. (f, None)), cp_version = [], cp_build = []\<rparr>"

definition bench_control ::
  "fake_daemon \<Rightarrow> (unit, unit, unit, null_device, null_error, nat, fake_daemon, unit) control" where
  "bench_control d = surface_init (service_init one_block [] 0) True True (Some d) [] ()"

theorem preflight_is_its_checks_witness:
  "\<exists>c1 document checks. build_preflight bench_platform (bench_control (fake_init default_daemon)) = (c1, Inr document)
    \<and> json_at document ''checks'' = JArray checks \<and> length checks = 4
    \<and> json_at document ''ok'' = JBool (list_all check_passes checks)"
proof -
  have at: "ct_daemon (bench_control (fake_init default_daemon)) = Some (fake_init default_daemon)"
    by (simp add: bench_control_def surface_init_def)
  obtain c1 document where pre: "build_preflight bench_platform (bench_control (fake_init default_daemon)) = (c1, Inr document)"
    by (auto simp: build_preflight_def daemon_checks_def at bench_platform_def fake_daemon_client_def Let_def)
  obtain checks where checks: "json_at document ''checks'' = JArray checks"
    "json_at document ''ok'' = JBool (list_all check_passes checks)"
    "map (\<lambda>k. json_at k ''name'') checks = [JString ''ptp'', JString ''daemon'', JString ''device'', JString ''link'']"
    using preflight_is_its_checks [OF pre] at by auto
  have "length (map (\<lambda>k. json_at k ''name'') checks) = 4" unfolding checks(3) by simp
  then have "length checks = 4" by simp
  then show ?thesis using pre checks by blast
qed

end
