(* ===== verification/ControlConfig.thy ===== *)
theory ControlConfig
  imports Control
begin

text \<open>
  The handlers of src/src/http/api_server.cpp that change something of ours: the configuration, the A/V
  offset and the test signal, and the life of the engine.

  A save writes a sibling and renames it, and falls back to writing the file itself. What a written file
  holds once its stream is closed is the platform's to say: the code asks the stream before it is closed.
\<close>

subsection \<open>Writing the file\<close>

datatype save_error = CannotWrite string | ErrorWriting string

fun save_reason :: "save_error \<Rightarrow> string" where
  "save_reason (CannotWrite path) = ''cannot write '' @ path"
| "save_reason (ErrorWriting path) = ''error writing '' @ path"

definition write_atomically ::
  "('b, 'x, 'm, 'f) control_platform \<Rightarrow> string \<Rightarrow> string \<Rightarrow> 'f \<Rightarrow> 'f \<times> save_error option" where
  "write_atomically q path content files =
     (let temporary = path @ ''.tmp'' in
      case cp_write q temporary content files of (files1, wrote) \<Rightarrow>
        (case (if wrote = Some True then cp_rename q temporary path files1 else (files1, False)) of
           (files2, True) \<Rightarrow> (files2, None)
         | (files2, False) \<Rightarrow>
             (case cp_write q path content (cp_remove q temporary files2) of
                (files3, None) \<Rightarrow> (files3, Some (CannotWrite path))
              | (files3, Some False) \<Rightarrow> (files3, Some (ErrorWriting path))
              | (files3, Some True) \<Rightarrow> (files3, None))))"

subsection \<open>The configuration\<close>

definition config_text :: "('b, 'x, 'm, 'f) control_platform \<Rightarrow> config \<Rightarrow> string" where
  "config_text q c = cp_dump q (JObject (config_to_json c))"

definition parsed_json :: "('b, 'x, 'm, 'f) control_platform \<Rightarrow> string \<Rightarrow> json option" where
  "parsed_json q content = (case cp_parse q content of Inl _ \<Rightarrow> None | Inr document \<Rightarrow> Some document)"

definition read_config ::
  "('b, 'x, 'm, 'f) control_platform \<Rightarrow> string \<Rightarrow> config_error + config" where
  "read_config q = parse_config (parsed_json q) (cp_get_int q) (cp_show_position q)"

text \<open>What a start of the service reads, with the files as they then are.\<close>

definition load_file ::
  "('b, 'x, 'm, 'f) control_platform \<Rightarrow> 'f \<Rightarrow> string \<Rightarrow> config_error + config" where
  "load_file q files = load_config (cp_read q files) (parsed_json q) (cp_get_int q) (cp_show_position q)"

definition get_config ::
  "('b, 'x, 'm, 'f) control_platform \<Rightarrow> ('e, 'd, 's, 'b, 'x, 'w, 'm, 'f) control \<Rightarrow> 'x reply" where
  "get_config q c =
     (case cp_parse q (config_text q (config_snapshot c)) of
        Inl _ \<Rightarrow> thrown | Inr document \<Rightarrow> ReplyJson 200 document)"

definition k_sections :: "string list" where
  "k_sections = [''audio'', ''link'', ''aes67_daemon'', ''egress'', ''blocks'', ''http_addr'', ''http_port'']"

text \<open>The loop over the sections: what applies live, and what waits for a restart.\<close>

fun section_changes ::
  "config \<Rightarrow> config \<Rightarrow> json \<Rightarrow> json \<Rightarrow> string list \<Rightarrow> string list \<times> string list" where
  "section_changes parsed running wanted current [] = ([], [])"
| "section_changes parsed running wanted current (key # rest) =
     (case section_changes parsed running wanted current rest of (applied, restart) \<Rightarrow>
        if \<not> json_contains wanted key \<or> \<not> json_contains current key then (applied, restart)
        else if json_at wanted key = json_at current key then (applied, restart)
        else if key = ''egress''
                \<and> ec_test_signal_channel (cf_egress parsed) = ec_test_signal_channel (cf_egress running)
          then (''egress.delay_ms'' # applied, restart)
        else (applied, key # restart))"

text \<open>
  The new offset is given to the engine before anything is written. A stopped engine has no reason to give:
  the text is the one \<^verbatim>\<open>parse_config\<close> left empty.
\<close>

definition apply_live ::
  "config \<Rightarrow> string list \<Rightarrow> ('e, 'd, 's, 'b, 'x, 'w, 'm, 'f) control
     \<Rightarrow> ('e, 'd, 's, 'b, 'x, 'w, 'm, 'f) control \<times> 'x reply_text option" where
  "apply_live parsed applied c =
     (if applied = [] then (c, None)
      else case control_engine c of
        None \<Rightarrow> (c, Some (Says []))
      | Some e \<Rightarrow>
          (case set_egress_delay_ms (Real (ec_delay_ms (cf_egress parsed))) e of
             (e1, Some err) \<Rightarrow>
               (c\<lparr>ct_service := (ct_service c)\<lparr>sv_engine := Some e1\<rparr>\<rparr>, Some (EngineRefusal err))
           | (e1, None) \<Rightarrow> (c\<lparr>ct_service := (ct_service c)\<lparr>sv_engine := Some e1\<rparr>\<rparr>, None)))"

definition save_config ::
  "('b, 'x, 'm, 'f) control_platform \<Rightarrow> config \<Rightarrow> ('e, 'd, 's, 'b, 'x, 'w, 'm, 'f) control
     \<Rightarrow> ('e, 'd, 's, 'b, 'x, 'w, 'm, 'f) control \<times> save_error option" where
  "save_config q parsed c =
     (if ct_path c = [] then (c, None)
      else case write_atomically q (ct_path c) (config_text q parsed) (ct_files c) of
             (files, failed) \<Rightarrow> (c\<lparr>ct_files := files\<rparr>, failed))"

definition keep_offset :: "real \<Rightarrow> config \<Rightarrow> config" where
  "keep_offset offset config = config\<lparr>cf_egress := (cf_egress config)\<lparr>ec_delay_ms := offset\<rparr>\<rparr>"

definition post_config ::
  "('b, 'x, 'm, 'f) control_platform \<Rightarrow> string \<Rightarrow> ('e, 'd, 's, 'b, 'x, 'w, 'm, 'f) control
     \<Rightarrow> ('e, 'd, 's, 'b, 'x, 'w, 'm, 'f) control \<times> 'x reply" where
  "post_config q body c =
     (if \<not> ct_has_config c then (c, ReplyText 503 (Says ''no configuration''))
      else case read_config q body of
        Inl e \<Rightarrow> (c, ReplyText 400 (ConfigRefusal e))
      | Inr parsed \<Rightarrow>
          let running = config_snapshot c in
          (case (cp_parse q (config_text q parsed), cp_parse q (config_text q running)) of
             (Inr wanted, Inr current) \<Rightarrow>
               (case section_changes parsed running wanted current k_sections of (applied, restart) \<Rightarrow>
                 (case apply_live parsed applied c of
                    (c1, Some reason) \<Rightarrow> (c1, ReplyText 400 reason)
                  | (c1, None) \<Rightarrow>
                      (case save_config q parsed c1 of
                         (c2, Some failed) \<Rightarrow> (c2, ReplyText 500 (Says (save_reason failed)))
                       | (c2, None) \<Rightarrow>
                           let service = ct_service c2;
                               kept = (if applied = [] then service
                                       else service\<lparr>sv_config :=
                                         keep_offset (ec_delay_ms (cf_egress parsed)) (sv_config service)\<rparr>)
                           in (c2\<lparr>ct_service := kept, ct_pending := restart\<rparr>,
                               ReplyJson 200 (JObject
                                 [(''ok'', JBool True), (''applied'', JArray (map JString applied)),
                                  (''restart_required'', JArray (map JString restart)),
                                  (''path'', JString (ct_path c))])))))
           | _ \<Rightarrow> (c, thrown)))"

subsection \<open>The A/V offset and the test signal\<close>

fun json_number :: "json \<Rightarrow> float_value option" where
  "json_number (JInt n) = Some (Real (of_int n))"
| "json_number (JReal x) = Some (Real x)"
| "json_number _ = None"

definition post_delay ::
  "('b, 'x, 'm, 'f) control_platform \<Rightarrow> string \<Rightarrow> ('e, 'd, 's, 'b, 'x, 'w, 'm, 'f) control
     \<Rightarrow> ('e, 'd, 's, 'b, 'x, 'w, 'm, 'f) control \<times> 'x reply" where
  "post_delay q body c =
     (case parse_body q body of
        (Some error, document) \<Rightarrow> (c, ReplyText 400 (Says error))
      | (None, document) \<Rightarrow>
          (case json_number (json_at document ''delay_ms'') of
             None \<Rightarrow> (c, ReplyText 400 (Says ''egress.delay_ms: expected a number''))
           | Some offset \<Rightarrow>
               (case control_engine c of
                  None \<Rightarrow> (c, ReplyText 503 (Says ''the engine is not running''))
                | Some e \<Rightarrow>
                    (case set_egress_delay_ms offset e of
                       (e1, Some err) \<Rightarrow>
                         (c\<lparr>ct_service := (ct_service c)\<lparr>sv_engine := Some e1\<rparr>\<rparr>, ReplyText 400 (EngineRefusal err))
                     | (e1, None) \<Rightarrow>
                         (c\<lparr>ct_service := (ct_service c)\<lparr>sv_engine := Some e1\<rparr>\<rparr>,
                          ReplyJson 200 (JObject [(''ok'', JBool True),
                            (''delay_ms'', JReal (pf_egress_delay_ms (en_published e1)))]))))))"

definition post_test_signal ::
  "('e, 'd, 's, 'b, 'x, 'w, 'm, 'f) control
     \<Rightarrow> ('e, 'd, 's, 'b, 'x, 'w, 'm, 'f) control \<times> 'x reply" where
  "post_test_signal c =
     (case control_engine c of
        None \<Rightarrow> (c, ReplyText 503 (Says ''the engine is not running''))
      | Some e \<Rightarrow>
          (case trigger_test_signal e of
             (e1, Some err) \<Rightarrow>
               (c\<lparr>ct_service := (ct_service c)\<lparr>sv_engine := Some e1\<rparr>\<rparr>, ReplyText 400 (EngineRefusal err))
           | (e1, None) \<Rightarrow>
               (c\<lparr>ct_service := (ct_service c)\<lparr>sv_engine := Some e1\<rparr>\<rparr>,
                ReplyJson 200 (JObject [(''ok'', JBool True)]))))"

subsection \<open>The engine's lifecycle\<close>

text \<open>
  A handler answers, waits in the service's \<^verbatim>\<open>join\<close>, or ends the program with the assignment to a thread
  that is joinable. \<open>lifecycle_joined\<close> is what is left of a handler that waited.
\<close>

datatype engine_action = ActStart | ActStop | ActRestart

datatype ('c, 'x) answer = Answered 'c "'x reply" | Joining 'c engine_action | Terminated

definition lifecycle_ok ::
  "('e, 'd, 's, 'b, 'x, 'w, 'm, 'f) control \<Rightarrow> (('e, 'd, 's, 'b, 'x, 'w, 'm, 'f) control, 'x) answer" where
  "lifecycle_ok c =
     Answered c (ReplyJson 200 (JObject
       [(''ok'', JBool True), (''state'', JString (service_state (ct_service c)))]))"

definition lifecycle_start ::
  "('e, 'd, 's, 'b, 'x, 'w) platform \<Rightarrow> ('b, 'x, 'm, 'f) control_platform
     \<Rightarrow> ('e, 'd, 's, 'b, 'x, 'w, 'm, 'f) control \<Rightarrow> (('e, 'd, 's, 'b, 'x, 'w, 'm, 'f) control, 'x) answer" where
  "lifecycle_start p q c =
     (case service_start p (load_file q (ct_files c)) (ct_service c) of
        None \<Rightarrow> Terminated
      | Some (s, Some e) \<Rightarrow> Answered (c\<lparr>ct_service := s\<rparr>) (ReplyText 400 (ServiceRefusal e))
      | Some (s, None) \<Rightarrow> lifecycle_ok (c\<lparr>ct_service := s\<rparr>))"

definition lifecycle ::
  "('e, 'd, 's, 'b, 'x, 'w) platform \<Rightarrow> ('b, 'x, 'm, 'f) control_platform \<Rightarrow> engine_action
     \<Rightarrow> ('e, 'd, 's, 'b, 'x, 'w, 'm, 'f) control \<Rightarrow> (('e, 'd, 's, 'b, 'x, 'w, 'm, 'f) control, 'x) answer" where
  "lifecycle p q action c =
     (if \<not> ct_has_service c then Answered c (ReplyText 503 (Says ''no engine service on this build''))
      else case action of
        ActStart \<Rightarrow> lifecycle_start p q c
      | ActStop \<Rightarrow>
          if sv_worker (ct_service c) = None then lifecycle_ok c
          else Joining (c\<lparr>ct_service := stop_begins StopCall (ct_service c)\<rparr>) ActStop
      | ActRestart \<Rightarrow>
          if sv_worker (ct_service c) = None then lifecycle_start p q c
          else Joining (c\<lparr>ct_service := stop_begins RestartCall (ct_service c)\<rparr>) ActRestart)"

definition lifecycle_joined ::
  "('e, 'd, 's, 'b, 'x, 'w) platform \<Rightarrow> ('b, 'x, 'm, 'f) control_platform \<Rightarrow> engine_action
     \<Rightarrow> ('e, 'd, 's, 'b, 'x, 'w, 'm, 'f) control
     \<Rightarrow> (('e, 'd, 's, 'b, 'x, 'w, 'm, 'f) control, 'x) answer option" where
  "lifecycle_joined p q action c =
     map_option (\<lambda>s. let c1 = c\<lparr>ct_service := s\<rparr> in
        if action = ActRestart then lifecycle_start p q c1 else lifecycle_ok c1)
       (stop_joins p (ct_service c))"

subsection \<open>A refusal changes nothing\<close>

lemma set_delay_refused: "set_egress_delay_ms offset e = (e', Some err) \<Longrightarrow> e' = e"
  by (auto simp: set_egress_delay_ms_def split: float_value.splits if_splits)

lemma set_engine_same: "control_engine c = Some e \<Longrightarrow> c\<lparr>ct_service := (ct_service c)\<lparr>sv_engine := Some e\<rparr>\<rparr> = c"
  by (simp add: control_engine_def split: if_splits)

lemma apply_live_refused: "apply_live parsed applied c = (c', Some reason) \<Longrightarrow> c' = c"
  using set_delay_refused
  by (fastforce simp: apply_live_def set_engine_same split: if_splits option.splits prod.splits)

text \<open>
  C12. A configuration that is refused changes nothing: whatever document is posted, when the answer is a
  refusal of the document or of its offset, the running configuration, the engine, the file and the list
  of what waits for a restart are as they were.
\<close>

theorem refused_config_changes_nothing:
  assumes "post_config q body c = (c', reply)" and "reply_status reply = 400 \<or> reply_status reply = 503"
  shows "c' = c"
proof (cases "ct_has_config c")
  case True
  show ?thesis
  proof (cases "read_config q body")
    case (Inr parsed)
    show ?thesis
    proof (cases "\<exists>wanted current. cp_parse q (config_text q parsed) = Inr wanted
        \<and> cp_parse q (config_text q (config_snapshot c)) = Inr current")
      case True
      then obtain wanted current where docs: "cp_parse q (config_text q parsed) = Inr wanted"
        "cp_parse q (config_text q (config_snapshot c)) = Inr current" by blast
      obtain applied restart where ch: "section_changes parsed (config_snapshot c) wanted current k_sections = (applied, restart)"
        by fastforce
      obtain c1 refusal where live: "apply_live parsed applied c = (c1, refusal)" by fastforce
      then show ?thesis
        using assms True Inr \<open>ct_has_config c\<close> docs ch apply_live_refused [of parsed applied c c1]
        by (cases refusal) (auto simp: post_config_def Let_def split: prod.splits option.splits)
    qed (use assms Inr True in \<open>auto simp: post_config_def Let_def thrown_def split: sum.splits\<close>)
  qed (use assms True in \<open>simp add: post_config_def\<close>)
qed (use assms in \<open>simp add: post_config_def\<close>)

subsection \<open>A configuration that is taken\<close>

text \<open>
  What a file system does when nothing goes wrong behind the stream's back: a stream that is good has
  written its file, and a rename that succeeds has moved it.
\<close>

definition disk_keeps :: "('b, 'x, 'm, 'f) control_platform \<Rightarrow> bool" where
  "disk_keeps q \<longleftrightarrow>
     (\<forall>path content f f'. cp_write q path content f = (f', Some True) \<longrightarrow> cp_read q f' path = Some content)
     \<and> (\<forall>a b f f'. cp_rename q a b f = (f', True) \<longrightarrow> cp_read q f' b = cp_read q f a)"

text \<open>The library reads back the document of this configuration.\<close>

definition reads_own :: "('b, 'x, 'm, 'f) control_platform \<Rightarrow> config \<Rightarrow> bool" where
  "reads_own q c \<longleftrightarrow> cp_parse q (config_text q c) = Inr (JObject (config_to_json c))"

lemma written: "disk_keeps q \<Longrightarrow> write_atomically q path content files = (files', None)
    \<Longrightarrow> cp_read q files' path = Some content"
  unfolding disk_keeps_def
  by (auto simp: write_atomically_def Let_def split: prod.splits if_splits bool.splits option.splits)

lemma read_own: "reads_own q c \<Longrightarrow> validate c = None \<Longrightarrow> ints_fit c \<Longrightarrow> reads_ints (cp_get_int q)
    \<Longrightarrow> read_config q (config_text q c) = Inr c"
  unfolding read_config_def
  by (rule config_round_trip) (simp_all add: reads_own_def parsed_json_def)

lemma section_json:
  "json_at (JObject (config_to_json c)) ''audio'' = json_at (JObject (config_to_json c')) ''audio'' \<longleftrightarrow> cf_audio c = cf_audio c'"
  "json_at (JObject (config_to_json c)) ''link'' = json_at (JObject (config_to_json c')) ''link'' \<longleftrightarrow> cf_link c = cf_link c'"
  "json_at (JObject (config_to_json c)) ''aes67_daemon'' = json_at (JObject (config_to_json c')) ''aes67_daemon''
     \<longleftrightarrow> cf_daemon c = cf_daemon c'"
  "json_at (JObject (config_to_json c)) ''egress'' = json_at (JObject (config_to_json c')) ''egress'' \<longleftrightarrow> cf_egress c = cf_egress c'"
  "json_at (JObject (config_to_json c)) ''http_addr'' = json_at (JObject (config_to_json c')) ''http_addr''
     \<longleftrightarrow> cf_http_addr c = cf_http_addr c'"
  "json_at (JObject (config_to_json c)) ''http_port'' = json_at (JObject (config_to_json c')) ''http_port''
     \<longleftrightarrow> cf_http_port c = cf_http_port c'"
  by (auto simp: config_to_json_def Let_def intro: audio_config.equality link_config.equality
      daemon_config.equality egress_config.equality)

lemma block_json: "block_to_json b = block_to_json b' \<longleftrightarrow> b = b'"
proof -
  have "map JInt xs = map JInt ys \<longleftrightarrow> xs = ys" for xs ys by (rule inj_map_eq_map) (simp add: inj_def)
  then show ?thesis by (auto simp: block_to_json_def intro: block_config.equality)
qed

lemma blocks_json:
  "json_at (JObject (config_to_json c)) ''blocks'' = json_at (JObject (config_to_json c')) ''blocks'' \<longleftrightarrow> cf_blocks c = cf_blocks c'"
proof -
  have "map block_to_json xs = map block_to_json ys \<longleftrightarrow> xs = ys" for xs ys
    by (rule inj_map_eq_map) (simp add: inj_def block_json)
  then show ?thesis by (simp add: config_to_json_def Let_def)
qed

lemma has_sections: "key \<in> set k_sections \<Longrightarrow> json_contains (JObject (config_to_json c)) key"
  by (auto simp: k_sections_def config_to_json_def Let_def)

text \<open>What the loop leaves out is the same on both sides, or is the offset alone.\<close>

lemma section_changes_cases:
  assumes "section_changes parsed running wanted current keys = (applied, restart)"
    and "\<forall>key \<in> set keys. json_contains wanted key \<and> json_contains current key" and "key \<in> set keys"
  shows "json_at wanted key = json_at current key \<or> key \<in> set restart
    \<or> key = ''egress'' \<and> applied \<noteq> []"
  using assms by (induction keys arbitrary: applied restart) (auto split: prod.splits if_splits)

lemma section_changes_applied:
  assumes "section_changes parsed running wanted current keys = (applied, restart)" and "applied \<noteq> []"
  shows "ec_test_signal_channel (cf_egress parsed) = ec_test_signal_channel (cf_egress running)"
  using assms by (induction keys arbitrary: applied restart) (auto split: prod.splits if_splits)

lemma section_changes_offset:
  assumes "section_changes parsed running wanted current keys = (applied, restart)" and "''egress'' \<in> set keys"
    and "json_contains wanted ''egress''" and "json_contains current ''egress''"
    and "json_at wanted ''egress'' \<noteq> json_at current ''egress''"
    and "ec_test_signal_channel (cf_egress parsed) = ec_test_signal_channel (cf_egress running)"
  shows "applied \<noteq> []"
  using assms
  by (induction keys arbitrary: applied restart)
    (auto simp del: json_at.simps json_contains.simps split: prod.splits if_splits)

lemma nothing_to_restart:
  assumes "section_changes parsed running (JObject (config_to_json parsed)) (JObject (config_to_json running)) k_sections
      = (applied, [])"
    and "cf_version parsed = cf_version running"
  shows "parsed = (if applied = [] then running else keep_offset (ec_delay_ms (cf_egress parsed)) running)"
proof -
  have same: "json_at (JObject (config_to_json parsed)) key = json_at (JObject (config_to_json running)) key
      \<or> key = ''egress'' \<and> applied \<noteq> []" if "key \<in> set k_sections" for key
    using section_changes_cases [OF assms(1) _ that] has_sections by auto
  have "cf_audio parsed = cf_audio running" "cf_link parsed = cf_link running" "cf_daemon parsed = cf_daemon running"
    "cf_blocks parsed = cf_blocks running" "cf_http_addr parsed = cf_http_addr running"
    "cf_http_port parsed = cf_http_port running"
    using same [of "''audio''"] same [of "''link''"] same [of "''aes67_daemon''"] same [of "''blocks''"]
      same [of "''http_addr''"] same [of "''http_port''"]
    by (simp_all add: k_sections_def section_json blocks_json del: json_at.simps)
  moreover have "cf_egress parsed = (if applied = [] then cf_egress running
      else (cf_egress running)\<lparr>ec_delay_ms := ec_delay_ms (cf_egress parsed)\<rparr>)"
  proof (cases "applied = []")
    case True
    then show ?thesis using same [of "''egress''"] by (simp add: k_sections_def section_json del: json_at.simps)
  next
    case False
    then show ?thesis
      using section_changes_applied [OF assms(1)] by (auto intro: egress_config.equality)
  qed
  ultimately show ?thesis using assms(2) by (auto simp: keep_offset_def intro: config.equality)
qed

text \<open>The way to a reply of 200, with the states it goes through.\<close>

lemma post_config_taken:
  assumes "post_config q body c = (c', reply)" and "reply_status reply = 200"
  obtains parsed wanted current applied restart c1 c2 where
    "ct_has_config c" "read_config q body = Inr parsed"
    "cp_parse q (config_text q parsed) = Inr wanted"
    "cp_parse q (config_text q (sv_config (ct_service c))) = Inr current"
    "section_changes parsed (sv_config (ct_service c)) wanted current k_sections = (applied, restart)"
    "apply_live parsed applied c = (c1, None)" "save_config q parsed c1 = (c2, None)"
    "c' = c2\<lparr>ct_service := (if applied = [] then ct_service c2 else (ct_service c2)\<lparr>sv_config :=
        keep_offset (ec_delay_ms (cf_egress parsed)) (sv_config (ct_service c2))\<rparr>), ct_pending := restart\<rparr>"
proof -
  have config: "ct_has_config c" using assms by (auto simp: post_config_def split: if_splits)
  obtain parsed where parsed: "read_config q body = Inr parsed"
    using assms config by (auto simp: post_config_def split: sum.splits)
  obtain wanted where wanted: "cp_parse q (config_text q parsed) = Inr wanted"
    using assms config parsed by (auto simp: post_config_def thrown_def Let_def split: sum.splits)
  obtain current where current: "cp_parse q (config_text q (sv_config (ct_service c))) = Inr current"
    using assms config parsed wanted
    by (auto simp: post_config_def config_snapshot_def thrown_def Let_def split: sum.splits)
  obtain applied restart where changes:
    "section_changes parsed (sv_config (ct_service c)) wanted current k_sections = (applied, restart)" by fastforce
  obtain c1 refusal where live: "apply_live parsed applied c = (c1, refusal)" by fastforce
  have "refusal = None"
    using assms config parsed wanted current changes live
    by (cases refusal) (auto simp: post_config_def config_snapshot_def Let_def)
  moreover obtain c2 failed where saved: "save_config q parsed c1 = (c2, failed)" by fastforce
  moreover have "failed = None"
    using assms config parsed wanted current changes live saved \<open>refusal = None\<close>
    by (cases failed) (auto simp: post_config_def config_snapshot_def Let_def)
  ultimately show ?thesis
    using that [OF config parsed wanted current changes, of c1 c2] assms(1) live config parsed wanted current changes
    by (simp add: post_config_def config_snapshot_def Let_def)
qed

lemma live_keeps: "apply_live parsed applied c = (c1, r) \<Longrightarrow>
    sv_config (ct_service c1) = sv_config (ct_service c) \<and> ct_path c1 = ct_path c"
  by (auto simp: apply_live_def split: if_splits option.splits prod.splits)

lemma save_keeps: "save_config q parsed c = (c1, r) \<Longrightarrow> ct_service c1 = ct_service c"
  by (auto simp: save_config_def split: if_splits prod.splits)

lemma start_loads:
  assumes "service_start p load s = Some (s', failed)" and "sv_worker s = None"
    and "sv_path s \<noteq> []" and "load (sv_path s) = Inr config"
  shows "sv_config s' = config"
proof -
  obtain e refusal where prepared: "prepare p config (engine_init (sv_world s)) = (e, refusal)" by fastforce
  show ?thesis
    using assms prepared
    by (cases refusal)
      (auto simp: service_start_def start_check_def start_prepare_def start_refused_def start_spawn_def Let_def)
qed

lemma save_members: "save_config q parsed c = (c1, r) \<Longrightarrow> ct_has_service c1 = ct_has_service c"
  by (auto simp: save_config_def split: if_splits prod.splits)

text \<open>
  C10. A configuration that is taken is the one the next start runs. After the answer 200 the file holds
  the whole document that was posted: a service that is started from the file, now or after any number of
  restarts, reads exactly the configuration that was posted, whatever its engine then does with it.
\<close>

theorem saved_config_is_the_next:
  assumes "post_config q body c = (c', reply)" and "reply_status reply = 200" and "ct_path c \<noteq> []"
    and "read_config q body = Inr parsed"
    and "disk_keeps q" and "reads_ints (cp_get_int q)" and "reads_own q parsed" and "ints_fit parsed"
  shows "load_file q (ct_files c') (ct_path c) = Inr parsed
    \<and> (\<forall>p s s' failed. sv_worker s = None \<longrightarrow> sv_path s = ct_path c
         \<longrightarrow> service_start p (load_file q (ct_files c')) s = Some (s', failed) \<longrightarrow> sv_config s' = parsed)"
proof -
  obtain applied c1 c2 where way: "apply_live parsed applied c = (c1, None)" "save_config q parsed c1 = (c2, None)"
      "ct_files c' = ct_files c2"
    using assms(4) by (rule_tac post_config_taken [OF assms(1,2)]) auto
  have path: "ct_path c1 = ct_path c" using live_keeps [OF way(1)] by simp
  then have "write_atomically q (ct_path c) (config_text q parsed) (ct_files c1) = (ct_files c2, None)"
    using way(2) assms(3) by (auto simp: save_config_def split: prod.splits)
  then have "cp_read q (ct_files c') (ct_path c) = Some (config_text q parsed)"
    using written [OF assms(5)] way(3) by simp
  moreover have "validate parsed = None"
    using assms(4) by (auto simp: read_config_def parse_config_def split: option.splits json.splits sum.splits)
  ultimately have load: "load_file q (ct_files c') (ct_path c) = Inr parsed"
    using read_own [OF assms(7) _ assms(8,6)] by (simp add: load_file_def load_config_def read_config_def)
  then show ?thesis using start_loads assms(3) by metis
qed

text \<open>
  C11. When nothing waits for a restart, what was saved is what runs: after the answer 200 with an empty
  list the running configuration is the posted one. Otherwise the running one is as it was, but for the
  A/V offset when that alone moved in its section, and then the engine has been told.
\<close>

theorem nothing_pending_means_applied:
  assumes "post_config q body c = (c', reply)" and "reply_status reply = 200"
    and "read_config q body = Inr parsed" and "validate (sv_config (ct_service c)) = None"
    and "reads_own q parsed" and "reads_own q (sv_config (ct_service c))"
  shows "(ct_pending c' = [] \<longrightarrow> sv_config (ct_service c') = parsed)
    \<and> (sv_config (ct_service c') = sv_config (ct_service c)
      \<or> sv_config (ct_service c') = keep_offset (ec_delay_ms (cf_egress parsed)) (sv_config (ct_service c))
        \<and> (\<exists>e. control_engine c' = Some e \<and> en_egress_delay_pending e
            \<and> en_requested_egress_delay_ms e = ec_delay_ms (cf_egress parsed)))"
proof -
  let ?running = "sv_config (ct_service c)"
  obtain applied restart c1 c2 where way:
      "section_changes parsed ?running (JObject (config_to_json parsed)) (JObject (config_to_json ?running)) k_sections
        = (applied, restart)"
      "apply_live parsed applied c = (c1, None)" "save_config q parsed c1 = (c2, None)"
      "c' = c2\<lparr>ct_service := (if applied = [] then ct_service c2 else (ct_service c2)\<lparr>sv_config :=
        keep_offset (ec_delay_ms (cf_egress parsed)) (sv_config (ct_service c2))\<rparr>), ct_pending := restart\<rparr>"
    using assms(3,5,6) by (rule_tac post_config_taken [OF assms(1,2)]) (auto simp: reads_own_def)
  have run: "sv_config (ct_service c2) = ?running"
    using live_keeps [OF way(2)] save_keeps [OF way(3)] by simp
  have "validate parsed = None"
    using assms(3) by (auto simp: read_config_def parse_config_def split: option.splits json.splits sum.splits)
  then have "cf_version parsed = cf_version ?running" using assms(4) by (simp add: validate_None)
  then have "ct_pending c' = [] \<longrightarrow> sv_config (ct_service c') = parsed"
    using nothing_to_restart [of parsed ?running applied] way(1,4) run by auto
  moreover have "control_engine c' = control_engine c1"
    using way(4) save_keeps [OF way(3)] save_members [OF way(3)] by (simp add: control_engine_def)
  moreover have live: "applied = [] \<or> (\<exists>e. control_engine c1 = Some e \<and> en_egress_delay_pending e
      \<and> en_requested_egress_delay_ms e = ec_delay_ms (cf_egress parsed))"
    using way(2)
    by (auto simp: apply_live_def control_engine_def set_egress_delay_ms_def split: if_splits option.splits prod.splits)
  ultimately show ?thesis using way(4) run by (cases "applied = []") simp_all
qed

subsection \<open>Witnesses\<close>

text \<open>A disk of named texts, a library that knows two documents, and an appliance whose offset is moved.\<close>

definition moved_config :: config where
  "moved_config = keep_offset 20 example_config"

definition disk_platform :: "(null_device, null_error, fake_daemon, string \<Rightarrow> string option) control_platform" where
  "disk_platform =
     \<lparr>cp_daemon = fake_daemon_client,
      cp_parse = (\<lambda>s. if s = ''old'' then Inr (JObject (config_to_json example_config))
                      else if s = ''new'' then Inr (JObject (config_to_json moved_config)) else Inl ''syntax''),
      cp_dump = (\<lambda>d. if d = JObject (config_to_json example_config) then ''old'' else ''new''),
      cp_get_int = id, cp_show_position = (\<lambda>_. []), cp_show_error = (\<lambda>_. []),
      cp_is_open = (\<lambda>_. False), cp_detail = (\<lambda>_. []),
      cp_read = (\<lambda>files. files),
      cp_write = (\<lambda>path content files. (files(path \<mapsto> content), Some True)),
      cp_rename = (\<lambda>a b files. case files a of None \<Rightarrow> (files, False)
        | Some content \<Rightarrow> (files(a := None, b \<mapsto> content), True)),
      cp_remove = (\<lambda>path files. files(path := None)),
      cp_run = (\<lambda>_ files. (files, None)), cp_version = [], cp_build = []\<rparr>"

definition disk_control ::
  "(unit, unit, unit, null_device, null_error, nat, fake_daemon, string \<Rightarrow> string option) control" where
  "disk_control = surface_init
     ((service_init example_config ''conf'' 0)\<lparr>sv_engine := Some (engine_init 0), sv_worker := Some WorkerLoops\<rparr>)
     True True None ''conf'' (\<lambda>_. None)"

lemma moved_differs: "config_to_json moved_config \<noteq> config_to_json example_config"
proof -
  have "cf_egress moved_config \<noteq> cf_egress example_config"
    by (simp add: moved_config_def keep_offset_def example_config_def fill_default_blocks_def default_defs)
  then show ?thesis using section_json(4) by metis
qed

lemma moved_valid: "validate moved_config = None"
  using example_config_valid
  by (simp add: validate_None moved_config_def keep_offset_def validate_egress_def validate_blocks_def validate_http_def
      split: if_splits)

lemma moved_fits: "ints_fit moved_config"
  using example_config_fits by (simp add: ints_fit_def moved_config_def keep_offset_def)

lemma disk_reads: "reads_own disk_platform example_config" "reads_own disk_platform moved_config"
  by (simp_all add: reads_own_def config_text_def disk_platform_def moved_differs)

lemma disk_ints: "reads_ints (cp_get_int disk_platform)"
  by (simp add: disk_platform_def reads_ints_def)

lemma disk_lawful: "disk_keeps disk_platform"
  by (auto simp: disk_keeps_def disk_platform_def split: option.splits)

lemma disk_new: "read_config disk_platform ''new'' = Inr moved_config"
  using read_own [OF disk_reads(2) moved_valid moved_fits disk_ints]
  by (simp add: config_text_def disk_platform_def moved_differs)

lemma disk_bad: "read_config disk_platform ''bad'' = Inl (DocumentError NotValidJson)"
  by (simp add: read_config_def parse_config_def parsed_json_def disk_platform_def)

lemma disk_changes:
  "section_changes moved_config example_config (JObject (config_to_json moved_config))
     (JObject (config_to_json example_config)) k_sections = ([''egress.delay_ms''], [])"
proof -
  have "cf_egress moved_config \<noteq> cf_egress example_config"
    by (simp add: moved_config_def keep_offset_def example_config_def fill_default_blocks_def default_defs)
  moreover have "ec_test_signal_channel (cf_egress moved_config) = ec_test_signal_channel (cf_egress example_config)"
    by (simp add: moved_config_def keep_offset_def)
  moreover have "json_contains (JObject (config_to_json c)) key" if "key \<in> set k_sections" for c key
    using has_sections that .
  ultimately show ?thesis
    by (simp add: k_sections_def section_json blocks_json del: json_at.simps json_contains.simps)
      (simp add: moved_config_def keep_offset_def)
qed

lemma disk_post:
  "\<exists>c'. post_config disk_platform ''new'' disk_control = (c', ReplyJson 200 (JObject
      [(''ok'', JBool True), (''applied'', JArray [JString ''egress.delay_ms'']),
       (''restart_required'', JArray []), (''path'', JString ''conf'')]))
    \<and> ct_pending c' = []"
proof -
  have wanted: "cp_parse disk_platform (config_text disk_platform moved_config) = Inr (JObject (config_to_json moved_config))"
    "cp_parse disk_platform (config_text disk_platform example_config) = Inr (JObject (config_to_json example_config))"
    using disk_reads by (simp_all add: reads_own_def)
  have offset: "ec_delay_ms (cf_egress moved_config) = 20" by (simp add: moved_config_def keep_offset_def)
  have saved: "\<exists>files. write_atomically disk_platform ''conf'' content files0 = (files, None)" for content files0
    by (simp add: write_atomically_def disk_platform_def Let_def)
  have at: "sv_config (ct_service disk_control) = example_config" "ct_has_config disk_control"
    "control_engine disk_control = Some (engine_init 0)" "ct_path disk_control = ''conf''"
    by (simp_all add: disk_control_def surface_init_def service_init_def control_engine_def)
  obtain files where files: "write_atomically disk_platform ''conf'' (config_text disk_platform moved_config)
      (ct_files disk_control) = (files, None)"
    using saved by blast
  show ?thesis
    using files at by (simp add: post_config_def disk_new config_snapshot_def wanted disk_changes apply_live_def
        set_egress_delay_ms_def offset k_max_egress_delay_ms_def save_config_def)
qed

theorem refused_config_changes_nothing_witness:
  "\<exists>reply. post_config disk_platform ''bad'' disk_control = (disk_control, reply) \<and> reply_status reply = 400"
proof -
  obtain c' reply where post: "post_config disk_platform ''bad'' disk_control = (c', reply)" by fastforce
  have "ct_has_config disk_control" by (simp add: disk_control_def surface_init_def)
  then have "reply_status reply = 400" using post by (auto simp: post_config_def disk_bad)
  then show ?thesis using refused_config_changes_nothing [OF post] post by auto
qed

theorem saved_config_is_the_next_witness:
  "\<exists>c' reply. post_config disk_platform ''new'' disk_control = (c', reply) \<and> reply_status reply = 200
    \<and> load_file disk_platform (ct_files c') ''conf'' = Inr moved_config"
proof -
  obtain c' reply where post: "post_config disk_platform ''new'' disk_control = (c', reply)" "reply_status reply = 200"
    using disk_post by auto
  have path: "ct_path disk_control = ''conf''" by (simp add: disk_control_def surface_init_def)
  then have some_path: "ct_path disk_control \<noteq> []" by simp
  show ?thesis
    using saved_config_is_the_next [OF post some_path disk_new disk_lawful disk_ints disk_reads(2) moved_fits] post path
    by auto
qed

theorem nothing_pending_means_applied_witness:
  "\<exists>c' reply. post_config disk_platform ''new'' disk_control = (c', reply) \<and> reply_status reply = 200
    \<and> ct_pending c' = [] \<and> sv_config (ct_service c') = moved_config"
proof -
  obtain c' reply where post: "post_config disk_platform ''new'' disk_control = (c', reply)" "reply_status reply = 200"
      "ct_pending c' = []"
    using disk_post by auto
  have config: "sv_config (ct_service disk_control) = example_config"
    by (simp add: disk_control_def surface_init_def service_init_def)
  show ?thesis
    using nothing_pending_means_applied [OF post(1,2) disk_new] config disk_reads example_config_valid post by auto
qed

subsection \<open>Where the answer misleads\<close>

text \<open>
  With the engine stopped, a document that moves the offset and nothing else is refused, and the reason is
  empty: the offset cannot be saved while nothing runs.
\<close>

lemma stopped_engine_refuses_offset:
  assumes "ct_has_config c" and "read_config q body = Inr parsed" and "control_engine c = None"
    and "reads_own q parsed" and "reads_own q (sv_config (ct_service c))"
    and "cf_egress parsed \<noteq> cf_egress (sv_config (ct_service c))"
    and "ec_test_signal_channel (cf_egress parsed) = ec_test_signal_channel (cf_egress (sv_config (ct_service c)))"
  shows "post_config q body c = (c, ReplyText 400 (Says []))"
proof -
  let ?running = "sv_config (ct_service c)"
  obtain applied restart where changes: "section_changes parsed ?running (JObject (config_to_json parsed))
      (JObject (config_to_json ?running)) k_sections = (applied, restart)" by fastforce
  have "json_at (JObject (config_to_json parsed)) ''egress'' \<noteq> json_at (JObject (config_to_json ?running)) ''egress''"
    using assms(6) section_json(4) by metis
  moreover have "json_contains (JObject (config_to_json parsed)) ''egress''" "json_contains (JObject (config_to_json ?running)) ''egress''"
    using has_sections [of "''egress''"] by (simp_all add: k_sections_def del: json_contains.simps)
  ultimately have "applied \<noteq> []"
    using section_changes_offset [OF changes _ _ _ _ assms(7)] by (simp add: k_sections_def del: json_at.simps)
  then show ?thesis
    using assms(1-5) changes
    by (simp add: post_config_def config_snapshot_def reads_own_def apply_live_def)
qed

text \<open>Nothing but another save changes the list of what waits for a restart: a restart leaves it as it is.\<close>

lemma pending_survives_restart:
  "lifecycle p q action c = Answered c' reply \<Longrightarrow> ct_pending c' = ct_pending c"
  "lifecycle_joined p q action c = Some (Answered c' reply) \<Longrightarrow> ct_pending c' = ct_pending c"
  by (auto simp: lifecycle_def lifecycle_joined_def lifecycle_start_def lifecycle_ok_def Let_def
      split: if_splits engine_action.splits option.splits prod.splits)

text \<open>
  The stream is asked before it is closed. On a disk that takes none of what was buffered, the empty
  sibling replaces the configuration, and the answer is that it was saved.
\<close>

lemma lost_flush_is_a_save:
  assumes "cp_write q = (\<lambda>path content files. (files(path \<mapsto> []), Some True))"
    and "cp_rename q = (\<lambda>a b files. (files(b := files a), True))"
  shows "write_atomically q path content files = (files(path @ ''.tmp'' \<mapsto> [], path \<mapsto> []), None)"
  using assms by (simp add: write_atomically_def Let_def)

text \<open>
  An offset that is posted while the engine is starting, as a listener is until somebody calls, is
  answered with 200. The end of \<^verbatim>\<open>open\<close> takes the request back and sets the offset of the configuration
  the engine was prepared with.
\<close>

lemma stages_forget_offset:
  "open_stages p e = (e', None) \<Longrightarrow>
     \<not> en_egress_delay_pending e' \<and> en_requested_egress_delay_ms e' = ec_delay_ms (cf_egress (en_config e'))"
  by (auto simp: open_stages_def fresh_run_def Let_def split: prod.splits option.splits)

lemma open_forgets_offset:
  assumes "engine_open p now e = Some (e', None)"
  shows "\<not> en_egress_delay_pending e' \<and> en_requested_egress_delay_ms e' = ec_delay_ms (cf_egress (en_config e'))"
proof -
  obtain l w refused where link: "link_open (p_srt p) (p_with_srt p) (p_show_int p) (real_of_int now) (en_config e)
      (set_abort_flag True (the (en_link e))) (en_world e) = Some (l, w, refused)"
    using assms by (auto simp: engine_open_def)
  have "\<exists>e2. open_stages p e2 = (e', None)"
    using assms link
    by (auto simp: engine_open_def Let_def split: if_splits prod.splits option.splits)
  then show ?thesis using stages_forget_offset by blast
qed

end
