(* ===== verification/ControlDaemon.thy ===== *)
theory ControlDaemon
  imports Control
begin

text \<open>
  The handlers of src/src/http/api_server.cpp that drive the AES67 daemon: what it holds and hears, a sink
  subscribed or removed, the sources published again, and the daemon's own service.

  The lemmas in the context of \<open>daemon_store\<close> say what the daemon holds after each, whatever it answers.
\<close>

subsection \<open>What the daemon holds and hears\<close>

definition int_of :: "('b, 'x, 'm, 'f) control_platform \<Rightarrow> json \<Rightarrow> int option" where
  "int_of q v = (case v of JInt n \<Rightarrow> Some (cp_get_int q n) | JBool b \<Rightarrow> Some (of_bool b)
     | JReal x \<Rightarrow> Some (if x < 0 then - \<lfloor>- x\<rfloor> else \<lfloor>x\<rfloor>) | _ \<Rightarrow> None)"

definition list_source :: "('b, 'x, 'm, 'f) control_platform \<Rightarrow> json \<Rightarrow> json_exception + json" where
  "list_source q entry =
     sum_bind (json_value (int_of q) entry ''id'' (-1)) (\<lambda>i.
     sum_bind (json_value as_string entry ''name'' []) (\<lambda>name.
     sum_bind (json_value as_string entry ''codec'' []) (\<lambda>codec.
       Inr (JObject [(''id'', JInt i), (''name'', JString name), (''codec'', JString codec)]))))"

definition list_discovered :: "json \<Rightarrow> json_exception + json" where
  "list_discovered entry =
     sum_bind (json_value as_string entry ''name'' []) (\<lambda>name.
     sum_bind (json_value as_string entry ''address'' []) (\<lambda>address.
     sum_bind (json_value as_string entry ''id'' []) (\<lambda>identity.
     sum_bind (json_value as_string entry ''sdp'' []) (\<lambda>sdp.
       Inr (JObject [(''name'', JString name), (''address'', JString address), (''id'', JString identity),
                     (''sdp'', JString sdp)])))))"

fun list_entries :: "(json \<Rightarrow> json_exception + json) \<Rightarrow> json list \<Rightarrow> json_exception + json list" where
  "list_entries f [] = Inr []"
| "list_entries f (entry # rest) =
     sum_bind (f entry) (\<lambda>x. sum_bind (list_entries f rest) (\<lambda>xs. Inr (x # xs)))"

text \<open>A listing the daemon does not give, or gives without the member, is empty.\<close>

definition entries_of :: "string \<Rightarrow> daemon_error + json \<Rightarrow> json_exception + json list" where
  "entries_of key answer =
     (case answer of
        Inl (DaemonThrows e) \<Rightarrow> Inl e
      | Inl (DaemonSays _) \<Rightarrow> Inr []
      | Inr document \<Rightarrow> Inr (if json_contains document key then json_elements (json_at document key) else []))"

fun list_sinks ::
  "('b, 'x, 'm, 'f) control_platform \<Rightarrow> json list \<Rightarrow> 'm \<Rightarrow> 'm \<times> (json_exception + json list)" where
  "list_sinks q [] d = (d, Inr [])"
| "list_sinks q (entry # rest) d =
     (case json_value (int_of q) entry ''id'' (-1) of
        Inl e \<Rightarrow> (d, Inl e)
      | Inr i \<Rightarrow>
          (case dm_get_sink_status (cp_daemon q) i d of
             (d1, Inl (DaemonThrows e)) \<Rightarrow> (d1, Inl e)
           | (d1, answer) \<Rightarrow>
               let used = (case answer of Inl _ \<Rightarrow> False | Inr status \<Rightarrow> ss_in_use status);
                   receiving = (case answer of Inl _ \<Rightarrow> False | Inr status \<Rightarrow> ss_receiving_rtp_packet status)
               in (case list_sinks q rest d1 of
                     (d2, Inl e) \<Rightarrow> (d2, Inl e)
                   | (d2, Inr sinks) \<Rightarrow>
                       (d2, Inr (JObject [(''id'', JInt i), (''in_use'', JBool used),
                                          (''receiving'', JBool receiving)] # sinks)))))"

definition ptp_members :: "daemon_error + ptp_status \<Rightarrow> json_exception + json_object" where
  "ptp_members answer =
     (case answer of
        Inl (DaemonThrows e) \<Rightarrow> Inl e
      | Inl (DaemonSays reason) \<Rightarrow> Inr [(''reachable'', JBool False), (''error'', JString reason)]
      | Inr ptp \<Rightarrow> Inr [(''reachable'', JBool True),
          (''ptp'', JObject [(''status'', JString (pt_status ptp)), (''gmid'', JString (pt_gmid ptp)),
                             (''jitter'', JInt (pt_jitter ptp))])])"

definition daemon_document ::
  "('b, 'x, 'm, 'f) control_platform \<Rightarrow> 'm \<Rightarrow> 'm \<times> (json_exception + json)" where
  "daemon_document q d =
     (let dm = cp_daemon q in
      case dm_get_ptp_status dm d of (d1, ptp) \<Rightarrow>
      (case ptp_members ptp of
         Inl e \<Rightarrow> (d1, Inl e)
       | Inr members \<Rightarrow>
      (case dm_get_sources dm d1 of (d2, sources_answer) \<Rightarrow>
      (case sum_bind (entries_of ''sources'' sources_answer) (list_entries (list_source q)) of
         Inl e \<Rightarrow> (d2, Inl e)
       | Inr sources \<Rightarrow>
      (case dm_get_sinks dm d2 of (d3, sinks_answer) \<Rightarrow>
      (case entries_of ''sinks'' sinks_answer of
         Inl e \<Rightarrow> (d3, Inl e)
       | Inr sink_entries \<Rightarrow>
      (case list_sinks q sink_entries d3 of
         (d4, Inl e) \<Rightarrow> (d4, Inl e)
       | (d4, Inr sinks) \<Rightarrow>
      (case dm_browse_sources dm ''all'' d4 of (d5, browsed) \<Rightarrow>
      (case sum_bind (entries_of ''remote_sources'' browsed) (list_entries list_discovered) of
         Inl e \<Rightarrow> (d5, Inl e)
       | Inr discovered \<Rightarrow>
           (d5, Inr (JObject ((''endpoint'', JString (dm_endpoint dm d)) # members
              @ [(''sources'', JArray sources), (''sinks'', JArray sinks),
                 (''discovered'', JArray discovered)]))))))))))))"

definition get_aes67_status ::
  "('b, 'x, 'm, 'f) control_platform \<Rightarrow> ('e, 'd, 's, 'b, 'x, 'w, 'm, 'f) control
     \<Rightarrow> ('e, 'd, 's, 'b, 'x, 'w, 'm, 'f) control \<times> 'x reply" where
  "get_aes67_status q c =
     (case ct_daemon c of
        None \<Rightarrow> (c, ReplyJson 200 (JObject [(''endpoint'', JString [])]))
      | Some d \<Rightarrow> (case daemon_document q d of
          (d1, r) \<Rightarrow> answer_document (c\<lparr>ct_daemon := Some d1\<rparr>, r)))"

subsection \<open>Subscribing a sink\<close>

text \<open>The first announcement of that name; its SDP, empty when there is none.\<close>

fun find_named :: "string \<Rightarrow> json list \<Rightarrow> json_exception + string" where
  "find_named name [] = Inr []"
| "find_named name (entry # rest) =
     sum_bind (json_value as_string entry ''name'' []) (\<lambda>found.
       if found = name then json_value as_string entry ''sdp'' [] else find_named name rest)"

definition sink_sdp ::
  "('b, 'x, 'm, 'f) control_platform \<Rightarrow> int \<Rightarrow> string \<Rightarrow> 'm \<Rightarrow> 'm \<times> ('x reply + string)" where
  "sink_sdp q block_index source d =
     (let announces_none = ReplyText 400 (Says (''source: \"'' @ source @ ''\" announces no SDP'')) in
      if source = ''self''
      then (case dm_get_source_sdp (cp_daemon q) block_index d of
              (d1, Inl e) \<Rightarrow> (d1, Inl (daemon_refusal e))
            | (d1, Inr sdp) \<Rightarrow> (d1, if sdp = [] then Inl announces_none else Inr sdp))
      else (case dm_browse_sources (cp_daemon q) ''all'' d of
              (d1, Inl e) \<Rightarrow> (d1, Inl (daemon_refusal e))
            | (d1, Inr discovered) \<Rightarrow>
                (d1, case sum_bind (json_value Some discovered ''remote_sources'' (JArray []))
                            (\<lambda>entries. find_named source (json_elements entries)) of
                       Inl e \<Rightarrow> Inl thrown
                     | Inr sdp \<Rightarrow>
                         if sdp = [] then Inl (ReplyText 400
                           (Says (''source: nothing discovered is named \"'' @ source @ ''\"'')))
                         else Inr sdp)))"

definition subscribe_block ::
  "('b, 'x, 'm, 'f) control_platform \<Rightarrow> block_config \<Rightarrow> int \<Rightarrow> string \<Rightarrow> 'm \<Rightarrow> 'm \<times> 'x reply" where
  "subscribe_block q block block_index source d =
     (case sink_sdp q block_index source d of
        (d1, Inl refusal) \<Rightarrow> (d1, refusal)
      | (d1, Inr sdp) \<Rightarrow>
          (case make_block_sink block sdp of
             Inl e \<Rightarrow> (d1, ReplyText 400 (SinkRefusal e))
           | Inr sink \<Rightarrow>
               (case dm_put_sink (cp_daemon q) block_index sink d1 of
                  (d2, Some e) \<Rightarrow> (d2, daemon_refusal e)
                | (d2, None) \<Rightarrow> (d2, ReplyJson 200 (JObject [(''ok'', JBool True), (''block'', JInt block_index),
                                                              (''source'', JString source)])))))"

fun wanted_block :: "json \<Rightarrow> int option" where
  "wanted_block document = (case json_at document ''block'' of JInt n \<Rightarrow> Some n | _ \<Rightarrow> None)"

definition post_subscribe ::
  "('b, 'x, 'm, 'f) control_platform \<Rightarrow> string \<Rightarrow> ('e, 'd, 's, 'b, 'x, 'w, 'm, 'f) control
     \<Rightarrow> ('e, 'd, 's, 'b, 'x, 'w, 'm, 'f) control \<times> 'x reply" where
  "post_subscribe q body c =
     (case ct_daemon c of
        None \<Rightarrow> (c, ReplyText 503 (Says ''no daemon client''))
      | Some d \<Rightarrow>
      (case parse_body q body of
        (Some error, document) \<Rightarrow> (c, ReplyText 400 (Says error))
      | (None, document) \<Rightarrow>
      (case wanted_block document of
        None \<Rightarrow> (c, ReplyText 400 (Says ''block: expected a block index''))
      | Some n \<Rightarrow>
      (case json_value as_string document ''source'' [] of
        Inl e \<Rightarrow> (c, thrown)
      | Inr source \<Rightarrow>
          if source = [] then (c, ReplyText 400 (Says ''source: expected a discovered name, or \"self\"''))
          else
            let blocks = cf_blocks (config_snapshot c); block_index = cp_get_int q n in
            if block_index < 0 \<or> block_index \<ge> int (length blocks)
            then (c, ReplyText 400 (Says (''block: expected 0..'' @ show_int ((int (length blocks) - 1) mod 2 ^ 64))))
            else (case subscribe_block q (blocks ! nat block_index) block_index source d of
                    (d1, reply) \<Rightarrow> (c\<lparr>ct_daemon := Some d1\<rparr>, reply))))))"

definition post_unsubscribe ::
  "('b, 'x, 'm, 'f) control_platform \<Rightarrow> string \<Rightarrow> ('e, 'd, 's, 'b, 'x, 'w, 'm, 'f) control
     \<Rightarrow> ('e, 'd, 's, 'b, 'x, 'w, 'm, 'f) control \<times> 'x reply" where
  "post_unsubscribe q body c =
     (case ct_daemon c of
        None \<Rightarrow> (c, ReplyText 503 (Says ''no daemon client''))
      | Some d \<Rightarrow>
          (case wanted_block (snd (parse_body q body)) of
             None \<Rightarrow> (c, ReplyText 400 (Says ''block: expected a block index''))
           | Some n \<Rightarrow>
               (case dm_delete_sink (cp_daemon q) (cp_get_int q n) d of
                  (d1, Some e) \<Rightarrow> (c\<lparr>ct_daemon := Some d1\<rparr>, daemon_refusal e)
                | (d1, None) \<Rightarrow> (c\<lparr>ct_daemon := Some d1\<rparr>, ReplyJson 200 (JObject
                    [(''ok'', JBool True), (''block'', JInt (cp_get_int q n))])))))"

subsection \<open>Publishing the sources again\<close>

fun publish_loop ::
  "'m daemon_client \<Rightarrow> config \<Rightarrow> nat list \<Rightarrow> nat \<Rightarrow> 'm \<Rightarrow> 'm \<times> (daemon_error + nat)" where
  "publish_loop dm config [] published d = (d, Inr published)"
| "publish_loop dm config (index # rest) published d =
     (case dm_put_source dm (int index) (make_block_source config (cf_blocks config ! index)) d of
        (d1, Some e) \<Rightarrow> (d1, Inl e)
      | (d1, None) \<Rightarrow> publish_loop dm config rest (published + 1) d1)"

definition post_publish ::
  "('b, 'x, 'm, 'f) control_platform \<Rightarrow> ('e, 'd, 's, 'b, 'x, 'w, 'm, 'f) control
     \<Rightarrow> ('e, 'd, 's, 'b, 'x, 'w, 'm, 'f) control \<times> 'x reply" where
  "post_publish q c =
     (case ct_daemon c of
        None \<Rightarrow> (c, ReplyText 503 (Says ''no daemon client''))
      | Some d \<Rightarrow>
          let config = config_snapshot c in
          (case publish_loop (cp_daemon q) config [0..<length (cf_blocks config)] 0 d of
             (d1, Inl e) \<Rightarrow> (c\<lparr>ct_daemon := Some d1\<rparr>, daemon_refusal e)
           | (d1, Inr published) \<Rightarrow> (c\<lparr>ct_daemon := Some d1\<rparr>, ReplyJson 200 (JObject
               [(''ok'', JBool True), (''sources'', JInt (int published))]))))"

subsection \<open>The daemon's own service\<close>

text \<open>\<^verbatim>\<open>WEXITSTATUS\<close>.\<close>

definition exit_status :: "int \<Rightarrow> int" where
  "exit_status status = (status div 256) mod 256"

definition daemon_lifecycle ::
  "('b, 'x, 'm, 'f) control_platform \<Rightarrow> string \<Rightarrow> ('e, 'd, 's, 'b, 'x, 'w, 'm, 'f) control
     \<Rightarrow> ('e, 'd, 's, 'b, 'x, 'w, 'm, 'f) control \<times> 'x reply" where
  "daemon_lifecycle q verb c =
     (if ct_daemon c = None then (c, ReplyText 404 (Says ''this build has no AES67 daemon to control''))
      else if verb \<noteq> ''start'' \<and> verb \<noteq> ''stop'' \<and> verb \<noteq> ''restart''
        then (c, ReplyText 400 (Says ''unknown daemon action''))
      else case cp_run q (''systemctl '' @ verb @ '' aes67-daemon 2>&1'') (ct_files c) of
        (files, None) \<Rightarrow> (c\<lparr>ct_files := files\<rparr>, ReplyText 500 (Says ''cannot run systemctl''))
      | (files, Some (said, status)) \<Rightarrow>
          let code = (if status = -1 then -1 else exit_status status) in
          if code \<noteq> 0
          then (c\<lparr>ct_files := files\<rparr>, ReplyText 403 (Says
                 (if said = [] then ''systemctl refused (is the polkit rule installed?)'' else said)))
          else (c\<lparr>ct_files := files\<rparr>, ReplyJson 200 (JObject
                 [(''ok'', JBool True), (''action'', JString verb), (''output'', JString said)])))"

text \<open>
  A command that a signal ended has no exit status; the byte that is read of it is zero, so a systemctl
  that was killed is answered as one that succeeded.
\<close>

lemma killed_systemctl_is_success:
  assumes "ct_daemon c \<noteq> None" and "0 < signal" and "signal < 128"
    and "cp_run q ''systemctl stop aes67-daemon 2>&1'' (ct_files c) = (files, Some (said, signal))"
  shows "reply_status (snd (daemon_lifecycle q ''stop'' c)) = 200"
  using assms by (simp add: daemon_lifecycle_def exit_status_def Let_def)

subsection \<open>The ways of an answer\<close>

lemma refusal_is_text: "reply_status (daemon_refusal e) \<noteq> 200"
  by (cases e) (simp_all add: thrown_def)

lemma sdp_refusal: "sink_sdp q block_index source d = (d1, Inl refusal) \<Longrightarrow> reply_status refusal \<noteq> 200"
  using refusal_is_text
  by (auto simp: sink_sdp_def thrown_def Let_def split: if_splits prod.splits sum.splits)

lemma post_subscribe_cases:
  assumes "ct_daemon c = Some d" and "post_subscribe q body c = (c', reply)"
  shows "c' = c \<and> reply_status reply \<noteq> 200
    \<or> (\<exists>i source d'. i < length (cf_blocks (config_snapshot c)) \<and> c' = c\<lparr>ct_daemon := Some d'\<rparr>
        \<and> subscribe_block q (cf_blocks (config_snapshot c) ! i) (int i) source d = (d', reply))"
proof -
  obtain error document where parsed: "parse_body q body = (error, document)" by fastforce
  show ?thesis
  proof (cases "\<exists>n source. error = None \<and> wanted_block document = Some n
      \<and> json_value as_string document ''source'' [] = Inr source \<and> source \<noteq> []
      \<and> 0 \<le> cp_get_int q n \<and> cp_get_int q n < int (length (cf_blocks (config_snapshot c)))")
    case True
    then obtain n source where at: "error = None" "wanted_block document = Some n"
      "json_value as_string document ''source'' [] = Inr source" "source \<noteq> []" "0 \<le> cp_get_int q n"
      "cp_get_int q n < int (length (cf_blocks (config_snapshot c)))" by blast
    obtain d' r where sub: "subscribe_block q (cf_blocks (config_snapshot c) ! nat (cp_get_int q n)) (cp_get_int q n) source d
        = (d', r)" by fastforce
    have "c' = c\<lparr>ct_daemon := Some d'\<rparr> \<and> reply = r"
      using assms parsed at sub by (simp add: post_subscribe_def Let_def del: wanted_block.simps)
    then show ?thesis
      using sub at(5,6) by (intro disjI2 exI [of _ "nat (cp_get_int q n)"] exI [of _ source] exI [of _ d']) auto
  next
    case False
    then show ?thesis
      using assms parsed
      by (auto simp: post_subscribe_def thrown_def Let_def simp del: wanted_block.simps
          split: option.splits sum.splits if_splits)
  qed
qed

subsection \<open>What the daemon holds afterwards\<close>

context daemon_store
begin

lemma sdp_keeps:
  assumes "cp_daemon q = dm" and "sink_sdp q block_index source d = (d1, r)"
  shows "published d1 = published d \<and> subscribed d1 = subscribed d"
  using assms reads_keep by (auto simp: sink_sdp_def Let_def split: if_splits prod.splits sum.splits)

lemma subscribe_block_holds:
  assumes "cp_daemon q = dm" and "subscribe_block q block block_index source d = (d', reply)"
  shows "published d' = published d
    \<and> (if reply_status reply = 200
       then \<exists>sdp sink. make_block_sink block sdp = Inr sink \<and> subscribed d' = (subscribed d)(block_index \<mapsto> sink)
       else subscribed d' = subscribed d)"
proof -
  obtain d1 r where sdp: "sink_sdp q block_index source d = (d1, r)" by fastforce
  note kept = sdp_keeps [OF assms(1) sdp]
  show ?thesis
  proof (cases r)
    case (Inl refusal)
    then show ?thesis using assms(2) sdp kept by (auto simp: subscribe_block_def dest: sdp_refusal)
  next
    case (Inr content)
    show ?thesis
    proof (cases "make_block_sink block content")
      case (Inl e)
      then show ?thesis using assms(2) sdp Inr kept by (auto simp: subscribe_block_def)
    next
      case (Inr sink)
      obtain d2 failed where put: "dm_put_sink dm block_index sink d1 = (d2, failed)" by fastforce
      have "d' = d2" "reply_status reply = 200 \<longleftrightarrow> failed = None"
        using assms sdp \<open>r = Inr content\<close> Inr put refusal_is_text by (auto simp: subscribe_block_def split: option.splits)
      then show ?thesis using put_sink_cases [OF put] kept Inr by auto
    qed
  qed
qed

lemma post_subscribe_holds:
  assumes "cp_daemon q = dm" and "ct_daemon c = Some d" and "post_subscribe q body c = (c', reply)"
  shows "\<exists>d'. c' = c\<lparr>ct_daemon := Some d'\<rparr> \<and> published d' = published d
    \<and> (if reply_status reply = 200
       then \<exists>i < length (cf_blocks (config_snapshot c)). \<exists>sdp sink.
              make_block_sink (cf_blocks (config_snapshot c) ! i) sdp = Inr sink
              \<and> subscribed d' = (subscribed d)(int i \<mapsto> sink)
       else subscribed d' = subscribed d)"
  using post_subscribe_cases [OF assms(2,3)]
proof (elim disjE exE conjE)
  assume "c' = c" "reply_status reply \<noteq> 200"
  then show ?thesis using assms(2) by (intro exI [of _ d]) simp
next
  fix i source d'
  assume i: "i < length (cf_blocks (config_snapshot c))" and c': "c' = c\<lparr>ct_daemon := Some d'\<rparr>"
    and sub: "subscribe_block q (cf_blocks (config_snapshot c) ! i) (int i) source d = (d', reply)"
  show ?thesis
    using subscribe_block_holds [OF assms(1) sub] i c' by (intro exI [of _ d']) (auto split: if_splits)
qed

lemma publish_loop_holds:
  assumes "publish_loop dm config [k..<n] j d = (d', r)" and "k \<le> n"
    and "published d = holding (source_of config) k m"
  shows "subscribed d' = subscribed d"
    and "r = Inr j' \<Longrightarrow> j' = j + (n - k) \<and> published d' = holding (source_of config) n m"
    and "r = Inl e \<Longrightarrow> \<exists>i < n. published d' = holding (source_of config) i m"
proof -
  have "subscribed d' = subscribed d
    \<and> (\<forall>j'. r = Inr j' \<longrightarrow> j' = j + (n - k) \<and> published d' = holding (source_of config) n m)
    \<and> (\<forall>e. r = Inl e \<longrightarrow> (\<exists>i < n. published d' = holding (source_of config) i m))"
    using assms
  proof (induction "n - k" arbitrary: k j d)
    case (Suc x)
    then have k: "k < n" by simp
    obtain d1 failed where put: "dm_put_source dm (int k) (source_of config k) d = (d1, failed)" by fastforce
    note cases = put_source_cases [OF put]
    show ?case
    proof (cases failed)
      case None
      then have "publish_loop dm config [Suc k..<n] (j + 1) d1 = (d', r)"
        using Suc.prems(1) put k by (simp add: upt_conv_Cons source_of_def)
      moreover have "published d1 = holding (source_of config) (Suc k) m"
        using cases(1) None Suc.prems(3) holding_Suc [of "source_of config" k m] by simp
      ultimately show ?thesis using Suc.hyps(1) [of "Suc k" "j + 1" d1] Suc.hyps(2) k cases(2) by auto
    next
      case (Some e)
      then show ?thesis
        using Suc.prems put k cases by (auto simp: upt_conv_Cons source_of_def)
    qed
  qed auto
  then show "subscribed d' = subscribed d"
    and "r = Inr j' \<Longrightarrow> j' = j + (n - k) \<and> published d' = holding (source_of config) n m"
    and "r = Inl e \<Longrightarrow> \<exists>i < n. published d' = holding (source_of config) i m" by auto
qed

lemma post_publish_holds:
  assumes "cp_daemon q = dm" and "ct_daemon c = Some d" and "post_publish q c = (c', reply)"
  shows "\<exists>d' k. c' = c\<lparr>ct_daemon := Some d'\<rparr> \<and> subscribed d' = subscribed d
    \<and> published d' = holding (source_of (config_snapshot c)) k (published d)
    \<and> (if reply_status reply = 200 then k = length (cf_blocks (config_snapshot c))
       else k < length (cf_blocks (config_snapshot c)))"
proof -
  let ?config = "config_snapshot c"
  obtain d' r where loop: "publish_loop dm ?config [0..<length (cf_blocks ?config)] 0 d = (d', r)" by fastforce
  have start: "published d = holding (source_of ?config) 0 (published d)" by (simp add: holding_0)
  note holds = publish_loop_holds [OF loop _ start]
  have c': "c' = c\<lparr>ct_daemon := Some d'\<rparr>"
    using assms loop by (auto simp: post_publish_def Let_def split: sum.splits)
  show ?thesis
  proof (cases r)
    case (Inl e)
    then have "reply = daemon_refusal e" using assms loop by (simp add: post_publish_def Let_def)
    moreover obtain k where "k < length (cf_blocks ?config)" "published d' = holding (source_of ?config) k (published d)"
      using holds(3) [OF _ Inl] by auto
    ultimately show ?thesis using c' holds(1) refusal_is_text [of e] by auto
  next
    case (Inr j)
    then have "reply_status reply = 200" using assms loop by (auto simp: post_publish_def Let_def)
    then show ?thesis using c' holds(1) holds(2) [OF _ Inr] by auto
  qed
qed

end

subsection \<open>Properties\<close>


definition bench_published :: fake_daemon where
  "bench_published = (case post_publish bench_platform (bench_control (fake_init default_daemon)) of
     (c, _) \<Rightarrow> the (ct_daemon c))"

lemma bench_publishes: "reply_status (snd (post_publish bench_platform (bench_control (fake_init default_daemon)))) = 200"
  by code_simp

lemma bench_subscribes: "reply_status (snd (post_subscribe bench_platform ''self'' (bench_control bench_published))) = 200"
  by code_simp

lemma bench_store: "daemon_store (cp_daemon bench_platform) (\<lambda>d. map_of (fk_sources d)) (\<lambda>d. map_of (fk_sinks d))"
  by (simp add: bench_platform_def fake_store.daemon_store_axioms)


text \<open>
  Publishing again restores what commissioning published. After the answer 200 the daemon holds, under
  every block's place, the source of that block, and every other source as before; after any other answer
  a first part of them. The sinks stay as they are.
\<close>

theorem publishing_restores_the_sources:
  assumes "daemon_store (cp_daemon q) published subscribed"
    and "ct_daemon c = Some d" and "post_publish q c = (c', reply)"
  shows "\<exists>d' k. c' = c\<lparr>ct_daemon := Some d'\<rparr> \<and> subscribed d' = subscribed d
    \<and> published d' = holding (source_of (config_snapshot c)) k (published d)
    \<and> (if reply_status reply = 200 then k = length (cf_blocks (config_snapshot c))
       else k < length (cf_blocks (config_snapshot c)))"
  using daemon_store.post_publish_holds [OF assms(1) refl assms(2,3)] .

theorem publishing_restores_the_sources_witness:
  "\<exists>c' reply d'. post_publish bench_platform (bench_control (fake_init default_daemon)) = (c', reply)
    \<and> ct_daemon c' = Some d'
    \<and> map_of (fk_sources d') 0 = Some (make_block_source one_block (conventional_block 0))"
proof -
  obtain c' reply where post: "post_publish bench_platform (bench_control (fake_init default_daemon)) = (c', reply)"
    by fastforce
  then have fine: "reply_status reply = 200" using bench_publishes by simp
  have at: "ct_daemon (bench_control (fake_init default_daemon)) = Some (fake_init default_daemon)"
    "config_snapshot (bench_control (fake_init default_daemon)) = one_block"
    by (simp_all add: bench_control_def surface_init_def config_snapshot_def service_init_def)
  show ?thesis
    using publishing_restores_the_sources [OF bench_store at(1) post] fine at(2) post
    by (auto simp: holding_def source_of_def one_block_def)
qed

text \<open>
  Nothing of a request reaches a shell. Whatever action is asked, the program runs one of three
  commands or none, and it runs none when there is no daemon to control or the action is another.
\<close>

definition run_recorder :: "(string \<Rightarrow> string list \<Rightarrow> (string \<times> int) option) \<Rightarrow> string \<Rightarrow> string list
    \<Rightarrow> string list \<times> (string \<times> int) option" where
  "run_recorder said command earlier = (earlier @ [command], said command earlier)"

lemma shell_commands_are_fixed:
  assumes "cp_run q = run_recorder said"
  shows "ct_files (fst (daemon_lifecycle q verb c)) = ct_files c
      @ (if ct_daemon c \<noteq> None \<and> verb \<in> {''start'', ''stop'', ''restart''}
         then [''systemctl '' @ verb @ '' aes67-daemon 2>&1''] else [])"
  using assms by (auto simp: daemon_lifecycle_def run_recorder_def Let_def split: option.splits)

end
