(* ===== verification/ControlRoutes.thy ===== *)
theory ControlRoutes
  imports ControlConfig ControlDaemon
begin

text \<open>
  Which handler answers which request (\<^verbatim>\<open>register_routes\<close> of src/src/http/api_server.cpp), the page, and how
  the server is started and stopped. Matching a path to a route is cpp-httplib's; the routes here are the
  literal ones in the order they are registered, then the one that takes every other path of a \<^verbatim>\<open>GET\<close>.
  Files of a front end that is mounted are served by the library before any route, and are left out.
\<close>

subsection \<open>The page\<close>

text \<open>The front end's index when its directory exists, and the page that is built in.\<close>

record control_pages =
  pg_index :: "string option"
  pg_fallback :: string

definition is_api_path :: "string \<Rightarrow> bool" where
  "is_api_path path \<longleftrightarrow> take 5 path = ''/api/''"

definition get_page ::
  "('b, 'x, 'm, 'f) control_platform \<Rightarrow> control_pages \<Rightarrow> string \<Rightarrow> 'f \<Rightarrow> 'x reply" where
  "get_page q pages path files =
     (if is_api_path path then ReplyText 404 (Says (''unknown API endpoint '' @ path))
      else case pg_index pages of
        None \<Rightarrow> ReplyPage (pg_fallback pages)
      | Some index \<Rightarrow>
          (case cp_read q files index of
             None \<Rightarrow> ReplyText 500 (Says (''cannot read '' @ index))
           | Some page \<Rightarrow> ReplyPage page))"

subsection \<open>Requests\<close>

record request =
  rq_method :: string
  rq_path :: string
  rq_body :: string
  rq_lines :: "string option"

definition handle_get ::
  "('b, 'x, 'm, 'f) control_platform \<Rightarrow> control_pages \<Rightarrow> log_ring \<Rightarrow> request
     \<Rightarrow> ('e, 'd, 's, 'b, 'x, 'w, 'm, 'f) control
     \<Rightarrow> ('e, 'd, 's, 'b, 'x, 'w, 'm, 'f) control \<times> 'x reply" where
  "handle_get q pages l request c =
     (let path = rq_path request in
      if path = ''/api/version'' then (c, get_version q)
      else if path = ''/api/status'' then answer_document (build_status q c)
      else if path = ''/api/log'' then (c, get_log l (rq_lines request))
      else if path = ''/api/config'' then (c, get_config q c)
      else if path = ''/api/aes67/status'' then get_aes67_status q c
      else (c, get_page q pages path (ct_files c)))"

text \<open>A raised signal is the program's: the reply is first, \<open>asks_to_stop\<close> says which request raises it.\<close>

definition asks_to_stop :: "request \<Rightarrow> bool" where
  "asks_to_stop request \<longleftrightarrow> rq_method request = ''POST'' \<and> rq_path request = ''/api/process/restart''"

definition post_process_restart :: "'x reply" where
  "post_process_restart = ReplyJson 200 (JObject
     [(''ok'', JBool True), (''detail'', JString ''stopping; the supervisor will restart it'')])"

definition answered ::
  "'c \<times> 'x reply \<Rightarrow> ('c, 'x) answer" where
  "answered r = (case r of (c, reply) \<Rightarrow> Answered c reply)"

definition handle_post ::
  "('e, 'd, 's, 'b, 'x, 'w) platform \<Rightarrow> ('b, 'x, 'm, 'f) control_platform \<Rightarrow> request
     \<Rightarrow> ('e, 'd, 's, 'b, 'x, 'w, 'm, 'f) control \<Rightarrow> (('e, 'd, 's, 'b, 'x, 'w, 'm, 'f) control, 'x) answer" where
  "handle_post p q request c =
     (let path = rq_path request; body = rq_body request in
      if path = ''/api/config'' then answered (post_config q body c)
      else if path = ''/api/aes67/subscribe'' then answered (post_subscribe q body c)
      else if path = ''/api/aes67/unsubscribe'' then answered (post_unsubscribe q body c)
      else if path = ''/api/aes67/publish'' then answered (post_publish q c)
      else if path = ''/api/egress/delay'' then answered (post_delay q body c)
      else if path = ''/api/egress/test-signal'' then answered (post_test_signal c)
      else if path = ''/api/engine/start'' then lifecycle p q ActStart c
      else if path = ''/api/engine/stop'' then lifecycle p q ActStop c
      else if path = ''/api/engine/restart'' then lifecycle p q ActRestart c
      else if path = ''/api/process/restart'' then Answered c post_process_restart
      else if path = ''/api/daemon/start'' then answered (daemon_lifecycle q ''start'' c)
      else if path = ''/api/daemon/stop'' then answered (daemon_lifecycle q ''stop'' c)
      else if path = ''/api/daemon/restart'' then answered (daemon_lifecycle q ''restart'' c)
      else Answered c (ReplyText 404 (Says ''not found'')))"

definition handle ::
  "('e, 'd, 's, 'b, 'x, 'w) platform \<Rightarrow> ('b, 'x, 'm, 'f) control_platform \<Rightarrow> control_pages \<Rightarrow> log_ring
     \<Rightarrow> request \<Rightarrow> ('e, 'd, 's, 'b, 'x, 'w, 'm, 'f) control
     \<Rightarrow> (('e, 'd, 's, 'b, 'x, 'w, 'm, 'f) control, 'x) answer" where
  "handle p q pages l request c =
     (if rq_method request = ''GET'' then answered (handle_get q pages l request c)
      else if rq_method request = ''POST'' then handle_post p q request c
      else Answered c (ReplyText 404 (Says ''not found'')))"

subsection \<open>Starting and stopping the server\<close>

definition control_address :: "('e, 'd, 's, 'b, 'x, 'w, 'm, 'f) control \<Rightarrow> string \<times> int" where
  "control_address c =
     (let config = sv_config (ct_service c) in
      (if ct_has_config c \<and> cf_http_addr config \<noteq> [] then cf_http_addr config else ''0.0.0.0'',
       if ct_has_config c then cf_http_port config else 8082))"

text \<open>
  The two members of a start and a stop: whether the server runs, and whether its thread is joinable, which
  it still is when listening ended by itself. A start then ends the program; it tells where it could not bind.
\<close>

definition control_start ::
  "(string \<Rightarrow> int \<Rightarrow> bool) \<Rightarrow> bool \<times> bool \<Rightarrow> ('e, 'd, 's, 'b, 'x, 'w, 'm, 'f) control
     \<Rightarrow> ((bool \<times> bool) \<times> (string \<times> int) option) option" where
  "control_start can_bind server c =
     (case server of (running, joinable) \<Rightarrow>
        if running then Some (server, None)
        else (case control_address c of (address, port) \<Rightarrow>
          if \<not> can_bind address port then Some (server, Some (address, port))
          else if joinable then None
          else Some ((True, True), None)))"

definition control_stop :: "bool \<times> bool \<Rightarrow> bool \<times> bool" where
  "control_stop server =
     (case server of (running, joinable) \<Rightarrow> if \<not> running \<and> \<not> joinable then server else (False, False))"

subsection \<open>Properties\<close>

lemma start_returns: "service_start p load s \<noteq> None"
  by (auto simp: service_start_def start_check_def start_prepare_def start_refused_def start_spawn_def Let_def
      split: prod.splits option.splits sum.splits)

text \<open>One request at a time does not end the program: only a second start between the check and the spawn would.\<close>

lemma handle_not_terminated: "handle p q pages l request c \<noteq> Terminated"
  by (auto simp: handle_def handle_post_def answered_def lifecycle_def lifecycle_start_def lifecycle_ok_def Let_def
      start_returns split: prod.splits option.splits engine_action.splits)

lemma preflight_keeps: "build_preflight q c = (c1, r) \<Longrightarrow> c1 = c\<lparr>ct_daemon := ct_daemon c1\<rparr>"
  by (auto simp: build_preflight_def daemon_checks_def Let_def
      split: prod.splits option.splits sum.splits daemon_error.splits)

text \<open>
  Reading changes nothing. Whatever is asked with a \<^verbatim>\<open>GET\<close>, there is an answer, and the service, its
  engine, the configuration, the files and the list of what waits are as they were: only the client of the
  daemon moves. And an answer that is no page, to a path that is no route, is a 404.
\<close>

theorem reading_changes_nothing:
  assumes "rq_method request = ''GET''"
  shows "\<exists>d reply. handle p q pages l request c = Answered (c\<lparr>ct_daemon := d\<rparr>) reply
    \<and> (is_api_path (rq_path request)
        \<and> rq_path request \<notin> {''/api/version'', ''/api/status'', ''/api/log'', ''/api/config'', ''/api/aes67/status''}
       \<longrightarrow> d = ct_daemon c \<and> reply_status reply = 404)"
proof -
  have status: "\<exists>d reply. answer_document (build_status q c) = (c\<lparr>ct_daemon := d\<rparr>, reply)"
  proof -
    obtain c1 r where pre: "build_preflight q c = (c1, r)" by fastforce
    then show ?thesis
      using preflight_keeps [OF pre]
      by (cases r) (auto simp: build_status_def answer_document_def Let_def)
  qed
  have daemon: "\<exists>d reply. get_aes67_status q c = (c\<lparr>ct_daemon := d\<rparr>, reply)"
    by (cases "ct_daemon c")
      (auto simp: get_aes67_status_def answer_document_def intro: exI [of _ None] split: prod.splits sum.splits)
  have same: "c = c\<lparr>ct_daemon := ct_daemon c\<rparr>" by simp
  show ?thesis
  proof (cases "rq_path request \<in> {''/api/status'', ''/api/aes67/status''}")
    case True
    obtain d reply where "(if rq_path request = ''/api/status'' then answer_document (build_status q c)
        else get_aes67_status q c) = (c\<lparr>ct_daemon := d\<rparr>, reply)"
      using status daemon by metis
    then have "handle p q pages l request c = Answered (c\<lparr>ct_daemon := d\<rparr>) reply"
      using assms True by (auto simp: handle_def handle_get_def answered_def)
    then show ?thesis using True by auto
  next
    case False
    then have "\<exists>reply. handle p q pages l request c = Answered c reply
        \<and> (is_api_path (rq_path request) \<and> rq_path request \<notin> {''/api/version'', ''/api/log'', ''/api/config''}
           \<longrightarrow> reply_status reply = 404)"
      using assms by (auto simp: handle_def handle_get_def answered_def get_page_def Let_def)
    then show ?thesis using same by (metis insert_iff)
  qed
qed

text \<open>An appliance whose service has not started, asked for its status.\<close>

theorem reading_changes_nothing_witness:
  "\<exists>reply. handle (demo_platform []) bench_platform \<lparr>pg_index = None, pg_fallback = []\<rparr> (log_init 4)
     \<lparr>rq_method = ''GET'', rq_path = ''/api/nothing'', rq_body = [], rq_lines = None\<rparr>
     (bench_control (fake_init default_daemon)) = Answered (bench_control (fake_init default_daemon)) reply
     \<and> reply_status reply = 404"
  using reading_changes_nothing [of "\<lparr>rq_method = ''GET'', rq_path = ''/api/nothing'', rq_body = [], rq_lines = None\<rparr>"
      "demo_platform []" bench_platform "\<lparr>pg_index = None, pg_fallback = []\<rparr>" "log_init 4" "bench_control (fake_init default_daemon)"]
  by (auto simp: is_api_path_def)

end
