(* ===== verification/App.thy ===== *)
theory App
  imports ControlRoutes
begin

text \<open>
  The program: src/src/main.cpp, src/src/app.hpp and src/src/app.cpp, and which daemon's client is made
  (\<^verbatim>\<open>DaemonClient::create\<close> of src/src/aes67/daemon_client.cpp).

  \<open>main_begins\<close> reads the command line and the file and ends in an exit, or in an \<open>app\<close> that runs;
  \<open>app_begins\<close> is \<^verbatim>\<open>App::run\<close> up to the loop that waits to be stopped, with the commissioning, the service
  and the control surface in the order of the code. What is printed and the log are left out, and so are
  the signals: stopping is \<open>stop_begins\<close> and \<open>stop_joins\<close> of the service.
\<close>

subsection \<open>Which daemon\<close>

fun on_either ::
  "('a \<Rightarrow> 'a \<times> 'r) \<Rightarrow> ('b \<Rightarrow> 'b \<times> 'r) \<Rightarrow> 'a + 'b \<Rightarrow> ('a + 'b) \<times> 'r" where
  "on_either f g (Inl a) = (case f a of (a', r) \<Rightarrow> (Inl a', r))"
| "on_either f g (Inr b) = (case g b of (b', r) \<Rightarrow> (Inr b', r))"

text \<open>A client of either kind, as the pointer to the base class is.\<close>

definition either_daemon :: "'a daemon_client \<Rightarrow> 'b daemon_client \<Rightarrow> ('a + 'b) daemon_client" where
  "either_daemon a b =
     \<lparr>dm_connected = case_sum (dm_connected a) (dm_connected b),
      dm_last_error = case_sum (dm_last_error a) (dm_last_error b),
      dm_endpoint = case_sum (dm_endpoint a) (dm_endpoint b),
      dm_get_version = on_either (dm_get_version a) (dm_get_version b),
      dm_get_config = on_either (dm_get_config a) (dm_get_config b),
      dm_get_ptp_status = on_either (dm_get_ptp_status a) (dm_get_ptp_status b),
      dm_get_sinks = on_either (dm_get_sinks a) (dm_get_sinks b),
      dm_get_sources = on_either (dm_get_sources a) (dm_get_sources b),
      dm_put_sink = (\<lambda>i sink. on_either (dm_put_sink a i sink) (dm_put_sink b i sink)),
      dm_delete_sink = (\<lambda>i. on_either (dm_delete_sink a i) (dm_delete_sink b i)),
      dm_put_source = (\<lambda>i source. on_either (dm_put_source a i source) (dm_put_source b i source)),
      dm_delete_source = (\<lambda>i. on_either (dm_delete_source a i) (dm_delete_source b i)),
      dm_get_sink_status = (\<lambda>i. on_either (dm_get_sink_status a i) (dm_get_sink_status b i)),
      dm_get_source_sdp = (\<lambda>i. on_either (dm_get_source_sdp a i) (dm_get_source_sdp b i)),
      dm_browse_sources = (\<lambda>kind. on_either (dm_browse_sources a kind) (dm_browse_sources b kind))\<rparr>"

text \<open>A client that may be of either kind keeps the contract when both kinds do.\<close>

lemma on_eitherE:
  assumes "on_either f g d = (d', r)"
  obtains x x' where "d = Inl x" "d' = Inl x'" "f x = (x', r)" | y y' where "d = Inr y" "d' = Inr y'" "g y = (y', r)"
  using assms by (cases d) (auto split: prod.splits)

lemma either_store:
  assumes a: "daemon_store a published_a subscribed_a" and b: "daemon_store b published_b subscribed_b"
  shows "daemon_store (either_daemon a b) (case_sum published_a published_b) (case_sum subscribed_a subscribed_b)"
proof (rule daemon_store.intro, unfold either_daemon_def daemon_client.simps)
qed (erule on_eitherE;
    use a b in \<open>simp; metis daemon_store.put_source daemon_store.refused_source daemon_store.put_sink
      daemon_store.refused_sink daemon_store.delete_sink daemon_store.reads_keep\<close>)+

type_synonym 'n program_daemon = "'n http_client + fake_daemon"

definition create_daemon :: "daemon_config \<Rightarrow> 'n \<Rightarrow> 'n program_daemon" where
  "create_daemon config network = (if dc_fake config then Inr (fake_init config) else Inl (http_init config network))"

subsection \<open>The command line\<close>

datatype exit_code = ExitOk | ExitUsage | ExitConfigError | ExitRuntimeError

fun exit_number :: "exit_code \<Rightarrow> int" where
  "exit_number ExitOk = 0"
| "exit_number ExitUsage = 2"
| "exit_number ExitConfigError = 3"
| "exit_number ExitRuntimeError = 4"

record arguments =
  ag_config_path :: string
  ag_http_addr :: string
  ag_http_port :: string
  ag_validate_only :: bool
  ag_fake :: bool
  ag_subscribe_to :: string

definition no_arguments :: arguments where
  "no_arguments = \<lparr>ag_config_path = ''/etc/aes67-srt.conf'', ag_http_addr = [], ag_http_port = [],
     ag_validate_only = False, ag_fake = False, ag_subscribe_to = []\<rparr>"

text \<open>The loop over the arguments: it ends at the first that is unknown, or that asks for a text.\<close>

fun read_arguments :: "string list \<Rightarrow> arguments \<Rightarrow> exit_code + arguments" where
  "read_arguments [] a = Inr a"
| "read_arguments (argument # rest) a =
     (if argument = ''-c'' \<and> rest \<noteq> [] then read_arguments (tl rest) (a\<lparr>ag_config_path := hd rest\<rparr>)
      else if argument = ''-f'' then read_arguments rest (a\<lparr>ag_fake := True\<rparr>)
      else if argument = ''--subscribe'' \<and> rest \<noteq> []
        then read_arguments (tl rest) (a\<lparr>ag_subscribe_to := hd rest\<rparr>)
      else if argument = ''--commission'' then read_arguments rest a
      else if argument = ''--validate'' then read_arguments rest (a\<lparr>ag_validate_only := True\<rparr>)
      else if argument = ''-a'' \<and> rest \<noteq> [] then read_arguments (tl rest) (a\<lparr>ag_http_addr := hd rest\<rparr>)
      else if argument = ''-p'' \<and> rest \<noteq> [] then read_arguments (tl rest) (a\<lparr>ag_http_port := hd rest\<rparr>)
      else if argument = ''-v'' \<or> argument = ''--version'' \<or> argument = ''-h'' \<or> argument = ''--help''
        then Inl ExitOk
      else Inl ExitUsage)"

text \<open>\<^verbatim>\<open>std::stoi\<close>: \<open>None\<close> when it throws, for no digits or a number that does not fit.\<close>

definition stoi :: "string \<Rightarrow> int option" where
  "stoi s =
     (let t = dropWhile is_space s;
          unsigned = (if t \<noteq> [] \<and> (hd t = CHR ''-'' \<or> hd t = CHR ''+'') then tl t else t)
      in if takeWhile is_digit unsigned = [] \<or> \<not> fits (atoi s) then None else Some (atoi s))"

subsection \<open>The application\<close>

record app =
  ap_config :: config
  ap_path :: string
  ap_fake :: bool
  ap_subscription :: subscription
  ap_subscribe_to :: string

definition apply_fake :: "config \<Rightarrow> config" where
  "apply_fake c = c\<lparr>cf_audio := (cf_audio c)\<lparr>ac_backend := ''null''\<rparr>,
     cf_daemon := (cf_daemon c)\<lparr>dc_fake := True\<rparr>,
     cf_link := (cf_link c)\<lparr>lc_mode := ''loopback'', lc_peer := []\<rparr>\<rparr>"

definition set_fake :: "bool \<Rightarrow> app \<Rightarrow> app" where
  "set_fake fake a =
     (let a1 = a\<lparr>ap_fake := fake\<rparr> in if fake then a1\<lparr>ap_config := apply_fake (ap_config a1)\<rparr> else a1)"

datatype main_outcome = Exits exit_code | Aborts | Runs app

definition override_http :: "arguments \<Rightarrow> config \<Rightarrow> config option" where
  "override_http a c =
     (let c1 = (if ag_http_addr a = [] then c else c\<lparr>cf_http_addr := ag_http_addr a\<rparr>) in
      if ag_http_port a = [] then Some c1
      else map_option (\<lambda>port. c1\<lparr>cf_http_port := port\<rparr>) (stoi (ag_http_port a)))"

definition main_begins ::
  "(string \<Rightarrow> config_error + config) \<Rightarrow> string list \<Rightarrow> main_outcome" where
  "main_begins load argv =
     (case read_arguments argv no_arguments of
        Inl code \<Rightarrow> Exits code
      | Inr a \<Rightarrow>
          (case load (ag_config_path a) of
             Inl e \<Rightarrow> Exits ExitConfigError
           | Inr loaded \<Rightarrow>
               (case override_http a loaded of
                  None \<Rightarrow> Aborts
                | Some config \<Rightarrow>
                    if validate config \<noteq> None then Exits ExitConfigError
                    else if ag_validate_only a then Exits ExitOk
                    else Runs (let a1 = set_fake (ag_fake a) \<lparr>ap_config = config, ap_path = ag_config_path a,
                                   ap_fake = False, ap_subscription = SubscribeNothing, ap_subscribe_to = []\<rparr>
                               in if ag_subscribe_to a = ''self''
                                  then a1\<lparr>ap_subscription := SubscribeSelf, ap_subscribe_to := []\<rparr>
                                  else if ag_subscribe_to a \<noteq> []
                                  then a1\<lparr>ap_subscription := SubscribeDiscovered,
                                          ap_subscribe_to := ag_subscribe_to a\<rparr>
                                  else a1))))"

datatype 'c run_outcome = RunExits exit_code | RunAborts | Serves 'c bool

text \<open>
  \<^verbatim>\<open>App::run\<close> up to its loop. An exception of the commissioning is caught by nobody. \<open>Serves\<close> has the
  surface, with the service in it, and whether its port was bound.
\<close>

definition app_begins ::
  "('e, 'd, 's, 'b, 'x, 'w) platform \<Rightarrow> ('b, 'x, 'n program_daemon, 'f) control_platform
     \<Rightarrow> (string \<Rightarrow> int \<Rightarrow> bool) \<Rightarrow> 'n \<Rightarrow> 'w \<Rightarrow> 'f \<Rightarrow> app
     \<Rightarrow> (('e, 'd, 's, 'b, 'x, 'w, 'n program_daemon, 'f) control) run_outcome" where
  "app_begins p q can_bind network w files a =
     (let config = (if ap_fake a then apply_fake (ap_config a) else ap_config a) in
      case commission (Some (cp_daemon q)) config (ap_subscription a) (ap_subscribe_to a)
             (create_daemon (cf_daemon config) network) of
        (d, result) \<Rightarrow>
          if (case result of Inl (CommissionThrows _) \<Rightarrow> True | _ \<Rightarrow> False) then RunAborts
          else if (case result of Inl _ \<Rightarrow> ap_subscription a \<noteq> SubscribeNothing | Inr _ \<Rightarrow> False)
            then RunExits ExitRuntimeError
          else
            let surface = surface_init (service_init config (ap_path a) w) True True (Some d) (ap_path a) files;
                bound = (case control_start can_bind (False, False) surface of Some ((running, _), _) \<Rightarrow> running | None \<Rightarrow> False)
            in case service_start p (load_file q files) (ct_service surface) of
                 None \<Rightarrow> RunAborts
               | Some (s, Some e) \<Rightarrow> RunExits ExitRuntimeError
               | Some (s, None) \<Rightarrow> Serves (surface\<lparr>ct_service := s\<rparr>) bound)"

subsection \<open>What fake means\<close>

lemma fake_keeps:
  "cf_blocks (apply_fake c) = cf_blocks c" "cf_egress (apply_fake c) = cf_egress c"
  "cf_version (apply_fake c) = cf_version c" "cf_http_addr (apply_fake c) = cf_http_addr c"
  "cf_http_port (apply_fake c) = cf_http_port c"
  by (simp_all add: apply_fake_def)

lemma loopback_word: "to_lower ''loopback'' = ''loopback''"
  by (simp add: to_lower_def lower_char_def)

lemma passes_check: "(if bad then Some e else rest) = None \<longleftrightarrow> \<not> bad \<and> rest = None"
  by simp

lemma fake_audio_valid:
  "validate_audio audio blocks = None \<Longrightarrow> validate_audio (audio\<lparr>ac_backend := ''null''\<rparr>) blocks = None"
  by (clarsimp simp: validate_audio_def Let_def passes_check simp del: de_Morgan_conj de_Morgan_disj)

lemma fake_link_valid:
  "validate_link link audio = None \<Longrightarrow>
     validate_link (link\<lparr>lc_mode := ''loopback'', lc_peer := []\<rparr>) (audio\<lparr>ac_backend := ''null''\<rparr>) = None"
  by (clarsimp simp: validate_link_def Let_def loopback_word passes_check simp del: de_Morgan_conj de_Morgan_disj)

lemma fake_valid: "validate c = None \<Longrightarrow> validate (apply_fake c) = None"
  by (simp add: validate_None apply_fake_def fake_audio_valid fake_link_valid validate_daemon_def
      validate_blocks_def validate_http_def split: if_splits)



subsection \<open>A bench without hardware\<close>

text \<open>The two witnesses below: a file that holds one configuration, and the simulated daemon.\<close>

definition no_network :: "unit http_platform" where
  "no_network = \<lparr>hp_get = (\<lambda>_ w. (w, NoReply [])), hp_put = (\<lambda>_ _ w. (w, NoReply [])),
     hp_delete = (\<lambda>_ w. (w, NoReply [])), hp_parse = (\<lambda>_. None), hp_dump = (\<lambda>_. []), hp_int = (\<lambda>_. None)\<rparr>"

definition shelf_platform :: "(null_device, null_error, unit program_daemon, unit) control_platform" where
  "shelf_platform =
     \<lparr>cp_daemon = either_daemon (http_daemon no_network) fake_daemon_client,
      cp_parse = (\<lambda>_. Inr (JObject (config_to_json muted_config))), cp_dump = (\<lambda>_. []), cp_get_int = id,
      cp_show_position = (\<lambda>_. []), cp_show_error = (\<lambda>_. []), cp_is_open = (\<lambda>_. False), cp_detail = (\<lambda>_. []),
      cp_read = (\<lambda>_ _. Some []), cp_write = (\<lambda>_ _ f. (f, None)), cp_rename = (\<lambda>_ _ f. (f, False)),
      cp_remove = (\<lambda>_ f. f), cp_run = (\<lambda>_ f. (f, None)), cp_version = [], cp_build = []\<rparr>"

definition shelf_app :: app where
  "shelf_app = \<lparr>ap_config = muted_config, ap_path = ''conf'', ap_fake = True,
     ap_subscription = SubscribeNothing, ap_subscribe_to = []\<rparr>"

lemma shelf_file: "load_file shelf_platform () path = Inr muted_config"
  using config_round_trip [OF muted_config_valid demo_config(12), of id]
  by (simp add: load_file_def load_config_def shelf_platform_def parsed_json_def reads_ints_def)

lemma fake_publishes:
  "\<exists>d' counts'. publish_blocks (either_daemon a fake_daemon_client) config places counts (Inr d) = (Inr d', Inr counts')"
  by (induction places arbitrary: counts d) (auto simp: either_daemon_def fake_daemon_client_def Let_def)

lemma fake_commissions:
  "\<exists>d' counts. commission (Some (either_daemon a fake_daemon_client)) config SubscribeNothing name (Inr d) = (Inr d', Inr counts)"
proof -
  obtain d' counts where "publish_blocks (either_daemon a fake_daemon_client) config [0..<length (cf_blocks config)]
      (no_counts\<lparr>cr_ptp_status := pt_status (fk_ptp d), cr_gmid := pt_gmid (fk_ptp d)\<rparr>) (Inr d) = (Inr d', Inr counts)"
    using fake_publishes by blast
  then show ?thesis
    by (simp add: commission_def subscribe_side_def Let_def)
      (simp add: either_daemon_def fake_daemon_client_def)
qed

lemma shelf_serves:
  "\<exists>c bound. app_begins (demo_platform []) shelf_platform (\<lambda>_ _. True) () 0 () shelf_app = Serves c bound"
proof -
  obtain d' counts where commissioned: "commission (Some (cp_daemon shelf_platform)) (apply_fake muted_config)
      SubscribeNothing [] (Inr (fake_init (cf_daemon (apply_fake muted_config)))) = (Inr d', Inr counts)"
    using fake_commissions [of "http_daemon no_network"] by (simp add: shelf_platform_def) blast
  obtain e where prepared: "prepare (demo_platform []) muted_config (engine_init 0) = (e, None)"
    using demo_prepared by blast
  have daemon: "create_daemon (cf_daemon (apply_fake muted_config)) () = Inr (fake_init (cf_daemon (apply_fake muted_config)))"
    by (simp add: create_daemon_def apply_fake_def)
  have "\<exists>s. service_start (demo_platform []) (load_file shelf_platform ()) (service_init (apply_fake muted_config) ''conf'' 0)
      = Some (s, None)"
    using prepared by (simp add: service_start_def start_check_def start_prepare_def start_spawn_def service_init_def
        shelf_file Let_def)
  then show ?thesis
    using commissioned daemon by (auto simp: app_begins_def shelf_app_def surface_init_def Let_def)
qed

subsection \<open>What runs\<close>

text \<open>
  C16. Nothing unchecked gets in by the command line. Whatever the arguments and whatever the file, the
  program runs only with a configuration that the validator accepts, overrides and fake mode included;
  and a subscription it was asked for goes with the name it was given.
\<close>

theorem main_runs_only_valid:
  assumes "main_begins load argv = Runs a"
  shows "validate (ap_config a) = None
    \<and> (\<exists>arguments loaded. read_arguments argv no_arguments = Inr arguments \<and> load (ap_path a) = Inr loaded
        \<and> cf_blocks (ap_config a) = cf_blocks loaded
        \<and> (ap_fake a \<longrightarrow> ac_backend (cf_audio (ap_config a)) = ''null'')
        \<and> (ap_subscription a = SubscribeDiscovered \<longrightarrow> ap_subscribe_to a = ag_subscribe_to arguments \<and> ap_subscribe_to a \<noteq> []))"
proof -
  obtain args where args: "read_arguments argv no_arguments = Inr args"
    using assms by (auto simp: main_begins_def split: sum.splits)
  obtain loaded where loaded: "load (ag_config_path args) = Inr loaded"
    using assms args by (auto simp: main_begins_def split: sum.splits)
  obtain config where config: "override_http args loaded = Some config" "validate config = None"
    using assms args loaded by (auto simp: main_begins_def split: option.splits if_splits)
  have blocks: "cf_blocks config = cf_blocks loaded"
    using config(1) by (auto simp: override_http_def Let_def split: if_splits)
  show ?thesis
    using assms args loaded config blocks fake_valid [OF config(2)] fake_keeps(1) [of config]
    by (auto simp: main_begins_def set_fake_def Let_def split: if_splits) (auto simp: apply_fake_def)
qed

theorem main_runs_only_valid_witness:
  "\<exists>a. main_begins (\<lambda>_. Inr example_config) [''-f'', ''-c'', ''conf''] = Runs a \<and> validate (ap_config a) = None"
proof -
  have "\<exists>a. main_begins (\<lambda>_. Inr example_config) [''-f'', ''-c'', ''conf''] = Runs a"
    by (simp add: main_begins_def no_arguments_def override_http_def example_config_valid)
  then obtain a where a: "main_begins (\<lambda>_. Inr example_config) [''-f'', ''-c'', ''conf''] = Runs a" ..
  then show ?thesis using main_runs_only_valid [OF a] by blast
qed

text \<open>What a start that succeeds has read.\<close>

lemma start_has_read:
  assumes "service_start p load s = Some (s', None)" and "sv_worker s = None" and "sv_path s \<noteq> []"
  shows "load (sv_path s) = Inr (sv_config s') \<and> sv_worker s' = Some WorkerStarts \<and> sv_path s' = sv_path s"
proof (cases "load (sv_path s)")
  case (Inl e)
  then show ?thesis
    using assms by (simp add: service_start_def start_check_def start_prepare_def start_refused_def)
next
  case (Inr config)
  obtain e refusal where prepared: "prepare p config (engine_init (sv_world s)) = (e, refusal)" by fastforce
  show ?thesis
    using assms Inr prepared
    by (cases refusal)
      (auto simp: service_start_def start_check_def start_prepare_def start_refused_def start_spawn_def Let_def)
qed

text \<open>The steps of a run that serves.\<close>

lemma serves_cases:
  assumes "app_begins p q can_bind network w files a = Serves c bound"
  obtains config d result s where
    "config = (if ap_fake a then apply_fake (ap_config a) else ap_config a)"
    "commission (Some (cp_daemon q)) config (ap_subscription a) (ap_subscribe_to a)
       (create_daemon (cf_daemon config) network) = (d, result)"
    "(\<exists>counts. result = Inr counts) \<or> ap_subscription a = SubscribeNothing"
    "service_start p (load_file q files) (service_init config (ap_path a) w) = Some (s, None)"
    "c = surface_init s True True (Some d) (ap_path a) files"
proof -
  define config where "config = (if ap_fake a then apply_fake (ap_config a) else ap_config a)"
  obtain d result where told: "commission (Some (cp_daemon q)) config (ap_subscription a) (ap_subscribe_to a)
      (create_daemon (cf_daemon config) network) = (d, result)" by fastforce
  note run = assms [unfolded app_begins_def, folded config_def, unfolded Let_def, simplified told, simplified]
  have fine: "(\<exists>counts. result = Inr counts) \<or> ap_subscription a = SubscribeNothing"
    using run by (cases result) (auto split: if_splits)
  obtain s where "service_start p (load_file q files) (service_init config (ap_path a) w) = Some (s, None)"
    "c = surface_init s True True (Some d) (ap_path a) files"
    using run by (auto simp: surface_init_def split: if_splits option.splits)
  then show ?thesis using that [OF config_def told fine] by blast
qed

text \<open>
  What serves runs the file. When the program has a path to its configuration, the configuration of
  the service that serves is the one that was read from the file again at the start.
\<close>

theorem serving_runs_the_file:
  assumes "app_begins p q can_bind network w files a = Serves c bound" and "ap_path a \<noteq> []"
  shows "load_file q files (ap_path a) = Inr (sv_config (ct_service c))
    \<and> sv_worker (ct_service c) = Some WorkerStarts \<and> sv_path (ct_service c) = ct_path c"
proof -
  obtain config d s where s: "service_start p (load_file q files) (service_init config (ap_path a) w) = Some (s, None)"
      "c = surface_init s True True (Some d) (ap_path a) files"
    using serves_cases [OF assms(1)] by metis
  then show ?thesis
    using start_has_read [OF s(1)] assms(2) by (simp add: service_init_def surface_init_def)
qed

theorem serving_runs_the_file_witness:
  "\<exists>c bound. app_begins (demo_platform []) shelf_platform (\<lambda>_ _. True) () 0 () shelf_app = Serves c bound
    \<and> load_file shelf_platform () ''conf'' = Inr (sv_config (ct_service c)) \<and> sv_config (ct_service c) = muted_config"
proof -
  obtain c bound where serves: "app_begins (demo_platform []) shelf_platform (\<lambda>_ _. True) () 0 () shelf_app = Serves c bound"
    using shelf_serves by blast
  have path: "ap_path shelf_app \<noteq> []" by (simp add: shelf_app_def)
  show ?thesis
    using serving_runs_the_file [OF serves path] serves shelf_file by (auto simp: shelf_app_def)
qed

text \<open>
  So fake mode, and what the command line overrides, end with the start of the service: it reads the file
  again, and a file that names a real device is run with that device. The daemon's client was made before.
\<close>

lemma fake_ends_at_the_start:
  assumes "app_begins p q can_bind network w files a = Serves c bound" and "ap_path a \<noteq> []" and "ap_fake a"
    and "load_file q files (ap_path a) = Inr production" and "ac_backend (cf_audio production) \<noteq> ''null''"
  shows "ac_backend (cf_audio (sv_config (ct_service c))) \<noteq> ''null''
    \<and> sv_config (ct_service c) \<noteq> apply_fake (ap_config a)"
  using serving_runs_the_file [OF assms(1,2)] assms(4,5) by (auto simp: apply_fake_def)

end
