(* ===== verification/Spec2Isabelle.thy ===== *)
theory Spec2Isabelle
  imports Prelude Interfaces Crc Wire Fragment Util Config Audio Pcm Playout Link
    RatioControl Circular FloatRing SharedRing HalDevice DelayLine TestSignal Resampler Opus Framing
    Device Engine EngineInv EngineRun EngineDelivery EngineTurns ParallelFor
    LogRing Documents Daemon FakeDaemon Commissioning Service
    Control ControlConfig ControlDaemon ControlRoutes App
begin

text \<open>
  A verification development of aes67-srt: the appliance that carries AES67 audio over an SRT link.

  \<^bold>\<open>The program.\<close> An engine reads a period of audio from a device, puts it into a frame, and sends the
  frame's fragments over a link; in the other direction it puts fragments together, holds the periods in a
  playout buffer, plays them at a rate that follows the sender's clock, delays them for the picture, and
  writes them to the device. A service owns the engine; a control surface over HTTP shows and steers it; at
  start the program publishes its streams on an AES67 daemon. Every name below \<^verbatim>\<open>src/\<close> is a path of the
  repository, and the C++ is under \<^verbatim>\<open>src/src/\<close>.

  \<^bold>\<open>The theories\<close>, each importing those it calls:

  \<^item> Prelude and Interfaces: machine types, lists and sums; the contracts as locales.
  \<^item> Util, Config, Documents: \<^verbatim>\<open>util.cpp\<close>; the configuration of \<^verbatim>\<open>config.cpp\<close>, from the document to the checks
    and back; numbers and JSON members as the rest of the program uses them.
  \<^item> Crc, Wire, Fragment: \<^verbatim>\<open>wire/frame.cpp\<close>, the checksum, the frame, and its messages.
  \<^item> Audio, Device: \<^verbatim>\<open>audio/backend.cpp\<close>, the interface of a device, and the null and the HAL backend that
    implement it. Pcm: \<^verbatim>\<open>audio/pcm.cpp\<close> and \<^verbatim>\<open>audio/levels.cpp\<close>.
  \<^item> Circular, FloatRing, SharedRing, HalDevice: the rings between a realtime callback and the engine and
    between two processes, the shared region, the plug-in's bridge and the backend over it
    (\<^verbatim>\<open>audio/float_ring.cpp\<close>, \<^verbatim>\<open>shared_ring.cpp\<close>, \<^verbatim>\<open>shared_region.cpp\<close>, \<^verbatim>\<open>device_bridge.cpp\<close>,
    \<^verbatim>\<open>hal_backend.cpp\<close>).
  \<^item> Playout, RatioControl, Resampler: \<^verbatim>\<open>clock/\<close>. DelayLine, TestSignal: \<^verbatim>\<open>delay/\<close>. Opus: \<^verbatim>\<open>codec/opus.cpp\<close>.
    Link: \<^verbatim>\<open>transport/link.cpp\<close>. ParallelFor: \<^verbatim>\<open>parallel_for.cpp\<close>, a pool of threads as steps.
  \<^item> Framing, Engine: \<^verbatim>\<open>engine.cpp\<close>, a period to a frame and back, then \<^verbatim>\<open>prepare\<close>, \<^verbatim>\<open>open\<close>, \<^verbatim>\<open>close\<close>, one
    turn of each of its loops, and what the control surface may ask. EngineInv has the invariant of a turn,
    EngineRun a run as any interleaving of turns, EngineDelivery what arrives, EngineTurns what single
    turns promise.
  \<^item> LogRing: \<^verbatim>\<open>log.cpp\<close>. Daemon, FakeDaemon: \<^verbatim>\<open>aes67/daemon_client.cpp\<close> and \<^verbatim>\<open>fake_daemon_client.cpp\<close>.
    Commissioning: \<^verbatim>\<open>commissioning.cpp\<close>. Service: \<^verbatim>\<open>service.cpp\<close> and \<^verbatim>\<open>Engine::run\<close>.
  \<^item> Control, ControlConfig, ControlDaemon, ControlRoutes: \<^verbatim>\<open>http/api_server.cpp\<close>. App: \<^verbatim>\<open>main.cpp\<close> and
    \<^verbatim>\<open>app.cpp\<close>.

  \<^bold>\<open>How the model corresponds to the code.\<close> A class is a record of its members and an operation is a
  function from the members before to the members after, in the order of the code, every early return a
  branch. A reason that the code writes as a text is a constructor with the figures it prints. A pointer the
  code compares with \<^verbatim>\<open>nullptr\<close> is an option; an output pointer that only may be null has no counterpart.
  Fixed-width integers are words, or \<open>nat\<close> with \<open>add64\<close> and \<open>sub64\<close> where they wrap; \<^verbatim>\<open>size_t\<close> counts are
  \<open>nat\<close>. A \<^verbatim>\<open>float\<close> or \<^verbatim>\<open>double\<close> is a real number, and \<open>float_value\<close> where the code asks whether it is one:
  rounding is not modelled. Log lines and scratch buffers are left out.

  \<^bold>\<open>What is not the program's\<close> is a parameter: libsrt (\<open>srt_api\<close>), libopus (\<open>opus_api\<close>), libsamplerate
  (\<open>samplerate\<close>), POSIX shared memory (\<open>shm_api\<close>), cpp-httplib and the JSON library (\<open>http_platform\<close>,
  \<open>control_platform\<close>), the file system and \<^verbatim>\<open>popen\<close>, and the clock. What a theorem needs of one is a named
  hypothesis, and its witness gives a parameter that satisfies it.

  \<^bold>\<open>Threads.\<close> The loops of the engine, the pool's workers and the service's worker are steps that interleave
  in any order (\<open>engine_step\<close>, \<open>pool_step\<close>, \<open>service_step\<close>); a step is a turn, or what runs between two
  points at which threads meet. Torn reads and the memory order of atomics are not modelled.

  \<^bold>\<open>Contracts.\<close> Where a component relies on another, the laws are a locale and the provider interprets it:
  \<open>position_queue\<close> (the playout buffer), \<open>message_pipe\<close> (the loopback link), \<open>frame_pipe\<close> (the float ring),
  \<open>lossy_pipe\<close> (the shared ring), \<open>sample_width\<close> (both formats), \<open>audio_device\<close> (null and HAL),
  \<open>driven_engine\<close> and \<open>opening_engine\<close> (the engine over such a device), and \<open>daemon_store\<close> (the simulated
  daemon, and by \<open>either_store\<close> a client that may be either).

  \<^bold>\<open>What the lemmas show.\<close> Of the formats: \<open>decode\<close> accepts exactly what \<open>encode\<close> writes, a changed byte is
  refused, the checksum by table is the one by bits, reassembly gives only frames that were sent, a
  configuration is read back from its own document. Of the audio path: the playout buffer refines a timeline
  of positions, neither reorders nor repeats, and accounts for every period; the delay line refines one with
  unbounded memory; the rings are queues; a pull of the resampler ends and keeps the carry; what unpacking
  gives is what was packed. Of the engine: every turn keeps it well formed; whatever is lost or reordered on
  the way, the playout buffer holds for a position only what the peer sent for it; a period read from the
  device arrives. Of the threads: each job of the pool runs once and a run returns, in every schedule. Of
  the service and the control surface: running means that the loops of an engine run that was prepared from
  a valid configuration and opened; a stop of a running engine returns; a refused configuration changes
  nothing, a saved one is what the next start runs, and the list of what waits for a restart is complete;
  preflight says what its checks say; a daemon is told what was asked. Lemmas whose text says so show where
  the code does otherwise than its comments, or loses a request.

  \<^bold>\<open>Bounds and fuel.\<close> The loops over blocks, fragments, periods and messages are bounded by the code's own
  constants, which are the recursion's arguments. The fuel of the loop that decodes blocks is the number of
  blocks the header announces. Waiting for a caller and the resampler's pull are
  \<^verbatim>\<open>partial_function (option)\<close>, so that not returning is \<open>None\<close>: \<open>accept_answers_stop\<close> and \<open>pull_returns\<close>
  show that they return.

  \<^bold>\<open>Not modelled.\<close> The ALSA and Core Audio backends (\<^verbatim>\<open>audio/ravenna_backend.cpp\<close>,
  \<^verbatim>\<open>audio/coreaudio_backend.cpp\<close>): sequences of calls of the two systems. The HAL plug-in's glue and the menu
  bar program (\<^verbatim>\<open>audio/hal_driver/\<close>, \<^verbatim>\<open>mac/\<close>): what they do with audio is in HalDevice. The version texts,
  the built-in page, and the signal handlers. Two callers of the service at once are in the lemma
  \<open>two_starts_crash\<close> only; the locks that keep others apart are not modelled.
\<close>

end
